(* ===== verification/Guard_Prelude.thy ===== *)
theory Guard_Prelude
  imports Main "HOL-Library.List_Lexorder" "HOL-Library.Char_ord"
    "HOL-Library.Product_Lexorder" "HOL-Library.AList"
begin

text \<open>
  What every component of the model shares: the text type and the string methods of the source's
  standard library that the program calls, dictionaries that keep insertion order, the two
  flavours of \<open>max\<close>/\<open>min\<close> with a key, and the collections of simplification rules the component
  proofs draw on.

  Untrusted text (commit messages, names, trailers) is a list of Unicode code points, as it is in
  the source language, where \<open>len\<close>, slicing and comparison count and compare code points.
  Identifiers and labels that are only compared, ordered and concatenated are \<open>string\<close>s.
\<close>

named_theorems py_str \<open>facts about the modelled string methods\<close>
named_theorems dict_simps \<open>facts about insertion-ordered dictionaries\<close>

section \<open>Text\<close>

type_synonym ustr = "nat list"

definition asc :: "string \<Rightarrow> ustr" where
  "asc s = map of_char s"

definition is_ascii_cp :: "nat \<Rightarrow> bool" where
  "is_ascii_cp c \<longleftrightarrow> c < 128"

definition isascii :: "ustr \<Rightarrow> bool" where
  "isascii s \<longleftrightarrow> list_all is_ascii_cp s"

definition ascii_digit :: "nat \<Rightarrow> bool" where
  "ascii_digit c \<longleftrightarrow> 48 \<le> c \<and> c \<le> 57"

definition ascii_upper :: "nat \<Rightarrow> bool" where
  "ascii_upper c \<longleftrightarrow> 65 \<le> c \<and> c \<le> 90"

definition ascii_lower :: "nat \<Rightarrow> bool" where
  "ascii_lower c \<longleftrightarrow> 97 \<le> c \<and> c \<le> 122"

definition ascii_alnum :: "nat \<Rightarrow> bool" where
  "ascii_alnum c \<longleftrightarrow> ascii_digit c \<or> ascii_upper c \<or> ascii_lower c"

lemmas ascii_class_defs = ascii_digit_def ascii_upper_def ascii_lower_def ascii_alnum_def

text \<open>\<open>str.isspace\<close> for one code point: the complete White\_Space/bidirectional set it accepts.\<close>

definition py_isspace :: "nat \<Rightarrow> bool" where
  "py_isspace c \<longleftrightarrow> (9 \<le> c \<and> c \<le> 13) \<or> (28 \<le> c \<and> c \<le> 32) \<or> c = 0x85 \<or> c = 0xA0 \<or> c = 0x1680
     \<or> (0x2000 \<le> c \<and> c \<le> 0x200A) \<or> c = 0x2028 \<or> c = 0x2029 \<or> c = 0x202F \<or> c = 0x205F \<or> c = 0x3000"

definition py_lstrip :: "ustr \<Rightarrow> ustr" where
  "py_lstrip s = dropWhile py_isspace s"

definition py_rstrip :: "ustr \<Rightarrow> ustr" where
  "py_rstrip s = rev (dropWhile py_isspace (rev s))"

definition py_strip :: "ustr \<Rightarrow> ustr" where
  "py_strip s = py_rstrip (py_lstrip s)"

text \<open>\<open>s.strip(c)\<close>, \<open>s.rstrip(c)\<close> and \<open>s.lstrip(c)\<close> for one character.\<close>

definition lstrip_char :: "nat \<Rightarrow> ustr \<Rightarrow> ustr" where
  "lstrip_char c s = dropWhile (\<lambda>x. x = c) s"

definition rstrip_char :: "nat \<Rightarrow> ustr \<Rightarrow> ustr" where
  "rstrip_char c s = rev (dropWhile (\<lambda>x. x = c) (rev s))"

definition strip_char :: "nat \<Rightarrow> ustr \<Rightarrow> ustr" where
  "strip_char c s = rstrip_char c (lstrip_char c s)"

text \<open>\<open>s.split()\<close>: the maximal runs of non-space characters.\<close>

fun split_words :: "ustr \<Rightarrow> ustr \<Rightarrow> ustr list" where
  "split_words cur [] = (if cur = [] then [] else [rev cur])"
| "split_words cur (c # cs) =
     (if py_isspace c
      then (if cur = [] then split_words [] cs else rev cur # split_words [] cs)
      else split_words (c # cur) cs)"

definition py_split :: "ustr \<Rightarrow> ustr list" where
  "py_split s = split_words [] s"

text \<open>\<open>sep.join(parts)\<close>.\<close>

fun py_join :: "'a list \<Rightarrow> 'a list list \<Rightarrow> 'a list" where
  "py_join sep [] = []"
| "py_join sep [x] = x"
| "py_join sep (x # y # ys) = x @ sep @ py_join sep (y # ys)"

text \<open>\<open>s.split(c)\<close> for one character: never empty.\<close>

fun split_char :: "'a \<Rightarrow> 'a list \<Rightarrow> 'a list list" where
  "split_char d [] = [[]]"
| "split_char d (c # cs) =
     (if c = d then [] # split_char d cs
      else (case split_char d cs of [] \<Rightarrow> [[c]] | p # ps \<Rightarrow> (c # p) # ps))"

text \<open>\<open>s.partition(c)\<close> and \<open>s.rpartition(c)\<close>: text before, whether found, text after.\<close>

definition partition_char :: "'a \<Rightarrow> 'a list \<Rightarrow> 'a list \<times> bool \<times> 'a list" where
  "partition_char d s =
     (let a = takeWhile (\<lambda>c. c \<noteq> d) s; b = dropWhile (\<lambda>c. c \<noteq> d) s
      in if b = [] then (s, False, []) else (a, True, tl b))"

definition rpartition_char :: "'a \<Rightarrow> 'a list \<Rightarrow> 'a list \<times> bool \<times> 'a list" where
  "rpartition_char d s =
     (let a = takeWhile (\<lambda>c. c \<noteq> d) (rev s); b = dropWhile (\<lambda>c. c \<noteq> d) (rev s)
      in if b = [] then ([], False, s) else (rev (tl b), True, rev a))"

text \<open>\<open>s.find(c)\<close>: the index of the first occurrence (\<open>None\<close> for the source's \<open>-1\<close>).\<close>

fun find_char :: "'a \<Rightarrow> 'a list \<Rightarrow> nat option" where
  "find_char d [] = None"
| "find_char d (c # cs) = (if c = d then Some 0 else map_option Suc (find_char d cs))"

text \<open>\<open>s.replace(a, b)\<close> for one character and its replacement text.\<close>

definition replace_char :: "'a \<Rightarrow> 'a list \<Rightarrow> 'a list \<Rightarrow> 'a list" where
  "replace_char a b s = concat (map (\<lambda>c. if c = a then b else [c]) s)"

definition startswith :: "'a list \<Rightarrow> 'a list \<Rightarrow> bool" where
  "startswith s p \<longleftrightarrow> take (length p) s = p"

definition endswith :: "'a list \<Rightarrow> 'a list \<Rightarrow> bool" where
  "endswith s p \<longleftrightarrow> startswith (rev s) (rev p)"

text \<open>\<open>s.splitlines()\<close>: every Unicode line boundary, with CR LF counted once.\<close>

definition is_linebreak :: "nat \<Rightarrow> bool" where
  "is_linebreak c \<longleftrightarrow> (10 \<le> c \<and> c \<le> 13) \<or> (28 \<le> c \<and> c \<le> 30) \<or> c = 0x85 \<or> c = 0x2028 \<or> c = 0x2029"

fun lines_from :: "ustr \<Rightarrow> ustr \<Rightarrow> ustr list" where
  "lines_from cur [] = (if cur = [] then [] else [rev cur])"
| "lines_from cur [c] = (if is_linebreak c then [rev cur] else [rev (c # cur)])"
| "lines_from cur (c # d # cs) =
     (if c = 13 \<and> d = 10 then rev cur # lines_from [] cs
      else if is_linebreak c then rev cur # lines_from [] (d # cs)
      else lines_from (c # cur) (d # cs))"

definition splitlines :: "ustr \<Rightarrow> ustr list" where
  "splitlines s = lines_from [] s"

section \<open>Selection with a key\<close>

text \<open>
  \<open>max(xs, key=f)\<close> returns the first element with the greatest key, \<open>min(xs, key=f)\<close> the first
  with the least. Both need a non-empty sequence; \<open>None\<close> stands for the empty one.
\<close>

fun max_from :: "('a \<Rightarrow> 'k::linorder) \<Rightarrow> 'a \<Rightarrow> 'a list \<Rightarrow> 'a" where
  "max_from f best [] = best"
| "max_from f best (x # xs) = max_from f (if f best < f x then x else best) xs"

definition py_max :: "('a \<Rightarrow> 'k::linorder) \<Rightarrow> 'a list \<Rightarrow> 'a option" where
  "py_max f xs = (case xs of [] \<Rightarrow> None | y # ys \<Rightarrow> Some (max_from f y ys))"

fun min_from :: "('a \<Rightarrow> 'k::linorder) \<Rightarrow> 'a \<Rightarrow> 'a list \<Rightarrow> 'a" where
  "min_from f best [] = best"
| "min_from f best (x # xs) = min_from f (if f x < f best then x else best) xs"

definition py_min :: "('a \<Rightarrow> 'k::linorder) \<Rightarrow> 'a list \<Rightarrow> 'a option" where
  "py_min f xs = (case xs of [] \<Rightarrow> None | y # ys \<Rightarrow> Some (min_from f y ys))"

lemma max_from_in: "max_from f b xs \<in> insert b (set xs)"
  by (induction xs arbitrary: b) (auto split: if_splits)

lemma max_from_base: "f b \<le> f (max_from f b xs)"
proof (induction xs arbitrary: b)
  case (Cons x xs)
  show ?case using Cons.IH [of x] Cons.IH [of b] by auto
qed simp

lemma max_from_ge: "x \<in> set xs \<Longrightarrow> f x \<le> f (max_from f b xs)"
proof (induction xs arbitrary: b)
  case (Cons y ys)
  then show ?case
    using max_from_base [of f y ys] max_from_base [of f b ys] by (auto intro: order_trans)
qed simp

lemma min_from_in: "min_from f b xs \<in> insert b (set xs)"
  by (induction xs arbitrary: b) (auto split: if_splits)

lemma min_from_base: "f (min_from f b xs) \<le> f b"
proof (induction xs arbitrary: b)
  case (Cons x xs)
  show ?case using Cons.IH [of x] Cons.IH [of b] by auto
qed simp

lemma min_from_le: "x \<in> set xs \<Longrightarrow> f (min_from f b xs) \<le> f x"
proof (induction xs arbitrary: b)
  case (Cons y ys)
  then show ?case
    using min_from_base [of f y ys] min_from_base [of f b ys] by (auto intro: order_trans)
qed simp

lemma py_max_None_iff [simp]: "py_max f xs = None \<longleftrightarrow> xs = []"
  by (simp add: py_max_def split: list.splits)

lemma py_min_None_iff [simp]: "py_min f xs = None \<longleftrightarrow> xs = []"
  by (simp add: py_min_def split: list.splits)

lemma py_max_SomeD:
  assumes "py_max f xs = Some m"
  shows "m \<in> set xs" and "\<And>x. x \<in> set xs \<Longrightarrow> f x \<le> f m"
  using assms max_from_in [of f "hd xs" "tl xs"] max_from_base [of f "hd xs" "tl xs"]
    max_from_ge [of _ "tl xs" f "hd xs"]
  by (auto simp: py_max_def split: list.splits)

lemma py_min_SomeD:
  assumes "py_min f xs = Some m"
  shows "m \<in> set xs" and "\<And>x. x \<in> set xs \<Longrightarrow> f m \<le> f x"
  using assms min_from_in [of f "hd xs" "tl xs"] min_from_base [of f "hd xs" "tl xs"]
    min_from_le [of _ "tl xs" f "hd xs"]
  by (auto simp: py_min_def split: list.splits)

section \<open>Dictionaries with insertion order\<close>

text \<open>
  A dictionary whose iteration order matters is an association list with distinct keys, newest
  key last: \<open>d[k] = v\<close> is \<open>AList.update\<close> (in place when the key exists), \<open>d.get(k)\<close> is
  \<open>map_of\<close>, and \<open>setdefault\<close> keeps the existing value.
\<close>

definition setdefault :: "'k \<Rightarrow> 'v \<Rightarrow> ('k \<times> 'v) list \<Rightarrow> ('k \<times> 'v) list" where
  "setdefault k v d = (case map_of d k of None \<Rightarrow> d @ [(k, v)] | Some _ \<Rightarrow> d)"

definition append_to :: "'k \<Rightarrow> 'v \<Rightarrow> ('k \<times> 'v list) list \<Rightarrow> ('k \<times> 'v list) list" where
  "append_to k v d =
     AList.update k (case map_of d k of None \<Rightarrow> [v] | Some vs \<Rightarrow> vs @ [v]) d"

text \<open>\<open>tuple(dict.fromkeys(xs))\<close>: duplicates removed, first occurrences kept in order.\<close>

definition unique_first :: "'a list \<Rightarrow> 'a list" where
  "unique_first xs = rev (remdups (rev xs))"

lemma set_unique_first [simp]: "set (unique_first xs) = set xs"
  by (simp add: unique_first_def)

lemma distinct_unique_first [simp]: "distinct (unique_first xs)"
  by (simp add: unique_first_def)

lemma map_of_update [dict_simps]: "map_of (AList.update k v d) = (map_of d)(k \<mapsto> v)"
  by (simp add: update_conv')

lemma map_of_append_to [dict_simps]:
  "map_of (append_to k v d) =
     (map_of d)(k \<mapsto> (case map_of d k of None \<Rightarrow> [v] | Some vs \<Rightarrow> vs @ [v]))"
  by (simp add: append_to_def update_conv')

lemma map_of_setdefault [dict_simps]:
  "map_of (setdefault k v d) = (if k \<in> dom (map_of d) then map_of d else (map_of d)(k \<mapsto> v))"
  by (auto simp: setdefault_def map_add_def fun_eq_iff split: option.splits)

lemma dom_append_to [dict_simps]: "dom (map_of (append_to k v d)) = insert k (dom (map_of d))"
  by (auto simp: map_of_append_to)

lemma distinct_sort_key_fst [simp]:
  "distinct (map fst (sort_key f d)) \<longleftrightarrow> distinct (map fst d)"
  by (simp add: distinct_map)

lemma map_of_sort_key [dict_simps]:
  assumes "distinct (map fst d)"
  shows "map_of (sort_key f d) = map_of d"
  using assms by (subst map_of_inject_set) auto

text \<open>A dictionary display: later entries replace earlier ones but keep their position.\<close>

definition dict_of :: "('k \<times> 'v) list \<Rightarrow> ('k \<times> 'v) list" where
  "dict_of kvs = fold (\<lambda>(k, v) d. AList.update k v d) kvs []"

lemma set_AList_update: "set (AList.update k v d) \<subseteq> insert (k, v) (set d)"
  by (induction d) auto

lemma fst_set_update [simp]: "fst ` set (AList.update k v d) = insert k (fst ` set d)"
  by (induction d) auto

lemma dict_of_snoc [dict_simps]: "dict_of (kvs @ [(k, v)]) = AList.update k v (dict_of kvs)"
  by (simp add: dict_of_def)

lemma set_dict_of: "set (dict_of kvs) \<subseteq> set kvs"
proof (induction kvs rule: rev_induct)
  case (snoc kv kvs)
  then show ?case using set_AList_update by (cases kv) (fastforce simp: dict_simps)
qed (simp add: dict_of_def)

lemma fst_set_dict_of [simp]: "fst ` set (dict_of kvs) = fst ` set kvs"
proof (induction kvs rule: rev_induct)
  case (snoc kv kvs)
  then show ?case by (cases kv) (simp add: dict_simps)
qed (simp add: dict_of_def)

lemma distinct_dict_of [simp]: "distinct (map fst (dict_of kvs))"
proof (induction kvs rule: rev_induct)
  case (snoc kv kvs)
  then show ?case by (cases kv) (simp add: dict_simps distinct_update)
qed (simp add: dict_of_def)

text \<open>Grouping pairs by key: the dictionary of lists that a run of \<open>append_to\<close> builds.\<close>

definition group_pairs :: "('k \<times> 'v) list \<Rightarrow> ('k \<times> 'v list) list" where
  "group_pairs kvs = fold (\<lambda>(k, v). append_to k v) kvs []"

lemma group_pairs_snoc: "append_to k v (group_pairs kvs) = group_pairs (kvs @ [(k, v)])"
  by (simp add: group_pairs_def)

lemma map_of_group_pairs:
  "map_of (group_pairs kvs) k =
     (if k \<in> fst ` set kvs then Some (map snd (filter (\<lambda>e. fst e = k) kvs)) else None)"
proof (induction kvs rule: rev_induct)
  case (snoc kv kvs)
  have "k \<notin> fst ` set kvs \<Longrightarrow> filter (\<lambda>e. fst e = k) kvs = []" by (auto simp: filter_empty_conv)
  with snoc show ?case
    by (cases kv) (auto simp: group_pairs_snoc [symmetric] map_of_append_to)
qed (simp add: group_pairs_def)

lemma distinct_append_to [simp]:
  "distinct (map fst d) \<Longrightarrow> distinct (map fst (append_to k v d))"
  by (simp add: append_to_def distinct_update)

lemma distinct_group_pairs [simp]: "distinct (map fst (group_pairs kvs))"
proof (induction kvs rule: rev_induct)
  case (snoc kv kvs)
  then show ?case by (cases kv) (simp add: group_pairs_snoc [symmetric])
qed (simp add: group_pairs_def)

lemma group_pairs_entry:
  "(k, vs) \<in> set (group_pairs kvs) \<longleftrightarrow> k \<in> fst ` set kvs \<and> vs = map snd (filter (\<lambda>e. fst e = k) kvs)"
  by (auto simp: map_of_group_pairs map_of_eq_Some_iff [symmetric])

section \<open>Loops that may raise\<close>

text \<open>
  A \<open>for\<close> loop whose body may raise: \<open>Inl\<close> is the exception, which ends the loop.
\<close>

fun fold_err :: "('x \<Rightarrow> 's \<Rightarrow> 'e + 's) \<Rightarrow> 'x list \<Rightarrow> 's \<Rightarrow> 'e + 's" where
  "fold_err f [] s = Inr s"
| "fold_err f (x # xs) s = (case f x s of Inl e \<Rightarrow> Inl e | Inr s' \<Rightarrow> fold_err f xs s')"

fun map_err :: "('x \<Rightarrow> 'e + 'y) \<Rightarrow> 'x list \<Rightarrow> 'e + 'y list" where
  "map_err f [] = Inr []"
| "map_err f (x # xs) =
     (case f x of Inl e \<Rightarrow> Inl e
      | Inr y \<Rightarrow> (case map_err f xs of Inl e \<Rightarrow> Inl e | Inr ys \<Rightarrow> Inr (y # ys)))"

lemma fold_err_append:
  "fold_err f (xs @ ys) s = (case fold_err f xs s of Inl e \<Rightarrow> Inl e | Inr s' \<Rightarrow> fold_err f ys s')"
  by (induction xs arbitrary: s) (auto split: sum.splits)

lemma fold_err_Inr_rule:
  assumes "P s" and "\<And>x s. x \<in> set xs \<Longrightarrow> P s \<Longrightarrow> \<exists>s'. f x s = Inr s' \<and> P s'"
  shows "\<exists>s'. fold_err f xs s = Inr s' \<and> P s'"
  using assms
proof (induction xs arbitrary: s)
  case (Cons x xs)
  from Cons.prems obtain s' where "f x s = Inr s'" and "P s'" by (meson list.set_intros(1))
  moreover from Cons.IH [OF \<open>P s'\<close>] Cons.prems(2)
  obtain s'' where "fold_err f xs s' = Inr s''" and "P s''" by (meson list.set_intros(2))
  ultimately show ?case by simp
qed simp

lemma fold_err_invariant:
  assumes "fold_err f xs s = Inr t" and "P s"
    and "\<And>x s s'. x \<in> set xs \<Longrightarrow> P s \<Longrightarrow> f x s = Inr s' \<Longrightarrow> P s'"
  shows "P t"
  using assms
proof (induction xs arbitrary: s)
  case (Cons x xs)
  then obtain s' where "f x s = Inr s'" and "fold_err f xs s' = Inr t"
    by (auto split: sum.splits)
  with Cons show ?case by (meson list.set_intros)
qed simp

lemma map_err_Inr_iff:
  "map_err f xs = Inr ys \<longleftrightarrow> list_all2 (\<lambda>x y. f x = Inr y) xs ys"
proof (induction xs arbitrary: ys)
  case (Cons x xs)
  show ?case
  proof (cases "f x")
    case (Inr y)
    then show ?thesis
      using Cons.IH by (cases "map_err f xs") (force simp: list_all2_Cons1)+
  qed (simp add: list_all2_Cons1)
qed auto

lemma map_err_total:
  "(\<And>x. x \<in> set xs \<Longrightarrow> f x = Inr (g x)) \<Longrightarrow> map_err f xs = Inr (map g xs)"
  by (induction xs) auto

section \<open>Facts about the string methods\<close>

lemma asc_Nil [simp]: "asc [] = []"
  by (simp add: asc_def)

lemma asc_append [simp]: "asc (s @ t) = asc s @ asc t"
  by (simp add: asc_def)

lemma asc_eq_iff [simp]: "asc s = asc t \<longleftrightarrow> s = t"
  by (simp add: asc_def inj_map_eq_map inj_on_def)

lemma isascii_Nil [simp]: "isascii []"
  by (simp add: isascii_def)

lemma isascii_Cons [simp]: "isascii (c # s) \<longleftrightarrow> is_ascii_cp c \<and> isascii s"
  by (simp add: isascii_def)

lemma isascii_append [simp]: "isascii (s @ t) \<longleftrightarrow> isascii s \<and> isascii t"
  by (simp add: isascii_def)

lemma split_words_nospace:
  "\<forall>c \<in> set cur. \<not> py_isspace c \<Longrightarrow> w \<in> set (split_words cur s) \<Longrightarrow>
     w \<noteq> [] \<and> (\<forall>c \<in> set w. \<not> py_isspace c)"
proof (induction s arbitrary: cur)
  case Nil
  then show ?case by (cases "cur = []") auto
next
  case (Cons c s)
  show ?case
  proof (cases "py_isspace c")
    case True
    with Cons.prems Cons.IH [of "[]"] show ?thesis by (cases "cur = []") auto
  next
    case False
    with Cons.prems Cons.IH [of "c # cur"] show ?thesis by simp
  qed
qed

lemma py_split_words [py_str]:
  "w \<in> set (py_split s) \<Longrightarrow> w \<noteq> [] \<and> (\<forall>c \<in> set w. \<not> py_isspace c)"
  unfolding py_split_def using split_words_nospace [of "[]"] by simp

lemma split_words_word:
  "\<forall>c \<in> set w. \<not> py_isspace c \<Longrightarrow> split_words cur (w @ s) = split_words (rev w @ cur) s"
  by (induction w arbitrary: cur) auto

lemma py_isspace_space [simp]: "py_isspace 32"
  by (simp add: py_isspace_def)

lemma split_words_join:
  assumes "\<forall>w \<in> set ws. w \<noteq> [] \<and> (\<forall>c \<in> set w. \<not> py_isspace c)"
  shows "split_words [] (py_join [32] ws) = ws"
  using assms
proof (induction "[32::nat]" ws rule: py_join.induct)
  case (2 x)
  then show ?case using split_words_word [of x "[]" "[]"] by simp
next
  case (3 x y ys)
  then show ?case
    using split_words_word [of x "[]" "32 # py_join [32] (y # ys)"] by simp
qed simp

lemma py_split_join [py_str]: "py_split (py_join [32] (py_split s)) = py_split s"
  unfolding py_split_def using split_words_nospace [of "[]"] by (intro split_words_join) auto

lemma split_char_nonempty [simp]: "split_char d s \<noteq> []"
  by (induction s) (auto split: list.splits)

lemma py_join_split_char [py_str]: "py_join [d] (split_char d s) = s"
proof (induction s)
  case (Cons c s)
  obtain p ps where p: "split_char d s = p # ps"
    by (metis split_char_nonempty neq_Nil_conv)
  then show ?case using Cons by (cases ps) auto
qed simp

lemma split_char_parts: "p \<in> set (split_char d s) \<Longrightarrow> d \<notin> set p"
  by (induction s arbitrary: p) (auto split: list.splits if_splits)

lemma split_char_append:
  "d \<notin> set p \<Longrightarrow> split_char d (p @ d # s) = p # split_char d s"
  by (induction p) auto

lemma split_char_plain: "d \<notin> set p \<Longrightarrow> split_char d p = [p]"
  by (induction p) auto

lemma startswith_append [simp]: "startswith (p @ s) p"
  by (simp add: startswith_def)

lemma startswithE: "startswith s p \<Longrightarrow> \<exists>t. s = p @ t"
  unfolding startswith_def by (metis append_take_drop_id)

lemma endswith_append [simp]: "endswith (s @ p) p"
  by (simp add: endswith_def)

lemma set_py_join: "set (py_join sep xs) \<subseteq> set sep \<union> (\<Union>x\<in>set xs. set x)"
  by (induction sep xs rule: py_join.induct) auto

section \<open>Evaluation on concrete text\<close>

text \<open>Unfoldings with which \<open>simp\<close> evaluates the string functions on literal code points.\<close>

lemmas str_eval = asc_def py_isspace_def py_strip_def py_lstrip_def py_rstrip_def strip_char_def
  lstrip_char_def rstrip_char_def rpartition_char_def partition_char_def replace_char_def
  startswith_def endswith_def is_linebreak_def splitlines_def py_split_def is_ascii_cp_def
  unique_first_def Let_def

end
