(* ===== verification/Findings.thy ===== *)
theory Findings
  imports Guard_Prelude
begin

text \<open>
  The core data of the program (\<open>core/result.py\<close>, \<open>core/decision.py\<close>, \<open>core/context.py\<close>,
  \<open>security/hashing.py\<close>): findings with their evidence, detection results, actions and decisions,
  the ranks that order them, and the length-prefixed input of the finding fingerprint.
\<close>

section \<open>Ranked enumerations\<close>

text \<open>
  The interface of an enumeration with a \<open>rank\<close> property. Its clients pick the element of greatest
  rank, as \<open>Action.most_restrictive\<close> and \<open>highest_role\<close> do; which element that is does not depend
  on the order in which the candidates are listed.
\<close>

definition strictest :: "('a \<Rightarrow> nat) \<Rightarrow> 'a \<Rightarrow> 'a list \<Rightarrow> 'a" where
  "strictest rank dflt xs = (case py_max rank xs of None \<Rightarrow> dflt | Some a \<Rightarrow> a)"

locale ranked =
  fixes rank :: "'a \<Rightarrow> nat"
  assumes rank_inj: "rank a = rank b \<Longrightarrow> a = b"
begin

lemma strictest_Nil: "strictest rank d [] = d"
  by (simp add: strictest_def py_max_def)

lemma strictest_in: "xs \<noteq> [] \<Longrightarrow> strictest rank d xs \<in> set xs"
  by (auto simp: strictest_def split: option.splits dest: py_max_SomeD)

lemma strictest_ge: "x \<in> set xs \<Longrightarrow> rank x \<le> rank (strictest rank d xs)"
  by (auto simp: strictest_def split: option.splits dest: py_max_SomeD)

lemma strictest_eqI:
  assumes "m \<in> set xs" and "\<And>x. x \<in> set xs \<Longrightarrow> rank x \<le> rank m"
  shows "strictest rank d xs = m"
proof (rule rank_inj, rule antisym)
  from assms(1) have "strictest rank d xs \<in> set xs" by (intro strictest_in) auto
  then show "rank (strictest rank d xs) \<le> rank m" by (rule assms(2))
  from assms(1) show "rank m \<le> rank (strictest rank d xs)" by (rule strictest_ge)
qed

lemma strictest_set_cong: "set xs = set ys \<Longrightarrow> strictest rank d xs = strictest rank d ys"
proof (cases "ys = []")
  case False
  assume "set xs = set ys"
  then show ?thesis
    using strictest_in [OF False] strictest_ge [of _ ys] by (intro strictest_eqI) auto
qed (simp add: strictest_Nil)

lemma strictest_two:
  "strictest rank d [a, b] = (if rank a < rank b then b else a)"
  by (intro strictest_eqI) auto

end

section \<open>Actions, severities, confidences\<close>

datatype action = ALLOW | WARN | BLOCK

fun action_rank :: "action \<Rightarrow> nat" where
  "action_rank ALLOW = 0"
| "action_rank WARN = 1"
| "action_rank BLOCK = 2"

definition most_restrictive :: "action list \<Rightarrow> action" where
  "most_restrictive actions = strictest action_rank ALLOW actions"

datatype severity = SevInfo | SevLow | SevMedium | SevHigh | SevCritical

fun severity_rank :: "severity \<Rightarrow> nat" where
  "severity_rank SevInfo = 0"
| "severity_rank SevLow = 1"
| "severity_rank SevMedium = 2"
| "severity_rank SevHigh = 3"
| "severity_rank SevCritical = 4"

datatype confidence = ConfLow | ConfMedium | ConfHigh

fun confidence_rank :: "confidence \<Rightarrow> nat" where
  "confidence_rank ConfLow = 0"
| "confidence_rank ConfMedium = 1"
| "confidence_rank ConfHigh = 2"

interpretation act: ranked action_rank
proof
  fix a b :: action
  show "action_rank a = action_rank b \<Longrightarrow> a = b" by (cases a; cases b) auto
qed

interpretation sev: ranked severity_rank
proof
  fix a b :: severity
  show "severity_rank a = severity_rank b \<Longrightarrow> a = b" by (cases a; cases b) auto
qed

interpretation conf: ranked confidence_rank
proof
  fix a b :: confidence
  show "confidence_rank a = confidence_rank b \<Longrightarrow> a = b" by (cases a; cases b) auto
qed

text \<open>The order of the enumeration, so that \<open>max\<close>, \<open>min\<close> and sorting apply to actions.\<close>

instantiation action :: linorder
begin

definition less_eq_action :: "action \<Rightarrow> action \<Rightarrow> bool" where
  "less_eq_action a b \<longleftrightarrow> action_rank a \<le> action_rank b"

definition less_action :: "action \<Rightarrow> action \<Rightarrow> bool" where
  "less_action a b \<longleftrightarrow> action_rank a < action_rank b"

instance
proof
  fix a b c :: action
  show "a < b \<longleftrightarrow> a \<le> b \<and> \<not> b \<le> a" by (auto simp: less_eq_action_def less_action_def)
  show "a \<le> a" by (simp add: less_eq_action_def)
  show "a \<le> b \<Longrightarrow> b \<le> c \<Longrightarrow> a \<le> c" by (simp add: less_eq_action_def)
  show "a \<le> b \<Longrightarrow> b \<le> a \<Longrightarrow> a = b" by (rule act.rank_inj) (simp add: less_eq_action_def)
  show "a \<le> b \<or> b \<le> a" by (auto simp: less_eq_action_def)
qed

end

lemmas action_le = less_eq_action_def less_action_def

lemma most_restrictive_Nil [simp]: "most_restrictive [] = ALLOW"
  by (simp add: most_restrictive_def act.strictest_Nil)

lemma ALLOW_least [simp]: "ALLOW \<le> a"
  by (simp add: action_le)

lemma BLOCK_greatest [simp]: "a \<le> BLOCK"
  by (cases a) (simp_all add: action_le)

lemma BLOCK_le_iff [simp]: "BLOCK \<le> a \<longleftrightarrow> a = BLOCK"
  by (cases a) (simp_all add: action_le)

lemma most_restrictive_in: "xs \<noteq> [] \<Longrightarrow> most_restrictive xs \<in> set xs"
  unfolding most_restrictive_def by (rule act.strictest_in)

lemma most_restrictive_ge: "x \<in> set xs \<Longrightarrow> x \<le> most_restrictive xs"
  unfolding most_restrictive_def action_le by (rule act.strictest_ge)

lemma most_restrictive_two [simp]: "most_restrictive [a, b] = max a b"
  unfolding most_restrictive_def act.strictest_two
  by (auto simp: max_def action_le dest: act.rank_inj)

lemma most_restrictive_block_iff: "most_restrictive xs = BLOCK \<longleftrightarrow> BLOCK \<in> set xs"
proof
  assume b: "most_restrictive xs = BLOCK"
  then have "xs \<noteq> []" by auto
  with b show "BLOCK \<in> set xs" using most_restrictive_in [of xs] by simp
next
  assume "BLOCK \<in> set xs"
  then have "BLOCK \<le> most_restrictive xs" by (rule most_restrictive_ge)
  then show "most_restrictive xs = BLOCK" by simp
qed

lemma most_restrictive_set_cong: "set xs = set ys \<Longrightarrow> most_restrictive xs = most_restrictive ys"
  unfolding most_restrictive_def by (rule act.strictest_set_cong)

lemma most_restrictive_le_iff: "most_restrictive xs \<le> a \<longleftrightarrow> (\<forall>x \<in> set xs. x \<le> a)"
proof (cases "xs = []")
  case False
  then show ?thesis
    using most_restrictive_in [OF False] most_restrictive_ge [of _ xs] by (auto intro: order_trans)
qed simp

section \<open>Evidence and findings\<close>

datatype match_kind =
    MkName | MkNamePrefix | MkAmbiguousName | MkEmail | MkGithubLogin
  | MkAutomationEmail | MkVendorDomain | MkTrailerKey | MkMessageMarker

record match_reason =
  mr_kind :: match_kind
  mr_value :: ustr
  mr_rule :: ustr

datatype evidence_source = SrcCoauthorTrailer | SrcTrailer | SrcAuthor | SrcCommitter | SrcMessage

fun source_label :: "evidence_source \<Rightarrow> string" where
  "source_label SrcCoauthorTrailer = ''Co-authored-by trailer''"
| "source_label SrcTrailer = ''commit trailer''"
| "source_label SrcAuthor = ''commit author''"
| "source_label SrcCommitter = ''commit committer''"
| "source_label SrcMessage = ''commit message line''"

fun source_value :: "evidence_source \<Rightarrow> string" where
  "source_value SrcCoauthorTrailer = ''coauthor_trailer''"
| "source_value SrcTrailer = ''trailer''"
| "source_value SrcAuthor = ''author''"
| "source_value SrcCommitter = ''committer''"
| "source_value SrcMessage = ''message''"

record evidence =
  ev_source :: evidence_source
  ev_value :: ustr
  ev_line_number :: "nat option"
  ev_matched :: "match_reason list"
  ev_notes :: "string list"

definition MAX_EVIDENCE_CHARS :: nat where
  "MAX_EVIDENCE_CHARS = 512"

definition TRUNCATION_MARKER :: ustr where
  "TRUNCATION_MARKER = asc ''...[truncated]''"

definition truncate_evidence :: "ustr \<Rightarrow> ustr" where
  "truncate_evidence value =
     (if length value > MAX_EVIDENCE_CHARS
      then take (MAX_EVIDENCE_CHARS - length TRUNCATION_MARKER) value @ TRUNCATION_MARKER
      else value)"

text \<open>The constructor \<open>Evidence(...)\<close>: its validator truncates the value.\<close>

definition mk_evidence ::
  "evidence_source \<Rightarrow> ustr \<Rightarrow> nat option \<Rightarrow> match_reason list \<Rightarrow> string list \<Rightarrow> evidence" where
  "mk_evidence source value line matched notes =
     \<lparr>ev_source = source, ev_value = truncate_evidence value, ev_line_number = line,
      ev_matched = matched, ev_notes = notes\<rparr>"

lemma length_truncate_evidence: "length (truncate_evidence v) \<le> MAX_EVIDENCE_CHARS"
  by (auto simp: truncate_evidence_def MAX_EVIDENCE_CHARS_def TRUNCATION_MARKER_def asc_def)

record finding =
  fd_detector :: string
  fd_rule_id :: string
  fd_severity :: severity
  fd_confidence :: confidence
  fd_title :: string
  fd_message :: ustr
  fd_evidence :: "evidence list"
  fd_commit_sha :: "string option"
  fd_remediation :: string

record detector_failure =
  df_detector :: string
  df_error_type :: string
  df_message :: ustr

record detection_result =
  dr_commit_sha :: "string option"
  dr_detectors_run :: "string list"
  dr_detectors_skipped :: "string list"
  dr_findings :: "finding list"
  dr_failures :: "detector_failure list"

definition result_complete :: "detection_result \<Rightarrow> bool" where
  "result_complete r \<longleftrightarrow> dr_failures r = []"

record explanation =
  ex_action :: action
  ex_reason :: string
  ex_policy_id :: "string option"
  ex_finding :: "finding option"
  ex_failure :: "detector_failure option"

record decision =
  dc_action :: action
  dc_explanations :: "explanation list"

definition decision_blocked :: "decision \<Rightarrow> bool" where
  "decision_blocked d \<longleftrightarrow> dc_action d = BLOCK"

definition explanations_for :: "decision \<Rightarrow> action \<Rightarrow> explanation list" where
  "explanations_for d a = filter (\<lambda>e. ex_action e = a) (dc_explanations d)"

section \<open>Fingerprints\<close>

text \<open>
  \<open>fingerprint\<close> feeds a digest with each part, prefixed by its byte length and a separator. The
  digest (SHA-256 of the standard library) is a parameter; the bytes it is given are the model.
  UTF-8 is written out, with lone surrogates encoded like any three-byte code point
  (\<open>errors="surrogatepass"\<close>).
\<close>

definition utf8_cp :: "nat \<Rightarrow> nat list" where
  "utf8_cp c =
     (if c < 0x80 then [c]
      else if c < 0x800 then [0xC0 + c div 64, 0x80 + c mod 64]
      else if c < 0x10000 then [0xE0 + c div 4096, 0x80 + c div 64 mod 64, 0x80 + c mod 64]
      else [0xF0 + c div 262144, 0x80 + c div 4096 mod 64, 0x80 + c div 64 mod 64, 0x80 + c mod 64])"

definition utf8 :: "ustr \<Rightarrow> nat list" where
  "utf8 s = concat (map utf8_cp s)"

fun digits :: "nat \<Rightarrow> nat list" where
  "digits n = (if n < 10 then [48 + n] else digits (n div 10) @ [48 + n mod 10])"

declare digits.simps [simp del]

definition nat_string :: "nat \<Rightarrow> string" where
  "nat_string n = map char_of (digits n)"

definition fingerprint_part :: "ustr \<Rightarrow> nat list" where
  "fingerprint_part part = (let e = utf8 part in digits (length e) @ [31] @ e)"

definition fingerprint_bytes :: "ustr list \<Rightarrow> nat list" where
  "fingerprint_bytes parts = concat (map fingerprint_part parts)"

definition fingerprint :: "(nat list \<Rightarrow> string) \<Rightarrow> ustr list \<Rightarrow> string" where
  "fingerprint sha256 parts = sha256 (fingerprint_bytes parts)"

definition finding_fingerprint_parts :: "finding \<Rightarrow> ustr list" where
  "finding_fingerprint_parts f =
     [asc (fd_detector f), asc (fd_rule_id f),
      (case fd_commit_sha f of None \<Rightarrow> [] | Some s \<Rightarrow> asc s)]
     @ concat (map (\<lambda>i. [asc (source_value (ev_source i)), ev_value i,
         (case ev_line_number i of None \<Rightarrow> [] | Some n \<Rightarrow> if n = 0 then [] else digits n)])
         (fd_evidence f))"

definition finding_fingerprint :: "(nat list \<Rightarrow> string) \<Rightarrow> finding \<Rightarrow> string" where
  "finding_fingerprint sha256 f = fingerprint sha256 (finding_fingerprint_parts f)"

end
