(* ===== verification/Access.thy ===== *)
theory Access
  imports Findings
begin

text \<open>
  Identifiers, roles and members: the names and IDs that arrive from GitHub (\<open>github/identifiers.py\<close>), the
  permissions of a signed-in user (\<open>controlplane/access.py\<close>, \<open>require\<close> and \<open>text\<close> of \<open>governance/common.py\<close>), the
  errors of the control plane (\<open>controlplane/errors.py\<close>) and the granting and removing of roles
  (\<open>controlplane/members.py\<close>) on the tables it reads and writes. Times are whole seconds. Messages of errors are
  display text and are left out; what a handler tells apart is kept.
\<close>

section \<open>Identifiers\<close>

definition MAX_GITHUB_ID :: int where
  "MAX_GITHUB_ID = 9007199254740992"

text \<open>Alphanumerics and single hyphens between them, at most 39 characters.\<close>

fun login_tail :: "ustr \<Rightarrow> bool" where
  "login_tail [] = True"
| "login_tail (c # cs) =
     ((ascii_alnum c \<or> (c = 45 \<and> (case cs of [] \<Rightarrow> False | d # _ \<Rightarrow> ascii_alnum d))) \<and> login_tail cs)"

definition valid_login :: "ustr \<Rightarrow> bool" where
  "valid_login s \<longleftrightarrow> (case s of [] \<Rightarrow> False | c # cs \<Rightarrow> ascii_alnum c \<and> length cs \<le> 38 \<and> login_tail cs)"

definition ascii_lower_cp :: "nat \<Rightarrow> nat" where
  "ascii_lower_cp c = (if ascii_upper c then c + 32 else c)"

definition valid_repository_name :: "ustr \<Rightarrow> bool" where
  "valid_repository_name s \<longleftrightarrow>
     list_all (\<lambda>c. ascii_alnum c \<or> c = 46 \<or> c = 95 \<or> c = 45) s \<and> 1 \<le> length s \<and> length s \<le> 100
     \<and> s \<noteq> [46] \<and> s \<noteq> [46, 46] \<and> \<not> endswith (map ascii_lower_cp s) (asc ''.git'')"

text \<open>\<open>None\<close> is the \<open>UnsafeInputError\<close>.\<close>

definition split_full_name :: "ustr \<Rightarrow> (ustr \<times> ustr) option" where
  "split_full_name s =
     (if length (filter (\<lambda>c. c = 47) s) \<noteq> 1 then None
      else case split_char 47 s of
             [owner, name] \<Rightarrow> if valid_login owner \<and> valid_repository_name name then Some (owner, name) else None
           | _ \<Rightarrow> None)"

definition full_name :: "ustr \<Rightarrow> ustr \<Rightarrow> ustr" where
  "full_name owner name = owner @ [47] @ name"

definition is_hex_id :: "ustr \<Rightarrow> bool" where
  "is_hex_id s \<longleftrightarrow> length s = 32 \<and> list_all (\<lambda>c. ascii_digit c \<or> 97 \<le> c \<and> c \<le> 102) s"

lemma login_no_slash: "valid_login s \<Longrightarrow> 47 \<notin> set s"
proof -
  have tail: "login_tail cs \<Longrightarrow> 47 \<notin> set cs" for cs
    by (induction cs rule: login_tail.induct) (auto simp: ascii_class_defs)
  show "valid_login s \<Longrightarrow> 47 \<notin> set s"
    using tail by (auto simp: valid_login_def ascii_class_defs split: list.splits)
qed

lemma repository_name_no_slash: "valid_repository_name s \<Longrightarrow> 47 \<notin> set s"
  by (auto simp: valid_repository_name_def list_all_iff ascii_class_defs)

lemma filter_absent: "x \<notin> set s \<Longrightarrow> filter (\<lambda>c. c = x) s = []"
  by (auto simp: filter_empty_conv)

section \<open>Errors of the control plane\<close>

text \<open>\<open>StoreIntegrity\<close> is a violated constraint of the database and \<open>Unhandled\<close> an exception of Python, which no handler
  expects: the API answers 500.\<close>

datatype cp_error =
    NotFound
  | PermissionDenied
  | InvalidInput string
  | Conflict
  | PolicyIntegrity
  | ConfirmationRequired "string list"
  | ApprovalRequired
  | ReauthenticationRequired
  | UpstreamUnavailable
  | SessionExpired
  | SignInFailed
  | StoreIntegrity
  | Unhandled

fun error_status :: "cp_error \<Rightarrow> nat" where
  "error_status NotFound = 404"
| "error_status PermissionDenied = 403"
| "error_status (InvalidInput _) = 400"
| "error_status Conflict = 409"
| "error_status PolicyIntegrity = 422"
| "error_status (ConfirmationRequired _) = 409"
| "error_status ApprovalRequired = 409"
| "error_status ReauthenticationRequired = 401"
| "error_status UpstreamUnavailable = 502"
| "error_status SessionExpired = 401"
| "error_status SignInFailed = 400"
| "error_status StoreIntegrity = 500"
| "error_status Unhandled = 500"

section \<open>Roles and permissions\<close>

datatype permission =
    RepositoriesRead | RepositoriesManage | ScansRead | ScansTrigger | ViolationsRead | ViolationsManage
  | PoliciesRead | PoliciesWrite | PoliciesRollback | RulesRead | AuditRead | GithubManage
  | MembersRead | MembersManage | NotificationsRead | NotificationsManage
  | OrganizationRead | OrganizationManage | PoliciesPublish | PoliciesApprove | PoliciesEmergency
  | RulesManage | ExceptionsRead | ExceptionsCreate | ExceptionsApprove | ExceptionsRevoke
  | SecurityRead | SecurityManage

datatype role = Viewer | SecurityManager | Admin | Owner

fun role_rank :: "role \<Rightarrow> nat" where
  "role_rank Viewer = 0"
| "role_rank SecurityManager = 1"
| "role_rank Admin = 2"
| "role_rank Owner = 3"

definition viewer_permissions :: "permission list" where
  "viewer_permissions =
     [RepositoriesRead, ScansRead, ViolationsRead, PoliciesRead, RulesRead, NotificationsRead, OrganizationRead,
      ExceptionsRead, SecurityRead]"

definition security_manager_permissions :: "permission list" where
  "security_manager_permissions = viewer_permissions @ [ViolationsManage, ScansTrigger, AuditRead, ExceptionsCreate]"

definition admin_permissions :: "permission list" where
  "admin_permissions = security_manager_permissions @
     [PoliciesWrite, PoliciesRollback, PoliciesPublish, PoliciesApprove, NotificationsManage, RepositoriesManage,
      GithubManage, MembersRead, OrganizationManage, RulesManage, ExceptionsApprove, ExceptionsRevoke, SecurityManage]"

definition owner_permissions :: "permission list" where
  "owner_permissions = admin_permissions @ [MembersManage, PoliciesEmergency]"

fun role_permissions :: "role \<Rightarrow> permission list" where
  "role_permissions Viewer = viewer_permissions"
| "role_permissions SecurityManager = security_manager_permissions"
| "role_permissions Admin = admin_permissions"
| "role_permissions Owner = owner_permissions"

lemmas permission_defs = viewer_permissions_def security_manager_permissions_def admin_permissions_def
  owner_permissions_def

definition highest_role :: "role list \<Rightarrow> role option" where
  "highest_role rs = py_max role_rank rs"

interpretation roles: ranked role_rank
proof
  fix a b show "role_rank a = role_rank b \<Longrightarrow> a = b" by (cases a; cases b) simp_all
qed

section \<open>The signed-in user\<close>

datatype account_type = AtUser | AtOrganization | AtEnterprise

record membership =
  mb_account_login :: ustr
  mb_account_type :: account_type
  mb_role :: role
  mb_implicit :: bool

record principal =
  pr_user_id :: int
  pr_login :: ustr
  pr_session_hash :: ustr
  pr_public_id :: ustr
  pr_authenticated_at :: int
  pr_expires_at :: int
  pr_memberships :: "(int \<times> membership) list"
  pr_installations :: "(int \<times> int) list"

definition role_in :: "principal \<Rightarrow> int \<Rightarrow> role option" where
  "role_in p account = map_option mb_role (map_of (pr_memberships p) account)"

definition can :: "principal \<Rightarrow> permission \<Rightarrow> int \<Rightarrow> bool" where
  "can p perm account = (case role_in p account of None \<Rightarrow> False | Some r \<Rightarrow> perm \<in> set (role_permissions r))"

definition permissions_for :: "principal \<Rightarrow> int \<Rightarrow> permission list" where
  "permissions_for p account = (case role_in p account of None \<Rightarrow> [] | Some r \<Rightarrow> role_permissions r)"

definition accounts_with :: "principal \<Rightarrow> permission \<Rightarrow> int list" where
  "accounts_with p perm =
     sort (map fst (filter (\<lambda>(_, m). perm \<in> set (role_permissions (mb_role m))) (pr_memberships p)))"

record access_scope =
  sc_session_hash :: ustr
  sc_installations :: "int list"
  sc_accounts :: "int list"

definition scope_of :: "principal \<Rightarrow> permission \<Rightarrow> int option \<Rightarrow> access_scope" where
  "scope_of p perm account_id =
     (let granted = accounts_with p perm;
          accounts = (case account_id of None \<Rightarrow> granted | Some a \<Rightarrow> filter (\<lambda>x. x = a) granted)
      in \<lparr>sc_session_hash = pr_session_hash p,
          sc_installations = sort (map fst (filter (\<lambda>(_, a). a \<in> set accounts) (pr_installations p))),
          sc_accounts = sort (remdups accounts)\<rparr>)"

definition scope_empty :: "access_scope \<Rightarrow> bool" where
  "scope_empty s \<longleftrightarrow> sc_installations s = [] \<and> sc_accounts s = []"

text \<open>\<open>require\<close>: a non-member is told that the resource does not exist.\<close>

definition require :: "principal \<Rightarrow> permission \<Rightarrow> int \<Rightarrow> cp_error + unit" where
  "require p perm account =
     (if map_of (pr_memberships p) account = None then Inl NotFound
      else if \<not> can p perm account then Inl PermissionDenied else Inr ())"

lemma require_Inr [simp]: "require p perm account = Inr u \<longleftrightarrow> can p perm account"
  by (auto simp: require_def can_def role_in_def split: option.splits)

text \<open>\<open>text\<close>: an optional text of a request. What it is cleaned with (redaction and sanitising) is an argument.\<close>

definition text_field ::
  "(nat \<Rightarrow> ustr \<Rightarrow> ustr) \<Rightarrow> string \<Rightarrow> nat \<Rightarrow> bool \<Rightarrow> ustr option \<Rightarrow> cp_error + ustr option" where
  "text_field clean field limit required v =
     (case v of
        None \<Rightarrow> if required then Inl (InvalidInput field) else Inr None
      | Some t \<Rightarrow>
          if py_strip t = [] then (if required then Inl (InvalidInput field) else Inr None)
          else if limit < length t then Inl (InvalidInput field)
          else Inr (Some (clean limit (py_strip t))))"

definition MAX_REASON_CHARS :: nat where "MAX_REASON_CHARS = 500"

text \<open>The roles form a ladder. A role has every permission of another exactly when it ranks at least as high;
  managing members and publishing in an emergency belong to owners alone.\<close>

theorem role_hierarchy:
  "(set (role_permissions r) \<subseteq> set (role_permissions r') \<longleftrightarrow> role_rank r \<le> role_rank r')
   \<and> (MembersManage \<in> set (role_permissions r) \<longleftrightarrow> r = Owner)
   \<and> (PoliciesEmergency \<in> set (role_permissions r) \<longleftrightarrow> r = Owner)
   \<and> distinct (role_permissions r)"
  by (cases r; cases r') (simp_all add: permission_defs)

lemma can_iff: "can p perm a \<longleftrightarrow> (\<exists>m. map_of (pr_memberships p) a = Some m \<and> perm \<in> set (role_permissions (mb_role m)))"
  by (auto simp: can_def role_in_def split: option.splits)

lemma accounts_with_iff:
  "distinct (map fst (pr_memberships p)) \<Longrightarrow> a \<in> set (accounts_with p perm) \<longleftrightarrow> can p perm a"
  by (force simp: accounts_with_def can_iff)

text \<open>The access scope. An installation or an account is in the scope of a permission exactly when the user's role
  in that account grants it, GitHub reported the installation at sign-in, and the account is the one asked for,
  if one was.\<close>

theorem scope_exact:
  assumes "distinct (map fst (pr_memberships p))"
  shows "(i \<in> set (sc_installations (scope_of p perm acc)) \<longleftrightarrow>
            (\<exists>a. (i, a) \<in> set (pr_installations p) \<and> can p perm a \<and> acc \<in> {None, Some a}))
    \<and> (a \<in> set (sc_accounts (scope_of p perm acc)) \<longleftrightarrow> can p perm a \<and> acc \<in> {None, Some a})"
  using accounts_with_iff [OF assms, of _ perm]
  by (cases acc) (force simp: scope_of_def Let_def)+

definition sample_principal :: principal where
  "sample_principal = \<lparr>pr_user_id = 7, pr_login = asc ''ann'', pr_session_hash = [], pr_public_id = [],
     pr_authenticated_at = 0, pr_expires_at = 28800,
     pr_memberships = [(1, \<lparr>mb_account_login = asc ''org'', mb_account_type = AtOrganization, mb_role = Admin, mb_implicit = False\<rparr>),
       (2, \<lparr>mb_account_login = asc ''lab'', mb_account_type = AtOrganization, mb_role = Viewer, mb_implicit = False\<rparr>)],
     pr_installations = [(10, 1), (20, 2)]\<rparr>"

lemma scope_exact_witness:
  "10 \<in> set (sc_installations (scope_of sample_principal PoliciesWrite None))
   \<and> 20 \<notin> set (sc_installations (scope_of sample_principal PoliciesWrite None))"
  using scope_exact [of sample_principal 10 PoliciesWrite None 1] scope_exact [of sample_principal 20 PoliciesWrite None 2]
  by (auto simp: sample_principal_def can_iff permission_defs)

end
