(* ===== verification/Members.thy ===== *)
theory Members
  imports Access
begin

text \<open>
  Members and their roles (\<open>controlplane/members.py\<close>): granting, changing and removing roles on the tables
  \<open>installations\<close>, \<open>memberships\<close>, \<open>users\<close> and \<open>sessions\<close>. Each operation is one transaction; an audit event is the
  last thing it writes.
\<close>

section \<open>State\<close>

record actor =
  ac_kind :: string
  ac_id :: "int option"
  ac_login :: "ustr option"

definition user_actor :: "int \<Rightarrow> ustr \<Rightarrow> actor" where
  "user_actor i l = \<lparr>ac_kind = ''user'', ac_id = Some i, ac_login = Some l\<rparr>"

definition system_actor :: actor where
  "system_actor = \<lparr>ac_kind = ''system'', ac_id = None, ac_login = None\<rparr>"

datatype installation_state = InActive | InSuspended | InDeleted

record installation_row =
  in_id :: int
  in_account_id :: int
  in_account_login :: ustr
  in_account_type :: account_type
  in_state :: installation_state
  in_updated_at :: int

record member_row =
  me_role :: role
  me_granted_by :: ustr
  me_created_at :: int
  me_updated_at :: int

datatype member_event =
    RoleGranted actor int int role
  | RoleChanged actor int int role role
  | MemberRemoved actor int int role nat

record session_row =
  se_public_id :: ustr
  se_user_id :: int
  se_created_at :: int
  se_authenticated_at :: int
  se_last_seen_at :: int
  se_expires_at :: int
  se_user_agent :: ustr

record member_db =
  md_installations :: "installation_row list"
  md_memberships :: "((int \<times> int) \<times> member_row) list"
  md_users :: "(int \<times> ustr) list"
  md_sessions :: "(ustr \<times> session_row) list"
  md_session_installations :: "(ustr \<times> int) list"
  md_session_repositories :: "(ustr \<times> int \<times> int) list"
  md_audit :: "member_event list"

text \<open>Deleting sessions deletes what hangs on them: both foreign keys are \<open>ON DELETE CASCADE\<close>.\<close>

definition delete_sessions :: "(ustr \<Rightarrow> session_row \<Rightarrow> bool) \<Rightarrow> member_db \<Rightarrow> member_db" where
  "delete_sessions gone db =
     (let lost = map fst (filter (\<lambda>(h, r). gone h r) (md_sessions db))
      in db\<lparr>md_sessions := filter (\<lambda>(h, r). \<not> gone h r) (md_sessions db),
            md_session_installations := filter (\<lambda>(h, _). h \<notin> set lost) (md_session_installations db),
            md_session_repositories := filter (\<lambda>(h, _). h \<notin> set lost) (md_session_repositories db)\<rparr>)"

text \<open>The account of the most recently updated installation, as \<open>ORDER BY updated_at DESC LIMIT 1\<close> chooses it.\<close>

definition account_of :: "member_db \<Rightarrow> int \<Rightarrow> (ustr \<times> account_type) option" where
  "account_of db account =
     map_option (\<lambda>i. (in_account_login i, in_account_type i))
       (py_max in_updated_at (filter (\<lambda>i. in_account_id i = account) (md_installations db)))"

record member_view =
  mv_user_id :: int
  mv_login :: "ustr option"
  mv_role :: role
  mv_granted_by :: ustr
  mv_created_at :: int
  mv_updated_at :: int
  mv_implicit :: bool

definition account_members :: "member_db \<Rightarrow> int \<Rightarrow> (int \<times> member_row) list" where
  "account_members db account =
     sort_key (\<lambda>(u, m). (me_created_at m, u))
       (map (\<lambda>((_, u), m). (u, m)) (filter (\<lambda>((a, _), _). a = account) (md_memberships db)))"

definition list_members :: "member_db \<Rightarrow> int \<Rightarrow> nat \<Rightarrow> nat \<Rightarrow> member_view list" where
  "list_members db account offset limit =
     (case account_of db account of
        Some (login, AtUser) \<Rightarrow>
          if offset = 0
          then [\<lparr>mv_user_id = account, mv_login = Some login, mv_role = Owner,
                 mv_granted_by = asc ''GitHub account owner'', mv_created_at = 0, mv_updated_at = 0, mv_implicit = True\<rparr>]
          else []
      | _ \<Rightarrow> [])
     @ map (\<lambda>(u, m). \<lparr>mv_user_id = u, mv_login = map_of (md_users db) u, mv_role = me_role m,
              mv_granted_by = me_granted_by m, mv_created_at = me_created_at m, mv_updated_at = me_updated_at m,
              mv_implicit = False\<rparr>)
         (take limit (drop offset (account_members db account)))"

section \<open>Operations\<close>

definition other_owners :: "member_db \<Rightarrow> int \<Rightarrow> int \<Rightarrow> nat" where
  "other_owners db account user =
     length (filter (\<lambda>((a, u), m). a = account \<and> me_role m = Owner \<and> u \<noteq> user) (md_memberships db))"

definition granted_by :: "actor \<Rightarrow> ustr" where
  "granted_by actor = (case ac_login actor of Some (c # cs) \<Rightarrow> c # cs | _ \<Rightarrow> asc (ac_kind actor))"

definition write_role :: "int \<Rightarrow> int \<Rightarrow> role \<Rightarrow> actor \<Rightarrow> int \<Rightarrow> member_db \<Rightarrow> member_db" where
  "write_role account user role actor now db =
     (let created = (case map_of (md_memberships db) (account, user) of None \<Rightarrow> now | Some m \<Rightarrow> me_created_at m)
      in db\<lparr>md_memberships := AList.update (account, user)
              \<lparr>me_role = role, me_granted_by = granted_by actor, me_created_at = created, me_updated_at = now\<rparr>
              (md_memberships db)\<rparr>)"

definition remember_user :: "int \<Rightarrow> ustr option \<Rightarrow> member_db \<Rightarrow> member_db" where
  "remember_user user login db =
     (case login of None \<Rightarrow> db | Some l \<Rightarrow> db\<lparr>md_users := setdefault user l (md_users db)\<rparr>)"

definition add_event :: "member_event \<Rightarrow> member_db \<Rightarrow> member_db" where
  "add_event e db = db\<lparr>md_audit := md_audit db @ [e]\<rparr>"

definition grant_role ::
  "int \<Rightarrow> int \<Rightarrow> role \<Rightarrow> actor \<Rightarrow> ustr option \<Rightarrow> int \<Rightarrow> member_db \<Rightarrow> cp_error + member_db" where
  "grant_role account user role actor login now db =
     (if \<not> (0 < user \<and> user < MAX_GITHUB_ID) then Inl (InvalidInput ''user_id'')
      else if (case login of None \<Rightarrow> False | Some l \<Rightarrow> \<not> valid_login l) then Inl (InvalidInput ''login'')
      else case account_of db account of
        None \<Rightarrow> Inl NotFound
      | Some (_, kind) \<Rightarrow>
          if kind = AtUser \<and> user = account then Inl Conflict
          else if ac_id actor = Some user then Inl PermissionDenied
          else (let existing = map_of (md_memberships db) (account, user)
                in if existing \<noteq> None \<and> map_option me_role existing = Some Owner \<and> role \<noteq> Owner
                      \<and> other_owners db account user = 0
                   then Inl Conflict
                   else Inr (add_event (case existing of None \<Rightarrow> RoleGranted actor account user role
                                          | Some m \<Rightarrow> RoleChanged actor account user (me_role m) role)
                          (write_role account user role actor now (remember_user user login db)))))"

definition user_memberships :: "member_db \<Rightarrow> int \<Rightarrow> nat" where
  "user_memberships db user = length (filter (\<lambda>((_, u), _). u = user) (md_memberships db))"

definition remove_member :: "int \<Rightarrow> int \<Rightarrow> actor \<Rightarrow> member_db \<Rightarrow> cp_error + member_db" where
  "remove_member account user actor db =
     (if ac_id actor = Some user then Inl PermissionDenied
      else case map_of (md_memberships db) (account, user) of
        None \<Rightarrow> Inl NotFound
      | Some m \<Rightarrow>
          if me_role m = Owner \<and> other_owners db account user = 0 then Inl Conflict
          else (let db1 = db\<lparr>md_memberships := AList.delete (account, user) (md_memberships db)\<rparr>;
                    last = (user_memberships db1 user = 0);
                    ended = (if last then length (filter (\<lambda>(_, r). se_user_id r = user) (md_sessions db1)) else 0);
                    db2 = (if last then delete_sessions (\<lambda>_ r. se_user_id r = user) db1 else db1)
                in Inr (add_event (MemberRemoved actor account user (me_role m) ended) db2)))"

section \<open>An organization keeps an owner\<close>

datatype member_op = Grant int int role actor "ustr option" int | Remove int int actor

fun member_step :: "member_op \<Rightarrow> member_db \<Rightarrow> cp_error + member_db" where
  "member_step (Grant a u r actor login now) db = grant_role a u r actor login now db"
| "member_step (Remove a u actor) db = remove_member a u actor db"

text \<open>A refused operation changes nothing; requests come in any order.\<close>

fun member_run :: "member_op list \<Rightarrow> member_db \<Rightarrow> member_db" where
  "member_run [] db = db"
| "member_run (x # xs) db = member_run xs (case member_step x db of Inl _ \<Rightarrow> db | Inr db' \<Rightarrow> db')"

definition role_of :: "member_db \<Rightarrow> int \<Rightarrow> int \<Rightarrow> role option" where
  "role_of db account user = map_option me_role (map_of (md_memberships db) (account, user))"

definition has_owner :: "member_db \<Rightarrow> int \<Rightarrow> bool" where
  "has_owner db account \<longleftrightarrow> (\<exists>u. role_of db account u = Some Owner)"

lemma other_owners_0:
  assumes "distinct (map fst (md_memberships db))"
  shows "other_owners db a u = 0 \<longleftrightarrow> (\<forall>v. role_of db a v = Some Owner \<longrightarrow> v = u)"
proof -
  have "(\<exists>v. role_of db a v = Some Owner \<and> v \<noteq> u) \<longleftrightarrow>
      (\<exists>x \<in> set (md_memberships db). case x of ((a', v), m) \<Rightarrow> a' = a \<and> me_role m = Owner \<and> v \<noteq> u)"
    using map_of_eq_Some_iff [OF assms] by (fastforce simp: role_of_def)
  then show ?thesis by (fastforce simp: other_owners_def filter_empty_conv)
qed

lemma role_of_simps [simp]:
  "role_of (add_event e db) a u = role_of db a u"
  "role_of (remember_user v l db) a u = role_of db a u"
  "role_of (write_role b v r actor now db) a u = (if (a, u) = (b, v) then Some r else role_of db a u)"
  "role_of (delete_sessions gone db) a u = role_of db a u"
  "role_of (db\<lparr>md_memberships := AList.delete (b, v) (md_memberships db)\<rparr>) a u
     = (if (a, u) = (b, v) then None else role_of db a u)"
  by (simp_all add: role_of_def add_event_def remember_user_def write_role_def delete_sessions_def Let_def map_of_update delete_conv'
      split: option.splits)

lemma grant_role_Inr:
  assumes "grant_role a u r actor login now db = Inr db'"
  shows "role_of db' b v = (if (b, v) = (a, u) then Some r else role_of db b v)"
    and "ac_id actor \<noteq> Some u" and "0 < u" and "u < MAX_GITHUB_ID"
    and "role_of db a u = Some Owner \<Longrightarrow> r \<noteq> Owner \<Longrightarrow> other_owners db a u \<noteq> 0"
    and "\<exists>login'. md_memberships db' = md_memberships (write_role a u r actor now (remember_user u login' db))"
  using assms by (auto simp: grant_role_def Let_def role_of_def [of db] add_event_def split: if_splits option.splits)
    (auto simp: role_of_def add_event_def remember_user_def write_role_def Let_def map_of_update split: option.splits)

lemma remove_member_Inr:
  assumes "remove_member a u actor db = Inr db'"
  shows "role_of db' b v = (if (b, v) = (a, u) then None else role_of db b v)"
    and "ac_id actor \<noteq> Some u" and "role_of db a u \<noteq> None"
    and "role_of db a u = Some Owner \<Longrightarrow> other_owners db a u \<noteq> 0"
    and "md_memberships db' = AList.delete (a, u) (md_memberships db)"
  using assms
  by (auto simp: remove_member_def Let_def role_of_def add_event_def delete_sessions_def delete_conv' split: if_splits option.splits)

definition keys_ok :: "member_db \<Rightarrow> bool" where
  "keys_ok db \<longleftrightarrow> distinct (map fst (md_memberships db))"

fun op_actor :: "member_op \<Rightarrow> actor" where
  "op_actor (Grant a u r actor login now) = actor"
| "op_actor (Remove a u actor) = actor"

lemma member_step_keys: "member_step x db = Inr db' \<Longrightarrow> keys_ok db \<Longrightarrow> keys_ok db'"
proof (cases x)
  case (Grant a u r actor login now)
  assume "member_step x db = Inr db'" and "keys_ok db"
  with grant_role_Inr(6) [of a u r actor login now db db'] Grant show ?thesis
    by (auto simp: keys_ok_def write_role_def remember_user_def Let_def distinct_update split: option.splits)
next
  case (Remove a u actor)
  assume "member_step x db = Inr db'" and "keys_ok db"
  with remove_member_Inr(5) [of a u actor db db'] Remove show ?thesis
    by (auto simp: keys_ok_def distinct_delete)
qed

lemma another_owner:
  "keys_ok db \<Longrightarrow> other_owners db a u \<noteq> 0 \<Longrightarrow> \<exists>v. v \<noteq> u \<and> role_of db a v = Some Owner"
  using other_owners_0 [of db a u] by (auto simp: keys_ok_def)

lemma member_step_owner:
  assumes "member_step x db = Inr db'" and "keys_ok db" and "has_owner db a"
  shows "has_owner db' a"
proof (cases x)
  case (Grant b u r actor login now)
  note g = grant_role_Inr [OF assms(1) [unfolded Grant member_step.simps]]
  from assms(3) obtain v where v: "role_of db a v = Some Owner" by (auto simp: has_owner_def)
  show ?thesis
  proof (cases "a = b \<and> v = u \<and> r \<noteq> Owner")
    case True
    with another_owner [OF assms(2), of a u] g(1,5) v show ?thesis by (auto simp: has_owner_def)
  next
    case False
    with g(1) [of a v] v show ?thesis by (cases "a = b \<and> v = u") (auto simp: has_owner_def)
  qed
next
  case (Remove b u actor)
  note g = remove_member_Inr [OF assms(1) [unfolded Remove member_step.simps]]
  from assms(3) obtain v where v: "role_of db a v = Some Owner" by (auto simp: has_owner_def)
  show ?thesis
  proof (cases "a = b \<and> v = u")
    case True
    with another_owner [OF assms(2), of a u] g(1,4) v show ?thesis by (auto simp: has_owner_def)
  next
    case False
    with g(1) [of a v] v show ?thesis by (auto simp: has_owner_def)
  qed
qed

lemma member_run_inv: "keys_ok db \<Longrightarrow> has_owner db a \<Longrightarrow> keys_ok (member_run xs db) \<and> has_owner (member_run xs db) a"
proof (induction xs arbitrary: db)
  case (Cons x xs)
  then show ?case
    using member_step_keys [of x db] member_step_owner [of x db _ a] by (auto split: sum.split)
qed simp

text \<open>C26: an organization keeps an owner. Once an account has an explicit owner, it has one after any sequence of
  grants and removals, by anyone, refused or not.\<close>

theorem organization_keeps_owner:
  assumes "distinct (map fst (md_memberships db))" and "has_owner db account"
  shows "has_owner (member_run ops db) account"
  using member_run_inv assms by (simp add: keys_ok_def)

text \<open>Nobody changes their own role. An operation that succeeds leaves every role of the user who asked for it as it
  was, and touches one membership of one account only.\<close>

theorem no_self_promotion:
  assumes "member_step op db = Inr db'"
  shows "(\<forall>u a. ac_id (op_actor op) = Some u \<longrightarrow> role_of db' a u = role_of db a u)
    \<and> (\<exists>a u. \<forall>b v. (b, v) \<noteq> (a, u) \<longrightarrow> role_of db' b v = role_of db b v)"
proof (cases op)
  case (Grant a u r actor login now)
  then show ?thesis using assms grant_role_Inr(1,2) [of a u r actor login now db db'] by auto
next
  case (Remove a u actor)
  then show ?thesis using assms remove_member_Inr(1,2) [of a u actor db db'] by auto
qed

section \<open>An example\<close>

definition sample_members :: member_db where
  "sample_members = \<lparr>
     md_installations = [\<lparr>in_id = 10, in_account_id = 1, in_account_login = asc ''org'',
       in_account_type = AtOrganization, in_state = InActive, in_updated_at = 0\<rparr>],
     md_memberships = [((1, 7), \<lparr>me_role = Owner, me_granted_by = [], me_created_at = 0, me_updated_at = 0\<rparr>)],
     md_users = [], md_sessions = [], md_session_installations = [], md_session_repositories = [], md_audit = []\<rparr>"

lemma organization_keeps_owner_witness:
  "has_owner (member_run [Grant 1 8 Admin (user_actor 7 []) None 5, Remove 1 7 (user_actor 8 [])] sample_members) 1"
  by (rule organization_keeps_owner) (auto simp: sample_members_def has_owner_def role_of_def)

lemma no_self_promotion_witness:
  "\<exists>db'. member_step (Grant 1 8 Admin (user_actor 7 []) None 5) sample_members = Inr db' \<and> role_of db' 1 7 = Some Owner"
proof -
  have "\<exists>db'. member_step (Grant 1 8 Admin (user_actor 7 []) None 5) sample_members = Inr db'"
    by (simp add: grant_role_def sample_members_def user_actor_def MAX_GITHUB_ID_def account_of_def py_max_def Let_def)
  then obtain db' where step: "member_step (Grant 1 8 Admin (user_actor 7 []) None 5) sample_members = Inr db'" ..
  from no_self_promotion [OF step] have "role_of db' 1 7 = role_of sample_members 1 7"
    by (simp add: user_actor_def)
  with step show ?thesis by (simp add: sample_members_def role_of_def)
qed

end
