(* ===== verification/Policies.thy ===== *)
theory Policies
  imports Findings
begin

text \<open>
  Configuration layers, the policy set they produce, the mandatory floor and the evaluator that
  turns findings into a decision (\<open>config/schema.py\<close>, \<open>config/enforcement.py\<close>,
  \<open>policies/model.py\<close>, \<open>policies/defaults.py\<close>, \<open>policies/loader.py\<close>, \<open>policies/mandatory.py\<close>,
  \<open>policies/evaluator.py\<close>). An unset optional field of a configuration model is \<open>None\<close>: an
  explicit null is rejected by the schema, so the two never have to be told apart.
\<close>

section \<open>Configuration\<close>

datatype policy_error = ValueError string | KeyError string

record policy_override =
  ov_enabled :: "bool option"
  ov_action :: "action option"

record enforcement_override =
  eo_pre_commit :: "bool option"
  eo_commit_msg :: "bool option"
  eo_pre_push :: "bool option"
  eo_max_push_commits :: "nat option"

record remediation_override =
  ro_auto_remove :: "bool option"
  ro_fix_on_push :: "bool option"

record config =
  cfg_policies :: "(string \<times> policy_override) list"
  cfg_enforcement :: enforcement_override
  cfg_remediation :: remediation_override

definition no_enforcement :: enforcement_override where
  "no_enforcement = \<lparr>eo_pre_commit = None, eo_commit_msg = None, eo_pre_push = None,
     eo_max_push_commits = None\<rparr>"

definition no_remediation :: remediation_override where
  "no_remediation = \<lparr>ro_auto_remove = None, ro_fix_on_push = None\<rparr>"

record policy =
  p_id :: string
  p_enabled :: bool
  p_action :: action
  p_description :: string

type_synonym policies = "(string \<times> policy) list"

definition mk_policy :: "string \<Rightarrow> action \<Rightarrow> string \<Rightarrow> policy" where
  "mk_policy pid act desc =
     \<lparr>p_id = pid, p_enabled = True, p_action = act, p_description = desc\<rparr>"

definition DEFAULT_POLICIES :: policies where
  "DEFAULT_POLICIES = map (\<lambda>p. (p_id p, p))
    [mk_policy ''ai_coauthor'' BLOCK
       ''AI agent listed as a co-author (e.g. Co-authored-by trailer).'',
     mk_policy ''ai_identity'' BLOCK
       ''AI agent recorded as the commit author or committer.'',
     mk_policy ''ai_trailer'' BLOCK
       ''AI attribution in other trailers (e.g. Generated-by, Assisted-by).'',
     mk_policy ''malformed_trailer'' WARN
       ''Trailer-like line that does not parse (possible evasion attempt).'',
     mk_policy ''bot_identity'' WARN
       ''Automation or bot account as author, committer or co-author.'']"

definition KNOWN_POLICY_IDS :: "string list" where
  "KNOWN_POLICY_IDS = map fst DEFAULT_POLICIES"

definition unknown_ids :: "string list \<Rightarrow> string list" where
  "unknown_ids ids = filter (\<lambda>i. i \<notin> set KNOWN_POLICY_IDS) ids"

text \<open>The constructor of a configuration document: its validator rejects unknown policy ids.\<close>

definition mk_config ::
  "(string \<times> policy_override) list \<Rightarrow> enforcement_override \<Rightarrow> remediation_override
     \<Rightarrow> policy_error + config" where
  "mk_config ps e r =
     (let unknown = sort (remdups (unknown_ids (map fst ps)))
      in if unknown \<noteq> []
         then Inl (ValueError (''unknown policy id(s): '' @ py_join '', '' unknown
                @ '' (known: '' @ py_join '', '' (sort KNOWN_POLICY_IDS) @ '')''))
         else Inr \<lparr>cfg_policies = ps, cfg_enforcement = e, cfg_remediation = r\<rparr>)"

definition config_ok :: "config \<Rightarrow> bool" where
  "config_ok c \<longleftrightarrow> set (map fst (cfg_policies c)) \<subseteq> set KNOWN_POLICY_IDS"

section \<open>Policy sets\<close>

definition quoted :: "string \<Rightarrow> string" where
  "quoted s = CHR 0x27 # s @ [CHR 0x27]"

text \<open>\<open>PolicySet.__init__\<close>: every key must be its policy's id; iteration is in key order.\<close>

definition policy_set :: "policies \<Rightarrow> policy_error + policies" where
  "policy_set ps =
     (case filter (\<lambda>(k, p). k \<noteq> p_id p) ps of
        (k, p) # _ \<Rightarrow> Inl (ValueError (''policy key '' @ quoted k
                       @ '' does not match policy id '' @ quoted (p_id p)))
      | [] \<Rightarrow> Inr (sort_key fst ps))"

text \<open>\<open>model_copy(update=override.model_dump(exclude_unset=True))\<close>.\<close>

definition override_policy :: "policy_override \<Rightarrow> policy \<Rightarrow> policy" where
  "override_policy ov p =
     p\<lparr>p_enabled := (case ov_enabled ov of None \<Rightarrow> p_enabled p | Some b \<Rightarrow> b),
       p_action := (case ov_action ov of None \<Rightarrow> p_action p | Some a \<Rightarrow> a)\<rparr>"

definition apply_override ::
  "string \<times> policy_override \<Rightarrow> policies \<Rightarrow> policy_error + policies" where
  "apply_override entry eff =
     (case entry of (pid, ov) \<Rightarrow>
        (case map_of eff pid of
           None \<Rightarrow> Inl (KeyError pid)
         | Some p \<Rightarrow> Inr (AList.update pid (override_policy ov p) eff)))"

definition build_policy_set :: "config list \<Rightarrow> policy_error + policies" where
  "build_policy_set configs =
     (case fold_err (\<lambda>c eff. fold_err apply_override (cfg_policies c) eff) configs DEFAULT_POLICIES of
        Inl e \<Rightarrow> Inl e
      | Inr eff \<Rightarrow> policy_set eff)"

section \<open>The mandatory floor\<close>

definition validate_mandatory_config :: "config \<Rightarrow> policy_error + unit" where
  "validate_mandatory_config c =
     (let disabled = sort (map fst (filter (\<lambda>(pid, o'). ov_enabled o' = Some False) (cfg_policies c)))
      in if disabled \<noteq> []
         then Inl (ValueError
           (''a mandatory policy can only enforce policies; enabled: false is not allowed for ''
            @ py_join '', '' disabled))
         else if cfg_enforcement c \<noteq> no_enforcement
         then Inl (ValueError ''a mandatory policy cannot configure local hook enforcement'')
         else if cfg_remediation c \<noteq> no_remediation
         then Inl (ValueError ''a mandatory policy cannot configure remediation'')
         else Inr ())"

definition effective_action :: "policy \<Rightarrow> action" where
  "effective_action p = (if p_enabled p then p_action p else ALLOW)"

definition floor_policy :: "action \<Rightarrow> policy \<Rightarrow> policy" where
  "floor_policy fl p =
     p\<lparr>p_enabled := True, p_action := most_restrictive [effective_action p, fl]\<rparr>"

definition mandatory_floor :: "string \<Rightarrow> policy_override \<Rightarrow> policy_error + action" where
  "mandatory_floor pid ov =
     (case ov_action ov of
        Some a \<Rightarrow> Inr a
      | None \<Rightarrow> (case map_of DEFAULT_POLICIES pid of
                   None \<Rightarrow> Inl (KeyError pid) | Some d \<Rightarrow> Inr (p_action d)))"

definition apply_floor ::
  "string \<times> policy_override \<Rightarrow> policies \<Rightarrow> policy_error + policies" where
  "apply_floor entry eff =
     (case entry of (pid, ov) \<Rightarrow>
        (case map_of eff pid of
           None \<Rightarrow> Inl (KeyError pid)
         | Some current \<Rightarrow>
             (case mandatory_floor pid ov of
                Inl e \<Rightarrow> Inl e
              | Inr fl \<Rightarrow> Inr (AList.update pid (floor_policy fl current) eff))))"

definition apply_mandatory_policies :: "policies \<Rightarrow> config \<Rightarrow> policy_error + policies" where
  "apply_mandatory_policies ps mandatory =
     (case validate_mandatory_config mandatory of
        Inl e \<Rightarrow> Inl e
      | Inr _ \<Rightarrow>
          (case fold_err apply_floor (cfg_policies mandatory) ps of
             Inl e \<Rightarrow> Inl e
           | Inr eff \<Rightarrow> policy_set eff))"

section \<open>The evaluator\<close>

fun action_value :: "action \<Rightarrow> string" where
  "action_value ALLOW = ''allow''"
| "action_value WARN = ''warn''"
| "action_value BLOCK = ''block''"

definition explain_finding :: "policies \<Rightarrow> finding \<Rightarrow> explanation" where
  "explain_finding ps f =
     (case map_of ps (fd_rule_id f) of
        None \<Rightarrow>
          \<lparr>ex_action = BLOCK,
           ex_reason = ''no policy configured for rule '' @ quoted (fd_rule_id f) @ ''; failing closed'',
           ex_policy_id = None, ex_finding = Some f, ex_failure = None\<rparr>
      | Some p \<Rightarrow>
          if \<not> p_enabled p then
            \<lparr>ex_action = ALLOW, ex_reason = ''policy '' @ quoted (p_id p) @ '' is disabled'',
             ex_policy_id = Some (p_id p), ex_finding = Some f, ex_failure = None\<rparr>
          else
            \<lparr>ex_action = p_action p,
             ex_reason = ''policy '' @ quoted (p_id p) @ '' action is '' @ action_value (p_action p),
             ex_policy_id = Some (p_id p), ex_finding = Some f, ex_failure = None\<rparr>)"

definition explain_failure :: "detector_failure \<Rightarrow> explanation" where
  "explain_failure x =
     \<lparr>ex_action = BLOCK,
      ex_reason = ''detector '' @ quoted (df_detector x) @ '' did not complete; failing closed'',
      ex_policy_id = None, ex_finding = None, ex_failure = Some x\<rparr>"

definition evaluate :: "policies \<Rightarrow> detection_result \<Rightarrow> decision" where
  "evaluate ps r =
     (let es = map (explain_finding ps) (dr_findings r) @ map explain_failure (dr_failures r)
      in \<lparr>dc_action = most_restrictive (map ex_action es), dc_explanations = es\<rparr>)"

section \<open>Hook enforcement and remediation\<close>

record enforcement =
  en_pre_commit :: bool
  en_commit_msg :: bool
  en_pre_push :: bool
  en_max_push_commits :: nat

datatype hook = PreCommit | CommitMsg | PrePush

definition default_enforcement :: enforcement where
  "default_enforcement = \<lparr>en_pre_commit = True, en_commit_msg = True, en_pre_push = True,
     en_max_push_commits = 10000\<rparr>"

fun enforcement_enabled :: "enforcement \<Rightarrow> hook \<Rightarrow> bool" where
  "enforcement_enabled e PreCommit = en_pre_commit e"
| "enforcement_enabled e CommitMsg = en_commit_msg e"
| "enforcement_enabled e PrePush = en_pre_push e"

definition enforcement_complete :: "enforcement \<Rightarrow> bool" where
  "enforcement_complete e \<longleftrightarrow> en_pre_commit e \<and> en_commit_msg e \<and> en_pre_push e"

definition override_or :: "'a option \<Rightarrow> 'a \<Rightarrow> 'a" where
  "override_or o' d = (case o' of None \<Rightarrow> d | Some v \<Rightarrow> v)"

definition merge_enforcement :: "enforcement_override \<Rightarrow> enforcement \<Rightarrow> enforcement" where
  "merge_enforcement o' e =
     \<lparr>en_pre_commit = override_or (eo_pre_commit o') (en_pre_commit e),
      en_commit_msg = override_or (eo_commit_msg o') (en_commit_msg e),
      en_pre_push = override_or (eo_pre_push o') (en_pre_push e),
      en_max_push_commits = override_or (eo_max_push_commits o') (en_max_push_commits e)\<rparr>"

definition build_enforcement :: "config list \<Rightarrow> enforcement" where
  "build_enforcement configs =
     fold (\<lambda>c e. merge_enforcement (cfg_enforcement c) e) configs default_enforcement"

record remediation =
  rm_auto_remove :: bool
  rm_fix_on_push :: bool

definition merge_remediation :: "remediation_override \<Rightarrow> remediation \<Rightarrow> remediation" where
  "merge_remediation o' r =
     \<lparr>rm_auto_remove = override_or (ro_auto_remove o') (rm_auto_remove r),
      rm_fix_on_push = override_or (ro_fix_on_push o') (rm_fix_on_push r)\<rparr>"

definition build_remediation :: "config list \<Rightarrow> remediation" where
  "build_remediation configs =
     fold (\<lambda>c r. merge_remediation (cfg_remediation c) r) configs
       \<lparr>rm_auto_remove = False, rm_fix_on_push = False\<rparr>"

section \<open>Well-formed policy sets\<close>

definition policies_ok :: "policies \<Rightarrow> bool" where
  "policies_ok ps \<longleftrightarrow> distinct (map fst ps) \<and> set (map fst ps) = set KNOWN_POLICY_IDS
     \<and> list_all (\<lambda>(k, p). k = p_id p) ps"

lemma default_policies_ok: "policies_ok DEFAULT_POLICIES"
  by (simp add: policies_ok_def DEFAULT_POLICIES_def KNOWN_POLICY_IDS_def mk_policy_def)

lemma policies_ok_alt:
  "policies_ok ps \<longleftrightarrow> distinct (map fst ps) \<and> dom (map_of ps) = set KNOWN_POLICY_IDS
     \<and> (\<forall>k p. map_of ps k = Some p \<longrightarrow> p_id p = k)"
proof (cases "distinct (map fst ps)")
  case True
  have "list_all (\<lambda>(k, p). k = p_id p) ps \<longleftrightarrow> (\<forall>k p. (k, p) \<in> set ps \<longrightarrow> p_id p = k)"
    by (auto simp: list_all_iff)
  then show ?thesis
    using True by (simp add: policies_ok_def dom_map_of_conv_image_fst)
qed (simp add: policies_ok_def)

lemma policies_okD:
  assumes "policies_ok ps"
  shows "distinct (map fst ps)"
    and "map_of ps k = Some p \<Longrightarrow> p_id p = k"
    and "k \<in> set KNOWN_POLICY_IDS \<Longrightarrow> \<exists>p. map_of ps k = Some p"
proof -
  show "distinct (map fst ps)" and "map_of ps k = Some p \<Longrightarrow> p_id p = k"
    using assms unfolding policies_ok_alt by blast+
  from assms have "dom (map_of ps) = set KNOWN_POLICY_IDS" by (simp add: policies_ok_alt)
  then show "k \<in> set KNOWN_POLICY_IDS \<Longrightarrow> \<exists>p. map_of ps k = Some p" by blast
qed

lemma policies_ok_update:
  assumes "policies_ok ps" and "map_of ps k = Some p" and "p_id q = k"
  shows "policies_ok (AList.update k q ps)"
proof -
  from assms(1,2) have "k \<in> set KNOWN_POLICY_IDS" unfolding policies_ok_alt by blast
  with assms show ?thesis
    unfolding policies_ok_alt by (simp add: distinct_update update_conv' insert_absorb)
qed

lemma policy_set_ok:
  assumes "policies_ok ps"
  shows "policy_set ps = Inr (sort_key fst ps)" and "policies_ok (sort_key fst ps)"
    and "map_of (sort_key fst ps) = map_of ps"
proof -
  have "filter (\<lambda>(k, p). k \<noteq> p_id p) ps = []"
    using assms by (auto simp: policies_ok_def list_all_iff filter_empty_conv)
  then show "policy_set ps = Inr (sort_key fst ps)" by (simp add: policy_set_def)
  show "policies_ok (sort_key fst ps)"
    using assms by (auto simp: policies_ok_def list_all_iff)
  show "map_of (sort_key fst ps) = map_of ps"
    using assms by (intro map_of_sort_key) (simp add: policies_ok_def)
qed

section \<open>Folding a layer over a policy set\<close>

text \<open>
  Both ways a configuration document reaches the policies (an ordinary layer overrides fields, a
  mandatory document raises a floor) update one named policy per entry. The interface says what
  one entry does; the client lemma says what a whole document does: it never raises on known ids,
  touches exactly the policies it names, and keeps the set well formed.
\<close>

locale policy_step =
  fixes step :: "string \<times> policy_override \<Rightarrow> policies \<Rightarrow> policy_error + policies"
    and upd :: "string \<Rightarrow> policy_override \<Rightarrow> policy \<Rightarrow> policy"
  assumes step_known:
    "\<lbrakk>k \<in> set KNOWN_POLICY_IDS; map_of ps k = Some p\<rbrakk>
       \<Longrightarrow> step (k, ov) ps = Inr (AList.update k (upd k ov p) ps)"
    and upd_id: "p_id (upd k ov p) = p_id p"
begin

lemma step_ok:
  assumes "policies_ok ps" and "k \<in> set KNOWN_POLICY_IDS"
  obtains ps' where "step (k, ov) ps = Inr ps'" and "policies_ok ps'"
    and "map_of ps' = (map_of ps)(k := map_option (upd k ov) (map_of ps k))"
proof -
  from assms obtain p where p: "map_of ps k = Some p" by (blast dest: policies_okD(3))
  have "policies_ok (AList.update k (upd k ov p) ps)"
    using assms p by (intro policies_ok_update [OF assms(1) p])
      (simp add: upd_id policies_okD(2))
  with that step_known [OF assms(2) p] p show thesis
    by (simp add: update_conv')
qed

lemma fold_ok:
  assumes "policies_ok ps" and "set (map fst es) \<subseteq> set KNOWN_POLICY_IDS" and "distinct (map fst es)"
  shows "\<exists>ps'. fold_err step es ps = Inr ps' \<and> policies_ok ps' \<and>
     (\<forall>k. map_of ps' k = (case map_of es k of None \<Rightarrow> map_of ps k
                           | Some ov \<Rightarrow> map_option (upd k ov) (map_of ps k)))"
  using assms
proof (induction es arbitrary: ps)
  case (Cons e es)
  obtain k ov where e: "e = (k, ov)" by force
  from Cons.prems e have k: "k \<in> set KNOWN_POLICY_IDS" by simp
  obtain ps' where ps': "step (k, ov) ps = Inr ps'" "policies_ok ps'"
      "map_of ps' = (map_of ps)(k := map_option (upd k ov) (map_of ps k))"
    by (rule step_ok [OF Cons.prems(1) k])
  from Cons.prems have "map_of es k = None" by (simp add: e map_of_eq_None_iff)
  obtain qs where qs: "fold_err step es ps' = Inr qs" "policies_ok qs"
    and lk: "\<And>j. map_of qs j = (case map_of es j of None \<Rightarrow> map_of ps' j
              | Some ov \<Rightarrow> map_option (upd j ov) (map_of ps' j))"
    using Cons.IH [OF ps'(2)] Cons.prems(2,3) by (simp add: e) blast
  have "map_of qs j = (case map_of (e # es) j of None \<Rightarrow> map_of ps j
          | Some ov \<Rightarrow> map_option (upd j ov) (map_of ps j))" for j
    using \<open>map_of es k = None\<close> by (cases "j = k") (simp_all add: lk ps'(3) e split: option.split)
  with qs ps'(1) e show ?case by simp
qed simp

end

interpretation layering: policy_step apply_override "\<lambda>k ov. override_policy ov"
  by unfold_locales (simp_all add: apply_override_def override_policy_def)

definition floor_of :: "string \<Rightarrow> policy_override \<Rightarrow> action" where
  "floor_of pid ov = (case mandatory_floor pid ov of Inl _ \<Rightarrow> BLOCK | Inr a \<Rightarrow> a)"

lemma mandatory_floor_known:
  "pid \<in> set KNOWN_POLICY_IDS \<Longrightarrow> mandatory_floor pid ov = Inr (floor_of pid ov)"
  by (auto simp: floor_of_def mandatory_floor_def KNOWN_POLICY_IDS_def image_iff
      dest!: weak_map_of_SomeI split: option.splits)

interpretation flooring: policy_step apply_floor "\<lambda>k ov. floor_policy (floor_of k ov)"
  by unfold_locales (simp_all add: apply_floor_def floor_policy_def mandatory_floor_known)

definition layers_ok :: "config list \<Rightarrow> bool" where
  "layers_ok cs \<longleftrightarrow> list_all (\<lambda>c. config_ok c \<and> distinct (map fst (cfg_policies c))) cs"

text \<open>One layer, as a function on a single policy.\<close>

definition layer_policy :: "string \<Rightarrow> config \<Rightarrow> policy \<Rightarrow> policy" where
  "layer_policy k c p = (case map_of (cfg_policies c) k of None \<Rightarrow> p | Some ov \<Rightarrow> override_policy ov p)"

lemma layers_fold_ok:
  assumes "layers_ok cs" and "policies_ok ps"
  shows "\<exists>ps'. fold_err (\<lambda>c eff. fold_err apply_override (cfg_policies c) eff) cs ps = Inr ps'
     \<and> policies_ok ps' \<and> (\<forall>k. map_of ps' k = map_option (fold (layer_policy k) cs) (map_of ps k))"
  using assms
proof (induction cs arbitrary: ps)
  case Nil
  then show ?case by (simp add: option.map_id0 [unfolded id_def])
next
  case (Cons c cs)
  then have "set (map fst (cfg_policies c)) \<subseteq> set KNOWN_POLICY_IDS"
    and "distinct (map fst (cfg_policies c))"
    by (simp_all add: layers_ok_def config_ok_def)
  from layering.fold_ok [OF Cons.prems(2) this]
  obtain ps' where ps': "fold_err apply_override (cfg_policies c) ps = Inr ps'" "policies_ok ps'"
    and lk': "\<And>k. map_of ps' k = (case map_of (cfg_policies c) k of None \<Rightarrow> map_of ps k
                | Some ov \<Rightarrow> map_option (override_policy ov) (map_of ps k))"
    by blast
  have lk: "map_of ps' k = map_option (layer_policy k c) (map_of ps k)" for k
    unfolding lk' layer_policy_def by (cases "map_of ps k") (auto split: option.split)
  from Cons.IH [OF _ ps'(2)] Cons.prems(1) ps'(1) show ?case
    by (auto simp: layers_ok_def lk option.map_comp o_def)
qed

lemma build_policy_set_ok:
  assumes "layers_ok cs"
  obtains ps where "build_policy_set cs = Inr ps" and "policies_ok ps"
    and "\<And>k. map_of ps k = map_option (fold (layer_policy k) cs) (map_of DEFAULT_POLICIES k)"
proof -
  from layers_fold_ok [OF assms default_policies_ok] obtain ps where
    ps: "fold_err (\<lambda>c eff. fold_err apply_override (cfg_policies c) eff) cs DEFAULT_POLICIES = Inr ps"
      "policies_ok ps"
      "\<And>k. map_of ps k = map_option (fold (layer_policy k) cs) (map_of DEFAULT_POLICIES k)"
    by blast
  from ps show thesis
    by (intro that [of "sort_key fst ps"]) (simp_all add: build_policy_set_def policy_set_ok)
qed

lemma effective_floor_policy [simp]:
  "effective_action (floor_policy fl p) = max (effective_action p) fl"
  by (simp add: effective_action_def floor_policy_def)

lemma apply_mandatory_ok:
  assumes "policies_ok ps" and "config_ok m" and "distinct (map fst (cfg_policies m))"
    and "validate_mandatory_config m = Inr ()"
  obtains ps' where "apply_mandatory_policies ps m = Inr ps'" and "policies_ok ps'"
    and "\<And>k. map_of ps' k = (case map_of (cfg_policies m) k of None \<Rightarrow> map_of ps k
                | Some ov \<Rightarrow> map_option (floor_policy (floor_of k ov)) (map_of ps k))"
proof -
  from flooring.fold_ok [OF assms(1)] assms(2,3) obtain ps' where
    ps': "fold_err apply_floor (cfg_policies m) ps = Inr ps'" "policies_ok ps'"
      "\<And>k. map_of ps' k = (case map_of (cfg_policies m) k of None \<Rightarrow> map_of ps k
                | Some ov \<Rightarrow> map_option (floor_policy (floor_of k ov)) (map_of ps k))"
    unfolding config_ok_def by blast
  from ps' assms(4) show thesis
    by (intro that [of "sort_key fst ps'"])
      (simp_all add: apply_mandatory_policies_def policy_set_ok)
qed

section \<open>Properties\<close>

text \<open>The value the last layer that sets a field gives it.\<close>

fun last_set :: "'a \<Rightarrow> 'a option list \<Rightarrow> 'a" where
  "last_set d [] = d"
| "last_set d (None # xs) = last_set d xs"
| "last_set d (Some v # xs) = last_set v xs"

definition layer_field :: "(policy_override \<Rightarrow> 'a option) \<Rightarrow> string \<Rightarrow> config \<Rightarrow> 'a option" where
  "layer_field sel k c = (case map_of (cfg_policies c) k of None \<Rightarrow> None | Some ov \<Rightarrow> sel ov)"

lemma layer_policy_fields:
  "layer_policy k c d = d\<lparr>p_enabled := last_set (p_enabled d) [layer_field ov_enabled k c],
     p_action := last_set (p_action d) [layer_field ov_action k c]\<rparr>"
proof (cases "map_of (cfg_policies c) k")
  case None
  then show ?thesis by (simp add: layer_policy_def layer_field_def)
next
  case (Some ov)
  then show ?thesis
    by (cases "ov_enabled ov"; cases "ov_action ov")
      (simp_all add: layer_policy_def layer_field_def override_policy_def)
qed

lemma fold_layer_policy:
  "fold (layer_policy k) cs d = d\<lparr>p_enabled := last_set (p_enabled d) (map (layer_field ov_enabled k) cs),
     p_action := last_set (p_action d) (map (layer_field ov_action k) cs)\<rparr>"
proof (induction cs arbitrary: d)
  case (Cons c cs)
  show ?case
    by (cases "layer_field ov_enabled k c"; cases "layer_field ov_action k c")
      (simp_all add: Cons.IH layer_policy_fields [of k c d])
qed simp

text \<open>Configuration layers over known policy ids always build a policy set; it has exactly the
  built-in ids, and each policy's \<open>enabled\<close> and \<open>action\<close> are, field by field, what the last layer
  that sets the field says, or the built-in default when no layer does.\<close>

theorem build_policy_set_layers:
  assumes "layers_ok cs" and "map_of DEFAULT_POLICIES k = Some d"
  shows "\<exists>ps p. build_policy_set cs = Inr ps \<and> policies_ok ps \<and> map_of ps k = Some p
     \<and> p_enabled p = last_set (p_enabled d) (map (layer_field ov_enabled k) cs)
     \<and> p_action p = last_set (p_action d) (map (layer_field ov_action k) cs)"
  using build_policy_set_ok [OF assms(1)] assms(2) by (force simp: fold_layer_policy)

definition warn_layer :: config where
  "warn_layer = \<lparr>cfg_policies = [(''ai_trailer'', \<lparr>ov_enabled = None, ov_action = Some WARN\<rparr>)],
     cfg_enforcement = no_enforcement, cfg_remediation = no_remediation\<rparr>"

lemma warn_layer_ok: "layers_ok [warn_layer]" "config_ok warn_layer"
  "distinct (map fst (cfg_policies warn_layer))" "validate_mandatory_config warn_layer = Inr ()"
  by (simp_all add: layers_ok_def config_ok_def warn_layer_def KNOWN_POLICY_IDS_def DEFAULT_POLICIES_def
      mk_policy_def validate_mandatory_config_def)

theorem build_policy_set_layers_witness:
  "\<exists>ps p. build_policy_set [warn_layer] = Inr ps \<and> map_of ps ''ai_trailer'' = Some p
     \<and> p_enabled p \<and> p_action p = WARN"
proof -
  obtain d where d: "map_of DEFAULT_POLICIES ''ai_trailer'' = Some d" "p_enabled d"
    by (auto simp: DEFAULT_POLICIES_def mk_policy_def)
  from build_policy_set_layers [OF warn_layer_ok(1) d(1)] d(2) show ?thesis
    by (auto simp: layer_field_def warn_layer_def)
qed

text \<open>A mandatory document that passes its validation only strengthens: applying it to a well
  formed policy set returns a policy set with the same ids in which every named policy is enabled
  with the stricter of its former effective action and the floor, every other policy is unchanged,
  and applying the document a second time changes no effective action.\<close>

theorem mandatory_only_strengthens:
  assumes "policies_ok ps" and "config_ok m" and "distinct (map fst (cfg_policies m))"
    and "validate_mandatory_config m = Inr ()"
  shows "\<exists>ps' ps''. apply_mandatory_policies ps m = Inr ps' \<and> apply_mandatory_policies ps' m = Inr ps''
     \<and> (\<forall>k p. map_of ps k = Some p \<longrightarrow> (\<exists>p' p''. map_of ps' k = Some p' \<and> map_of ps'' k = Some p''
          \<and> (case map_of (cfg_policies m) k of
               None \<Rightarrow> p' = p
             | Some ov \<Rightarrow> p_enabled p' \<and> p_action p' = max (effective_action p) (floor_of k ov))
          \<and> effective_action p'' = effective_action p'))"
proof -
  from apply_mandatory_ok [OF assms] obtain ps' where
    a: "apply_mandatory_policies ps m = Inr ps'" "policies_ok ps'"
    and la: "\<And>k. map_of ps' k = (case map_of (cfg_policies m) k of None \<Rightarrow> map_of ps k
                | Some ov \<Rightarrow> map_option (floor_policy (floor_of k ov)) (map_of ps k))"
    by metis
  from apply_mandatory_ok [OF a(2) assms(2-4)] obtain ps'' where
    b: "apply_mandatory_policies ps' m = Inr ps''"
    and lb: "\<And>k. map_of ps'' k = (case map_of (cfg_policies m) k of None \<Rightarrow> map_of ps' k
                | Some ov \<Rightarrow> map_option (floor_policy (floor_of k ov)) (map_of ps' k))"
    by metis
  have "p_enabled (floor_policy fl p) \<and> p_action (floor_policy fl p) = max (effective_action p) fl" for fl p
    by (simp add: floor_policy_def)
  then have "\<exists>p' p''. map_of ps' k = Some p' \<and> map_of ps'' k = Some p''
      \<and> (case map_of (cfg_policies m) k of None \<Rightarrow> p' = p
         | Some ov \<Rightarrow> p_enabled p' \<and> p_action p' = max (effective_action p) (floor_of k ov))
      \<and> effective_action p'' = effective_action p'" if "map_of ps k = Some p" for k p
    using that by (cases "map_of (cfg_policies m) k") (auto simp: la lb)
  with a(1) b show ?thesis by blast
qed

theorem mandatory_only_strengthens_witness:
  "\<exists>ps'. apply_mandatory_policies DEFAULT_POLICIES warn_layer = Inr ps'
     \<and> (\<exists>p'. map_of ps' ''ai_trailer'' = Some p' \<and> p_enabled p' \<and> p_action p' = BLOCK)"
proof -
  have "map_of DEFAULT_POLICIES ''ai_trailer'' = Some (mk_policy ''ai_trailer'' BLOCK
       ''AI attribution in other trailers (e.g. Generated-by, Assisted-by).'')"
    by (simp add: DEFAULT_POLICIES_def mk_policy_def)
  with mandatory_only_strengthens [OF default_policies_ok warn_layer_ok(2-4)]
  show ?thesis
    by (fastforce simp: warn_layer_def floor_of_def mandatory_floor_def effective_action_def mk_policy_def)
qed

text \<open>C32: The evaluator fails closed. A scan is blocked exactly when a detector failed, or a finding's
  rule has no policy, or it has an enabled policy whose action is block; it is allowed exactly when
  no detector failed and every finding's rule has a policy that is disabled or allows; and every
  finding and every failure gets one explanation.\<close>

theorem evaluate_fails_closed:
  "(decision_blocked (evaluate ps r) \<longleftrightarrow>
      0 < length (dr_failures r) \<or> list_ex (\<lambda>f. case map_of ps (fd_rule_id f) of
         None \<Rightarrow> True | Some p \<Rightarrow> effective_action p = BLOCK) (dr_findings r))
   \<and> (dc_action (evaluate ps r) = ALLOW \<longleftrightarrow>
      dr_failures r = [] \<and> list_all (\<lambda>f. case map_of ps (fd_rule_id f) of
         None \<Rightarrow> False | Some p \<Rightarrow> effective_action p = ALLOW) (dr_findings r))
   \<and> length (dc_explanations (evaluate ps r)) = length (dr_findings r) + length (dr_failures r)"
proof -
  let ?acts = "map (ex_action \<circ> explain_finding ps) (dr_findings r)
                 @ map (ex_action \<circ> explain_failure) (dr_failures r)"
  have act: "dc_action (evaluate ps r) = most_restrictive ?acts" by (simp add: evaluate_def)
  have fd: "ex_action (explain_finding ps f)
      = (case map_of ps (fd_rule_id f) of None \<Rightarrow> BLOCK | Some p \<Rightarrow> effective_action p)" for f
    by (simp add: explain_finding_def effective_action_def split: option.split)
  have fl: "ex_action (explain_failure x) = BLOCK" for x by (simp add: explain_failure_def)
  have le_allow: "a \<le> ALLOW \<longleftrightarrow> a = ALLOW" for a by (cases a) (simp_all add: action_le)
  have "dc_action (evaluate ps r) = ALLOW \<longleftrightarrow> (\<forall>a \<in> set ?acts. a = ALLOW)"
    unfolding act le_allow [symmetric] most_restrictive_le_iff by simp
  also have "\<dots> \<longleftrightarrow> dr_failures r = [] \<and> (\<forall>f \<in> set (dr_findings r).
      (case map_of ps (fd_rule_id f) of None \<Rightarrow> BLOCK | Some p \<Rightarrow> effective_action p) = ALLOW)"
    by (cases "dr_failures r") (auto simp: fd fl)
  finally have allow: "dc_action (evaluate ps r) = ALLOW \<longleftrightarrow> dr_failures r = []
      \<and> list_all (\<lambda>f. case map_of ps (fd_rule_id f) of
         None \<Rightarrow> False | Some p \<Rightarrow> effective_action p = ALLOW) (dr_findings r)"
    by (auto simp: list_all_iff split: option.splits)
  have "decision_blocked (evaluate ps r) \<longleftrightarrow> BLOCK \<in> set ?acts"
    by (simp add: decision_blocked_def act most_restrictive_block_iff)
  also have "\<dots> \<longleftrightarrow> dr_failures r \<noteq> [] \<or> (\<exists>f \<in> set (dr_findings r).
      (case map_of ps (fd_rule_id f) of None \<Rightarrow> BLOCK | Some p \<Rightarrow> effective_action p) = BLOCK)"
    by (cases "dr_failures r") (auto simp: fd fl image_iff eq_commute [of BLOCK])
  finally have "decision_blocked (evaluate ps r) \<longleftrightarrow> dr_failures r \<noteq> []
      \<or> list_ex (\<lambda>f. case map_of ps (fd_rule_id f) of
         None \<Rightarrow> True | Some p \<Rightarrow> effective_action p = BLOCK) (dr_findings r)"
    by (auto simp: list_ex_iff split: option.splits)
  with allow show ?thesis by (simp add: evaluate_def)
qed

end
