(* ===== verification/Governance.thy ===== *)
theory Governance
  imports Policies
begin

text \<open>
  Governed policy resolution (\<open>policies/governance.py\<close>): which action applies to a rule in a
  repository, given the organization's policy layers, the approved exceptions, the onboarding mode
  and the repository's own configuration, together with the provenance of every part of the answer.
  The validators that restrict a layer's level to four levels are the type \<open>layer_level\<close>.
\<close>

section \<open>Inputs\<close>

datatype strength = Mandatory | Default

datatype layer_level = LvService | LvOrganization | LvGroup | LvRepositoryPolicy

datatype policy_level =
    LvBuiltIn
  | LvLayer layer_level
  | LvRepositoryConfiguration
  | LvException
  | LvMonitorMode

fun level_order :: "layer_level \<Rightarrow> nat" where
  "level_order LvService = 0"
| "level_order LvOrganization = 1"
| "level_order LvGroup = 2"
| "level_order LvRepositoryPolicy = 3"

datatype repository_mode = Enforce | Monitor

datatype exception_scope = ScOrganization | ScGroup | ScRepository

fun scope_specificity :: "exception_scope \<Rightarrow> nat" where
  "scope_specificity ScRepository = 2"
| "scope_specificity ScGroup = 1"
| "scope_specificity ScOrganization = 0"

record requirement =
  rq_action :: action
  rq_enforcement :: strength

record policy_layer =
  pl_level :: layer_level
  pl_source_id :: string
  pl_label :: string
  pl_version :: "nat option"
  pl_rules :: "(string \<times> requirement) list"

record grant =
  gr_exception_id :: string
  gr_rule_id :: string
  gr_action :: action
  gr_scope :: exception_scope
  gr_scope_label :: string
  gr_expires_at :: "int option"

record inputs =
  gi_layers :: "policy_layer list"
  gi_exceptions :: "grant list"
  gi_mode :: repository_mode

definition MAX_LAYERS :: nat where "MAX_LAYERS = 64"
definition MAX_EXCEPTIONS :: nat where "MAX_EXCEPTIONS = 256"

text \<open>The field validators of the four models.\<close>

definition requirement_ok :: "requirement \<Rightarrow> bool" where
  "requirement_ok r \<longleftrightarrow> \<not> (rq_enforcement r = Mandatory \<and> rq_action r = ALLOW)"

definition layer_ok :: "policy_layer \<Rightarrow> bool" where
  "layer_ok l \<longleftrightarrow> unknown_ids (map fst (pl_rules l)) = []
     \<and> list_all (\<lambda>(_, r). requirement_ok r) (pl_rules l) \<and> distinct (map fst (pl_rules l))"

definition grant_ok :: "grant \<Rightarrow> bool" where
  "grant_ok g \<longleftrightarrow> unknown_ids [gr_rule_id g] = [] \<and> gr_action g \<noteq> BLOCK"

definition inputs_ok :: "inputs \<Rightarrow> bool" where
  "inputs_ok i \<longleftrightarrow> list_all layer_ok (gi_layers i) \<and> list_all grant_ok (gi_exceptions i)
     \<and> length (gi_layers i) \<le> MAX_LAYERS \<and> length (gi_exceptions i) \<le> MAX_EXCEPTIONS"

definition inputs_empty :: "inputs \<Rightarrow> bool" where
  "inputs_empty i \<longleftrightarrow> gi_layers i = [] \<and> gi_exceptions i = [] \<and> gi_mode i = Enforce"

definition ordered_layers :: "inputs \<Rightarrow> policy_layer list" where
  "ordered_layers i = sort_key (\<lambda>l. (level_order (pl_level l), pl_label l)) (gi_layers i)"

definition describe :: "inputs \<Rightarrow> string" where
  "describe i =
     (let parts = map pl_label (ordered_layers i)
        @ (if gi_exceptions i \<noteq> []
           then [nat_string (length (gi_exceptions i)) @ '' exception(s)''] else [])
        @ (if gi_mode i = Monitor then [''monitor mode''] else [])
      in if parts = [] then ''no organization governance'' else py_join '' + '' parts)"

section \<open>Provenance\<close>

record conflict =
  cf_policy_id :: string
  cf_requested_action :: action
  cf_requested_enabled :: bool
  cf_requested_by :: policy_level
  cf_requested_label :: string
  cf_required_action :: action
  cf_required_by :: policy_level
  cf_required_label :: string
  cf_effective_action :: action
  cf_reason :: string

record rule_provenance =
  rp_policy_id :: string
  rp_enabled :: bool
  rp_action :: action
  rp_source :: policy_level
  rp_source_label :: string
  rp_enforcement :: "strength option"
  rp_floor :: "(action \<times> policy_level \<times> string) option"
  rp_conflict :: "conflict option"
  rp_exception_id :: "string option"
  rp_exception_expires_at :: "int option"
  rp_action_before_exception :: "action option"
  rp_monitor_mode :: bool
  rp_repository_configuration_known :: bool

record effective_policy =
  ef_policies :: "policy list"
  ef_rules :: "rule_provenance list"
  ef_description :: string
  ef_mode :: repository_mode

section \<open>Defaults, floors, grants\<close>

text \<open>Step 2 to 4 for one level: the entries per rule, then the most restrictive of each.\<close>

type_synonym entry = "action \<times> policy_level \<times> string"

definition level_entries :: "policy_layer list \<Rightarrow> layer_level \<Rightarrow> (string \<times> (action \<times> string) list) list" where
  "level_entries layers lv =
     fold (\<lambda>l d. fold (\<lambda>(rule, r) d. if rq_enforcement r = Default
                                     then append_to rule (rq_action r, pl_label l) d else d)
                      (pl_rules l) d)
       (filter (\<lambda>l. pl_level l = lv) layers) []"

definition add_level :: "policy_layer list \<Rightarrow> layer_level \<Rightarrow> (string \<times> entry) list \<Rightarrow> (string \<times> entry) list" where
  "add_level layers lv defaults =
     fold (\<lambda>(rule, es) d.
        case py_max (\<lambda>e. action_rank (fst e)) es of
          None \<Rightarrow> d
        | Some (a, lab) \<Rightarrow> AList.update rule (a, LvLayer lv, lab) d)
       (level_entries layers lv) defaults"

definition collect_defaults :: "policy_layer list \<Rightarrow> (string \<times> entry) list" where
  "collect_defaults layers =
     fold (add_level layers) [LvOrganization, LvGroup, LvRepositoryPolicy] []"

text \<open>Step 6: per rule, the first layer whose mandatory action is strictly greater wins.\<close>

definition raise_floor :: "policy_layer \<Rightarrow> string \<times> requirement \<Rightarrow> (string \<times> entry) list \<Rightarrow> (string \<times> entry) list" where
  "raise_floor l x floors =
     (case x of (rule, r) \<Rightarrow>
        if rq_enforcement r \<noteq> Mandatory then floors
        else (case map_of floors rule of
                None \<Rightarrow> AList.update rule (rq_action r, LvLayer (pl_level l), pl_label l) floors
              | Some (a, _) \<Rightarrow>
                  if action_rank a < action_rank (rq_action r)
                  then AList.update rule (rq_action r, LvLayer (pl_level l), pl_label l) floors
                  else floors))"

definition collect_floors :: "policy_layer list \<Rightarrow> (string \<times> entry) list" where
  "collect_floors layers = fold (\<lambda>l fs. fold (raise_floor l) (pl_rules l) fs) layers []"

definition entries_config :: "(string \<times> entry) list \<Rightarrow> policy_error + config" where
  "entries_config es =
     mk_config (map (\<lambda>(rule, e). (rule, \<lparr>ov_enabled = None, ov_action = Some (fst e)\<rparr>)) es)
       no_enforcement no_remediation"

definition collect_grants :: "grant list \<Rightarrow> (string \<times> grant list) list" where
  "collect_grants gs = fold (\<lambda>g d. append_to (gr_rule_id g) g d) gs []"

text \<open>The most restrictive of the most specific exceptions, ties by the greatest id.\<close>

definition pick_grant :: "grant list \<Rightarrow> grant option" where
  "pick_grant applicable =
     (case py_max (\<lambda>g. scope_specificity (gr_scope g)) applicable of
        None \<Rightarrow> None
      | Some narrow \<Rightarrow>
          py_max (\<lambda>g. (action_rank (gr_action g), gr_exception_id g))
            (filter (\<lambda>g. scope_specificity (gr_scope g) = scope_specificity (gr_scope narrow)) applicable))"

section \<open>One rule\<close>

definition level_label :: "policy_level \<Rightarrow> string" where
  "level_label lv =
     (case lv of
        LvBuiltIn \<Rightarrow> ''Built-in default''
      | LvRepositoryConfiguration \<Rightarrow> ''Repository configuration (.commitguard.yaml)''
      | LvLayer LvService \<Rightarrow> ''Service''
      | LvLayer LvOrganization \<Rightarrow> ''Organization''
      | LvLayer LvGroup \<Rightarrow> ''Group''
      | LvLayer LvRepositoryPolicy \<Rightarrow> ''Repository policy''
      | LvException \<Rightarrow> ''Exception''
      | LvMonitorMode \<Rightarrow> ''Monitor mode'')"

definition touched :: "config list \<Rightarrow> string \<Rightarrow> bool" where
  "touched configs pid \<longleftrightarrow>
     list_ex (\<lambda>c. case map_of (cfg_policies c) pid of
                    None \<Rightarrow> False
                  | Some ov \<Rightarrow> ov_enabled ov \<noteq> None \<or> ov_action ov \<noteq> None) configs"

definition effective_rank :: "policy \<Rightarrow> nat" where
  "effective_rank p = action_rank (effective_action p)"

definition rule_source ::
  "config list \<Rightarrow> (string \<times> entry) list \<Rightarrow> string \<Rightarrow> policy_level \<times> string \<times> strength option" where
  "rule_source configs defaults pid =
     (if touched configs pid
      then (LvRepositoryConfiguration, level_label LvRepositoryConfiguration, None)
      else (case map_of defaults pid of
              Some (_, src, lab) \<Rightarrow> (src, lab, Some Default)
            | None \<Rightarrow> (LvBuiltIn, level_label LvBuiltIn, None)))"

definition floor_provenance ::
  "string \<Rightarrow> policy \<Rightarrow> policy \<Rightarrow> entry option \<Rightarrow> policy_level \<times> string \<times> strength option
     \<Rightarrow> (policy_level \<times> string \<times> strength option) \<times> conflict option" where
  "floor_provenance pid before_floor p fl src =
     (case fl of
        None \<Rightarrow> (src, None)
      | Some (fa, flv, flab) \<Rightarrow>
          (case src of (source, lab, enf) \<Rightarrow>
             if source = LvBuiltIn then
               (if action_rank (p_action p) = action_rank fa
                then ((flv, flab, Some Mandatory), None) else (src, None))
             else if effective_rank before_floor < action_rank fa then
               ((flv, flab, Some Mandatory),
                Some \<lparr>cf_policy_id = pid,
                  cf_requested_action = effective_action before_floor,
                  cf_requested_enabled = p_enabled before_floor,
                  cf_requested_by = source, cf_requested_label = lab,
                  cf_required_action = fa, cf_required_by = flv, cf_required_label = flab,
                  cf_effective_action = p_action p,
                  cf_reason = flab @ '' requires at least '' @ action_value fa
                    @ '' and is mandatory: '' @ lab @ '' cannot weaken it.''\<rparr>)
             else (src, None)))"

definition apply_exception :: "grant option \<Rightarrow> policy \<Rightarrow> policy \<times> grant option" where
  "apply_exception g p =
     (case g of
        None \<Rightarrow> (p, None)
      | Some gr \<Rightarrow>
          if action_rank (gr_action gr) < effective_rank p
          then (p\<lparr>p_enabled := True, p_action := gr_action gr\<rparr>, Some gr)
          else (p, None))"

definition apply_monitor :: "repository_mode \<Rightarrow> policy \<Rightarrow> policy \<times> bool" where
  "apply_monitor mode p =
     (if mode = Monitor \<and> p_enabled p \<and> p_action p = BLOCK
      then (p\<lparr>p_action := WARN\<rparr>, True) else (p, False))"

definition resolve_rule ::
  "inputs \<Rightarrow> config list \<Rightarrow> bool \<Rightarrow> (string \<times> entry) list \<Rightarrow> (string \<times> entry) list \<Rightarrow> policies \<Rightarrow> policies
     \<Rightarrow> (string \<times> grant list) list \<Rightarrow> string \<Rightarrow> policy_error + policy \<times> rule_provenance" where
  "resolve_rule i configs known defaults floors requested floored grants pid =
     (case (map_of requested pid, map_of floored pid) of
        (Some before_floor, Some p) \<Rightarrow>
          (let fl = map_of floors pid;
               src0 = rule_source configs defaults pid;
               (src1, confl) = floor_provenance pid before_floor p fl src0;
               g = pick_grant (case map_of grants pid of None \<Rightarrow> [] | Some gs \<Rightarrow> gs);
               (p1, used) = apply_exception g p;
               (src, lab, enf) =
                 (case used of
                    Some gr \<Rightarrow> (LvException, ''Exception ('' @ gr_scope_label gr @ '')'', snd (snd src1))
                  | None \<Rightarrow> src1);
               (p2, mon) = apply_monitor (gi_mode i) p1
           in Inr (p2,
               \<lparr>rp_policy_id = pid, rp_enabled = p_enabled p2, rp_action = p_action p2,
                rp_source = src, rp_source_label = lab, rp_enforcement = enf, rp_floor = fl,
                rp_conflict = confl, rp_exception_id = map_option gr_exception_id used,
                rp_exception_expires_at = (case used of None \<Rightarrow> None | Some gr \<Rightarrow> gr_expires_at gr),
                rp_action_before_exception = map_option (\<lambda>_. p_action p) used,
                rp_monitor_mode = mon, rp_repository_configuration_known = known\<rparr>))
      | _ \<Rightarrow> Inl (KeyError pid))"

section \<open>The resolver\<close>

definition resolve_policy :: "inputs \<Rightarrow> config list option \<Rightarrow> policy_error + effective_policy" where
  "resolve_policy i repository_configs =
     (let layers = ordered_layers i;
          configs = (case repository_configs of None \<Rightarrow> [] | Some cs \<Rightarrow> cs);
          defaults = collect_defaults layers;
          floors = collect_floors layers
      in case entries_config defaults of Inl e \<Rightarrow> Inl e | Inr defaults_config \<Rightarrow>
        (case build_policy_set (defaults_config # configs) of Inl e \<Rightarrow> Inl e | Inr requested \<Rightarrow>
        (case entries_config floors of Inl e \<Rightarrow> Inl e | Inr floor_cfg \<Rightarrow>
        (case (if floors = [] then Inr requested else apply_mandatory_policies requested floor_cfg)
         of Inl e \<Rightarrow> Inl e | Inr floored \<Rightarrow>
        (case map_err (resolve_rule i configs (repository_configs \<noteq> None) defaults floors
                        requested floored (collect_grants (gi_exceptions i)))
                (sort KNOWN_POLICY_IDS)
         of Inl e \<Rightarrow> Inl e
          | Inr rs \<Rightarrow> Inr \<lparr>ef_policies = map fst rs, ef_rules = map snd rs,
                   ef_description = describe i, ef_mode = gi_mode i\<rparr>)))))"

definition conflicts :: "effective_policy \<Rightarrow> conflict list" where
  "conflicts ep = concat (map (\<lambda>r. case rp_conflict r of None \<Rightarrow> [] | Some c \<Rightarrow> [c]) (ef_rules ep))"

text \<open>\<open>floor_config\<close>: the combined floor, without provenance, in the layers' given order.\<close>

definition add_floor_action :: "string \<times> requirement \<Rightarrow> (string \<times> action) list \<Rightarrow> (string \<times> action) list" where
  "add_floor_action x d =
     (case x of (rule, r) \<Rightarrow>
        if rq_enforcement r = Mandatory
        then AList.update rule (most_restrictive [rq_action r,
               (case map_of d rule of None \<Rightarrow> WARN | Some a \<Rightarrow> a)]) d
        else d)"

definition floor_actions :: "inputs \<Rightarrow> (string \<times> action) list" where
  "floor_actions i = fold (\<lambda>l d. fold add_floor_action (pl_rules l) d) (gi_layers i) []"

definition floor_config :: "inputs \<Rightarrow> (policy_error + config) option" where
  "floor_config i =
     (if floor_actions i = [] then None
      else Some (mk_config (map (\<lambda>(rule, a). (rule, \<lparr>ov_enabled = None, ov_action = Some a\<rparr>))
                              (floor_actions i)) no_enforcement no_remediation))"

section \<open>What the collections hold\<close>

text \<open>The specification side: the mandatory actions any layer states for a rule, and their maximum.\<close>

definition all_rules :: "policy_layer list \<Rightarrow> (policy_layer \<times> string \<times> requirement) list" where
  "all_rules layers = concat (map (\<lambda>l. map (Pair l) (pl_rules l)) layers)"

definition required :: "(policy_layer \<times> string \<times> requirement) list \<Rightarrow> string \<Rightarrow> action list" where
  "required xs pid =
     map (\<lambda>(_, _, r). rq_action r) (filter (\<lambda>(_, k, r). k = pid \<and> rq_enforcement r = Mandatory) xs)"

definition floor_spec :: "inputs \<Rightarrow> string \<Rightarrow> action option" where
  "floor_spec i pid =
     (let req = required (all_rules (gi_layers i)) pid
      in if req = [] then None else Some (most_restrictive req))"

definition spec_action :: "action \<Rightarrow> action option \<Rightarrow> action option \<Rightarrow> repository_mode \<Rightarrow> action" where
  "spec_action asked fl granted mode =
     (let f = (case fl of None \<Rightarrow> asked | Some a \<Rightarrow> max asked a);
          g = (case granted of None \<Rightarrow> f | Some a \<Rightarrow> min f a)
      in if mode = Monitor then min g WARN else g)"

lemma required_append: "required (xs @ ys) pid = required xs pid @ required ys pid"
  by (simp add: required_def)

lemma set_all_rules: "set (all_rules layers) = (\<Union>l\<in>set layers. Pair l ` set (pl_rules l))"
  by (auto simp: all_rules_def)

lemma required_set_cong:
  "set layers = set layers' \<Longrightarrow>
     set (required (all_rules layers) pid) = set (required (all_rules layers') pid)"
  by (simp add: required_def set_all_rules)

lemma fold_layers:
  "fold (\<lambda>l s. fold (f l) (pl_rules l) s) layers s = fold (\<lambda>(l, x). f l x) (all_rules layers) s"
  by (induction layers arbitrary: s) (simp_all add: all_rules_def fold_map o_def)

lemma most_restrictive_snoc:
  "xs \<noteq> [] \<Longrightarrow> most_restrictive (xs @ [a]) = max (most_restrictive xs) a"
proof (rule antisym)
  show "most_restrictive (xs @ [a]) \<le> max (most_restrictive xs) a"
    by (auto simp: most_restrictive_le_iff intro: max.coboundedI1 dest: most_restrictive_ge)
  assume "xs \<noteq> []"
  then show "max (most_restrictive xs) a \<le> most_restrictive (xs @ [a])"
    using most_restrictive_in [of xs] by (auto intro: most_restrictive_ge)
qed

definition floor_opt :: "action list \<Rightarrow> action option" where
  "floor_opt req = (if req = [] then None else Some (most_restrictive req))"

lemma raise_floor_step:
  assumes "\<And>k. map_option fst (map_of fs k) = floor_opt (required seen k)"
  shows "map_option fst (map_of (raise_floor l x fs) k) = floor_opt (required (seen @ [(l, x)]) k)"
proof -
  obtain rule r where x: "x = (rule, r)" by force
  show ?thesis
  proof (cases "rq_enforcement r = Mandatory \<and> k = rule")
    case True
    have "floor_opt (required seen rule) = map_option fst (map_of fs rule)"
      by (simp add: assms)
    with True x show ?thesis
      by (cases "map_of fs rule")
        (auto simp: raise_floor_def required_append required_def floor_opt_def dict_simps
          most_restrictive_snoc max_def action_le split: if_splits dest: act.rank_inj
          simp: most_restrictive_def [of "[_]"] strictest_def py_max_def)
  next
    case False
    then have "required (seen @ [(l, x)]) k = required seen k"
      by (auto simp: required_append required_def x)
    with False assms [of k] show ?thesis
      by (auto simp: raise_floor_def x dict_simps split: option.splits)
  qed
qed

lemma raise_floor_fold:
  assumes "\<And>k. map_option fst (map_of fs k) = floor_opt (required seen k)"
  shows "map_option fst (map_of (fold (\<lambda>(l, x). raise_floor l x) xs fs) k)
           = floor_opt (required (seen @ xs) k)"
  using assms
proof (induction xs arbitrary: fs seen)
  case (Cons y ys)
  obtain l x where y: "y = (l, x)" by (cases y)
  have "map_option fst (map_of (fold (\<lambda>(l, x). raise_floor l x) ys (raise_floor l x fs)) k)
          = floor_opt (required ((seen @ [y]) @ ys) k)"
    by (rule Cons.IH) (simp add: y raise_floor_step [OF Cons.prems])
  then show ?case by (simp add: y)
qed simp

lemma collect_floors_spec:
  "map_option fst (map_of (collect_floors layers) pid)
     = floor_opt (required (all_rules layers) pid)"
  unfolding collect_floors_def fold_layers
  using raise_floor_fold [of "[]" "[]" "all_rules layers" pid]
  by (simp add: required_def floor_opt_def)

lemma floor_of_ordered:
  "map_option fst (map_of (collect_floors (ordered_layers i)) pid) = floor_spec i pid"
proof -
  have "set (required (all_rules (ordered_layers i)) pid) = set (required (all_rules (gi_layers i)) pid)"
    by (rule required_set_cong) (simp add: ordered_layers_def)
  then show ?thesis
    unfolding collect_floors_spec floor_opt_def floor_spec_def Let_def
    by (metis most_restrictive_set_cong set_empty)
qed

text \<open>The keys of the collected dictionaries are rule names of the layers, each once.\<close>

definition rule_names :: "policy_layer list \<Rightarrow> string set" where
  "rule_names layers = (\<Union>l\<in>set layers. set (map fst (pl_rules l)))"

definition keys_in :: "string set \<Rightarrow> (string \<times> 'v) list \<Rightarrow> bool" where
  "keys_in A d \<longleftrightarrow> distinct (map fst d) \<and> set (map fst d) \<subseteq> A"

lemma keys_in_update [intro]: "keys_in A d \<Longrightarrow> k \<in> A \<Longrightarrow> keys_in A (AList.update k v d)"
  by (auto simp: keys_in_def distinct_update dom_update)

lemma keys_in_append_to [intro]: "keys_in A d \<Longrightarrow> k \<in> A \<Longrightarrow> keys_in A (append_to k v d)"
  unfolding append_to_def by (rule keys_in_update)

lemma keys_in_Nil [simp]: "keys_in A []"
  by (simp add: keys_in_def)

lemma fold_keys_in:
  assumes "keys_in A d" and "\<And>x d. x \<in> set xs \<Longrightarrow> keys_in A d \<Longrightarrow> keys_in A (f x d)"
  shows "keys_in A (fold f xs d)"
  using assms by (induction xs arbitrary: d) auto

lemma keys_inD: "keys_in A d \<Longrightarrow> (k, v) \<in> set d \<Longrightarrow> k \<in> A"
  by (force simp: keys_in_def)

lemma rule_namesI: "l \<in> set layers \<Longrightarrow> (k, r) \<in> set (pl_rules l) \<Longrightarrow> k \<in> rule_names layers"
  by (force simp: rule_names_def)

lemma level_entries_keys: "keys_in (rule_names layers) (level_entries layers lv)"
  unfolding level_entries_def
  by (intro fold_keys_in keys_in_Nil) (auto intro!: keys_in_append_to intro: rule_namesI)

lemma add_level_keys:
  "keys_in (rule_names layers) d \<Longrightarrow> keys_in (rule_names layers) (add_level layers lv d)"
  unfolding add_level_def
  by (intro fold_keys_in)
    (auto intro!: keys_in_update dest: keys_inD [OF level_entries_keys] split: option.splits)

lemma collect_defaults_keys: "keys_in (rule_names layers) (collect_defaults layers)"
  by (simp add: collect_defaults_def add_level_keys)

lemma collect_floors_keys: "keys_in (rule_names layers) (collect_floors layers)"
  unfolding collect_floors_def
  by (intro fold_keys_in keys_in_Nil)
    (auto intro!: keys_in_update intro: rule_namesI simp: raise_floor_def split: option.splits)

lemma inputs_rules_known: "inputs_ok i \<Longrightarrow> rule_names (ordered_layers i) \<subseteq> set KNOWN_POLICY_IDS"
  by (fastforce simp: inputs_ok_def rule_names_def ordered_layers_def list_all_iff layer_ok_def
      unknown_ids_def filter_empty_conv)

lemma entries_config_ok:
  assumes "keys_in (set KNOWN_POLICY_IDS) es"
  obtains c where "entries_config es = Inr c" and "config_ok c"
    and "distinct (map fst (cfg_policies c))" and "validate_mandatory_config c = Inr ()"
    and "\<And>k. map_of (cfg_policies c) k
            = map_option (\<lambda>e. \<lparr>ov_enabled = None, ov_action = Some (fst e)\<rparr>) (map_of es k)"
proof -
  let ?ps = "map (\<lambda>(rule, e). (rule, \<lparr>ov_enabled = None, ov_action = Some (fst e)\<rparr>)) es"
  have fst_ps: "map fst ?ps = map fst es" by (auto simp: split_def)
  have keys: "distinct (map fst ?ps)" "set (map fst ?ps) \<subseteq> set KNOWN_POLICY_IDS"
    using assms unfolding fst_ps keys_in_def by auto
  have "unknown_ids (map fst ?ps) = []"
    using assms unfolding fst_ps unknown_ids_def keys_in_def by (auto simp: filter_empty_conv)
  then have c: "entries_config es
      = Inr \<lparr>cfg_policies = ?ps, cfg_enforcement = no_enforcement, cfg_remediation = no_remediation\<rparr>"
    by (simp add: entries_config_def mk_config_def)
  have "map fst (filter (\<lambda>(pid, o'). ov_enabled o' = Some False) ?ps) = []"
    by (auto simp: filter_empty_conv)
  with keys show thesis
    by (intro that [OF c])
      (simp_all only: config_ok_def validate_mandatory_config_def map_of_map config.simps Let_def,
       simp_all)
qed

lemma collect_grants_spec:
  "map_of (collect_grants gs) pid
     = (if filter (\<lambda>g. gr_rule_id g = pid) gs = [] then None
        else Some (filter (\<lambda>g. gr_rule_id g = pid) gs))"
proof -
  have "map_of (fold (\<lambda>g d. append_to (gr_rule_id g) g d) gs d) pid
     = (case map_of d pid of
          None \<Rightarrow> if filter (\<lambda>g. gr_rule_id g = pid) gs = [] then None
                  else Some (filter (\<lambda>g. gr_rule_id g = pid) gs)
        | Some old \<Rightarrow> Some (old @ filter (\<lambda>g. gr_rule_id g = pid) gs))" for d
    by (induction gs arbitrary: d) (auto simp: dict_simps split: option.splits)
  then show ?thesis by (simp add: collect_grants_def)
qed

section \<open>One rule refines the specification\<close>

lemma effective_enabled [simp]:
  "effective_action (p\<lparr>p_enabled := True, p_action := a\<rparr>) = a"
  by (simp add: effective_action_def)

lemma effective_after_exception:
  "effective_action (fst (apply_exception g p))
     = (case g of None \<Rightarrow> effective_action p | Some gr \<Rightarrow> min (effective_action p) (gr_action gr))"
  by (auto simp: apply_exception_def effective_rank_def min_def action_le
      split: option.splits dest: act.rank_inj)

lemma effective_after_monitor:
  "effective_action (fst (apply_monitor mode p))
     = (if mode = Monitor then min (effective_action p) WARN else effective_action p)"
  by (cases "p_action p"; cases mode)
    (auto simp: apply_monitor_def effective_action_def min_def action_le)

definition granted :: "inputs \<Rightarrow> string \<Rightarrow> action option" where
  "granted i pid = map_option gr_action (pick_grant (filter (\<lambda>g. gr_rule_id g = pid) (gi_exceptions i)))"

lemma grants_lookup:
  "(case map_of (collect_grants gs) pid of None \<Rightarrow> [] | Some xs \<Rightarrow> xs)
     = filter (\<lambda>g. gr_rule_id g = pid) gs"
  by (simp add: collect_grants_spec)

text \<open>When a lower layer is reported as asking for less than a floor allows.\<close>

definition conflicting :: "policy_level \<times> string \<times> strength option \<Rightarrow> action option \<Rightarrow> policy \<Rightarrow> bool" where
  "conflicting src fl b \<longleftrightarrow> fst src \<noteq> LvBuiltIn \<and> (\<exists>a. fl = Some a \<and> effective_action b < a)"

lemma floor_provenance_conflict:
  "snd (floor_provenance pid b p fl src) \<noteq> None \<longleftrightarrow> conflicting src (map_option fst fl) b"
  by (cases src)
    (auto simp: floor_provenance_def conflicting_def effective_rank_def action_le split: option.splits)

lemma resolve_rule_ok:
  assumes "map_of requested pid = Some b" and "map_of floored pid = Some p" and "p_id p = pid"
  obtains q rp where "resolve_rule i configs known defaults floors requested floored
         (collect_grants (gi_exceptions i)) pid = Inr (q, rp)"
    and "p_id q = pid"
    and "effective_action q = spec_action (effective_action p) None (granted i pid) (gi_mode i)"
    and "rp_policy_id rp = pid"
    and "rp_conflict rp \<noteq> None \<longleftrightarrow>
      conflicting (rule_source configs defaults pid) (map_option fst (map_of floors pid)) b"
proof -
  let ?g = "pick_grant (filter (\<lambda>g. gr_rule_id g = pid) (gi_exceptions i))"
  let ?q = "fst (apply_monitor (gi_mode i) (fst (apply_exception ?g p)))"
  have "\<exists>rp. resolve_rule i configs known defaults floors requested floored
         (collect_grants (gi_exceptions i)) pid = Inr (?q, rp) \<and> rp_policy_id rp = pid
         \<and> rp_conflict rp = snd (floor_provenance pid b p (map_of floors pid)
                                  (rule_source configs defaults pid))"
    using assms by (simp add: resolve_rule_def grants_lookup Let_def split_def)
  moreover have "p_id ?q = pid"
    using assms(3) by (simp add: apply_monitor_def apply_exception_def split: option.split)
  moreover have "effective_action ?q = spec_action (effective_action p) None (granted i pid) (gi_mode i)"
    by (simp add: effective_after_monitor effective_after_exception spec_action_def granted_def Let_def
        split: option.split)
  ultimately show thesis using that floor_provenance_conflict by metis
qed

section \<open>The resolver refines the specification\<close>

text \<open>Steps 2 to 5 on their own: what the defaults and the repository configuration ask for.\<close>

definition requested_policies :: "inputs \<Rightarrow> config list \<Rightarrow> policy_error + policies" where
  "requested_policies i configs =
     (case entries_config (collect_defaults (ordered_layers i)) of
        Inl e \<Rightarrow> Inl e
      | Inr c \<Rightarrow> build_policy_set (c # configs))"

lemma requested_ok:
  assumes "inputs_ok i" and "layers_ok configs"
  obtains req where "requested_policies i configs = Inr req" and "policies_ok req"
proof -
  have "keys_in (set KNOWN_POLICY_IDS) (collect_defaults (ordered_layers i))"
    using collect_defaults_keys [of "ordered_layers i"] inputs_rules_known [OF assms(1)]
    unfolding keys_in_def by blast
  from entries_config_ok [OF this] obtain c where
    c: "entries_config (collect_defaults (ordered_layers i)) = Inr c" "config_ok c"
       "distinct (map fst (cfg_policies c))" by blast
  with assms(2) have "layers_ok (c # configs)" by (simp add: layers_ok_def)
  from build_policy_set_ok [OF this] c(1) that show thesis
    by (metis requested_policies_def sum.case(2))
qed

lemma spec_action_floor: "spec_action (case fl of None \<Rightarrow> a | Some f \<Rightarrow> max a f) None g m = spec_action a fl g m"
  by (simp add: spec_action_def)

text \<open>Step 6 as the resolver performs it: every named rule raised to its floor.\<close>

lemma floored_ok:
  assumes i: "inputs_ok i" and req: "policies_ok req"
  obtains fc fl where
    "entries_config (collect_floors (ordered_layers i)) = Inr fc"
    and "(if collect_floors (ordered_layers i) = [] then Inr req
          else apply_mandatory_policies req fc) = Inr fl"
    and "policies_ok fl"
    and "\<And>k b. map_of req k = Some b \<Longrightarrow> \<exists>p. map_of fl k = Some p
           \<and> effective_action p = (case floor_spec i k of None \<Rightarrow> effective_action b
                                   | Some a \<Rightarrow> max (effective_action b) a)"
proof -
  let ?fs = "collect_floors (ordered_layers i)"
  have "keys_in (set KNOWN_POLICY_IDS) ?fs"
    using collect_floors_keys [of "ordered_layers i"] inputs_rules_known [OF i]
    unfolding keys_in_def by blast
  from entries_config_ok [OF this] obtain fc where fc: "entries_config ?fs = Inr fc"
      "config_ok fc" "distinct (map fst (cfg_policies fc))" "validate_mandatory_config fc = Inr ()"
    and lk: "\<And>k. map_of (cfg_policies fc) k
        = map_option (\<lambda>e. \<lparr>ov_enabled = None, ov_action = Some (fst e)\<rparr>) (map_of ?fs k)"
    by blast
  show thesis
  proof (cases "?fs = []")
    case True
    then have "floor_spec i k = None" for k using floor_of_ordered [of i k] by simp
    with True req show thesis by (intro that [OF fc(1)]) auto
  next
    case False
    from apply_mandatory_ok [OF req fc(2-4)] obtain fl where fl:
      "apply_mandatory_policies req fc = Inr fl" "policies_ok fl"
      "\<And>k. map_of fl k = (case map_of (cfg_policies fc) k of None \<Rightarrow> map_of req k
                | Some ov \<Rightarrow> map_option (floor_policy (floor_of k ov)) (map_of req k))"
      by blast
    show thesis
    proof (rule that [OF fc(1)])
      show "(if ?fs = [] then Inr req else apply_mandatory_policies req fc) = Inr fl"
        using False fl(1) by simp
      show "policies_ok fl" by (rule fl(2))
      show "\<exists>p. map_of fl k = Some p \<and> effective_action p =
          (case floor_spec i k of None \<Rightarrow> effective_action b | Some a \<Rightarrow> max (effective_action b) a)"
        if "map_of req k = Some b" for k b
        using that floor_of_ordered [of i k]
        by (cases "map_of ?fs k")
          (auto simp: fl(3) lk floor_of_def mandatory_floor_def simp del: floor_of_ordered
            split: option.splits sum.splits)
    qed
  qed
qed

lemma resolve_policy_spec:
  assumes "inputs_ok i" and "layers_ok configs"
  shows "\<exists>ep req. resolve_policy i (Some configs) = Inr ep
     \<and> requested_policies i configs = Inr req
     \<and> map p_id (ef_policies ep) = sort KNOWN_POLICY_IDS
     \<and> (\<forall>p \<in> set (ef_policies ep). \<exists>b. map_of req (p_id p) = Some b
           \<and> effective_action p
               = spec_action (effective_action b) (floor_spec i (p_id p)) (granted i (p_id p)) (gi_mode i))
     \<and> map rp_policy_id (ef_rules ep) = sort KNOWN_POLICY_IDS
     \<and> (\<forall>r \<in> set (ef_rules ep). \<exists>b. map_of req (rp_policy_id r) = Some b
           \<and> (rp_conflict r \<noteq> None \<longleftrightarrow>
                conflicting (rule_source configs (collect_defaults (ordered_layers i)) (rp_policy_id r))
                  (floor_spec i (rp_policy_id r)) b))"
proof -
  from requested_ok [OF assms] obtain req where
    req: "requested_policies i configs = Inr req" "policies_ok req" by blast
  then obtain c where c: "entries_config (collect_defaults (ordered_layers i)) = Inr c"
      "build_policy_set (c # configs) = Inr req"
    by (auto simp: requested_policies_def split: sum.splits)
  from floored_ok [OF assms(1) req(2)] obtain fc fl where
    fc: "entries_config (collect_floors (ordered_layers i)) = Inr fc"
    and ap: "(if collect_floors (ordered_layers i) = [] then Inr req
          else apply_mandatory_policies req fc) = Inr fl"
    and flok: "policies_ok fl"
    and fl: "\<And>k b. map_of req k = Some b \<Longrightarrow> \<exists>p. map_of fl k = Some p
           \<and> effective_action p = (case floor_spec i k of None \<Rightarrow> effective_action b
                                   | Some a \<Rightarrow> max (effective_action b) a)"
    by blast
  let ?res = "resolve_rule i configs True (collect_defaults (ordered_layers i))
      (collect_floors (ordered_layers i)) req fl (collect_grants (gi_exceptions i))"
  let ?conf = "\<lambda>pid b. conflicting (rule_source configs (collect_defaults (ordered_layers i)) pid)
      (floor_spec i pid) b"
  have one: "\<exists>q rp b. ?res pid = Inr (q, rp) \<and> p_id q = pid \<and> map_of req pid = Some b
      \<and> effective_action q
          = spec_action (effective_action b) (floor_spec i pid) (granted i pid) (gi_mode i)
      \<and> rp_policy_id rp = pid \<and> (rp_conflict rp \<noteq> None \<longleftrightarrow> ?conf pid b)"
    if "pid \<in> set KNOWN_POLICY_IDS" for pid
  proof -
    from that req(2) obtain b where b: "map_of req pid = Some b" by (blast dest: policies_okD(3))
    with fl obtain p where p: "map_of fl pid = Some p"
      "effective_action p = (case floor_spec i pid of None \<Rightarrow> effective_action b
                              | Some a \<Rightarrow> max (effective_action b) a)" by blast
    obtain q rp where "?res pid = Inr (q, rp)" "p_id q = pid"
      "effective_action q = spec_action (effective_action p) None (granted i pid) (gi_mode i)"
      "rp_policy_id rp = pid" "rp_conflict rp \<noteq> None \<longleftrightarrow> ?conf pid b"
      by (rule resolve_rule_ok [OF b p(1) policies_okD(2) [OF flok p(1)],
            of i configs True "collect_defaults (ordered_layers i)"
               "collect_floors (ordered_layers i)"]) (simp add: floor_of_ordered)
    then show ?thesis using b p(2) spec_action_floor by auto
  qed
  define out where "out = (\<lambda>pid. case ?res pid of Inr x \<Rightarrow> x)"
  have out: "?res pid = Inr (out pid) \<and> p_id (fst (out pid)) = pid
      \<and> (\<exists>b. map_of req pid = Some b \<and> effective_action (fst (out pid))
          = spec_action (effective_action b) (floor_spec i pid) (granted i pid) (gi_mode i)
        \<and> rp_policy_id (snd (out pid)) = pid \<and> (rp_conflict (snd (out pid)) \<noteq> None \<longleftrightarrow> ?conf pid b))"
    if "pid \<in> set KNOWN_POLICY_IDS" for pid
    using one [OF that] by (auto simp: out_def)
  have me: "map_err ?res (sort KNOWN_POLICY_IDS) = Inr (map out (sort KNOWN_POLICY_IDS))"
    by (rule map_err_total) (simp add: out)
  have ep: "resolve_policy i (Some configs) = Inr
      \<lparr>ef_policies = map (fst \<circ> out) (sort KNOWN_POLICY_IDS),
       ef_rules = map (snd \<circ> out) (sort KNOWN_POLICY_IDS), ef_description = describe i,
       ef_mode = gi_mode i\<rparr>"
    by (simp add: resolve_policy_def Let_def c fc ap me)
  have ids: "map (p_id \<circ> (fst \<circ> out)) (sort KNOWN_POLICY_IDS) = sort KNOWN_POLICY_IDS"
    by (rule map_idI) (simp add: out)
  have ids': "map (rp_policy_id \<circ> (snd \<circ> out)) (sort KNOWN_POLICY_IDS) = sort KNOWN_POLICY_IDS"
    by (rule map_idI) (use out in force)
  have pols: "\<exists>b. map_of req (p_id (fst (out pid))) = Some b \<and> effective_action (fst (out pid))
      = spec_action (effective_action b) (floor_spec i (p_id (fst (out pid))))
          (granted i (p_id (fst (out pid)))) (gi_mode i)" if "pid \<in> set KNOWN_POLICY_IDS" for pid
    using out [OF that] by auto
  have confs: "\<exists>b. map_of req (rp_policy_id (snd (out pid))) = Some b \<and>
      (rp_conflict (snd (out pid)) \<noteq> None \<longleftrightarrow> ?conf (rp_policy_id (snd (out pid))) b)"
    if "pid \<in> set KNOWN_POLICY_IDS" for pid
    using out [OF that] by auto
  show ?thesis
    by (intro exI conjI, rule ep, rule req(1)) (use ids ids' pols confs in simp_all)
qed

section \<open>Properties of the resolver\<close>

text \<open>A mandatory requirement of any layer is below the floor.\<close>

lemma requirement_below_floor:
  assumes "l \<in> set (gi_layers i)" and "(pid, r) \<in> set (pl_rules l)" and "rq_enforcement r = Mandatory"
  obtains a where "floor_spec i pid = Some a" and "rq_action r \<le> a"
proof -
  from assms have "rq_action r \<in> set (required (all_rules (gi_layers i)) pid)"
    by (force simp: required_def set_all_rules)
  then show thesis
    by (intro that [of "most_restrictive (required (all_rules (gi_layers i)) pid)"])
      (auto simp: floor_spec_def Let_def intro: most_restrictive_ge)
qed

lemma resolve_policy_member:
  assumes "inputs_ok i" and "layers_ok configs" and "resolve_policy i (Some configs) = Inr ep"
    and "p \<in> set (ef_policies ep)"
  obtains req b where "requested_policies i configs = Inr req" and "map_of req (p_id p) = Some b"
    and "effective_action p
           = spec_action (effective_action b) (floor_spec i (p_id p)) (granted i (p_id p)) (gi_mode i)"
  using resolve_policy_spec [OF assms(1,2)] assms(3,4) that by (metis sum.inject(2))

lemma granted_None: "list_all (\<lambda>g. gr_rule_id g \<noteq> pid) (gi_exceptions i) \<Longrightarrow> granted i pid = None"
  by (auto simp: granted_def pick_grant_def list_all_iff py_max_def filter_empty_conv [THEN iffD2]
      split: option.splits)

lemma pick_grant_in: "pick_grant gs = Some g \<Longrightarrow> g \<in> set gs"
  by (auto simp: pick_grant_def split: option.splits dest!: py_max_SomeD(1))

text \<open>Concrete inputs: one organization floor, a repository that asks for less, one exception.\<close>

definition org_layer :: policy_layer where
  "org_layer = \<lparr>pl_level = LvOrganization, pl_source_id = [], pl_label = ''Organization policy v3'',
     pl_version = Some 3,
     pl_rules = [(''ai_coauthor'', \<lparr>rq_action = BLOCK, rq_enforcement = Mandatory\<rparr>),
                 (''bot_identity'', \<lparr>rq_action = ALLOW, rq_enforcement = Default\<rparr>)]\<rparr>"

definition weak_config :: config where
  "weak_config = \<lparr>cfg_policies = [(''ai_coauthor'', \<lparr>ov_enabled = Some False, ov_action = None\<rparr>)],
     cfg_enforcement = no_enforcement, cfg_remediation = no_remediation\<rparr>"

definition repo_grant :: grant where
  "repo_grant = \<lparr>gr_exception_id = ''e1'', gr_rule_id = ''ai_coauthor'', gr_action = WARN,
     gr_scope = ScRepository, gr_scope_label = ''acme/web'', gr_expires_at = Some 1700000000\<rparr>"

definition plain_inputs :: inputs where
  "plain_inputs = \<lparr>gi_layers = [org_layer], gi_exceptions = [], gi_mode = Enforce\<rparr>"

definition granted_inputs :: inputs where
  "granted_inputs = \<lparr>gi_layers = [org_layer], gi_exceptions = [repo_grant], gi_mode = Enforce\<rparr>"

lemmas sample_defs = org_layer_def weak_config_def repo_grant_def plain_inputs_def granted_inputs_def

lemma sample_inputs_ok: "inputs_ok plain_inputs" "inputs_ok granted_inputs" "layers_ok [weak_config]"
  by (simp_all add: sample_defs inputs_ok_def layer_ok_def grant_ok_def requirement_ok_def
      unknown_ids_def KNOWN_POLICY_IDS_def DEFAULT_POLICIES_def mk_policy_def MAX_LAYERS_def
      MAX_EXCEPTIONS_def layers_ok_def config_ok_def)



text \<open>A mandatory requirement cannot be weakened: whatever a repository configures, a rule that
  some layer requires at an action is enforced at least at that action, as long as the repository
  is in enforce mode and no approved exception names the rule.\<close>

theorem mandatory_requirement_holds:
  assumes "inputs_ok i" and "layers_ok configs"
    and "resolve_policy i (Some configs) = Inr ep" and "p \<in> set (ef_policies ep)"
    and "l \<in> set (gi_layers i)" and "(p_id p, r) \<in> set (pl_rules l)" and "rq_enforcement r = Mandatory"
    and "list_all (\<lambda>g. gr_rule_id g \<noteq> p_id p) (gi_exceptions i)" and "gi_mode i = Enforce"
  shows "rq_action r \<le> effective_action p"
proof -
  obtain a where "floor_spec i (p_id p) = Some a" "rq_action r \<le> a"
    by (rule requirement_below_floor [OF assms(5-7)])
  moreover obtain b where "effective_action p
      = spec_action b (floor_spec i (p_id p)) (granted i (p_id p)) (gi_mode i)"
    by (rule resolve_policy_member [OF assms(1-4)])
  ultimately show ?thesis
    using granted_None [OF assms(8)] assms(9) by (auto simp: spec_action_def le_max_iff_disj)
qed

text \<open>Exceptions and monitor mode never tighten a rule, and nothing else loosens one: compared
  with the same inputs without exceptions and in enforce mode, the enforced action is at most the
  same, and it is lower only when an exception for this rule grants a lower action, or monitor mode
  reports a block as a warning.\<close>

theorem only_exceptions_lower:
  assumes "inputs_ok i" and "layers_ok configs"
    and "resolve_policy i (Some configs) = Inr ep" and "p \<in> set (ef_policies ep)"
    and "resolve_policy (i\<lparr>gi_exceptions := [], gi_mode := Enforce\<rparr>) (Some configs) = Inr ep0"
    and "p0 \<in> set (ef_policies ep0)" and "p_id p0 = p_id p"
  shows "effective_action p \<le> effective_action p0
     \<and> (effective_action p < effective_action p0 \<longrightarrow>
         (\<exists>g \<in> set (gi_exceptions i). gr_rule_id g = p_id p \<and> gr_action g < effective_action p0)
         \<or> (gi_mode i = Monitor \<and> effective_action p0 = BLOCK))"
proof -
  let ?i0 = "i\<lparr>gi_exceptions := [], gi_mode := Enforce\<rparr>"
  have i0: "inputs_ok ?i0" using assms(1) by (simp add: inputs_ok_def)
  obtain req b where b: "requested_policies i configs = Inr req" "map_of req (p_id p) = Some b"
      "effective_action p
         = spec_action (effective_action b) (floor_spec i (p_id p)) (granted i (p_id p)) (gi_mode i)"
    by (rule resolve_policy_member [OF assms(1-4)])
  obtain req0 b0 where b0: "requested_policies ?i0 configs = Inr req0" "map_of req0 (p_id p0) = Some b0"
      "effective_action p0 = spec_action (effective_action b0) (floor_spec ?i0 (p_id p0))
          (granted ?i0 (p_id p0)) (gi_mode ?i0)"
    by (rule resolve_policy_member [OF i0 assms(2,5,6)])
  have "requested_policies ?i0 configs = requested_policies i configs"
    by (simp add: requested_policies_def ordered_layers_def)
  with b b0 assms(7) have "b0 = b" by simp
  have "floor_spec ?i0 (p_id p) = floor_spec i (p_id p)" "granted ?i0 (p_id p) = None"
    by (simp_all add: floor_spec_def granted_None)
  with b0(3) \<open>b0 = b\<close> assms(7) have e0: "effective_action p0
      = spec_action (effective_action b) (floor_spec i (p_id p)) None Enforce" by simp
  show ?thesis
  proof (cases "granted i (p_id p)")
    case None
    with b(3) e0 show ?thesis
      by (cases "effective_action p0") (auto simp: spec_action_def action_le min_def)
  next
    case (Some a)
    then obtain g where "g \<in> set (gi_exceptions i)" "gr_rule_id g = p_id p" "gr_action g = a"
      by (auto simp: granted_def dest!: pick_grant_in)
    moreover have "effective_action p = spec_action (effective_action p0) None (Some a) (gi_mode i)"
      using b(3) e0 Some by (simp add: spec_action_def)
    ultimately show ?thesis
      by (cases "effective_action p0"; cases a; cases "gi_mode i")
        (auto simp: spec_action_def action_le min_def)
  qed
qed

text \<open>A conflict is recorded for a rule exactly when a layer other than the built-in default
  decided the requested action and that action is below the mandatory floor: a request for less is
  never dropped silently, and no conflict is reported where nobody asked for less.\<close>

theorem conflict_reported_iff:
  assumes "inputs_ok i" and "layers_ok configs"
    and "resolve_policy i (Some configs) = Inr ep" and "r \<in> set (ef_rules ep)"
  shows "\<exists>req b. requested_policies i configs = Inr req \<and> map_of req (rp_policy_id r) = Some b
     \<and> (rp_conflict r \<noteq> None \<longleftrightarrow>
          fst (rule_source configs (collect_defaults (ordered_layers i)) (rp_policy_id r)) \<noteq> LvBuiltIn
          \<and> (\<exists>a. floor_spec i (rp_policy_id r) = Some a \<and> effective_action b < a))"
proof -
  from resolve_policy_spec [OF assms(1,2)] assms(3,4) obtain req b where
    "requested_policies i configs = Inr req" "map_of req (rp_policy_id r) = Some b"
    "rp_conflict r \<noteq> None \<longleftrightarrow>
       conflicting (rule_source configs (collect_defaults (ordered_layers i)) (rp_policy_id r))
         (floor_spec i (rp_policy_id r)) b"
    by auto
  then show ?thesis unfolding conflicting_def by blast
qed

definition resolved :: "inputs \<Rightarrow> config list \<Rightarrow> effective_policy" where
  "resolved i cs = (case resolve_policy i (Some cs) of
     Inr ep \<Rightarrow> ep | Inl _ \<Rightarrow> \<lparr>ef_policies = [], ef_rules = [], ef_description = [], ef_mode = Enforce\<rparr>)"

lemma resolved_eq:
  "inputs_ok i \<Longrightarrow> layers_ok cs \<Longrightarrow> resolve_policy i (Some cs) = Inr (resolved i cs)"
  using resolve_policy_spec [of i cs] by (auto simp: resolved_def)

definition policy_at :: "effective_policy \<Rightarrow> string \<Rightarrow> policy" where
  "policy_at ep pid = (case filter (\<lambda>p. p_id p = pid) (ef_policies ep) of
     p # _ \<Rightarrow> p | [] \<Rightarrow> mk_policy pid BLOCK [])"

definition rule_at :: "effective_policy \<Rightarrow> nat \<Rightarrow> rule_provenance" where
  "rule_at ep n = ef_rules ep ! n"

lemma granted_sample:
  "policy_at (resolved granted_inputs [weak_config]) ''ai_coauthor''
     \<in> set (ef_policies (resolved granted_inputs [weak_config]))"
  by code_simp

lemma plain_sample:
  "policy_at (resolved plain_inputs [weak_config]) ''ai_coauthor''
     \<in> set (ef_policies (resolved plain_inputs [weak_config]))"
  by code_simp

lemma sample_ids:
  "p_id (policy_at (resolved plain_inputs [weak_config]) ''ai_coauthor'') = ''ai_coauthor''"
  "p_id (policy_at (resolved granted_inputs [weak_config]) ''ai_coauthor'') = ''ai_coauthor''"
  "effective_action (policy_at (resolved granted_inputs [weak_config]) ''ai_coauthor'') = WARN"
  by code_simp+

theorem mandatory_requirement_holds_witness:
  "BLOCK \<le> effective_action (policy_at (resolved plain_inputs [weak_config]) ''ai_coauthor'')"
proof -
  let ?p = "policy_at (resolved plain_inputs [weak_config]) ''ai_coauthor''"
  note m = plain_sample and pid = sample_ids(1)
  let ?r = "\<lparr>rq_action = BLOCK, rq_enforcement = Mandatory\<rparr>"
  have l: "org_layer \<in> set (gi_layers plain_inputs)" by (simp add: plain_inputs_def)
  have r: "(p_id ?p, ?r) \<in> set (pl_rules org_layer)" unfolding pid by (simp add: org_layer_def)
  have "rq_action ?r \<le> effective_action ?p"
    using mandatory_requirement_holds [OF sample_inputs_ok(1,3)
        resolved_eq [OF sample_inputs_ok(1,3)] m l r]
    by (simp add: plain_inputs_def)
  then show ?thesis by simp
qed

theorem only_exceptions_lower_witness:
  "effective_action (policy_at (resolved granted_inputs [weak_config]) ''ai_coauthor'') = WARN
   \<and> effective_action (policy_at (resolved granted_inputs [weak_config]) ''ai_coauthor'')
     \<le> effective_action (policy_at (resolved plain_inputs [weak_config]) ''ai_coauthor'')"
proof -
  have drop: "granted_inputs\<lparr>gi_exceptions := [], gi_mode := Enforce\<rparr> = plain_inputs"
    by (simp add: sample_defs)
  show ?thesis
    using only_exceptions_lower [OF sample_inputs_ok(2,3) resolved_eq [OF sample_inputs_ok(2,3)]
        granted_sample, unfolded drop, OF resolved_eq [OF sample_inputs_ok(1,3)] plain_sample]
    by (simp add: sample_ids)
qed

theorem conflict_reported_iff_witness:
  "rp_conflict (rule_at (resolved plain_inputs [weak_config]) 0) \<noteq> None
   \<and> (\<exists>a. floor_spec plain_inputs ''ai_coauthor'' = Some a)"
proof -
  let ?r = "rule_at (resolved plain_inputs [weak_config]) 0"
  have m: "?r \<in> set (ef_rules (resolved plain_inputs [weak_config]))" by code_simp
  have pid: "rp_policy_id ?r = ''ai_coauthor''" by code_simp
  have c: "rp_conflict ?r \<noteq> None" by code_simp
  from conflict_reported_iff [OF sample_inputs_ok(1,3) resolved_eq [OF sample_inputs_ok(1,3)] m]
  show ?thesis using c unfolding pid by blast
qed

text \<open>The floor computed without provenance.\<close>

lemma add_floor_step:
  assumes "\<And>k. map_of d k = floor_opt (required seen k)" and "requirement_ok (snd x)"
  shows "map_of (add_floor_action x d) k = floor_opt (required (seen @ [(l, x)]) k)"
proof -
  obtain rule r where x: "x = (rule, r)" by (cases x)
  show ?thesis
  proof (cases "rq_enforcement r = Mandatory \<and> k = rule")
    case True
    with assms(2) x have "WARN \<le> rq_action r"
      by (cases "rq_action r") (auto simp: requirement_ok_def action_le)
    moreover have "most_restrictive [a] = a" for a
      by (simp add: most_restrictive_def strictest_def py_max_def)
    ultimately show ?thesis
      using True x assms(1) [of rule]
      by (auto simp: add_floor_action_def required_append required_def floor_opt_def dict_simps
          most_restrictive_snoc max.commute max_absorb1 split: if_splits)
  next
    case False
    then have "required (seen @ [(l, x)]) k = required seen k"
      by (auto simp: required_append required_def x)
    with False assms(1) [of k] show ?thesis
      by (auto simp: add_floor_action_def x dict_simps)
  qed
qed

lemma add_floor_fold:
  assumes "\<And>k. map_of d k = floor_opt (required seen k)" and "\<forall>(_, x) \<in> set xs. requirement_ok (snd x)"
  shows "map_of (fold (\<lambda>(l, x). add_floor_action x) xs d) k = floor_opt (required (seen @ xs) k)"
  using assms
proof (induction xs arbitrary: d seen)
  case (Cons y ys)
  obtain l x where y: "y = (l, x)" by (cases y)
  have "map_of (fold (\<lambda>(l, x). add_floor_action x) ys (add_floor_action x d)) k
          = floor_opt (required ((seen @ [y]) @ ys) k)"
    by (rule Cons.IH) (use Cons.prems y in \<open>auto intro!: add_floor_step\<close>)
  then show ?case by (simp add: y)
qed simp

lemma floor_actions_spec: "inputs_ok i \<Longrightarrow> map_of (floor_actions i) pid = floor_spec i pid"
  unfolding floor_actions_def fold_layers floor_spec_def Let_def floor_opt_def [symmetric]
  using add_floor_fold [of "[]" "[]" "all_rules (gi_layers i)" pid]
  by (force simp: required_def floor_opt_def inputs_ok_def layer_ok_def list_all_iff set_all_rules)

lemma mk_config_policies: "mk_config ps e r = Inr c \<Longrightarrow> cfg_policies c = ps"
  by (auto simp: mk_config_def Let_def split: if_splits)

text \<open>The combined floor shown in the dashboard agrees with the one the resolver enforces,
  although the two are computed by different loops over differently ordered layers: for every rule
  the two floors name the same action, or neither has the rule.\<close>

theorem floor_config_agrees:
  assumes "inputs_ok i" and "floor_config i = Some (Inr c)"
  shows "map_option (\<lambda>ov. ov_action ov) (map_of (cfg_policies c) pid)
           = map_option (\<lambda>e. Some (fst e)) (map_of (collect_floors (ordered_layers i)) pid)"
proof -
  from assms(2) have "cfg_policies c
      = map (\<lambda>(rule, a). (rule, \<lparr>ov_enabled = None, ov_action = Some a\<rparr>)) (floor_actions i)"
    by (auto simp: floor_config_def split: if_splits dest!: mk_config_policies)
  then have "map_option (\<lambda>ov. ov_action ov) (map_of (cfg_policies c) pid)
      = map_option Some (map_of (floor_actions i) pid)"
    by (simp add: map_of_map option.map_comp o_def)
  also have "\<dots> = map_option Some (map_option fst (map_of (collect_floors (ordered_layers i)) pid))"
    using floor_actions_spec [OF assms(1)] floor_of_ordered by metis
  finally show ?thesis by (simp add: option.map_comp o_def)
qed

theorem floor_config_agrees_witness:
  "map_option (\<lambda>ov. ov_action ov)
     (map_of [(''ai_coauthor'', \<lparr>ov_enabled = None, ov_action = Some BLOCK\<rparr>)] ''ai_coauthor'')
   = map_option (\<lambda>e. Some (fst e))
       (map_of (collect_floors (ordered_layers plain_inputs)) ''ai_coauthor'')"
proof -
  let ?c = "\<lparr>cfg_policies = [(''ai_coauthor'', \<lparr>ov_enabled = None, ov_action = Some BLOCK\<rparr>)],
     cfg_enforcement = no_enforcement, cfg_remediation = no_remediation\<rparr>"
  have "floor_config plain_inputs = Some (Inr ?c)" by code_simp
  from floor_config_agrees [OF sample_inputs_ok(1) this, of "''ai_coauthor''"] show ?thesis by simp
qed

end
