(* ===== verification/Gov_State.thy ===== *)
theory Gov_State
  imports Complex_Main Members Governance
begin

text \<open>
  What the governance services share: the repositories of an account and the ones a session can see
  (\<open>governance/common.py\<close>), the effective-policy cache and its invalidation (\<open>governance/cache.py\<close>), the audit log and
  the notification outbox they write to, and the organization settings (\<open>governance/settings.py\<close>).
  Rates are the exact rational values of the floating-point numbers; times are whole seconds.
\<close>

section \<open>Settings\<close>

datatype archived_mode = ArKeep | ArExclude

record settings =
  st_baseline :: "(string \<times> action) list"
  st_require_approval :: bool
  st_separate_approver :: bool
  st_min_severity :: severity
  st_max_days :: int
  st_allow_permanent :: bool
  st_warning_days :: "int list"
  st_onboarding :: repository_mode
  st_auto_onboard :: bool
  st_archived :: archived_mode
  st_auto_pause :: bool
  st_max_error_rate :: rat
  st_max_block_rate :: rat
  st_min_scans :: int
  st_auto_rollback :: bool
  st_aggregate :: bool
  st_timezone :: ustr

definition DEFAULT_SETTINGS :: settings where
  "DEFAULT_SETTINGS =
     \<lparr>st_baseline = [], st_require_approval = False, st_separate_approver = True, st_min_severity = SevHigh,
      st_max_days = 90, st_allow_permanent = False, st_warning_days = [7, 3, 1], st_onboarding = Enforce,
      st_auto_onboard = True, st_archived = ArKeep, st_auto_pause = True,
      st_max_error_rate = 3602879701896397 / 18014398509481984, st_max_block_rate = 1 / 2, st_min_scans = 5,
      st_auto_rollback = False, st_aggregate = False, st_timezone = asc ''UTC''\<rparr>"

text \<open>The validators, which also put the baseline and the warning days in order; \<open>zone\<close> knows the time zones.\<close>

definition settings_valid :: "(ustr \<Rightarrow> bool) \<Rightarrow> settings \<Rightarrow> bool" where
  "settings_valid zone s \<longleftrightarrow>
     unknown_ids (map fst (st_baseline s)) = [] \<and> ALLOW \<notin> snd ` set (st_baseline s)
     \<and> 1 \<le> st_max_days s \<and> st_max_days s \<le> 365
     \<and> length (st_warning_days s) \<le> 5 \<and> list_all (\<lambda>d. 1 \<le> d \<and> d \<le> 90) (st_warning_days s)
     \<and> 0 \<le> st_max_error_rate s \<and> st_max_error_rate s \<le> 1 \<and> 0 \<le> st_max_block_rate s \<and> st_max_block_rate s \<le> 1
     \<and> 1 \<le> st_min_scans s \<and> st_min_scans s \<le> 10000
     \<and> length (st_timezone s) \<le> 64 \<and> zone (st_timezone s)"

definition settings_normal :: "settings \<Rightarrow> settings" where
  "settings_normal s =
     s\<lparr>st_baseline := sort_key fst (st_baseline s), st_warning_days := rev (sort (remdups (st_warning_days s)))\<rparr>"

text \<open>A request changes some of the fields; a field it names that does not exist is refused.\<close>

datatype setting_change =
    ChBaseline "(string \<times> action) list"
  | ChRequireApproval bool
  | ChSeparateApprover bool
  | ChMinSeverity severity
  | ChMaxDays int
  | ChAllowPermanent bool
  | ChWarningDays "int list"
  | ChOnboarding repository_mode
  | ChAutoOnboard bool
  | ChArchived archived_mode
  | ChAutoPause bool
  | ChMaxErrorRate rat
  | ChMaxBlockRate rat
  | ChMinScans int
  | ChAutoRollback bool
  | ChAggregate bool
  | ChTimezone ustr
  | ChUnknown string

fun apply_change :: "setting_change \<Rightarrow> settings \<Rightarrow> settings option" where
  "apply_change (ChBaseline b) s = Some (s\<lparr>st_baseline := dict_of b\<rparr>)"
| "apply_change (ChRequireApproval x) s = Some (s\<lparr>st_require_approval := x\<rparr>)"
| "apply_change (ChSeparateApprover x) s = Some (s\<lparr>st_separate_approver := x\<rparr>)"
| "apply_change (ChMinSeverity x) s = Some (s\<lparr>st_min_severity := x\<rparr>)"
| "apply_change (ChMaxDays x) s = Some (s\<lparr>st_max_days := x\<rparr>)"
| "apply_change (ChAllowPermanent x) s = Some (s\<lparr>st_allow_permanent := x\<rparr>)"
| "apply_change (ChWarningDays x) s = Some (s\<lparr>st_warning_days := x\<rparr>)"
| "apply_change (ChOnboarding x) s = Some (s\<lparr>st_onboarding := x\<rparr>)"
| "apply_change (ChAutoOnboard x) s = Some (s\<lparr>st_auto_onboard := x\<rparr>)"
| "apply_change (ChArchived x) s = Some (s\<lparr>st_archived := x\<rparr>)"
| "apply_change (ChAutoPause x) s = Some (s\<lparr>st_auto_pause := x\<rparr>)"
| "apply_change (ChMaxErrorRate x) s = Some (s\<lparr>st_max_error_rate := x\<rparr>)"
| "apply_change (ChMaxBlockRate x) s = Some (s\<lparr>st_max_block_rate := x\<rparr>)"
| "apply_change (ChMinScans x) s = Some (s\<lparr>st_min_scans := x\<rparr>)"
| "apply_change (ChAutoRollback x) s = Some (s\<lparr>st_auto_rollback := x\<rparr>)"
| "apply_change (ChAggregate x) s = Some (s\<lparr>st_aggregate := x\<rparr>)"
| "apply_change (ChTimezone x) s = Some (s\<lparr>st_timezone := x\<rparr>)"
| "apply_change (ChUnknown _) s = None"

fun merge_changes :: "setting_change list \<Rightarrow> settings \<Rightarrow> settings option" where
  "merge_changes [] s = Some s"
| "merge_changes (c # cs) s = (case apply_change c s of None \<Rightarrow> None | Some s' \<Rightarrow> merge_changes cs s')"

definition validated :: "(ustr \<Rightarrow> bool) \<Rightarrow> setting_change list \<Rightarrow> settings \<Rightarrow> settings option" where
  "validated zone cs s =
     (case merge_changes cs s of
        None \<Rightarrow> None
      | Some m \<Rightarrow> if settings_valid zone m then Some (settings_normal m) else None)"

text \<open>\<open>weakening_changes\<close>: one entry per relaxed control, in the order of the code.\<close>

datatype weakening =
    WkBaseline string action "action option"
  | WkApproval
  | WkSeparateApprover
  | WkSeverity severity severity
  | WkMaxDays int int
  | WkPermanent
  | WkOnboarding
  | WkAutoPause
  | WkErrorRate
  | WkBlockRate

definition weakening_changes :: "settings \<Rightarrow> settings \<Rightarrow> weakening list" where
  "weakening_changes old new =
     map (\<lambda>(rule, a). WkBaseline rule a (map_of (st_baseline new) rule))
       (filter (\<lambda>(rule, a). case map_of (st_baseline new) rule of None \<Rightarrow> True | Some b \<Rightarrow> action_rank b < action_rank a)
          (st_baseline old))
     @ (if st_require_approval old \<and> \<not> st_require_approval new then [WkApproval] else [])
     @ (if st_separate_approver old \<and> \<not> st_separate_approver new then [WkSeparateApprover] else [])
     @ (if severity_rank (st_min_severity old) < severity_rank (st_min_severity new)
        then [WkSeverity (st_min_severity old) (st_min_severity new)] else [])
     @ (if st_max_days old < st_max_days new then [WkMaxDays (st_max_days old) (st_max_days new)] else [])
     @ (if st_allow_permanent new \<and> \<not> st_allow_permanent old then [WkPermanent] else [])
     @ (if st_onboarding old = Enforce \<and> st_onboarding new = Monitor then [WkOnboarding] else [])
     @ (if st_auto_pause old \<and> \<not> st_auto_pause new then [WkAutoPause] else [])
     @ (if st_max_error_rate old < st_max_error_rate new then [WkErrorRate] else [])
     @ (if st_max_block_rate old < st_max_block_rate new then [WkBlockRate] else [])"

section \<open>Tables\<close>

record known_repository =
  kr_installation_id :: int
  kr_repository_id :: int
  kr_owner :: ustr
  kr_name :: ustr
  kr_archived :: bool
  kr_last_seen_at :: int

datatype cache_state = CsUpToDate | CsStale | CsSyncing | CsError

datatype exception_status = ExRequested | ExActive | ExRejected | ExCancelled | ExRevoked | ExExpired

record exception_row =
  ex_account_id :: int
  ex_rule_id :: string
  ex_scope :: exception_scope
  ex_scope_id :: ustr
  ex_grant_action :: action
  ex_severity :: severity
  ex_status :: exception_status
  ex_requires_approval :: bool
  ex_permanent :: bool
  ex_expires_at :: "int option"
  ex_requested_at :: int
  ex_requested_by :: int
  ex_reason_text :: ustr
  ex_decided_at :: "int option"
  ex_decided_by :: "int option"
  ex_note :: "ustr option"
  ex_activated_at :: "int option"
  ex_ended_at :: "int option"
  ex_warnings_sent :: "int list"

datatype policy_target = TgOrganization | TgGroup ustr | TgRepository ustr

datatype gov_event =
    SettingsChanged actor int nat nat "weakening list" "ustr option"
  | ExceptionRequested actor int string bool
  | ExceptionApproved actor int string
  | ExceptionEnded exception_status actor int string "ustr option"
  | RolloutStarted actor int string nat
  | RolloutAdvanced actor int string bool nat
  | RolloutPaused actor int string ustr
  | RolloutResumed actor int string
  | RolloutRolledBack actor int string nat ustr
  | PolicyPublished actor int policy_target nat nat string bool "ustr option"
  | PolicyEmergencyPublished actor int policy_target nat string "ustr option"
  | PolicyRolledBack actor int policy_target nat nat nat string bool "ustr option"
  | DraftCreated actor int string nat
  | DraftUpdated actor int string nat nat bool
  | DraftSubmitted actor int string string
  | DraftDecided bool actor int string string "ustr option"
  | DraftCancelled actor int string

datatype notice =
    NoSettingsChanged int nat bool
  | NoExceptionRequested int string
  | NoExceptionApproved int string
  | NoExceptionEnded int string
  | NoExceptionExpiring int string int
  | NoRolloutPaused int string
  | NoPolicyChanged int policy_target nat bool
  | NoPolicyEmergency int policy_target nat
  | NoPolicyRolledBack int policy_target nat bool
  | NoApprovalRequested int string

text \<open>The versions a resolution used and the resolution itself, without the version of the organization's own rules.\<close>

record governance_versions =
  vs_organization :: "nat option"
  vs_settings :: "nat option"
  vs_groups :: "(ustr \<times> nat) list"
  vs_repository :: "nat option"
  vs_rollouts :: "(string \<times> nat) list"
  vs_exceptions :: "string list"

record resolved_governance =
  rs_inputs :: inputs
  rs_versions :: governance_versions
  rs_valid_until :: "int option"
  rs_resolved_at :: int

record cache_row =
  cw_state :: cache_state
  cw_resolved :: "resolved_governance option"
  cw_invalidated_at :: "int option"
  cw_attempts :: nat

record group_row =
  gg_account :: int
  gg_name :: ustr
  gg_name_key :: ustr
  gg_archived :: bool

record mode_row =
  mo_onboarded :: string
  mo_mode :: repository_mode

record gov_db =
  gv_installations :: "installation_row list"
  gv_known :: "known_repository list"
  gv_session_repositories :: "(ustr \<times> int \<times> int) list"
  gv_groups :: "(ustr \<times> group_row) list"
  gv_group_members :: "(int \<times> ustr \<times> int) list"
  gv_cache :: "((int \<times> int) \<times> cache_row) list"
  gv_modes :: "((int \<times> int) \<times> mode_row) list"
  gv_settings :: "(int \<times> (nat \<times> settings option)) list"
  gv_exceptions :: "(string \<times> exception_row) list"
  gv_audit :: "gov_event list"
  gv_outbox :: "notice list"

section \<open>Repositories\<close>

record account_repository =
  ar_repository_id :: int
  ar_installation_id :: int
  ar_archived :: bool
  ar_state :: installation_state

text \<open>The rows of an account, joined with their installations; per repository the one of an active installation that
  was seen last.\<close>

definition repository_rows :: "gov_db \<Rightarrow> int \<Rightarrow> (known_repository \<times> installation_row) list" where
  "repository_rows db account =
     List.map_filter (\<lambda>k.
       case find (\<lambda>i. in_id i = kr_installation_id k) (gv_installations db) of
         None \<Rightarrow> None
       | Some i \<Rightarrow> if in_account_id i = account \<and> in_state i \<noteq> InDeleted then Some (k, i) else None) (gv_known db)"

definition account_repositories :: "gov_db \<Rightarrow> int \<Rightarrow> (int \<times> account_repository) list" where
  "account_repositories db account =
     List.map_filter (\<lambda>(r, rows).
       map_option (\<lambda>(k, i). (r, \<lparr>ar_repository_id = r, ar_installation_id = in_id i, ar_archived = kr_archived k,
                               ar_state = in_state i\<rparr>))
         (py_max (\<lambda>(k, i). (in_state i = InActive, kr_last_seen_at k)) rows))
       (group_pairs (map (\<lambda>(k, i). (kr_repository_id k, (k, i))) (repository_rows db account)))"

definition visible_repositories :: "gov_db \<Rightarrow> principal \<Rightarrow> int \<Rightarrow> int list" where
  "visible_repositories db p account =
     (let installations = map fst (filter (\<lambda>(_, a). a = account) (pr_installations p))
      in remdups (map (\<lambda>(_, _, r). r)
           (filter (\<lambda>(h, i, _). h = pr_session_hash p \<and> i \<in> set installations) (gv_session_repositories db))))"

definition known_ids :: "gov_db \<Rightarrow> int \<Rightarrow> int list" where
  "known_ids db account = sort (map fst (account_repositories db account))"

section \<open>The effective-policy cache\<close>

definition invalidate_repositories :: "int \<Rightarrow> int list option \<Rightarrow> int \<Rightarrow> gov_db \<Rightarrow> gov_db" where
  "invalidate_repositories account ids now db =
     db\<lparr>gv_cache := map (\<lambda>((a, r), c).
          ((a, r), if a = account \<and> (case ids of None \<Rightarrow> True | Some rs \<Rightarrow> r \<in> set rs)
                   then c\<lparr>cw_state := CsStale, cw_invalidated_at := Some now\<rparr> else c))
        (gv_cache db)\<rparr>"

text \<open>A group of the account that is not archived.\<close>

definition open_group :: "gov_db \<Rightarrow> int \<Rightarrow> ustr \<Rightarrow> bool" where
  "open_group db account g =
     (case map_of (gv_groups db) g of None \<Rightarrow> False | Some r \<Rightarrow> gg_account r = account \<and> \<not> gg_archived r)"

definition group_member_ids :: "gov_db \<Rightarrow> int \<Rightarrow> ustr \<Rightarrow> int list" where
  "group_member_ids db account g =
     map (\<lambda>(_, _, r). r) (filter (\<lambda>(a, g', _). a = account \<and> g' = g) (gv_group_members db))"

text \<open>\<open>int(s)\<close> for a text of ASCII digits, and \<open>str(n)\<close> for a repository ID.\<close>

definition digits_value :: "ustr \<Rightarrow> int" where
  "digits_value s = foldl (\<lambda>n c. 10 * n + (int c - 48)) 0 s"

definition all_digits :: "ustr \<Rightarrow> bool" where
  "all_digits s \<longleftrightarrow> s \<noteq> [] \<and> list_all ascii_digit s"

definition id_text :: "int \<Rightarrow> ustr" where
  "id_text n = digits (nat n)"

definition invalidate_scope :: "int \<Rightarrow> exception_scope \<Rightarrow> ustr \<Rightarrow> int \<Rightarrow> gov_db \<Rightarrow> gov_db" where
  "invalidate_scope account scope scope_id now db =
     (case scope of
        ScOrganization \<Rightarrow> invalidate_repositories account None now db
      | ScGroup \<Rightarrow> invalidate_repositories account (Some (group_member_ids db account scope_id)) now db
      | ScRepository \<Rightarrow>
          if all_digits scope_id then invalidate_repositories account (Some [digits_value scope_id]) now db else db)"

definition log_event :: "gov_event \<Rightarrow> gov_db \<Rightarrow> gov_db" where
  "log_event e db = db\<lparr>gv_audit := gv_audit db @ [e]\<rparr>"

definition emit_notice :: "notice \<Rightarrow> gov_db \<Rightarrow> gov_db" where
  "emit_notice n db = db\<lparr>gv_outbox := gv_outbox db @ [n]\<rparr>"

section \<open>Reading and saving settings\<close>

text \<open>A stored document that no longer validates reads as the defaults.\<close>

definition load_settings :: "gov_db \<Rightarrow> int \<Rightarrow> nat \<times> settings" where
  "load_settings db account =
     (case map_of (gv_settings db) account of
        None \<Rightarrow> (0, DEFAULT_SETTINGS)
      | Some (v, None) \<Rightarrow> (v, DEFAULT_SETTINGS)
      | Some (v, Some s) \<Rightarrow> (v, s))"

definition REAUTHENTICATION_WINDOW :: int where "REAUTHENTICATION_WINDOW = 900"

record settings_request =
  sq_expected :: int
  sq_changes :: "setting_change list"
  sq_reason :: "ustr option"
  sq_confirm :: bool

definition weakening_name :: "weakening \<Rightarrow> string" where
  "weakening_name w = (case w of
      WkBaseline r _ _ \<Rightarrow> ''security baseline '' @ r
    | WkApproval \<Rightarrow> ''policy approval no longer required''
    | WkSeparateApprover \<Rightarrow> ''authors may approve their own policy changes''
    | WkSeverity _ _ \<Rightarrow> ''fewer exceptions need approval''
    | WkMaxDays _ _ \<Rightarrow> ''longer exceptions allowed''
    | WkPermanent \<Rightarrow> ''permanent exceptions allowed''
    | WkOnboarding \<Rightarrow> ''new repositories onboard in monitor mode (not blocking)''
    | WkAutoPause \<Rightarrow> ''staged rollouts no longer pause automatically''
    | WkErrorRate \<Rightarrow> ''higher rollout error threshold''
    | WkBlockRate \<Rightarrow> ''higher rollout block threshold'')"

text \<open>The part of \<open>update\<close> before its transaction: what is to be stored, or the error.\<close>

definition check_settings ::
  "(nat \<Rightarrow> ustr \<Rightarrow> ustr) \<Rightarrow> (ustr \<Rightarrow> bool) \<Rightarrow> int \<Rightarrow> principal \<Rightarrow> int \<Rightarrow> settings_request \<Rightarrow> gov_db
     \<Rightarrow> cp_error + settings \<times> weakening list \<times> ustr option" where
  "check_settings clean zone now p account q db =
     (case require p OrganizationManage account of Inl e \<Rightarrow> Inl e | Inr _ \<Rightarrow>
      if sq_expected q < 0 then Inl (InvalidInput ''expected_version'')
      else if sq_changes q = [] then Inl (InvalidInput ''settings'')
      else case text_field clean ''reason'' MAX_REASON_CHARS False (sq_reason q) of Inl e \<Rightarrow> Inl e | Inr reason \<Rightarrow>
        (let (version, current) = load_settings db account
         in if int version \<noteq> sq_expected q then Inl Conflict
            else case validated zone (sq_changes q) current of
              None \<Rightarrow> Inl (InvalidInput ''settings'')
            | Some new \<Rightarrow>
                if new = current then Inl (InvalidInput [])
                else (let weak = weakening_changes current new
                      in if weak \<noteq> [] \<and> \<not> sq_confirm q then Inl (ConfirmationRequired (map weakening_name weak))
                         else if weak \<noteq> [] \<and> now - pr_authenticated_at p > REAUTHENTICATION_WINDOW
                         then Inl ReauthenticationRequired
                         else if weak \<noteq> [] \<and> reason = None then Inl (InvalidInput ''reason'')
                         else Inr (new, weak, reason))))"

text \<open>The transaction, which reads the version again; the hook marks every effective policy stale.\<close>

definition commit_settings ::
  "int \<Rightarrow> principal \<Rightarrow> int \<Rightarrow> int \<Rightarrow> settings \<times> weakening list \<times> ustr option \<Rightarrow> gov_db \<Rightarrow> cp_error + gov_db" where
  "commit_settings now p account expected change db =
     (case change of (new, weak, reason) \<Rightarrow>
        let latest = (case map_of (gv_settings db) account of None \<Rightarrow> 0 | Some (v, _) \<Rightarrow> v)
        in if int latest \<noteq> expected then Inl Conflict
           else Inr (invalidate_repositories account None now
             (emit_notice (NoSettingsChanged account (latest + 1) (weak \<noteq> []))
               (log_event (SettingsChanged (user_actor (pr_user_id p) (pr_login p)) account latest (latest + 1) weak reason)
                 (db\<lparr>gv_settings := AList.update account (latest + 1, Some new) (gv_settings db)\<rparr>)))))"

definition update_settings ::
  "(nat \<Rightarrow> ustr \<Rightarrow> ustr) \<Rightarrow> (ustr \<Rightarrow> bool) \<Rightarrow> int \<Rightarrow> principal \<Rightarrow> int \<Rightarrow> settings_request \<Rightarrow> gov_db \<Rightarrow> cp_error + gov_db" where
  "update_settings clean zone now p account q db =
     (case check_settings clean zone now p account q db of
        Inl e \<Rightarrow> Inl e
      | Inr change \<Rightarrow> commit_settings now p account (sq_expected q) change db)"

end
