(* ===== verification/Policy_Exceptions.thy ===== *)
theory Policy_Exceptions
  imports Gov_State
begin

text \<open>
  Policy exceptions (\<open>governance/exceptions.py\<close>): the request, the decisions, the end and the expiry of an exception,
  and the exceptions that are in force for a repository. A handler reads and checks first and writes in a later
  transaction that checks the status again, so each is modelled as a \<open>check\<close> on one state and a \<open>commit\<close> on a
  possibly different one; the relation \<open>estep\<close> interleaves the checks and commits of many users with the clock,
  the background jobs and everything else that moves the tables of repositories and groups.
\<close>

section \<open>Rules and scopes\<close>

definition CATALOG_SEVERITIES :: "(string \<times> severity) list" where
  "CATALOG_SEVERITIES =
     [(''ai_coauthor'', SevHigh), (''ai_identity'', SevHigh), (''ai_trailer'', SevHigh), (''malformed_trailer'', SevLow),
      (''bot_identity'', SevLow)]"

definition rule_severity :: "string \<Rightarrow> severity" where
  "rule_severity rule = (case map_of CATALOG_SEVERITIES rule of None \<Rightarrow> SevHigh | Some s \<Rightarrow> s)"

definition open_status :: "exception_status \<Rightarrow> bool" where
  "open_status s \<longleftrightarrow> s = ExRequested \<or> s = ExActive"

definition EXPIRING_SOON :: int where "EXPIRING_SOON = 7 * 86400"
definition EXPIRY_BATCH :: nat where "EXPIRY_BATCH = 200"

datatype raw_id = RawNone | RawText ustr | RawInt int | RawOther

datatype raw_time = NoTime | BadTime | At int

record exception_request =
  xr_rule :: string
  xr_scope :: "exception_scope option"
  xr_scope_id :: raw_id
  xr_action :: "action option"
  xr_reason :: "ustr option"
  xr_expires :: raw_time
  xr_permanent :: bool

definition check_scope_id :: "principal \<Rightarrow> int \<Rightarrow> exception_scope \<Rightarrow> raw_id \<Rightarrow> gov_db \<Rightarrow> cp_error + ustr" where
  "check_scope_id p account scope raw db =
     (case scope of
        ScOrganization \<Rightarrow> if raw = RawNone \<or> raw = RawText [] then Inr [] else Inl (InvalidInput ''scope_id'')
      | ScGroup \<Rightarrow>
          (case raw of
             RawText g \<Rightarrow>
               if \<not> is_hex_id g then Inl (InvalidInput ''scope_id'')
               else if open_group db account g then Inr g else Inl NotFound
           | _ \<Rightarrow> Inl (InvalidInput ''scope_id''))
      | ScRepository \<Rightarrow>
          (case (case raw of RawInt n \<Rightarrow> Some n
                   | RawText t \<Rightarrow> if all_digits t \<and> length t < 17 then Some (digits_value t) else None
                   | _ \<Rightarrow> None) of
             None \<Rightarrow> Inl (InvalidInput ''scope_id'')
           | Some r \<Rightarrow>
               if r \<in> set (visible_repositories db p account) \<and> r \<in> set (known_ids db account)
               then Inr (id_text r) else Inl NotFound))"

section \<open>Requests\<close>

definition check_expiry :: "int \<Rightarrow> settings \<Rightarrow> principal \<Rightarrow> int \<Rightarrow> exception_request \<Rightarrow> cp_error + int option" where
  "check_expiry now s p account q =
     (if xr_permanent q then
        (if \<not> st_allow_permanent s then Inl PermissionDenied
         else if \<not> can p ExceptionsApprove account then Inl PermissionDenied
         else if xr_expires q \<noteq> NoTime then Inl (InvalidInput ''expires_at'') else Inr None)
      else case xr_expires q of
             At t \<Rightarrow> if t \<le> now + 300 then Inl (InvalidInput ''expires_at'')
                     else if now + st_max_days s * 86400 < t then Inl (InvalidInput ''expires_at'') else Inr (Some t)
           | _ \<Rightarrow> Inl (InvalidInput ''expires_at''))"

definition needs_approval :: "settings \<Rightarrow> string \<Rightarrow> exception_scope \<Rightarrow> bool \<Rightarrow> bool" where
  "needs_approval s rule scope permanent \<longleftrightarrow>
     severity_rank (st_min_severity s) \<le> severity_rank (rule_severity rule) \<or> scope \<noteq> ScRepository \<or> permanent"

definition check_request ::
  "(nat \<Rightarrow> ustr \<Rightarrow> ustr) \<Rightarrow> int \<Rightarrow> principal \<Rightarrow> int \<Rightarrow> exception_request \<Rightarrow> gov_db \<Rightarrow> cp_error + exception_row" where
  "check_request clean now p account q db =
     (case require p ExceptionsCreate account of Inl e \<Rightarrow> Inl e | Inr _ \<Rightarrow>
      if unknown_ids [xr_rule q] \<noteq> [] then Inl (InvalidInput ''rule_id'')
      else case xr_scope q of None \<Rightarrow> Inl (InvalidInput ''scope_type'') | Some scope \<Rightarrow>
      if xr_action q \<noteq> Some WARN \<and> xr_action q \<noteq> Some ALLOW then Inl (InvalidInput ''action'')
      else case text_field clean ''reason'' MAX_REASON_CHARS True (xr_reason q) of Inl e \<Rightarrow> Inl e | Inr reason \<Rightarrow>
      (case check_scope_id p account scope (xr_scope_id q) db of Inl e \<Rightarrow> Inl e | Inr scope_id \<Rightarrow>
      (case check_expiry now (snd (load_settings db account)) p account q of Inl e \<Rightarrow> Inl e | Inr expires \<Rightarrow>
       (let approval = needs_approval (snd (load_settings db account)) (xr_rule q) scope (xr_permanent q)
        in Inr \<lparr>ex_account_id = account, ex_rule_id = xr_rule q, ex_scope = scope, ex_scope_id = scope_id,
             ex_grant_action = the (xr_action q), ex_severity = rule_severity (xr_rule q),
             ex_status = (if approval then ExRequested else ExActive), ex_requires_approval = approval,
             ex_permanent = xr_permanent q, ex_expires_at = expires, ex_requested_at = now,
             ex_requested_by = pr_user_id p, ex_reason_text = the reason, ex_decided_at = None, ex_decided_by = None,
             ex_note = None, ex_activated_at = (if approval then None else Some now), ex_ended_at = None,
             ex_warnings_sent = []\<rparr>))))"

definition same_target :: "exception_row \<Rightarrow> exception_row \<Rightarrow> bool" where
  "same_target x y \<longleftrightarrow> ex_account_id x = ex_account_id y \<and> ex_rule_id x = ex_rule_id y \<and> ex_scope x = ex_scope y
     \<and> ex_scope_id x = ex_scope_id y"

text \<open>The transaction: refuses when an exception for the rule and scope is open, or the new ID is taken.\<close>

definition commit_request :: "int \<Rightarrow> actor \<Rightarrow> string \<Rightarrow> exception_row \<Rightarrow> gov_db \<Rightarrow> cp_error + gov_db" where
  "commit_request now who i row db =
     (if list_ex (\<lambda>(_, x). same_target x row \<and> open_status (ex_status x)) (gv_exceptions db) then Inl Conflict
      else if map_of (gv_exceptions db) i \<noteq> None then Inl StoreIntegrity
      else (let db1 = log_event (ExceptionRequested who (ex_account_id row) i (ex_requires_approval row))
                        (db\<lparr>gv_exceptions := gv_exceptions db @ [(i, row)]\<rparr>)
            in Inr (if ex_requires_approval row then emit_notice (NoExceptionRequested (ex_account_id row) i) db1
                    else invalidate_scope (ex_account_id row) (ex_scope row) (ex_scope_id row) now db1)))"

section \<open>Decisions\<close>

definition exception_visible :: "int list \<Rightarrow> exception_row \<Rightarrow> bool" where
  "exception_visible visible x \<longleftrightarrow>
     ex_scope x \<noteq> ScRepository \<or> all_digits (ex_scope_id x) \<and> digits_value (ex_scope_id x) \<in> set visible"

definition authorized_row :: "principal \<Rightarrow> string \<Rightarrow> permission \<Rightarrow> gov_db \<Rightarrow> cp_error + exception_row" where
  "authorized_row p i perm db =
     (if \<not> is_hex_id (asc i) then Inl NotFound
      else case map_of (gv_exceptions db) i of None \<Rightarrow> Inl NotFound | Some x \<Rightarrow>
        (case require p ExceptionsRead (ex_account_id x) of Inl e \<Rightarrow> Inl e | Inr _ \<Rightarrow>
           if \<not> exception_visible (visible_repositories db p (ex_account_id x)) x then Inl NotFound
           else if \<not> can p perm (ex_account_id x) then Inl PermissionDenied else Inr x))"

definition update_exception :: "string \<Rightarrow> (exception_row \<Rightarrow> exception_row) \<Rightarrow> gov_db \<Rightarrow> gov_db" where
  "update_exception i f db =
     db\<lparr>gv_exceptions := map (\<lambda>(j, x). (j, if j = i then f x else x)) (gv_exceptions db)\<rparr>"

definition check_approve ::
  "(nat \<Rightarrow> ustr \<Rightarrow> ustr) \<Rightarrow> int \<Rightarrow> principal \<Rightarrow> string \<Rightarrow> ustr option \<Rightarrow> gov_db \<Rightarrow> cp_error + ustr option" where
  "check_approve clean now p i note db =
     (case authorized_row p i ExceptionsApprove db of Inl e \<Rightarrow> Inl e | Inr x \<Rightarrow>
      if ex_status x \<noteq> ExRequested then Inl Conflict
      else if ex_requested_by x = pr_user_id p then Inl PermissionDenied
      else case text_field clean ''note'' MAX_REASON_CHARS False note of Inl e \<Rightarrow> Inl e | Inr text \<Rightarrow>
        if \<not> ex_permanent x \<and> (case ex_expires_at x of None \<Rightarrow> True | Some t \<Rightarrow> t \<le> now) then Inl Conflict
        else Inr text)"

definition commit_approve :: "int \<Rightarrow> principal \<Rightarrow> string \<Rightarrow> ustr option \<Rightarrow> gov_db \<Rightarrow> cp_error + gov_db" where
  "commit_approve now p i note db =
     (case map_of (gv_exceptions db) i of
        None \<Rightarrow> Inl Conflict
      | Some x \<Rightarrow>
          if ex_status x \<noteq> ExRequested then Inl Conflict
          else Inr (emit_notice (NoExceptionApproved (ex_account_id x) i)
            (log_event (ExceptionApproved (user_actor (pr_user_id p) (pr_login p)) (ex_account_id x) i)
              (invalidate_scope (ex_account_id x) (ex_scope x) (ex_scope_id x) now
                (update_exception i (\<lambda>x. x\<lparr>ex_status := ExActive, ex_decided_at := Some now,
                    ex_decided_by := Some (pr_user_id p), ex_note := note, ex_activated_at := Some now\<rparr>) db)))))"

text \<open>\<open>reject\<close>, \<open>cancel\<close> and \<open>revoke\<close>: their checks, and the end they share.\<close>

datatype ending = Reject | Cancel | Revoke

fun end_status :: "ending \<Rightarrow> exception_status" where
  "end_status Reject = ExRejected"
| "end_status Cancel = ExCancelled"
| "end_status Revoke = ExRevoked"

fun end_from :: "ending \<Rightarrow> exception_status" where
  "end_from Revoke = ExActive"
| "end_from _ = ExRequested"

fun end_permission :: "ending \<Rightarrow> permission" where
  "end_permission Reject = ExceptionsApprove"
| "end_permission Cancel = ExceptionsRead"
| "end_permission Revoke = ExceptionsRevoke"

definition check_end ::
  "(nat \<Rightarrow> ustr \<Rightarrow> ustr) \<Rightarrow> principal \<Rightarrow> string \<Rightarrow> ending \<Rightarrow> ustr option \<Rightarrow> gov_db \<Rightarrow> cp_error + ustr option" where
  "check_end clean p i what note db =
     (case authorized_row p i (end_permission what) db of Inl e \<Rightarrow> Inl e | Inr x \<Rightarrow>
      if ex_status x \<noteq> end_from what then Inl Conflict
      else if what = Cancel then
        (if ex_requested_by x \<noteq> pr_user_id p \<and> \<not> can p ExceptionsRevoke (ex_account_id x) then Inl PermissionDenied
         else Inr None)
      else text_field clean (if what = Reject then ''note'' else ''reason'') MAX_REASON_CHARS True note)"

definition commit_end ::
  "int \<Rightarrow> actor \<Rightarrow> string \<Rightarrow> exception_status \<Rightarrow> exception_status \<Rightarrow> ustr option \<Rightarrow> gov_db \<Rightarrow> cp_error + gov_db" where
  "commit_end now who i from to note db =
     (case map_of (gv_exceptions db) i of
        None \<Rightarrow> Inl Conflict
      | Some x \<Rightarrow>
          if ex_status x \<noteq> from then Inl Conflict
          else (let db1 = update_exception i (\<lambda>x. x\<lparr>ex_status := to, ex_ended_at := Some now, ex_note := note\<rparr>) db;
                    db2 = (if from = ExActive
                           then invalidate_scope (ex_account_id x) (ex_scope x) (ex_scope_id x) now db1 else db1);
                    db3 = log_event (ExceptionEnded to who (ex_account_id x) i note) db2
                in Inr (if to = ExRevoked \<or> to = ExExpired
                        then emit_notice (NoExceptionEnded (ex_account_id x) i) db3 else db3)))"

section \<open>Background jobs\<close>

definition due_exceptions :: "int \<Rightarrow> gov_db \<Rightarrow> string list" where
  "due_exceptions now db =
     take EXPIRY_BATCH (map fst (sort_key (\<lambda>(_, x). the (ex_expires_at x))
       (filter (\<lambda>(_, x). ex_status x = ExActive \<and> \<not> ex_permanent x
                  \<and> (case ex_expires_at x of None \<Rightarrow> False | Some t \<Rightarrow> t \<le> now)) (gv_exceptions db))))"

text \<open>\<open>expire_due\<close>: a row that was ended meanwhile is skipped.\<close>

definition expire_one :: "int \<Rightarrow> string \<Rightarrow> gov_db \<Rightarrow> gov_db" where
  "expire_one now i db =
     (case commit_end now system_actor i ExActive ExExpired None db of Inl _ \<Rightarrow> db | Inr db' \<Rightarrow> db')"

definition expire_due :: "int \<Rightarrow> gov_db \<Rightarrow> gov_db" where
  "expire_due now db = fold (expire_one now) (due_exceptions now db) db"

text \<open>\<open>warn_expiring\<close> for one exception: one notice for the most urgent threshold crossed, all of them remembered.\<close>

definition warn_one :: "int \<Rightarrow> string \<Rightarrow> gov_db \<Rightarrow> gov_db" where
  "warn_one now i db =
     (case map_of (gv_exceptions db) i of
        None \<Rightarrow> db
      | Some x \<Rightarrow>
          (case ex_expires_at x of
             None \<Rightarrow> db
           | Some t \<Rightarrow>
               (let crossed = filter (\<lambda>d. t - now \<le> d * 86400) (st_warning_days (snd (load_settings db (ex_account_id x))));
                    pending = filter (\<lambda>d. d \<notin> set (ex_warnings_sent x)) crossed
                in if pending = [] then db
                   else emit_notice (NoExceptionExpiring (ex_account_id x) i (foldl min (hd pending) pending))
                     (update_exception i (\<lambda>x. if ex_status x = ExActive
                        then x\<lparr>ex_warnings_sent := sort (remdups (ex_warnings_sent x @ crossed))\<rparr> else x) db))))"

definition expiring_exceptions :: "int \<Rightarrow> gov_db \<Rightarrow> string list" where
  "expiring_exceptions now db =
     take EXPIRY_BATCH (map fst (sort_key (\<lambda>(_, x). the (ex_expires_at x))
       (filter (\<lambda>(_, x). ex_status x = ExActive \<and> \<not> ex_permanent x
                  \<and> (case ex_expires_at x of None \<Rightarrow> False | Some t \<Rightarrow> now < t \<and> t \<le> now + 90 * 86400))
         (gv_exceptions db))))"

definition warn_expiring :: "int \<Rightarrow> gov_db \<Rightarrow> gov_db" where
  "warn_expiring now db = fold (warn_one now) (expiring_exceptions now db) db"

section \<open>Exceptions in force\<close>

definition applies_to :: "exception_row \<Rightarrow> int \<Rightarrow> int \<Rightarrow> ustr list \<Rightarrow> bool" where
  "applies_to x account repository groups \<longleftrightarrow> ex_account_id x = account \<and>
     (case ex_scope x of
        ScOrganization \<Rightarrow> True
      | ScRepository \<Rightarrow> ex_scope_id x = id_text repository
      | ScGroup \<Rightarrow> ex_scope_id x \<in> set groups)"

definition in_force :: "int \<Rightarrow> exception_row \<Rightarrow> bool" where
  "in_force now x \<longleftrightarrow> ex_status x = ExActive
     \<and> (ex_permanent x \<or> (case ex_expires_at x of None \<Rightarrow> False | Some t \<Rightarrow> now < t))"

text \<open>The label of a group is its name, or its ID when it has none.\<close>

definition group_label :: "gov_db \<Rightarrow> ustr \<Rightarrow> string" where
  "group_label db g = ''group '' @ map char_of
     (case map_of (gv_groups db) g of None \<Rightarrow> g | Some r \<Rightarrow> if gg_name r = [] then g else gg_name r)"

definition grant_of :: "gov_db \<Rightarrow> string \<times> exception_row \<Rightarrow> grant" where
  "grant_of db e = (case e of (i, x) \<Rightarrow>
     \<lparr>gr_exception_id = i, gr_rule_id = ex_rule_id x, gr_action = ex_grant_action x, gr_scope = ex_scope x,
      gr_scope_label = (case ex_scope x of ScOrganization \<Rightarrow> ''organization'' | ScGroup \<Rightarrow> group_label db (ex_scope_id x)
                          | ScRepository \<Rightarrow> ''repository''),
      gr_expires_at = (if ex_permanent x then None else ex_expires_at x)\<rparr>)"

definition active_grants :: "gov_db \<Rightarrow> int \<Rightarrow> int \<Rightarrow> ustr list \<Rightarrow> int \<Rightarrow> grant list" where
  "active_grants db account repository groups now =
     map (grant_of db) (take 256 (sort_key fst
       (filter (\<lambda>(_, x). applies_to x account repository groups \<and> in_force now x) (gv_exceptions db))))"

definition exception_counts :: "gov_db \<Rightarrow> int \<Rightarrow> int \<Rightarrow> ustr list \<Rightarrow> int \<Rightarrow> nat \<times> nat" where
  "exception_counts db account repository groups now =
     (let gs = active_grants db account repository groups now
      in (length gs, length (filter (\<lambda>g. case gr_expires_at g of None \<Rightarrow> False | Some t \<Rightarrow> t - now \<le> EXPIRING_SOON) gs)))"

section \<open>Interleavings\<close>

text \<open>What a handler has checked and not yet written.\<close>

datatype intent =
    IRequest int actor string exception_row
  | IApprove int principal string "ustr option"
  | IEnd int actor string ending "ustr option"
  | IExpire int string

fun commit_intent :: "intent \<Rightarrow> gov_db \<Rightarrow> cp_error + gov_db" where
  "commit_intent (IRequest now who i row) db = commit_request now who i row db"
| "commit_intent (IApprove now p i note) db = commit_approve now p i note db"
| "commit_intent (IEnd now who i what note) db = commit_end now who i (end_from what) (end_status what) note db"
| "commit_intent (IExpire now i) db = commit_end now system_actor i ExActive ExExpired None db"

record esys =
  es_db :: gov_db
  es_now :: int
  es_intents :: "intent list"

abbreviation add_intent :: "intent \<Rightarrow> esys \<Rightarrow> esys" where
  "add_intent x s \<equiv> s\<lparr>es_intents := x # es_intents s\<rparr>"

inductive estep :: "(nat \<Rightarrow> ustr \<Rightarrow> ustr) \<Rightarrow> esys \<Rightarrow> esys \<Rightarrow> bool" for clean where
  tick: "es_now s \<le> t \<Longrightarrow> estep clean s (s\<lparr>es_now := t\<rparr>)"
| request: "check_request clean (es_now s) p account q (es_db s) = Inr row \<Longrightarrow>
    estep clean s (add_intent (IRequest (es_now s) (user_actor (pr_user_id p) (pr_login p)) i row) s)"
| approve: "check_approve clean (es_now s) p i note (es_db s) = Inr text \<Longrightarrow>
    estep clean s (add_intent (IApprove (es_now s) p i text) s)"
| ending: "check_end clean p i what note (es_db s) = Inr text \<Longrightarrow>
    estep clean s (add_intent (IEnd (es_now s) (user_actor (pr_user_id p) (pr_login p)) i what text) s)"
| expire: "i \<in> set (due_exceptions (es_now s) (es_db s)) \<Longrightarrow> estep clean s (add_intent (IExpire (es_now s) i) s)"
| commit: "x \<in> set (es_intents s) \<Longrightarrow> commit_intent x (es_db s) = Inr db \<Longrightarrow>
    estep clean s (s\<lparr>es_db := db, es_intents := remove1 x (es_intents s)\<rparr>)"
| abandon: "estep clean s (s\<lparr>es_intents := remove1 x (es_intents s)\<rparr>)"
| warn: "estep clean s (s\<lparr>es_db := warn_one (es_now s) i (es_db s)\<rparr>)"
| world: "gv_exceptions db = gv_exceptions (es_db s) \<Longrightarrow> estep clean s (s\<lparr>es_db := db\<rparr>)"

inductive ereach :: "(nat \<Rightarrow> ustr \<Rightarrow> ustr) \<Rightarrow> esys \<Rightarrow> bool" for clean where
  start: "gv_exceptions (es_db s) = [] \<Longrightarrow> es_intents s = [] \<Longrightarrow> ereach clean s"
| step: "ereach clean s \<Longrightarrow> estep clean s s' \<Longrightarrow> ereach clean s'"

section \<open>The life of an exception\<close>

text \<open>The fields no operation changes.\<close>

definition core :: "exception_row \<Rightarrow> int \<times> string \<times> exception_scope \<times> ustr \<times> action \<times> int \<times> bool \<times> bool \<times> int option" where
  "core x = (ex_account_id x, ex_rule_id x, ex_scope x, ex_scope_id x, ex_grant_action x, ex_requested_by x,
     ex_requires_approval x, ex_permanent x, ex_expires_at x)"

fun lifecycle :: "exception_status \<Rightarrow> exception_status \<Rightarrow> bool" where
  "lifecycle ExRequested s = (s \<in> {ExRequested, ExActive, ExRejected, ExCancelled})"
| "lifecycle ExActive s = (s \<in> {ExActive, ExRevoked, ExExpired})"
| "lifecycle s s' = (s = s')"

lemma lifecycle_refl [simp]: "lifecycle s s"
  by (cases s) auto

text \<open>How one transaction changes the rows: those that exist keep their core and move along the life cycle.\<close>

definition rows_step :: "(exception_row \<Rightarrow> exception_row) \<Rightarrow> bool" where
  "rows_step f \<longleftrightarrow> (\<forall>x. core (f x) = core x \<and> lifecycle (ex_status x) (ex_status (f x)))"

lemma map_of_update_exception:
  "map_of (gv_exceptions (update_exception i f db)) j = map_option (\<lambda>x. if j = i then f x else x) (map_of (gv_exceptions db) j)"
proof -
  have "map_of (map (\<lambda>(j, x). (j, if j = i then f x else x)) xs) j = map_option (\<lambda>x. if j = i then f x else x) (map_of xs j)"
    for xs :: "(string \<times> exception_row) list" by (induction xs) auto
  then show ?thesis by (simp add: update_exception_def)
qed

lemma fst_update_exception [simp]: "map fst (gv_exceptions (update_exception i f db)) = map fst (gv_exceptions db)"
  by (simp add: update_exception_def case_prod_beta)

lemma gv_exceptions_simps [simp]:
  "gv_exceptions (invalidate_repositories a ids now db) = gv_exceptions db"
  "gv_exceptions (invalidate_scope a sc sid now db) = gv_exceptions db"
  "gv_exceptions (log_event e db) = gv_exceptions db"
  "gv_exceptions (emit_notice n db) = gv_exceptions db"
  by (simp_all add: invalidate_repositories_def invalidate_scope_def log_event_def emit_notice_def
      split: exception_scope.split)

lemma commit_request_rows:
  assumes "commit_request now who i row db = Inr db'"
  shows "gv_exceptions db' = gv_exceptions db @ [(i, row)]" and "map_of (gv_exceptions db) i = None"
    and "(j, x) \<in> set (gv_exceptions db) \<Longrightarrow> same_target x row \<Longrightarrow> \<not> open_status (ex_status x)"
  using assms by (auto simp: commit_request_def Let_def list_ex_iff split: if_splits)

lemma commit_approve_rows:
  assumes "commit_approve now p i note db = Inr db'"
  shows "gv_exceptions db' = gv_exceptions (update_exception i (\<lambda>x. x\<lparr>ex_status := ExActive, ex_decided_at := Some now,
                    ex_decided_by := Some (pr_user_id p), ex_note := note, ex_activated_at := Some now\<rparr>) db)"
    and "\<exists>x. map_of (gv_exceptions db) i = Some x \<and> ex_status x = ExRequested"
  using assms by (auto simp: commit_approve_def split: if_splits option.splits)

lemma commit_end_rows:
  assumes "commit_end now who i from to note db = Inr db'"
  shows "gv_exceptions db' = gv_exceptions (update_exception i (\<lambda>x. x\<lparr>ex_status := to, ex_ended_at := Some now, ex_note := note\<rparr>) db)"
    and "\<exists>x. map_of (gv_exceptions db) i = Some x \<and> ex_status x = from"
  using assms by (auto simp: commit_end_def Let_def split: if_splits option.splits)

lemma end_lifecycle: "lifecycle (end_from what) (end_status what)"
  by (cases what) auto

lemma warn_one_rows:
  "\<exists>w. gv_exceptions (warn_one now i db) = gv_exceptions db
     \<or> gv_exceptions (warn_one now i db) = gv_exceptions (update_exception i (\<lambda>x. if ex_status x = ExActive
          then x\<lparr>ex_warnings_sent := w x\<rparr> else x) db)"
  by (auto simp: warn_one_def Let_def split: option.splits)

lemma commit_lifecycle:
  assumes "commit_intent y db = Inr db'" and "map_of (gv_exceptions db) j = Some x"
  shows "\<exists>x'. map_of (gv_exceptions db') j = Some x' \<and> core x' = core x \<and> lifecycle (ex_status x) (ex_status x')"
proof (cases y)
  case (IRequest now who i row)
  with commit_request_rows [of now who i row db db'] assms show ?thesis by (auto simp: map_add_def)
next
  case (IApprove now p i n)
  with commit_approve_rows [of now p i n db db'] assms show ?thesis
    by (auto simp: map_of_update_exception core_def)
next
  case (IEnd now who i what n)
  with commit_end_rows [of now who i "end_from what" "end_status what" n db db'] assms show ?thesis
    using end_lifecycle [of what] by (auto simp: map_of_update_exception core_def)
next
  case (IExpire now i)
  with commit_end_rows [of now system_actor i ExActive ExExpired None db db'] assms show ?thesis
    by (auto simp: map_of_update_exception core_def)
qed


section \<open>Approval\<close>

text \<open>What a row says about itself.\<close>

definition row_sound :: "exception_row \<Rightarrow> bool" where
  "row_sound x \<longleftrightarrow> ex_grant_action x \<noteq> BLOCK \<and> unknown_ids [ex_rule_id x] = []
     \<and> (ex_permanent x \<or> ex_expires_at x \<noteq> None)
     \<and> (ex_scope x \<noteq> ScRepository \<or> ex_permanent x \<longrightarrow> ex_requires_approval x)
     \<and> (ex_status x = ExActive \<longrightarrow> ex_requires_approval x
          \<longrightarrow> ex_decided_by x \<noteq> None \<and> ex_decided_by x \<noteq> Some (ex_requested_by x))"

definition intent_sound :: "gov_db \<Rightarrow> intent \<Rightarrow> bool" where
  "intent_sound db y \<longleftrightarrow> (case y of
      IRequest now who i row \<Rightarrow> row_sound row \<and> ex_status row = (if ex_requires_approval row then ExRequested else ExActive)
    | IApprove now p i note \<Rightarrow> \<exists>x. map_of (gv_exceptions db) i = Some x \<and> ex_requested_by x \<noteq> pr_user_id p
    | _ \<Rightarrow> True)"

definition open_unique :: "gov_db \<Rightarrow> bool" where
  "open_unique db \<longleftrightarrow> (\<forall>i j x y. map_of (gv_exceptions db) i = Some x \<longrightarrow> map_of (gv_exceptions db) j = Some y \<longrightarrow>
     same_target x y \<longrightarrow> open_status (ex_status x) \<longrightarrow> open_status (ex_status y) \<longrightarrow> i = j)"

definition exceptions_inv :: "esys \<Rightarrow> bool" where
  "exceptions_inv s \<longleftrightarrow> distinct (map fst (gv_exceptions (es_db s)))
     \<and> (\<forall>i x. map_of (gv_exceptions (es_db s)) i = Some x \<longrightarrow> row_sound x)
     \<and> open_unique (es_db s) \<and> (\<forall>y \<in> set (es_intents s). intent_sound (es_db s) y)"

lemma exceptions_invD:
  assumes "exceptions_inv s"
  shows "distinct (map fst (gv_exceptions (es_db s)))" and "map_of (gv_exceptions (es_db s)) i = Some x \<Longrightarrow> row_sound x"
    and "open_unique (es_db s)" and "y \<in> set (es_intents s) \<Longrightarrow> intent_sound (es_db s) y"
  using assms by (auto simp: exceptions_inv_def)

lemma check_request_sound:
  "check_request clean now p account q db = Inr row \<Longrightarrow>
     row_sound row \<and> ex_status row = (if ex_requires_approval row then ExRequested else ExActive)"
  by (auto simp: check_request_def check_expiry_def row_sound_def needs_approval_def Let_def
      split: sum.splits option.splits if_splits raw_time.splits)

lemma check_approve_other:
  "check_approve clean now p i note db = Inr text \<Longrightarrow>
     \<exists>x. map_of (gv_exceptions db) i = Some x \<and> ex_requested_by x \<noteq> pr_user_id p"
  by (auto simp: check_approve_def authorized_row_def split: sum.splits option.splits if_splits)

lemma open_step: "lifecycle a b \<Longrightarrow> open_status b \<Longrightarrow> open_status a"
  by (cases a) (auto simp: open_status_def)

lemma same_target_core: "core x = core x' \<Longrightarrow> core y = core y' \<Longrightarrow> same_target x y = same_target x' y'"
  by (auto simp: core_def same_target_def)

text \<open>A step that adds no row keeps the uniqueness of open exceptions.\<close>

lemma open_unique_mono:
  assumes "open_unique db" and "\<And>i x'. map_of (gv_exceptions db') i = Some x' \<Longrightarrow>
      \<exists>x. map_of (gv_exceptions db) i = Some x \<and> core x' = core x \<and> lifecycle (ex_status x) (ex_status x')"
  shows "open_unique db'"
  unfolding open_unique_def
proof (intro allI impI)
  fix i j x y
  assume a: "map_of (gv_exceptions db') i = Some x" "map_of (gv_exceptions db') j = Some y" "same_target x y"
    "open_status (ex_status x)" "open_status (ex_status y)"
  from assms(2) [OF a(1)] assms(2) [OF a(2)] obtain x0 y0 where
    "map_of (gv_exceptions db) i = Some x0" "core x = core x0" "lifecycle (ex_status x0) (ex_status x)"
    "map_of (gv_exceptions db) j = Some y0" "core y = core y0" "lifecycle (ex_status y0) (ex_status y)" by blast
  with a assms(1) show "i = j"
    using open_step same_target_core [of x x0 y y0] unfolding open_unique_def by blast
qed

lemma intent_sound_mono:
  assumes "intent_sound db y" and "\<And>i x. map_of (gv_exceptions db) i = Some x \<Longrightarrow>
      \<exists>x'. map_of (gv_exceptions db') i = Some x' \<and> core x' = core x"
  shows "intent_sound db' y"
proof (cases y)
  case (IApprove now p i n)
  with assms show ?thesis by (fastforce simp: intent_sound_def core_def)
qed (use assms(1) in \<open>auto simp: intent_sound_def\<close>)


lemma exceptions_inv_mono:
  assumes inv: "exceptions_inv s" and keys: "distinct (map fst (gv_exceptions (es_db s')))"
    and rows: "\<And>i x'. map_of (gv_exceptions (es_db s')) i = Some x' \<Longrightarrow> row_sound x' \<and>
        (\<exists>x. map_of (gv_exceptions (es_db s)) i = Some x \<and> core x' = core x \<and> lifecycle (ex_status x) (ex_status x'))"
    and kept: "\<And>i x. map_of (gv_exceptions (es_db s)) i = Some x \<Longrightarrow>
        \<exists>x'. map_of (gv_exceptions (es_db s')) i = Some x' \<and> core x' = core x"
    and intents: "\<And>y. y \<in> set (es_intents s') \<Longrightarrow> y \<in> set (es_intents s) \<or> intent_sound (es_db s') y"
  shows "exceptions_inv s'"
  unfolding exceptions_inv_def
proof (intro conjI ballI allI impI)
  show "open_unique (es_db s')"
    using rows by (intro open_unique_mono [OF exceptions_invD(3) [OF inv]]) blast
  show "intent_sound (es_db s') y" if "y \<in> set (es_intents s')" for y
    using intents [OF that] intent_sound_mono [OF exceptions_invD(4) [OF inv] kept] by blast
qed (use keys rows in blast)+

lemma inv_same_rows:
  assumes "exceptions_inv s" and "gv_exceptions (es_db s') = gv_exceptions (es_db s)"
    and "\<And>y. y \<in> set (es_intents s') \<Longrightarrow> y \<in> set (es_intents s) \<or> intent_sound (es_db s') y"
  shows "exceptions_inv s'"
  using exceptions_invD [OF assms(1)] assms(2,3) by (intro exceptions_inv_mono [OF assms(1)]) auto

lemma inv_update:
  assumes inv: "exceptions_inv s" and db: "gv_exceptions db = gv_exceptions (update_exception i f (es_db s))"
    and f: "\<And>x. map_of (gv_exceptions (es_db s)) i = Some x \<Longrightarrow>
        row_sound (f x) \<and> core (f x) = core x \<and> lifecycle (ex_status x) (ex_status (f x))"
    and intents: "set ys \<subseteq> set (es_intents s)"
  shows "exceptions_inv (s\<lparr>es_db := db, es_intents := ys\<rparr>)"
proof (rule exceptions_inv_mono [OF inv])
  show "distinct (map fst (gv_exceptions (es_db (s\<lparr>es_db := db, es_intents := ys\<rparr>))))"
    using exceptions_invD(1) [OF inv] by (simp add: db)
  show "row_sound x' \<and> (\<exists>x. map_of (gv_exceptions (es_db s)) j = Some x \<and> core x' = core x \<and> lifecycle (ex_status x) (ex_status x'))"
    if "map_of (gv_exceptions (es_db (s\<lparr>es_db := db, es_intents := ys\<rparr>))) j = Some x'" for j x'
    using that f exceptions_invD(2) [OF inv] by (auto simp: db map_of_update_exception split: if_splits)
  show "\<exists>x'. map_of (gv_exceptions (es_db (s\<lparr>es_db := db, es_intents := ys\<rparr>))) j = Some x' \<and> core x' = core x"
    if "map_of (gv_exceptions (es_db s)) j = Some x" for j x
    using that f by (auto simp: db map_of_update_exception)
qed (use intents in auto)

lemma row_sound_status:
  "row_sound x \<Longrightarrow> ex_status y \<noteq> ExActive \<Longrightarrow> core y = core x \<Longrightarrow> row_sound y"
  by (auto simp: row_sound_def core_def)

lemma inv_commit_request:
  assumes inv: "exceptions_inv s" and y: "IRequest now who i row \<in> set (es_intents s)"
    and c: "commit_request now who i row (es_db s) = Inr db" and ys: "set ys \<subseteq> set (es_intents s)"
  shows "exceptions_inv (s\<lparr>es_db := db, es_intents := ys\<rparr>)"
proof -
  note rows = commit_request_rows [OF c]
  from exceptions_invD(4) [OF inv y] have row: "row_sound row" by (simp add: intent_sound_def)
  have look: "map_of (gv_exceptions db) j = (if j = i then Some row else map_of (gv_exceptions (es_db s)) j)" for j
    using rows(2) by (auto simp: rows(1) map_add_def split: option.splits)
  have old: "map_of (gv_exceptions (es_db s)) j = Some x \<Longrightarrow> same_target x row \<Longrightarrow> \<not> open_status (ex_status x)" for j x
    using rows(3) by (blast dest: map_of_SomeD)
  have "same_target x y = same_target y x" for x y by (auto simp: same_target_def)
  then have "open_unique db"
    using exceptions_invD(3) [OF inv] old unfolding open_unique_def by (simp add: look)
  moreover have "distinct (map fst (gv_exceptions db))"
    using exceptions_invD(1) [OF inv] rows(2) by (simp add: rows(1) map_of_eq_None_iff)
  moreover have "\<exists>x'. map_of (gv_exceptions db) j = Some x' \<and> core x' = core x"
    if "map_of (gv_exceptions (es_db s)) j = Some x" for j x
    using that rows(2) by (auto simp: look)
  then have "intent_sound db y" if "y \<in> set ys" for y
    using that ys exceptions_invD(4) [OF inv, of y] intent_sound_mono [of "es_db s" y db] by blast
  moreover have "row_sound x" if "map_of (gv_exceptions db) j = Some x" for j x
    using that row exceptions_invD(2) [OF inv, of j x] by (auto simp: look split: if_splits)
  ultimately show ?thesis by (simp add: exceptions_inv_def)
qed

lemma inv_commit:
  assumes inv: "exceptions_inv s" and y: "y \<in> set (es_intents s)" and c: "commit_intent y (es_db s) = Inr db"
    and ys: "set ys \<subseteq> set (es_intents s)"
  shows "exceptions_inv (s\<lparr>es_db := db, es_intents := ys\<rparr>)"
proof (cases y)
  case (IRequest now who i row)
  with y c ys show ?thesis by (auto intro: inv_commit_request [OF inv])
next
  case (IApprove now p i n)
  note c' = commit_approve_rows [OF c [unfolded IApprove commit_intent.simps]]
  from exceptions_invD(4) [OF inv y] obtain x where x: "map_of (gv_exceptions (es_db s)) i = Some x"
    "ex_requested_by x \<noteq> pr_user_id p" by (auto simp: intent_sound_def IApprove)
  show ?thesis
    using c'(2) x exceptions_invD(2) [OF inv x(1)]
    by (intro inv_update [OF inv c'(1) _ ys]) (auto simp: core_def row_sound_def)
next
  case (IEnd now who i what n)
  note c' = commit_end_rows [OF c [unfolded IEnd commit_intent.simps]]
  show ?thesis
  proof (rule inv_update [OF inv c'(1) _ ys])
    fix x assume x: "map_of (gv_exceptions (es_db s)) i = Some x"
    show "row_sound (x\<lparr>ex_status := end_status what, ex_ended_at := Some now, ex_note := n\<rparr>)
      \<and> core (x\<lparr>ex_status := end_status what, ex_ended_at := Some now, ex_note := n\<rparr>) = core x
      \<and> lifecycle (ex_status x) (ex_status (x\<lparr>ex_status := end_status what, ex_ended_at := Some now, ex_note := n\<rparr>))"
      using c'(2) x exceptions_invD(2) [OF inv x] end_lifecycle [of what]
      by (cases what) (auto simp: core_def row_sound_def)
  qed
next
  case (IExpire now i)
  note c' = commit_end_rows [OF c [unfolded IExpire commit_intent.simps]]
  show ?thesis
    using c'(2) exceptions_invD(2) [OF inv]
    by (intro inv_update [OF inv c'(1) _ ys]) (auto simp: core_def row_sound_def)
qed

lemma estep_inv:
  assumes "estep clean s s'" and inv: "exceptions_inv s"
  shows "exceptions_inv s'"
  using assms(1)
proof cases
  case (request p account q row i)
  with check_request_sound [OF request(2)] show ?thesis
    by (intro inv_same_rows [OF inv]) (auto simp: intent_sound_def)
next
  case (approve p i n t)
  with check_approve_other [OF approve(2)] show ?thesis
    by (intro inv_same_rows [OF inv]) (auto simp: intent_sound_def)
next
  case (commit y db)
  then show ?thesis using inv_commit [OF inv commit(2,3)] set_remove1_subset by metis
next
  case (warn i)
  have same: "exceptions_inv (s\<lparr>es_db := db, es_intents := es_intents s\<rparr>) \<Longrightarrow> exceptions_inv (s\<lparr>es_db := db\<rparr>)" for db by simp
  obtain w where "gv_exceptions (warn_one (es_now s) i (es_db s)) = gv_exceptions (es_db s)
     \<or> gv_exceptions (warn_one (es_now s) i (es_db s)) = gv_exceptions (update_exception i (\<lambda>x. if ex_status x = ExActive
          then x\<lparr>ex_warnings_sent := w x\<rparr> else x) (es_db s))" using warn_one_rows by blast
  then show ?thesis
  proof
    assume "gv_exceptions (warn_one (es_now s) i (es_db s)) = gv_exceptions (es_db s)"
    then show ?thesis unfolding warn by (intro inv_same_rows [OF inv]) auto
  next
    assume w: "gv_exceptions (warn_one (es_now s) i (es_db s)) = gv_exceptions (update_exception i (\<lambda>x. if ex_status x = ExActive
          then x\<lparr>ex_warnings_sent := w x\<rparr> else x) (es_db s))"
    show ?thesis unfolding warn
      by (rule same, rule inv_update [OF inv w])
        (use exceptions_invD(2) [OF inv] in \<open>auto simp: core_def row_sound_def\<close>)
  qed
qed (auto intro!: inv_same_rows [OF inv] simp: intent_sound_def dest: in_set_remove1 notin_set_remove1 set_remove1_subset [THEN subsetD])

lemma ereach_inv: "ereach clean s \<Longrightarrow> exceptions_inv s"
proof (induction rule: ereach.induct)
  case (start s)
  then show ?case by (simp add: exceptions_inv_def open_unique_def)
qed (rule estep_inv)


text \<open>C12: approval takes two. Whatever the interleaving of requests, decisions, background jobs and changes of the other
  tables, an exception in force for a group, for the organization, without an expiry, or for a rule that needs
  approval was approved by someone other than its requester; and it is the only open exception of its rule and
  scope.\<close>

theorem approval_takes_two:
  assumes "ereach clean s" and "map_of (gv_exceptions (es_db s)) i = Some x" and "ex_status x = ExActive"
  shows "(ex_scope x \<noteq> ScRepository \<or> ex_permanent x \<longrightarrow> ex_requires_approval x)
    \<and> (ex_requires_approval x \<longrightarrow> (\<exists>u. ex_decided_by x = Some u \<and> u \<noteq> ex_requested_by x))
    \<and> (\<forall>j y. map_of (gv_exceptions (es_db s)) j = Some y \<longrightarrow> same_target y x \<longrightarrow> open_status (ex_status y) \<longrightarrow> j = i)"
proof -
  note inv = ereach_inv [OF assms(1)]
  have "open_status (ex_status x)" using assms(3) by (simp add: open_status_def)
  then show ?thesis
    using exceptions_invD(2,3) [OF inv] assms(2,3) unfolding open_unique_def row_sound_def by blast
qed

section \<open>Exceptions in force for a repository\<close>

lemma active_grants_row:
  assumes "exceptions_inv s" and "g \<in> set (active_grants (es_db s) account repository groups now)"
  shows "grant_ok g \<and> (\<exists>x. map_of (gv_exceptions (es_db s)) (gr_exception_id g) = Some x \<and> ex_rule_id x = gr_rule_id g
     \<and> ex_grant_action x = gr_action g \<and> in_force now x \<and> applies_to x account repository groups \<and> row_sound x)"
proof -
  from assms(2) obtain i x where "(i, x) \<in> set (gv_exceptions (es_db s))" "g = grant_of (es_db s) (i, x)"
    "in_force now x" "applies_to x account repository groups"
    by (auto simp: active_grants_def dest!: in_set_takeD)
  moreover from this exceptions_invD(1) [OF assms(1)] have "map_of (gv_exceptions (es_db s)) i = Some x" by simp
  moreover from exceptions_invD(2) [OF assms(1) this] have "row_sound x" .
  ultimately show ?thesis by (auto simp: grant_of_def grant_ok_def row_sound_def)
qed

text \<open>Only an approved, unexpired exception breaks a floor. Take the exceptions in force for a repository from the
  tables, resolve its policy with them in enforce mode, and suppose a rule ends up below an action some layer
  requires: then an exception for that rule, active and not expired, covers this very repository, and if it needed
  approval someone other than its requester gave it.\<close>

theorem floor_broken_only_by_exception:
  assumes "ereach clean s" and "list_all layer_ok layers" and "length layers \<le> 64" and "layers_ok configs"
    and "resolve_policy \<lparr>gi_layers = layers, gi_exceptions = active_grants (es_db s) account repository groups now,
           gi_mode = Enforce\<rparr> (Some configs) = Inr ep"
    and "p \<in> set (ef_policies ep)" and "l \<in> set layers" and "(p_id p, r) \<in> set (pl_rules l)"
    and "rq_enforcement r = Mandatory" and "effective_action p < rq_action r"
  shows "\<exists>i x. map_of (gv_exceptions (es_db s)) i = Some x \<and> ex_rule_id x = p_id p \<and> in_force now x
    \<and> applies_to x account repository groups
    \<and> (ex_requires_approval x \<longrightarrow> (\<exists>u. ex_decided_by x = Some u \<and> u \<noteq> ex_requested_by x))"
proof -
  note inv = ereach_inv [OF assms(1)]
  let ?gs = "active_grants (es_db s) account repository groups now"
  let ?i = "\<lparr>gi_layers = layers, gi_exceptions = ?gs, gi_mode = Enforce\<rparr>"
  have ok: "inputs_ok ?i"
    using assms(2,3) active_grants_row [OF inv]
    by (auto simp: inputs_ok_def list_all_iff MAX_LAYERS_def MAX_EXCEPTIONS_def active_grants_def)
  obtain a where a: "floor_spec ?i (p_id p) = Some a" "rq_action r \<le> a"
    using requirement_below_floor [of l ?i "p_id p" r] assms(7-9) by auto
  obtain b where b: "effective_action p = spec_action b (floor_spec ?i (p_id p)) (granted ?i (p_id p)) Enforce"
    using resolve_policy_member [OF ok assms(4-6)] by (metis inputs.select_convs(3))
  have "granted ?i (p_id p) \<noteq> None"
  proof
    assume "granted ?i (p_id p) = None"
    with a(1) b have "rq_action r \<le> effective_action p" using a(2) by (simp add: spec_action_def le_max_iff_disj)
    with assms(10) show False by simp
  qed
  then obtain g where "g \<in> set ?gs" "gr_rule_id g = p_id p"
    by (auto simp: granted_def dest!: pick_grant_in)
  with active_grants_row [OF inv this(1)] show ?thesis by (auto simp: in_force_def row_sound_def)
qed

section \<open>The effective-policy cache follows\<close>

lemma digits_value_digits [simp]: "digits_value (digits n) = int n"
proof (induction n rule: digits.induct)
  case (1 n)
  have snoc: "digits_value (xs @ [c]) = 10 * digits_value xs + (int c - 48)" for xs c by (simp add: digits_value_def)
  show ?case
  proof (cases "n < 10")
    case True
    then show ?thesis by (subst digits.simps) (simp add: digits_value_def)
  next
    case False
    have "10 * int (n div 10) + int (n mod 10) = int n" by presburger
    with False 1 show ?thesis by (subst digits.simps) (simp add: snoc)
  qed
qed

lemma all_digits_digits [simp]: "all_digits (digits n)"
proof (induction n rule: digits.induct)
  case (1 n)
  have snoc: "all_digits xs \<Longrightarrow> ascii_digit c \<Longrightarrow> all_digits (xs @ [c])" for xs c by (simp add: all_digits_def)
  show ?case
  proof (cases "n < 10")
    case True
    then show ?thesis by (subst digits.simps) (simp add: all_digits_def ascii_digit_def)
  next
    case False
    with 1 show ?thesis by (subst digits.simps) (simp add: snoc ascii_digit_def)
  qed
qed

text \<open>The repositories an exception's scope covers.\<close>

definition covers :: "gov_db \<Rightarrow> exception_row \<Rightarrow> int \<Rightarrow> bool" where
  "covers db x repository \<longleftrightarrow>
     (case ex_scope x of
        ScOrganization \<Rightarrow> True
      | ScGroup \<Rightarrow> repository \<in> set (group_member_ids db (ex_account_id x) (ex_scope_id x))
      | ScRepository \<Rightarrow> 0 \<le> repository \<and> ex_scope_id x = id_text repository)"

lemma map_of_invalidate:
  "map_of (gv_cache (invalidate_repositories a ids now db)) (a', r)
     = map_option (\<lambda>c. if a' = a \<and> (case ids of None \<Rightarrow> True | Some rs \<Rightarrow> r \<in> set rs) then c\<lparr>cw_state := CsStale, cw_invalidated_at := Some now\<rparr> else c)
         (map_of (gv_cache db) (a', r))"
proof -
  have "map_of (map (\<lambda>((a, r), c). ((a, r), f a r c)) xs) (a', r) = map_option (f a' r) (map_of xs (a', r))"
    for f :: "int \<Rightarrow> int \<Rightarrow> cache_row \<Rightarrow> cache_row" and xs
    by (induction xs) auto
  from this [of "\<lambda>a'' r c. if a'' = a \<and> (case ids of None \<Rightarrow> True | Some rs \<Rightarrow> r \<in> set rs) then c\<lparr>cw_state := CsStale, cw_invalidated_at := Some now\<rparr> else c"]
  show ?thesis by (simp add: invalidate_repositories_def)
qed

definition cache_of :: "gov_db \<Rightarrow> int \<Rightarrow> int \<Rightarrow> cache_state option" where
  "cache_of db account repository = map_option cw_state (map_of (gv_cache db) (account, repository))"

lemma invalidate_scope_covers:
  "covers db x r \<Longrightarrow> cache_of (invalidate_scope (ex_account_id x) (ex_scope x) (ex_scope_id x) now db) (ex_account_id x) r
     \<in> {None, Some CsStale}"
  by (cases "map_of (gv_cache db) (ex_account_id x, r)"; cases "ex_scope x")
    (auto simp: covers_def invalidate_scope_def cache_of_def map_of_invalidate id_text_def)

lemma cache_of_simps [simp]:
  "cache_of (log_event e db) a r = cache_of db a r" "cache_of (emit_notice n db) a r = cache_of db a r"
  "cache_of (update_exception i f db) a r = cache_of db a r"
  "cache_of (db\<lparr>gv_exceptions := xs\<rparr>) a r = cache_of db a r"
  by (simp_all add: cache_of_def log_event_def emit_notice_def update_exception_def)

lemma covers_simps [simp]:
  "covers (log_event e db) x r = covers db x r" "covers (emit_notice n db) x r = covers db x r"
  "covers (update_exception i f db) x r = covers db x r" "covers (db\<lparr>gv_exceptions := xs\<rparr>) x r = covers db x r"
  by (simp_all add: covers_def group_member_ids_def log_event_def emit_notice_def update_exception_def
      split: exception_scope.split)

lemma covers_core: "core x = core y \<Longrightarrow> covers db x r = covers db y r"
  by (cases "ex_scope y") (auto simp: core_def covers_def)

lemma commit_approve_cache:
  assumes c: "commit_approve now p j n db = Inr db'" and r: "covers db x' r"
    and x: "map_of (gv_exceptions db) j = Some x" "core x' = core x"
  shows "cache_of db' (ex_account_id x') r \<in> {None, Some CsStale}"
proof -
  from r x(2) have "covers db x r" using covers_core by blast
  moreover from c x(1) obtain e m f where "db' = emit_notice m (log_event e
      (invalidate_scope (ex_account_id x) (ex_scope x) (ex_scope_id x) now (update_exception j f db)))"
    by (auto simp: commit_approve_def split: if_splits)
  ultimately show ?thesis
    using invalidate_scope_covers [of "update_exception j f db" x r now] x(2) by (simp add: core_def)
qed

lemma commit_end_cache:
  assumes c: "commit_end now who j ExActive to n db = Inr db'" and r: "covers db x' r"
    and x: "map_of (gv_exceptions db) j = Some x" "core x' = core x"
  shows "cache_of db' (ex_account_id x') r \<in> {None, Some CsStale}"
proof -
  from r x(2) have "covers db x r" using covers_core by blast
  moreover from c x(1) obtain f where "cache_of db' (ex_account_id x) r =
      cache_of (invalidate_scope (ex_account_id x) (ex_scope x) (ex_scope_id x) now (update_exception j f db)) (ex_account_id x) r"
    by (auto simp: commit_end_def Let_def split: if_splits)
  ultimately show ?thesis
    using invalidate_scope_covers [of "update_exception j f db" x r now] x(2) by (simp add: core_def)
qed

lemma commit_request_cache:
  assumes c: "commit_request now who j row db = Inr db'" and "covers db row r" and "\<not> ex_requires_approval row"
  shows "cache_of db' (ex_account_id row) r \<in> {None, Some CsStale}"
  using assms invalidate_scope_covers [of "log_event e (db\<lparr>gv_exceptions := xs\<rparr>)" row r now for e xs]
  by (auto simp: commit_request_def Let_def split: if_splits)

lemma only_updated_row_changes:
  assumes "gv_exceptions db' = gv_exceptions (update_exception j f db)" and "map_of (gv_exceptions db') i = Some x'"
    and "(ex_status x' = ExActive) \<noteq> (\<exists>x. map_of (gv_exceptions db) i = Some x \<and> ex_status x = ExActive)"
  shows "i = j"
proof (rule ccontr)
  assume "i \<noteq> j"
  with assms(1,2) have "map_of (gv_exceptions db) i = Some x'" by (simp add: map_of_update_exception option.map_ident)
  with assms(3) show False by simp
qed

text \<open>The effective-policy cache follows. Whatever was checked before, a transaction that puts an exception in force or
  ends one that was leaves no repository it covers with an up-to-date cached policy: every such row is marked stale
  in the same transaction.\<close>

theorem exception_change_invalidates:
  assumes "ereach clean s" and "y \<in> set (es_intents s)" and "commit_intent y (es_db s) = Inr db'"
    and "map_of (gv_exceptions db') i = Some x'"
    and "(ex_status x' = ExActive) \<noteq> (\<exists>x. map_of (gv_exceptions (es_db s)) i = Some x \<and> ex_status x = ExActive)"
    and "covers (es_db s) x' repository"
  shows "cache_of db' (ex_account_id x') repository \<in> {None, Some CsStale}"
proof -
  note c = assms(3)
  have old: "core x' = core x" if "map_of (gv_exceptions (es_db s)) i = Some x" for x
    using commit_lifecycle [OF c that] assms(4) by auto
  show ?thesis
  proof (cases y)
    case (IRequest now who j row)
    note c' = c [unfolded IRequest commit_intent.simps]
    note rows = commit_request_rows [OF c']
    have "x' = row \<and> map_of (gv_exceptions (es_db s)) i = None \<or> map_of (gv_exceptions (es_db s)) i = Some x'"
      using assms(4) rows(2) by (auto simp: rows(1) map_add_def split: option.splits if_splits)
    moreover have "\<not> ex_requires_approval row" if "ex_status row = ExActive"
      using that exceptions_invD(4) [OF ereach_inv [OF assms(1)] assms(2)]
      by (auto simp: IRequest intent_sound_def split: if_splits)
    ultimately have "x' = row" "\<not> ex_requires_approval row"
      using assms(5) by auto
    with commit_request_cache [OF c'] assms(6) show ?thesis by auto
  next
    case (IApprove now p j n)
    note c' = c [unfolded IApprove commit_intent.simps]
    note rows = commit_approve_rows [OF c']
    have "i = j" by (rule only_updated_row_changes [OF rows(1) assms(4,5)])
    with rows(2) old obtain x where "map_of (gv_exceptions (es_db s)) j = Some x" "core x' = core x" by blast
    with commit_approve_cache [OF c' assms(6)] show ?thesis by blast
  next
    case (IEnd now who j what n)
    note c' = c [unfolded IEnd commit_intent.simps]
    note rows = commit_end_rows [OF c']
    have j: "i = j" by (rule only_updated_row_changes [OF rows(1) assms(4,5)])
    from rows(2) assms(4) have "ex_status x' = end_status what"
      unfolding rows(1) map_of_update_exception j by auto
    then have "ex_status x' \<noteq> ExActive" by (cases what) auto
    with assms(5) rows(2) have "end_from what = ExActive" unfolding j by auto
    with j rows(2) old obtain x where "map_of (gv_exceptions (es_db s)) j = Some x" "core x' = core x"
      "end_from what = ExActive" by blast
    with commit_end_cache [of now who j "end_status what" n "es_db s" db' x' repository x] c' assms(6) show ?thesis by simp
  next
    case (IExpire now j)
    note c' = c [unfolded IExpire commit_intent.simps]
    note rows = commit_end_rows [OF c']
    have "i = j" by (rule only_updated_row_changes [OF rows(1) assms(4,5)])
    with rows(2) old obtain x where "map_of (gv_exceptions (es_db s)) j = Some x" "core x' = core x" by blast
    with commit_end_cache [OF c' assms(6)] show ?thesis by blast
  qed
qed

section \<open>Concrete runs\<close>

definition sample_id :: string where
  "sample_id = ''0123456789abcdef0123456789abcdef''"

definition approver :: principal where
  "approver = sample_principal\<lparr>pr_user_id := 8, pr_login := asc ''bob''\<rparr>"

definition sample_request :: exception_request where
  "sample_request = \<lparr>xr_rule = ''ai_coauthor'', xr_scope = Some ScOrganization, xr_scope_id = RawNone,
     xr_action = Some WARN, xr_reason = Some (asc ''why''), xr_expires = At 5000, xr_permanent = False\<rparr>"

definition sample_row :: exception_row where
  "sample_row = \<lparr>ex_account_id = 1, ex_rule_id = ''ai_coauthor'', ex_scope = ScOrganization, ex_scope_id = [],
     ex_grant_action = WARN, ex_severity = SevHigh, ex_status = ExRequested, ex_requires_approval = True,
     ex_permanent = False, ex_expires_at = Some 5000, ex_requested_at = 1000, ex_requested_by = 7,
     ex_reason_text = asc ''why'', ex_decided_at = None, ex_decided_by = None, ex_note = None,
     ex_activated_at = None, ex_ended_at = None, ex_warnings_sent = []\<rparr>"

definition empty_db :: gov_db where
  "empty_db = \<lparr>gv_installations = [], gv_known = [], gv_session_repositories = [], gv_groups = [],
     gv_group_members = [],
     gv_cache = [((1, 10), \<lparr>cw_state = CsUpToDate, cw_resolved = None, cw_invalidated_at = None, cw_attempts = 0\<rparr>)],
     gv_modes = [], gv_settings = [], gv_exceptions = [],
     gv_audit = [], gv_outbox = []\<rparr>"

definition requested_db :: gov_db where
  "requested_db = empty_db\<lparr>gv_exceptions := [(sample_id, sample_row)],
     gv_audit := [ExceptionRequested (user_actor 7 (asc ''ann'')) 1 sample_id True],
     gv_outbox := [NoExceptionRequested 1 sample_id]\<rparr>"

definition approving :: esys where
  "approving = \<lparr>es_db = requested_db, es_now = 1000, es_intents = [IApprove 1000 approver sample_id None]\<rparr>"

definition approved_db :: gov_db where
  "approved_db = (case commit_approve 1000 approver sample_id None requested_db of Inl _ \<Rightarrow> empty_db | Inr db \<Rightarrow> db)"

definition approved_row :: exception_row where
  "approved_row = sample_row\<lparr>ex_status := ExActive, ex_decided_at := Some 1000, ex_decided_by := Some 8,
     ex_note := None, ex_activated_at := Some 1000\<rparr>"

definition approved :: esys where
  "approved = \<lparr>es_db = approved_db, es_now = 1000, es_intents = []\<rparr>"

definition plain_clean :: "nat \<Rightarrow> ustr \<Rightarrow> ustr" where
  "plain_clean limit t = t"

lemmas sample_run_defs = sample_request_def sample_row_def empty_db_def requested_db_def approver_def sample_principal_def

lemma sample_check_request: "check_request plain_clean 1000 sample_principal 1 sample_request empty_db = Inr sample_row"
  by (simp add: check_request_def sample_run_defs require_def can_def role_in_def permission_defs unknown_ids_def KNOWN_POLICY_IDS_def
      DEFAULT_POLICIES_def mk_policy_def text_field_def str_eval MAX_REASON_CHARS_def plain_clean_def
      check_scope_id_def check_expiry_def load_settings_def DEFAULT_SETTINGS_def needs_approval_def rule_severity_def
      CATALOG_SEVERITIES_def Let_def)

lemma sample_commit_request:
  "commit_request 1000 (user_actor 7 (asc ''ann'')) sample_id sample_row empty_db = Inr requested_db"
  by (simp add: commit_request_def sample_run_defs log_event_def emit_notice_def Let_def)

lemma sample_hex: "is_hex_id (asc sample_id)"
  by code_simp

lemma sample_check_approve: "check_approve plain_clean 1000 approver sample_id None requested_db = Inr None"
  by (simp add: check_approve_def authorized_row_def sample_hex sample_run_defs require_def can_def role_in_def permission_defs
      exception_visible_def text_field_def)

lemma sample_commit_approve: "commit_approve 1000 approver sample_id None requested_db = Inr approved_db"
  by (simp add: approved_db_def commit_approve_def requested_db_def sample_row_def)

lemma approved_exceptions: "gv_exceptions approved_db = [(sample_id, approved_row)]"
  by (simp add: approved_db_def commit_approve_def requested_db_def sample_row_def update_exception_def approved_row_def
      approver_def)

lemma approving_reach: "ereach plain_clean approving"
proof -
  let ?s0 = "\<lparr>es_db = empty_db, es_now = 1000, es_intents = []\<rparr>"
  let ?r = "IRequest 1000 (user_actor 7 (asc ''ann'')) sample_id sample_row"
  have "ereach plain_clean ?s0" by (rule ereach.start) (simp_all add: empty_db_def)
  moreover have "estep plain_clean ?s0 (add_intent ?r ?s0)"
    using estep.request [of plain_clean ?s0 sample_principal 1 sample_request sample_row sample_id] sample_check_request
    by (simp add: sample_principal_def)
  ultimately have "ereach plain_clean (add_intent ?r ?s0)" by (rule ereach.step)
  moreover have "estep plain_clean (add_intent ?r ?s0) \<lparr>es_db = requested_db, es_now = 1000, es_intents = []\<rparr>"
    using estep.commit [of ?r "add_intent ?r ?s0" requested_db] sample_commit_request by simp
  ultimately have s1: "ereach plain_clean \<lparr>es_db = requested_db, es_now = 1000, es_intents = []\<rparr>"
    by (rule ereach.step)
  have "estep plain_clean \<lparr>es_db = requested_db, es_now = 1000, es_intents = []\<rparr> approving"
    using estep.approve [of plain_clean "\<lparr>es_db = requested_db, es_now = 1000, es_intents = []\<rparr>" approver sample_id None None]
      sample_check_approve by (simp add: approving_def)
  with s1 show ?thesis by (rule ereach.step)
qed

lemma approved_step: "estep plain_clean approving approved"
  using estep.commit [of "IApprove 1000 approver sample_id None" approving approved_db] sample_commit_approve
  by (simp add: approving_def approved_def)

lemma approved_reach: "ereach plain_clean approved"
  using approving_reach approved_step by (rule ereach.step)


lemma approval_takes_two_witness: "\<exists>u. ex_decided_by approved_row = Some u \<and> u \<noteq> ex_requested_by approved_row"
  using approval_takes_two [OF approved_reach, of sample_id approved_row]
  by (simp add: approved_def approved_exceptions approved_row_def sample_row_def)

lemma exception_change_invalidates_witness: "cache_of approved_db 1 10 \<in> {None, Some CsStale}"
proof -
  have "cache_of approved_db (ex_account_id approved_row) 10 \<in> {None, Some CsStale}"
  proof (rule exception_change_invalidates [OF approving_reach, of "IApprove 1000 approver sample_id None"])
    show "map_of (gv_exceptions approved_db) sample_id = Some approved_row" by (simp add: approved_exceptions)
  qed (use sample_commit_approve in \<open>auto simp: approving_def approved_row_def requested_db_def sample_row_def covers_def\<close>)
  then show ?thesis by (simp add: approved_row_def sample_row_def)
qed

definition sample_grant :: grant where
  "sample_grant = \<lparr>gr_exception_id = ''0123456789abcdef0123456789abcdef'', gr_rule_id = ''ai_coauthor'', gr_action = WARN,
     gr_scope = ScOrganization, gr_scope_label = ''organization'', gr_expires_at = Some 5000\<rparr>"

definition excepted_inputs :: inputs where
  "excepted_inputs = \<lparr>gi_layers = [org_layer], gi_exceptions = [sample_grant], gi_mode = Enforce\<rparr>"

lemma approved_grants: "active_grants (es_db approved) 1 10 [] 1000 = [sample_grant]"
  by (simp add: active_grants_def approved_def approved_exceptions approved_row_def sample_row_def grant_of_def
      applies_to_def in_force_def sample_grant_def sample_id_def)

lemma excepted_sample:
  "policy_at (resolved excepted_inputs [weak_config]) ''ai_coauthor''
     \<in> set (ef_policies (resolved excepted_inputs [weak_config]))"
  "p_id (policy_at (resolved excepted_inputs [weak_config]) ''ai_coauthor'') = ''ai_coauthor''"
  "effective_action (policy_at (resolved excepted_inputs [weak_config]) ''ai_coauthor'') = WARN"
  by code_simp+

lemma floor_broken_only_by_exception_witness:
  "\<exists>i x. map_of (gv_exceptions (es_db approved)) i = Some x \<and> ex_rule_id x = ''ai_coauthor''
     \<and> in_force 1000 x \<and> applies_to x 1 10 []"
proof -
  have ok: "inputs_ok excepted_inputs" by code_simp
  let ?p = "policy_at (resolved excepted_inputs [weak_config]) ''ai_coauthor''"
  let ?r = "\<lparr>rq_action = BLOCK, rq_enforcement = Mandatory\<rparr>"
  have "\<exists>i x. map_of (gv_exceptions (es_db approved)) i = Some x \<and> ex_rule_id x = p_id ?p \<and> in_force 1000 x
    \<and> applies_to x 1 10 []
    \<and> (ex_requires_approval x \<longrightarrow> (\<exists>u. ex_decided_by x = Some u \<and> u \<noteq> ex_requested_by x))"
  proof (rule floor_broken_only_by_exception [OF approved_reach])
    show "resolve_policy \<lparr>gi_layers = [org_layer], gi_exceptions = active_grants (es_db approved) 1 10 [] 1000,
        gi_mode = Enforce\<rparr> (Some [weak_config]) = Inr (resolved excepted_inputs [weak_config])"
      unfolding approved_grants using resolved_eq [OF ok sample_inputs_ok(3)] by (simp add: excepted_inputs_def)
    show "list_all layer_ok [org_layer]" "layers_ok [weak_config]" by code_simp+
    show "?p \<in> set (ef_policies (resolved excepted_inputs [weak_config]))" by (rule excepted_sample)
    show "(p_id ?p, ?r) \<in> set (pl_rules org_layer)" unfolding excepted_sample by (simp add: org_layer_def)
    show "effective_action ?p < rq_action ?r" unfolding excepted_sample by code_simp
  qed simp_all
  then show ?thesis unfolding excepted_sample by blast
qed

end
