(* ===== verification/Publication.thy ===== *)
theory Publication
  imports Policy_Exceptions
begin

text \<open>
  Versioned policy of organizations, groups and repositories (\<open>controlplane/policies.py\<close>): documents, changes,
  publishing and rolling back. A publication is checked against one state of the tables and written by a later
  transaction that checks the version again, so each is a \<open>check\<close> and a \<open>commit\<close>. A stored document is the JSON value
  of its text; the texts the program writes have no white space, so a value stands for its compact text
  (\<open>json_text\<close>), which is what is fingerprinted. The hash and the cleaning of a reason are parameters.
\<close>

section \<open>Documents\<close>

text \<open>A value that is neither a text nor an object keeps its text only.\<close>

datatype json = JText string | JObject "(string \<times> json) list" | JOther string

definition json_char :: "char \<Rightarrow> string" where
  "json_char c = (if c = CHR 0x22 then [CHR 0x5C, CHR 0x22] else if c = CHR 0x5C then [CHR 0x5C, CHR 0x5C] else [c])"

definition json_quote :: "string \<Rightarrow> string" where
  "json_quote s = CHR 0x22 # concat (map json_char s) @ [CHR 0x22]"

fun json_text :: "json \<Rightarrow> string" where
  "json_text (JText s) = json_quote s"
| "json_text (JObject kvs) =
     CHR 0x7B # py_join [CHR 0x2C] (map (\<lambda>(k, v). json_quote k @ CHR 0x3A # json_text v) kvs) @ [CHR 0x7D]"
| "json_text (JOther t) = t"

type_synonym actions = "(string \<times> action) list"

definition known_policy :: "string \<Rightarrow> bool" where
  "known_policy k \<longleftrightarrow> k \<in> set KNOWN_POLICY_IDS"

definition action_of :: "string \<Rightarrow> action option" where
  "action_of s = find (\<lambda>a. action_value a = s) [ALLOW, WARN, BLOCK]"

definition floor_action :: "action \<Rightarrow> bool" where
  "floor_action a \<longleftrightarrow> a = WARN \<or> a = BLOCK"

definition default_entry :: "action \<Rightarrow> json" where
  "default_entry a = JObject [(''action'', JText (action_value a)), (''enforcement'', JText ''default'')]"

definition canonical_document :: "actions \<Rightarrow> actions \<Rightarrow> cp_error + json" where
  "canonical_document floors defaults =
     (if \<exists>k \<in> set (map fst floors). k \<in> set (map fst defaults) then Inl (InvalidInput ''defaults'')
      else Inr (JObject (sort_key fst (map (\<lambda>(k, a). (k, JText (action_value a))) floors
                           @ map (\<lambda>(k, a). (k, default_entry a)) defaults))))"

text \<open>\<open>parse_document\<close>: an entry adds to the floors or to the defaults; \<open>None\<close> is the \<open>ValueError\<close>.\<close>

fun parse_entry :: "string \<times> json \<Rightarrow> actions \<times> actions \<Rightarrow> (actions \<times> actions) option" where
  "parse_entry (k, v) (fs, ds) =
     (if \<not> known_policy k then None
      else case v of
        JText s \<Rightarrow>
          (case action_of s of None \<Rightarrow> None
           | Some a \<Rightarrow> if floor_action a then Some (AList.update k a fs, ds) else None)
      | JObject kvs \<Rightarrow>
          if set (map fst kvs) \<noteq> {''action'', ''enforcement''} then None
          else if map_of kvs ''enforcement'' \<noteq> Some (JText ''default'') then None
          else (case map_of kvs ''action'' of
                  Some (JText s) \<Rightarrow> (case action_of s of None \<Rightarrow> None | Some a \<Rightarrow> Some (fs, AList.update k a ds))
                | _ \<Rightarrow> None)
      | JOther _ \<Rightarrow> None)"

fun parse_entries :: "(string \<times> json) list \<Rightarrow> actions \<times> actions \<Rightarrow> (actions \<times> actions) option" where
  "parse_entries [] acc = Some acc"
| "parse_entries (e # es) acc = (case parse_entry e acc of None \<Rightarrow> None | Some acc' \<Rightarrow> parse_entries es acc')"

definition parse_document :: "json \<Rightarrow> (actions \<times> actions) option" where
  "parse_document doc = (case doc of JObject kvs \<Rightarrow> parse_entries kvs ([], []) | _ \<Rightarrow> None)"

text \<open>\<open>validate_floors\<close> and \<open>validate_defaults\<close> on the JSON of a request; null sets nothing.\<close>

definition json_null :: json where "json_null = JOther ''null''"

fun validate_actions :: "string \<Rightarrow> (action \<Rightarrow> bool) \<Rightarrow> (string \<times> json) list \<Rightarrow> actions \<Rightarrow> cp_error + actions" where
  "validate_actions field ok [] acc = Inr acc"
| "validate_actions field ok ((k, v) # kvs) acc =
     (if \<not> known_policy k then Inl (InvalidInput field)
      else if v = json_null then validate_actions field ok kvs acc
      else case v of
        JText s \<Rightarrow>
          (case action_of s of
             Some a \<Rightarrow> if ok a then validate_actions field ok kvs (AList.update k a acc)
                       else Inl (InvalidInput (field @ ''.'' @ k))
           | None \<Rightarrow> Inl (InvalidInput (field @ ''.'' @ k)))
      | _ \<Rightarrow> Inl (InvalidInput (field @ ''.'' @ k)))"

definition validate_floors :: "json \<Rightarrow> cp_error + actions" where
  "validate_floors raw =
     (case raw of JObject kvs \<Rightarrow> validate_actions ''floors'' floor_action kvs [] | _ \<Rightarrow> Inl (InvalidInput ''floors''))"

definition validate_defaults :: "json \<Rightarrow> cp_error + actions" where
  "validate_defaults raw =
     (case raw of JObject kvs \<Rightarrow> validate_actions ''defaults'' (\<lambda>_. True) kvs []
      | _ \<Rightarrow> Inl (InvalidInput ''defaults''))"

section \<open>Changes\<close>

record policy_change =
  pc_id :: string
  pc_old :: "action option"
  pc_new :: "action option"
  pc_weakening :: bool
  pc_default :: bool

definition builtin_action :: "string \<Rightarrow> action" where
  "builtin_action k = p_action (the (map_of DEFAULT_POLICIES k))"

definition or_builtin :: "string \<Rightarrow> action option \<Rightarrow> action" where
  "or_builtin k a = (case a of None \<Rightarrow> builtin_action k | Some b \<Rightarrow> b)"

definition floor_weakened :: "action option \<Rightarrow> action option \<Rightarrow> bool" where
  "floor_weakened before after =
     (case before of None \<Rightarrow> False
      | Some b \<Rightarrow> (case after of None \<Rightarrow> True | Some a \<Rightarrow> action_rank a < action_rank b))"

definition changed_keys :: "actions \<Rightarrow> actions \<Rightarrow> string list" where
  "changed_keys old new = filter (\<lambda>k. map_of old k \<noteq> map_of new k) (sort (remdups (map fst old @ map fst new)))"

definition policy_changes :: "actions \<Rightarrow> actions \<Rightarrow> actions \<Rightarrow> actions \<Rightarrow> policy_change list" where
  "policy_changes old new old_defaults new_defaults =
     map (\<lambda>k. \<lparr>pc_id = k, pc_old = map_of old k, pc_new = map_of new k,
                pc_weakening = floor_weakened (map_of old k) (map_of new k), pc_default = False\<rparr>)
       (changed_keys old new)
     @ map (\<lambda>k. \<lparr>pc_id = k, pc_old = map_of old_defaults k, pc_new = map_of new_defaults k,
                pc_weakening = action_rank (or_builtin k (map_of new_defaults k))
                               < action_rank (or_builtin k (map_of old_defaults k)), pc_default = True\<rparr>)
       (changed_keys old_defaults new_defaults)"

definition change_text :: "policy_change \<Rightarrow> string" where
  "change_text c =
     pc_id c @ (if pc_default c then '' (default)'' else []) @ '': ''
     @ (case pc_old c of None \<Rightarrow> ''repository'' | Some a \<Rightarrow> action_value a) @ '' -> ''
     @ (case pc_new c of None \<Rightarrow> ''repository'' | Some a \<Rightarrow> action_value a)"

definition change_summary :: "policy_change list \<Rightarrow> string" where
  "change_summary cs = py_join ''; '' (map change_text cs)"

record policy_diff_view =
  pd_added :: "policy_change list"
  pd_changed :: "policy_change list"
  pd_removed :: "policy_change list"
  pd_weakening :: bool

definition policy_diff :: "actions \<Rightarrow> actions \<Rightarrow> actions \<Rightarrow> actions \<Rightarrow> policy_diff_view" where
  "policy_diff old new old_defaults new_defaults =
     (let entries = map (\<lambda>c. c\<lparr>pc_weakening := (pc_old c \<noteq> None \<or> pc_default c) \<and> pc_weakening c\<rparr>)
                      (policy_changes old new old_defaults new_defaults);
          added = filter (\<lambda>c. pc_old c = None) entries;
          removed = map (\<lambda>c. if pc_default c then c else c\<lparr>pc_weakening := True\<rparr>)
                      (filter (\<lambda>c. pc_old c \<noteq> None \<and> pc_new c = None) entries);
          changed = filter (\<lambda>c. pc_old c \<noteq> None \<and> pc_new c \<noteq> None) entries
      in \<lparr>pd_added = added, pd_changed = changed, pd_removed = removed,
          pd_weakening = list_ex pc_weakening (added @ changed @ removed)\<rparr>)"

section \<open>State\<close>

datatype version_kind = VkChange | VkRollback

record version_row =
  pv_account :: int
  pv_target :: policy_target
  pv_version :: nat
  pv_document :: json
  pv_fingerprint :: string
  pv_at :: int
  pv_by :: actor
  pv_reason :: "ustr option"
  pv_kind :: version_kind
  pv_rollback_of :: "nat option"
  pv_restored :: "nat option"
  pv_draft :: "string option"
  pv_emergency :: bool

datatype draft_state = DrDraft | DrPending | DrApproved | DrRejected | DrPublished | DrCancelled

record draft_row =
  dr_account :: int
  dr_target :: policy_target
  dr_base_version :: nat
  dr_document :: json
  dr_fingerprint :: string
  dr_title :: ustr
  dr_reason :: "ustr option"
  dr_state :: draft_state
  dr_revision :: int
  dr_created_by :: int
  dr_updated_at :: int
  dr_submitted_at :: "int option"
  dr_submitted_by :: "int option"
  dr_published_version :: "nat option"
  dr_published_at :: "int option"
  dr_emergency :: bool
  dr_rollout :: "string option"

datatype approval_status = ApPending | ApApproved | ApRejected | ApCancelled

record approval_row =
  ap_draft :: string
  ap_account :: int
  ap_fingerprint :: string
  ap_requested_by :: int
  ap_requested_at :: int
  ap_status :: approval_status
  ap_decided_by :: "int option"
  ap_decided_at :: "int option"
  ap_reason :: "ustr option"

datatype rollout_state = RoPilot | RoRollout | RoPaused | RoActive | RoRolledBack

datatype stage_plan = StageRepositories ustr "int list" | StagePercent ustr nat

record thresholds =
  th_max_error_rate :: rat
  th_max_block_rate :: rat
  th_min_scans :: int

record rollout_row =
  ro_account :: int
  ro_target :: policy_target
  ro_from :: nat
  ro_to :: nat
  ro_state :: rollout_state
  ro_stages :: "stage_plan list"
  ro_current :: nat
  ro_thresholds :: thresholds
  ro_auto_pause :: bool
  ro_auto_rollback :: bool
  ro_stage_started_at :: int
  ro_paused_at :: "int option"
  ro_paused_reason :: "ustr option"
  ro_paused_from :: "rollout_state option"
  ro_completed_at :: "int option"
  ro_rolled_back_at :: "int option"
  ro_rollback_version :: "nat option"

record pub_db =
  pb_gov :: gov_db
  pb_versions :: "version_row list"
  pb_drafts :: "(string \<times> draft_row) list"
  pb_approvals :: "(string \<times> approval_row) list"
  pb_rollouts :: "(string \<times> rollout_row) list"
  pb_enrolled :: "((string \<times> int) \<times> (nat \<times> int)) list"

definition on_gov :: "(gov_db \<Rightarrow> gov_db) \<Rightarrow> pub_db \<Rightarrow> pub_db" where
  "on_gov f db = db\<lparr>pb_gov := f (pb_gov db)\<rparr>"

text \<open>\<open>PublishedPolicy\<close>, what a hook is told inside the publishing transaction.\<close>

record published =
  pu_account :: int
  pu_target :: policy_target
  pu_version :: nat
  pu_previous :: nat
  pu_kind :: version_kind
  pu_now :: int

type_synonym publish_hook = "published \<Rightarrow> pub_db \<Rightarrow> cp_error + pub_db"

section \<open>Versions\<close>

definition versions_of :: "pub_db \<Rightarrow> int \<Rightarrow> policy_target \<Rightarrow> version_row list" where
  "versions_of db account target = filter (\<lambda>v. pv_account v = account \<and> pv_target v = target) (pb_versions db)"

text \<open>\<open>SELECT MAX(version)\<close>, 0 when there is none, and the row of a version.\<close>

definition max_version :: "pub_db \<Rightarrow> int \<Rightarrow> policy_target \<Rightarrow> nat" where
  "max_version db account target = foldl max 0 (map pv_version (versions_of db account target))"

definition version_at :: "pub_db \<Rightarrow> int \<Rightarrow> policy_target \<Rightarrow> nat \<Rightarrow> version_row option" where
  "version_at db account target n = find (\<lambda>v. pv_version v = n) (versions_of db account target)"

definition latest_row :: "pub_db \<Rightarrow> int \<Rightarrow> policy_target \<Rightarrow> version_row option" where
  "latest_row db account target = py_max pv_version (versions_of db account target)"

text \<open>The entries of a row: a document that does not parse sets nothing.\<close>

definition row_actions :: "version_row option \<Rightarrow> actions \<times> actions" where
  "row_actions v = (case v of None \<Rightarrow> ([], [])
     | Some r \<Rightarrow> (case parse_document (pv_document r) of None \<Rightarrow> ([], []) | Some fd \<Rightarrow> fd))"

definition current_version :: "pub_db \<Rightarrow> int \<Rightarrow> policy_target \<Rightarrow> nat" where
  "current_version db account target = (case latest_row db account target of None \<Rightarrow> 0 | Some v \<Rightarrow> pv_version v)"

text \<open>\<open>target_label\<close> finds a label exactly for the targets of the account.\<close>

definition target_known :: "gov_db \<Rightarrow> int \<Rightarrow> policy_target \<Rightarrow> bool" where
  "target_known db account target =
     (case target of
        TgOrganization \<Rightarrow> True
      | TgGroup g \<Rightarrow> open_group db account g
      | TgRepository r \<Rightarrow>
          all_digits r \<and> list_ex (\<lambda>k. kr_repository_id k = digits_value r \<and>
            list_ex (\<lambda>i. in_id i = kr_installation_id k \<and> in_account_id i = account) (gv_installations db)) (gv_known db))"

fun target_scope :: "policy_target \<Rightarrow> exception_scope" where
  "target_scope TgOrganization = ScOrganization"
| "target_scope (TgGroup _) = ScGroup"
| "target_scope (TgRepository _) = ScRepository"

fun target_id :: "policy_target \<Rightarrow> ustr" where
  "target_id TgOrganization = []"
| "target_id (TgGroup g) = g"
| "target_id (TgRepository r) = r"

text \<open>The hook every publication runs first: \<open>on_policy_published\<close> of the resolver.\<close>

definition on_policy_published :: publish_hook where
  "on_policy_published p db =
     Inr (on_gov (invalidate_scope (pu_account p) (target_scope (pu_target p)) (target_id (pu_target p)) (pu_now p)) db)"

definition clean_reason :: "(nat \<Rightarrow> ustr \<Rightarrow> ustr) \<Rightarrow> ustr option \<Rightarrow> ustr option" where
  "clean_reason clean r = (case r of None \<Rightarrow> None
     | Some t \<Rightarrow> if py_strip t = [] then None else Some (clean MAX_REASON_CHARS (py_strip t)))"

definition MAX_DOCUMENT_BYTES :: nat where "MAX_DOCUMENT_BYTES = 16384"

section \<open>Publishing\<close>

record update_request =
  ur_account :: int
  ur_actor :: actor
  ur_authenticated_at :: int
  ur_expected :: int
  ur_floors :: actions
  ur_defaults :: "actions option"
  ur_reason :: "ustr option"
  ur_confirm :: bool
  ur_target :: policy_target
  ur_draft :: "string option"
  ur_emergency :: bool

text \<open>The part of \<open>update\<close> before its transaction: the document, the changes and the reason.\<close>

definition check_update ::
  "(nat \<Rightarrow> ustr \<Rightarrow> ustr) \<Rightarrow> int \<Rightarrow> update_request \<Rightarrow> pub_db \<Rightarrow> cp_error + json \<times> policy_change list \<times> ustr option" where
  "check_update clean now q db =
     (let reason = clean_reason clean (ur_reason q);
          (floors, defaults) = row_actions (latest_row db (ur_account q) (ur_target q))
      in if int (current_version db (ur_account q) (ur_target q)) \<noteq> ur_expected q then Inl Conflict
         else (let new_defaults = (case ur_defaults q of
                     None \<Rightarrow> filter (\<lambda>(k, _). k \<notin> set (map fst (ur_floors q))) defaults
                   | Some ds \<Rightarrow> ds);
                   changes = policy_changes floors (ur_floors q) defaults new_defaults;
                   weakening = list_ex pc_weakening changes
               in if changes = [] then Inl (InvalidInput [])
                  else if weakening \<and> \<not> ur_confirm q then Inl (ConfirmationRequired [])
                  else if weakening \<and> now - ur_authenticated_at q > REAUTHENTICATION_WINDOW
                  then Inl ReauthenticationRequired
                  else if (weakening \<or> ur_emergency q) \<and> reason = None then Inl (InvalidInput ''reason'')
                  else case canonical_document (ur_floors q) new_defaults of
                    Inl e \<Rightarrow> Inl e
                  | Inr doc \<Rightarrow> if MAX_DOCUMENT_BYTES < length (json_text doc) then Inl (InvalidInput [])
                               else Inr (doc, changes, reason)))"

text \<open>The transaction of \<open>update\<close>: the version, the audit events, the notices and the hooks.\<close>

definition commit_update ::
  "(string \<Rightarrow> string) \<Rightarrow> int \<Rightarrow> update_request \<Rightarrow> json \<times> policy_change list \<times> ustr option \<Rightarrow> publish_hook list
     \<Rightarrow> pub_db \<Rightarrow> cp_error + pub_db" where
  "commit_update hash now q change hooks db =
     (case change of (doc, changes, reason) \<Rightarrow>
      let account = ur_account q; target = ur_target q; latest = max_version db account target;
          weakening = list_ex pc_weakening changes
      in if \<not> target_known (pb_gov db) account target then Inl NotFound
         else if int latest \<noteq> ur_expected q then Inl Conflict
         else (let row = \<lparr>pv_account = account, pv_target = target, pv_version = latest + 1, pv_document = doc,
                          pv_fingerprint = hash (json_text doc), pv_at = now, pv_by = ur_actor q, pv_reason = reason,
                          pv_kind = VkChange, pv_rollback_of = None, pv_restored = None, pv_draft = ur_draft q,
                          pv_emergency = ur_emergency q\<rparr>;
                   written = on_gov (emit_notice (NoPolicyChanged account target (latest + 1) weakening)
                       \<circ> log_event (PolicyPublished (ur_actor q) account target latest (latest + 1)
                           (change_summary changes) weakening reason))
                     (db\<lparr>pb_versions := pb_versions db @ [row]\<rparr>);
                   told = (if ur_emergency q
                     then on_gov (emit_notice (NoPolicyEmergency account target (latest + 1))
                       \<circ> log_event (PolicyEmergencyPublished (ur_actor q) account target (latest + 1)
                           (change_summary changes) reason)) written
                     else written)
               in fold_err (\<lambda>h. h \<lparr>pu_account = account, pu_target = target, pu_version = latest + 1,
                                   pu_previous = latest, pu_kind = VkChange, pu_now = now\<rparr>)
                    (on_policy_published # hooks) told))"

definition update_policy ::
  "(string \<Rightarrow> string) \<Rightarrow> (nat \<Rightarrow> ustr \<Rightarrow> ustr) \<Rightarrow> int \<Rightarrow> update_request \<Rightarrow> publish_hook list \<Rightarrow> pub_db \<Rightarrow> cp_error + pub_db" where
  "update_policy hash clean now q hooks db =
     (case check_update clean now q db of Inl e \<Rightarrow> Inl e | Inr change \<Rightarrow> commit_update hash now q change hooks db)"

section \<open>Rolling back\<close>

definition verify_integrity :: "(string \<Rightarrow> string) \<Rightarrow> version_row \<Rightarrow> bool" where
  "verify_integrity hash v \<longleftrightarrow>
     hash (json_text (pv_document v)) = pv_fingerprint v
     \<and> (case parse_document (pv_document v) of
          None \<Rightarrow> False
        | Some (fs, ds) \<Rightarrow> canonical_document fs ds = Inr (pv_document v))"

record rollback_request =
  rb_account :: int
  rb_actor :: actor
  rb_authenticated_at :: int
  rb_version :: int
  rb_expected :: int
  rb_reason :: "ustr option"
  rb_confirm :: bool
  rb_target :: policy_target

definition check_rollback ::
  "(string \<Rightarrow> string) \<Rightarrow> (nat \<Rightarrow> ustr \<Rightarrow> ustr) \<Rightarrow> int \<Rightarrow> rollback_request \<Rightarrow> pub_db
     \<Rightarrow> cp_error + version_row \<times> policy_change list \<times> bool \<times> ustr" where
  "check_rollback hash clean now q db =
     (case clean_reason clean (rb_reason q) of
        None \<Rightarrow> Inl (InvalidInput ''reason'')
      | Some reason \<Rightarrow>
          (let (floors, defaults) = row_actions (latest_row db (rb_account q) (rb_target q));
               current = int (current_version db (rb_account q) (rb_target q))
           in if current \<noteq> rb_expected q then Inl Conflict
              else if \<not> (1 \<le> rb_version q \<and> rb_version q < current) then Inl (InvalidInput ''target_version'')
              else case version_at db (rb_account q) (rb_target q) (nat (rb_version q)) of
                None \<Rightarrow> Inl (InvalidInput ''target_version'')
              | Some restored \<Rightarrow>
                  if \<not> verify_integrity hash restored then Inl PolicyIntegrity
                  else (let (old_floors, old_defaults) = row_actions (Some restored);
                            d = policy_diff floors old_floors defaults old_defaults
                        in if pd_added d = [] \<and> pd_changed d = [] \<and> pd_removed d = []
                           then Inl (InvalidInput ''target_version'')
                           else if \<not> rb_confirm q then Inl (ConfirmationRequired [])
                           else if pd_weakening d \<and> now - rb_authenticated_at q > REAUTHENTICATION_WINDOW
                           then Inl ReauthenticationRequired
                           else Inr (restored, policy_changes floors old_floors defaults old_defaults,
                                     pd_weakening d, reason))))"

definition commit_rollback ::
  "(string \<Rightarrow> string) \<Rightarrow> int \<Rightarrow> rollback_request \<Rightarrow> version_row \<times> policy_change list \<times> bool \<times> ustr \<Rightarrow> publish_hook list
     \<Rightarrow> pub_db \<Rightarrow> cp_error + pub_db" where
  "commit_rollback hash now q change hooks db =
     (case change of (restored, changes, weakening, reason) \<Rightarrow>
      let account = rb_account q; target = rb_target q; latest = max_version db account target
      in if \<not> target_known (pb_gov db) account target then Inl NotFound
         else if int latest \<noteq> rb_expected q then Inl Conflict
         else (let row = \<lparr>pv_account = account, pv_target = target, pv_version = latest + 1,
                          pv_document = pv_document restored, pv_fingerprint = hash (json_text (pv_document restored)),
                          pv_at = now, pv_by = rb_actor q, pv_reason = Some reason, pv_kind = VkRollback,
                          pv_rollback_of = Some latest, pv_restored = Some (nat (rb_version q)), pv_draft = None,
                          pv_emergency = False\<rparr>
               in fold_err (\<lambda>h. h \<lparr>pu_account = account, pu_target = target, pu_version = latest + 1,
                                   pu_previous = latest, pu_kind = VkRollback, pu_now = now\<rparr>)
                    (on_policy_published # hooks)
                    (on_gov (emit_notice (NoPolicyRolledBack account target (latest + 1) weakening)
                       \<circ> log_event (PolicyRolledBack (rb_actor q) account target latest (nat (rb_version q)) (latest + 1)
                           (change_summary changes) weakening (Some reason)))
                     (db\<lparr>pb_versions := pb_versions db @ [row]\<rparr>))))"

definition rollback_policy ::
  "(string \<Rightarrow> string) \<Rightarrow> (nat \<Rightarrow> ustr \<Rightarrow> ustr) \<Rightarrow> int \<Rightarrow> rollback_request \<Rightarrow> publish_hook list \<Rightarrow> pub_db \<Rightarrow> cp_error + pub_db" where
  "rollback_policy hash clean now q hooks db =
     (case check_rollback hash clean now q db of Inl e \<Rightarrow> Inl e
      | Inr change \<Rightarrow> commit_rollback hash now q change hooks db)"

section \<open>The layer of a version\<close>

text \<open>\<open>requirements\<close>: the defaults, replaced by the floors.\<close>

definition requirements :: "actions \<times> actions \<Rightarrow> (string \<times> requirement) list" where
  "requirements fd = (case fd of (fs, ds) \<Rightarrow>
     fold (\<lambda>(k, a). AList.update k \<lparr>rq_action = a, rq_enforcement = Mandatory\<rparr>) fs
       (map (\<lambda>(k, a). (k, \<lparr>rq_action = a, rq_enforcement = Default\<rparr>)) ds))"

section \<open>Documents are read back as written\<close>

definition actions_ok :: "(action \<Rightarrow> bool) \<Rightarrow> actions \<Rightarrow> bool" where
  "actions_ok P xs \<longleftrightarrow> distinct (map fst xs) \<and> (\<forall>(k, a) \<in> set xs. known_policy k \<and> P a)"

lemma action_of_value [simp]: "action_of (action_value a) = Some a"
  by (cases a) (simp_all add: action_of_def)

definition entry_of :: "actions \<Rightarrow> actions \<Rightarrow> string \<times> json \<Rightarrow> bool" where
  "entry_of fs ds e \<longleftrightarrow> (\<exists>k a. (k, a) \<in> set fs \<and> e = (k, JText (action_value a)))
     \<or> (\<exists>k a. (k, a) \<in> set ds \<and> e = (k, default_entry a))"

lemma parse_entry_written:
  assumes "actions_ok floor_action fs" and "actions_ok (\<lambda>_. True) ds" and "entry_of fs ds e"
  shows "(\<exists>k a. (k, a) \<in> set fs \<and> e = (k, JText (action_value a)) \<and> parse_entry e (f, d) = Some (AList.update k a f, d))
    \<or> (\<exists>k a. (k, a) \<in> set ds \<and> e = (k, default_entry a) \<and> parse_entry e (f, d) = Some (f, AList.update k a d))"
  using assms by (fastforce simp: entry_of_def actions_ok_def default_entry_def)

lemma parse_entries_written:
  assumes fs: "actions_ok floor_action fs" and ds: "actions_ok (\<lambda>_. True) ds"
    and "\<And>e. e \<in> set es \<Longrightarrow> entry_of fs ds e" and "distinct (map fst es)"
  shows "\<exists>f' d'. parse_entries es (f, d) = Some (f', d')
    \<and> map_of f' = map_of f ++ (\<lambda>k. if \<exists>a. (k, JText (action_value a)) \<in> set es then map_of fs k else None)
    \<and> map_of d' = map_of d ++ (\<lambda>k. if \<exists>a. (k, default_entry a) \<in> set es then map_of ds k else None)"
  using assms(3,4)
proof (induction es arbitrary: f d)
  case Nil
  then show ?case by (simp add: map_add_def)
next
  case (Cons e es)
  have other: "\<not> (\<exists>v. (fst e, v) \<in> set es)" using Cons.prems(2) by (force simp: image_iff)
  have mf: "map_of fs k = Some a" if "(k, a) \<in> set fs" for k a using that fs by (simp add: actions_ok_def)
  have md: "map_of ds k = Some a" if "(k, a) \<in> set ds" for k a using that ds by (simp add: actions_ok_def)
  from parse_entry_written [OF fs ds Cons.prems(1) [of e], of f d]
  consider (floor) k a where "(k, a) \<in> set fs" "e = (k, JText (action_value a))" "parse_entry e (f, d) = Some (AList.update k a f, d)"
    | (default) k a where "(k, a) \<in> set ds" "e = (k, default_entry a)" "parse_entry e (f, d) = Some (f, AList.update k a d)"
    by auto
  then show ?case
  proof cases
    case floor
    from Cons.IH [of "AList.update k a f" d] Cons.prems obtain f' d' where ih: "parse_entries es (AList.update k a f, d) = Some (f', d')"
      "map_of f' = map_of (AList.update k a f) ++ (\<lambda>k. if \<exists>a. (k, JText (action_value a)) \<in> set es then map_of fs k else None)"
      "map_of d' = map_of d ++ (\<lambda>k. if \<exists>a. (k, default_entry a) \<in> set es then map_of ds k else None)" by auto
    show ?thesis
      using floor ih other mf by (auto simp: fun_eq_iff map_add_def update_conv default_entry_def split: option.splits)
  next
    case default
    from Cons.IH [of f "AList.update k a d"] Cons.prems obtain f' d' where ih: "parse_entries es (f, AList.update k a d) = Some (f', d')"
      "map_of f' = map_of f ++ (\<lambda>k. if \<exists>a. (k, JText (action_value a)) \<in> set es then map_of fs k else None)"
      "map_of d' = map_of (AList.update k a d) ++ (\<lambda>k. if \<exists>a. (k, default_entry a) \<in> set es then map_of ds k else None)" by auto
    show ?thesis
      using default ih other md by (auto simp: fun_eq_iff map_add_def update_conv default_entry_def split: option.splits)
  qed
qed

lemma canonical_parses:
  assumes "actions_ok floor_action fs" and "actions_ok (\<lambda>_. True) ds" and "set (map fst fs) \<inter> set (map fst ds) = {}"
  shows "\<exists>doc fs' ds'. canonical_document fs ds = Inr doc \<and> parse_document doc = Some (fs', ds')
    \<and> map_of fs' = map_of fs \<and> map_of ds' = map_of ds"
proof -
  let ?es = "map (\<lambda>(k, a). (k, JText (action_value a))) fs @ map (\<lambda>(k, a). (k, default_entry a)) ds"
  have canon: "canonical_document fs ds = Inr (JObject (sort_key fst ?es))"
    using assms(3) by (auto simp: canonical_document_def)
  have keys: "map fst ?es = map fst fs @ map fst ds" by (simp add: case_prod_beta)
  have "distinct (map fst fs @ map fst ds)" using assms by (simp add: actions_ok_def)
  then have "distinct (map fst ?es)" unfolding keys .
  then have d: "distinct (map fst (sort_key fst ?es))" unfolding distinct_map set_sort distinct_sort .
  have "entry_of fs ds e" if "e \<in> set (sort_key fst ?es)" for e
    using that by (auto simp: entry_of_def)
  from parse_entries_written [OF assms(1,2) this d, of "[]" "[]"] obtain f' d' where
    p: "parse_entries (sort_key fst ?es) ([], []) = Some (f', d')"
    "map_of f' = (\<lambda>k. if \<exists>a. (k, JText (action_value a)) \<in> set ?es then map_of fs k else None)"
    "map_of d' = (\<lambda>k. if \<exists>a. (k, default_entry a) \<in> set ?es then map_of ds k else None)" by auto
  have "map_of f' = map_of fs"
  proof
    fix k show "map_of f' k = map_of fs k"
      using p(2) by (cases "map_of fs k") (force dest: map_of_SomeD)+
  qed
  moreover have "map_of d' = map_of ds"
  proof
    fix k show "map_of d' k = map_of ds k"
      using p(3) by (cases "map_of ds k") (force dest: map_of_SomeD)+
  qed
  ultimately show ?thesis using canon p(1) by (simp add: parse_document_def)
qed

lemma document_written:
  assumes "actions_ok floor_action fs" and "actions_ok (\<lambda>_. True) ds" and "set (map fst fs) \<inter> set (map fst ds) = {}"
    and "canonical_document fs ds = Inr doc"
  shows "\<exists>fs' ds'. parse_document doc = Some (fs', ds') \<and> map_of fs' = map_of fs \<and> map_of ds' = map_of ds"
  using canonical_parses [OF assms(1-3)] assms(4) by auto

text \<open>C11: a published document is read back as it was written. Floors of known rules that warn or block and defaults of
  other known rules have a canonical document, and parsing it gives the same floor and the same default for every
  rule, whatever the order they were given in.\<close>

theorem document_roundtrip:
  assumes "actions_ok floor_action fs" and "actions_ok (\<lambda>_. True) ds" and "set (map fst fs) \<inter> set (map fst ds) = {}"
  shows "\<exists>doc fs' ds'. canonical_document fs ds = Inr doc \<and> parse_document doc = Some (fs', ds')
    \<and> map_of fs' = map_of fs \<and> map_of ds' = map_of ds"
  by (rule canonical_parses [OF assms])

lemma document_roundtrip_witness:
  "map_option (\<lambda>(fs, ds). (map_of fs ''ai_trailer'', map_of ds ''ai_identity''))
     (case canonical_document [(''ai_trailer'', WARN)] [(''ai_identity'', ALLOW)] of Inl _ \<Rightarrow> None | Inr doc \<Rightarrow> parse_document doc)
   = Some (Some WARN, Some ALLOW)"
  using document_roundtrip [of "[(''ai_trailer'', WARN)]" "[(''ai_identity'', ALLOW)]"]
  by (auto simp: actions_ok_def known_policy_def KNOWN_POLICY_IDS_def DEFAULT_POLICIES_def mk_policy_def floor_action_def)

section \<open>Publishing\<close>

text \<open>What a document makes of the action a repository asks for, if it asks for one.\<close>

definition document_action :: "actions \<times> actions \<Rightarrow> string \<Rightarrow> action option \<Rightarrow> action" where
  "document_action fd k asked = (case fd of (fs, ds) \<Rightarrow>
     let base = (case asked of None \<Rightarrow> or_builtin k (map_of ds k) | Some a \<Rightarrow> a)
     in case map_of fs k of None \<Rightarrow> base | Some a \<Rightarrow> max base a)"

lemma weakening_flagged_iff:
  "list_ex pc_weakening (policy_changes old new old_defaults new_defaults) \<longleftrightarrow>
     (\<exists>k \<in> set (changed_keys old new). floor_weakened (map_of old k) (map_of new k))
     \<or> (\<exists>k \<in> set (changed_keys old_defaults new_defaults).
          action_rank (or_builtin k (map_of new_defaults k)) < action_rank (or_builtin k (map_of old_defaults k)))"
  by (simp add: policy_changes_def list_ex_iff bex_Un)

lemma changed_keys_iff: "k \<in> set (changed_keys old new) \<longleftrightarrow> map_of old k \<noteq> map_of new k"
  by (auto simp: changed_keys_def dest: map_of_SomeD) (metis domI domIff map_of_SomeD map_of_eq_None_iff)+

lemma unflagged_never_weakens:
  assumes "\<not> list_ex pc_weakening (policy_changes old new old_defaults new_defaults)"
  shows "document_action (old, old_defaults) k asked \<le> document_action (new, new_defaults) k asked"
proof -
  have "\<not> floor_weakened (map_of old k) (map_of new k)"
    using assms unfolding weakening_flagged_iff
    by (cases "map_of old k = map_of new k") (auto simp: changed_keys_iff floor_weakened_def split: option.splits)
  then have fl: "\<exists>a. map_of new k = Some a \<and> b \<le> a" if "map_of old k = Some b" for b
    using that by (auto simp: floor_weakened_def less_eq_action_def not_less split: option.splits)
  have df: "or_builtin k (map_of old_defaults k) \<le> or_builtin k (map_of new_defaults k)"
  proof (cases "map_of old_defaults k = map_of new_defaults k")
    case False
    then have "k \<in> set (changed_keys old_defaults new_defaults)" by (simp add: changed_keys_iff)
    then show ?thesis using assms unfolding weakening_flagged_iff less_eq_action_def by (auto simp: not_less)
  qed simp
  show ?thesis
  proof (cases "map_of old k")
    case None
    then show ?thesis using df
      by (cases asked) (auto simp: document_action_def Let_def le_max_iff_disj split: option.split)
  next
    case (Some b)
    then obtain a where "map_of new k = Some a" "b \<le> a" using fl by blast
    with Some df show ?thesis by (cases asked) (auto simp: document_action_def Let_def le_max_iff_disj)
  qed
qed

lemma document_action_cong:
  assumes "map_of fs = map_of fs'" and "map_of ds = map_of ds'"
  shows "document_action (fs, ds) = document_action (fs', ds')"
  unfolding document_action_def [abs_def] prod.case assms ..

text \<open>What a hook leaves alone.\<close>

definition keeps_versions :: "publish_hook \<Rightarrow> bool" where
  "keeps_versions h \<longleftrightarrow> (\<forall>p db db'. h p db = Inr db' \<longrightarrow> pb_versions db' = pb_versions db)"

lemma hooks_versions:
  "fold_err (\<lambda>h. h p) hooks db = Inr db' \<Longrightarrow> list_all keeps_versions hooks \<Longrightarrow> pb_versions db' = pb_versions db"
proof (induction hooks arbitrary: db)
  case (Cons h hooks)
  then obtain d where "h p db = Inr d" "fold_err (\<lambda>h. h p) hooks d = Inr db'" by (auto split: sum.splits)
  with Cons show ?case by (auto simp: keeps_versions_def)
qed simp

lemma keeps_versions_resolver [simp]: "keeps_versions on_policy_published"
  by (auto simp: keeps_versions_def on_policy_published_def on_gov_def)

lemma commit_update_version:
  assumes "commit_update hash now q (doc, changes, reason) hooks db = Inr db'" and "list_all keeps_versions hooks"
  shows "\<exists>row. pb_versions db' = pb_versions db @ [row] \<and> pv_account row = ur_account q \<and> pv_target row = ur_target q
    \<and> pv_version row = max_version db (ur_account q) (ur_target q) + 1 \<and> pv_document row = doc \<and> pv_reason row = reason
    \<and> pv_fingerprint row = hash (json_text doc)"
    and "target_known (pb_gov db) (ur_account q) (ur_target q)"
    and "int (max_version db (ur_account q) (ur_target q)) = ur_expected q"
  using assms hooks_versions [where hooks = "on_policy_published # hooks"]
  by (auto simp: commit_update_def Let_def on_gov_def simp del: fold_err.simps split: if_splits)

lemma commit_rollback_version:
  assumes "commit_rollback hash now q (old, changes, weak, reason) hooks db = Inr db'" and "list_all keeps_versions hooks"
  shows "\<exists>row. pb_versions db' = pb_versions db @ [row] \<and> pv_account row = rb_account q \<and> pv_target row = rb_target q
    \<and> pv_version row = max_version db (rb_account q) (rb_target q) + 1 \<and> pv_document row = pv_document old
    \<and> pv_reason row = Some reason \<and> pv_kind row = VkRollback \<and> pv_fingerprint row = hash (json_text (pv_document old))"
    and "target_known (pb_gov db) (rb_account q) (rb_target q)"
    and "int (max_version db (rb_account q) (rb_target q)) = rb_expected q"
  using assms hooks_versions [where hooks = "on_policy_published # hooks"]
  by (auto simp: commit_rollback_def Let_def on_gov_def simp del: fold_err.simps split: if_splits)


lemma actions_ok_update: "actions_ok P xs \<Longrightarrow> known_policy k \<Longrightarrow> P a \<Longrightarrow> actions_ok P (AList.update k a xs)"
proof -
  assume a: "actions_ok P xs" "known_policy k" "P a"
  let ?ys = "AList.update k a xs"
  have d: "distinct (map fst ?ys)" using a(1) by (simp add: actions_ok_def distinct_update)
  moreover have "known_policy j \<and> P b" if "(j, b) \<in> set ?ys" for j b
  proof -
    have "map_of ?ys j = Some b" using d that by simp
    then show ?thesis using a by (auto simp: update_conv actions_ok_def dest!: map_of_SomeD split: if_splits)
  qed
  ultimately show ?thesis by (auto simp: actions_ok_def)
qed

lemma parse_entry_adds:
  assumes "parse_entry (k, v) (f, d) = Some (f', d')"
  shows "known_policy k \<and> (\<exists>a. f' = AList.update k a f \<and> floor_action a \<and> d' = d \<or> f' = f \<and> d' = AList.update k a d)"
proof (cases v)
  case (JText t)
  with assms show ?thesis by (cases "action_of t") (auto split: if_splits)
next
  case (JObject kvs)
  with assms show ?thesis
    by (cases "map_of kvs ''action''") (auto split: if_splits json.splits option.splits)
qed (use assms in \<open>auto split: if_splits\<close>)

lemma parse_entries_ok:
  "parse_entries es (f, d) = Some (f', d') \<Longrightarrow> actions_ok floor_action f \<Longrightarrow> actions_ok (\<lambda>_. True) d
     \<Longrightarrow> actions_ok floor_action f' \<and> actions_ok (\<lambda>_. True) d'"
proof (induction es arbitrary: f d)
  case (Cons e es)
  obtain k v where e: "e = (k, v)" by (cases e)
  from Cons.prems(1) obtain f1 d1 where 1: "parse_entry e (f, d) = Some (f1, d1)" "parse_entries es (f1, d1) = Some (f', d')"
    by (auto split: option.splits)
  from parse_entry_adds [OF 1(1) [unfolded e]] Cons.prems(2,3)
  have "actions_ok floor_action f1 \<and> actions_ok (\<lambda>_. True) d1" by (auto simp: actions_ok_update)
  with Cons.IH 1(2) show ?case by blast
qed simp

lemma row_actions_ok: "actions_ok floor_action (fst (row_actions v)) \<and> actions_ok (\<lambda>_. True) (snd (row_actions v))"
proof -
  have nil: "actions_ok P []" for P by (simp add: actions_ok_def)
  show ?thesis
    using parse_entries_ok [OF _ nil nil]
    by (cases v) (auto simp: row_actions_def parse_document_def nil split: option.splits json.splits)
qed

lemma actions_ok_filter: "actions_ok P xs \<Longrightarrow> actions_ok P (filter Q xs)"
  by (auto simp: actions_ok_def distinct_map_filter)



section \<open>Rolling back\<close>

lemma diff_weakening:
  assumes "\<not> pd_weakening (policy_diff old new old_defaults new_defaults)"
  shows "\<not> list_ex pc_weakening (policy_changes old new old_defaults new_defaults)"
proof
  let ?cs = "policy_changes old new old_defaults new_defaults"
  assume "list_ex pc_weakening ?cs"
  then obtain c where c: "c \<in> set ?cs" "pc_weakening c" by (auto simp: list_ex_iff)
  let ?c = "c\<lparr>pc_weakening := (pc_old c \<noteq> None \<or> pc_default c) \<and> pc_weakening c\<rparr>"
  have w: "pc_weakening ?c"
    using c by (auto simp: policy_changes_def floor_weakened_def split: option.splits)
  let ?es = "map (\<lambda>c. c\<lparr>pc_weakening := (pc_old c \<noteq> None \<or> pc_default c) \<and> pc_weakening c\<rparr>) ?cs"
  have e: "?c \<in> set ?es" using c(1) by simp
  consider "pc_old ?c = None" | "pc_old ?c \<noteq> None" "pc_new ?c \<noteq> None" | "pc_old ?c \<noteq> None" "pc_new ?c = None" by blast
  then have "pd_weakening (policy_diff old new old_defaults new_defaults)"
  proof cases
    case 1
    with e have "?c \<in> set (filter (\<lambda>c. pc_old c = None) ?es)" by simp
    with w show ?thesis unfolding policy_diff_def Let_def policy_diff_view.select_convs list_ex_iff set_append by blast
  next
    case 2
    with e have "?c \<in> set (filter (\<lambda>c. pc_old c \<noteq> None \<and> pc_new c \<noteq> None) ?es)" by simp
    with w show ?thesis unfolding policy_diff_def Let_def policy_diff_view.select_convs list_ex_iff set_append by blast
  next
    case 3
    with e have f: "?c \<in> set (filter (\<lambda>c. pc_old c \<noteq> None \<and> pc_new c = None) ?es)" by simp
    let ?g = "\<lambda>c. if pc_default c then c else c\<lparr>pc_weakening := True\<rparr>"
    have "?g ?c \<in> set (map ?g (filter (\<lambda>c. pc_old c \<noteq> None \<and> pc_new c = None) ?es))" using imageI [OF f, of ?g] by simp
    moreover have "pc_weakening (?g ?c)" using w by simp
    ultimately show ?thesis unfolding policy_diff_def Let_def policy_diff_view.select_convs list_ex_iff set_append by blast
  qed
  with assms show False ..
qed

text \<open>C9: a rollback restores exactly. A successful rollback names an earlier version of the target whose document still
  has the fingerprint it was published with and is canonical, and appends one version, numbered one higher than the
  newest, with that very document; nothing is removed. It was confirmed and has a reason, and when some rule is
  enforced less by the restored document the sign-in was recent.\<close>

theorem rollback_restores:
  assumes "rollback_policy hash clean now q hooks db = Inr db'" and "list_all keeps_versions hooks"
  shows "\<exists>old row. version_at db (rb_account q) (rb_target q) (nat (rb_version q)) = Some old
    \<and> 1 \<le> rb_version q \<and> rb_version q < rb_expected q
    \<and> int (max_version db (rb_account q) (rb_target q)) = rb_expected q
    \<and> pb_versions db' = pb_versions db @ [row] \<and> pv_account row = rb_account q \<and> pv_target row = rb_target q
    \<and> pv_version row = max_version db (rb_account q) (rb_target q) + 1
    \<and> pv_document row = pv_document old \<and> pv_fingerprint row = pv_fingerprint old \<and> verify_integrity hash old
    \<and> rb_confirm q \<and> pv_reason row \<noteq> None
    \<and> ((\<forall>k asked. document_action (row_actions (latest_row db (rb_account q) (rb_target q))) k asked
            \<le> document_action (row_actions (Some row)) k asked)
        \<or> now - rb_authenticated_at q \<le> REAUTHENTICATION_WINDOW)"
proof -
  obtain old changes weak reason where check: "check_rollback hash clean now q db = Inr (old, changes, weak, reason)"
    and commit: "commit_rollback hash now q (old, changes, weak, reason) hooks db = Inr db'"
    using assms(1) by (auto simp: rollback_policy_def split: sum.splits)
  obtain fs ds where cur: "row_actions (latest_row db (rb_account q) (rb_target q)) = (fs, ds)" by fastforce
  obtain v0 where v0: "version_at db (rb_account q) (rb_target q) (nat (rb_version q)) = Some v0"
    using check by (auto simp: check_rollback_def Let_def cur split: option.splits if_splits)
  obtain fs' ds' where res0: "row_actions (Some v0) = (fs', ds')" by fastforce
  have eq: "v0 = old"
    using check by (auto simp: check_rollback_def Let_def cur v0 res0 split: option.splits if_splits)
  note res = res0 [unfolded eq]
  have v: "version_at db (rb_account q) (rb_target q) (nat (rb_version q)) = Some old" "1 \<le> rb_version q"
    "rb_version q < rb_expected q" "verify_integrity hash old" "rb_confirm q"
    "\<not> weak \<or> now - rb_authenticated_at q \<le> REAUTHENTICATION_WINDOW"
    "weak = pd_weakening (policy_diff fs fs' ds ds')"
    using check by (auto simp: check_rollback_def Let_def cur v0 [unfolded eq] res split: option.splits if_splits)
  note c = commit_rollback_version [OF commit assms(2)]
  from c(1) obtain row where row: "pb_versions db' = pb_versions db @ [row]" "pv_account row = rb_account q"
    "pv_target row = rb_target q" "pv_version row = max_version db (rb_account q) (rb_target q) + 1"
    "pv_document row = pv_document old" "pv_reason row = Some reason"
    "pv_fingerprint row = hash (json_text (pv_document old))" by blast
  have acts: "row_actions (Some row) = (fs', ds')" using res by (simp add: row_actions_def row(5))
  have fp: "pv_fingerprint row = pv_fingerprint old" using v(4) row(7) by (simp add: verify_integrity_def)
  have "document_action (fs, ds) k asked \<le> document_action (fs', ds') k asked" if "\<not> weak" for k asked
    using that v(7) diff_weakening unflagged_never_weakens by blast
  then have "(\<forall>k asked. document_action (fs, ds) k asked \<le> document_action (fs', ds') k asked)
      \<or> now - rb_authenticated_at q \<le> REAUTHENTICATION_WINDOW" using v(6) by blast
  then show ?thesis
    using row(1-6) v(1-5) c(3) fp unfolding cur
    by (intro exI [of _ old] exI [of _ row]) (simp add: acts)
qed

definition two_versions :: pub_db where
  "two_versions = (let row = (\<lambda>n a. \<lparr>pv_account = 1, pv_target = TgOrganization, pv_version = n,
       pv_document = JObject [(''ai_trailer'', JText (action_value a))],
       pv_fingerprint = json_text (JObject [(''ai_trailer'', JText (action_value a))]), pv_at = 0, pv_by = system_actor,
       pv_reason = None, pv_kind = VkChange, pv_rollback_of = None, pv_restored = None, pv_draft = None, pv_emergency = False\<rparr>)
     in \<lparr>pb_gov = empty_db, pb_versions = [row 1 WARN, row 2 BLOCK], pb_drafts = [], pb_approvals = [], pb_rollouts = [],
         pb_enrolled = []\<rparr>)"

lemma rollback_restores_witness:
  "\<exists>db' row. rollback_policy id (\<lambda>_ t. t) 100
     \<lparr>rb_account = 1, rb_actor = system_actor, rb_authenticated_at = 90, rb_version = 1, rb_expected = 2,
      rb_reason = Some [120], rb_confirm = True, rb_target = TgOrganization\<rparr> [] two_versions = Inr db'
   \<and> pb_versions db' = pb_versions two_versions @ [row] \<and> pv_version row = 3
   \<and> pv_document row = JObject [(''ai_trailer'', JText ''warn'')]"
proof -
  let ?q = "\<lparr>rb_account = 1, rb_actor = system_actor, rb_authenticated_at = 90, rb_version = 1, rb_expected = 2,
      rb_reason = Some [120], rb_confirm = True, rb_target = TgOrganization\<rparr>"
  let ?doc = "\<lambda>a. JObject [(''ai_trailer'', JText (action_value a))]"
  have "py_strip [120] = [120]" by code_simp
  moreover have "parse_document (?doc a) = Some ([(''ai_trailer'', a)], [])" if "a \<noteq> ALLOW" for a
    using that by (cases a) (simp_all add: parse_document_def known_policy_def KNOWN_POLICY_IDS_def DEFAULT_POLICIES_def
        mk_policy_def floor_action_def action_of_def)
  ultimately have "\<not> isl (rollback_policy id (\<lambda>_ t. t) 100 ?q [] two_versions)"
    by (simp add: rollback_policy_def check_rollback_def commit_rollback_def current_version_def latest_row_def versions_of_def
        max_version_def row_actions_def Let_def clean_reason_def policy_diff_def policy_changes_def changed_keys_def
        floor_weakened_def canonical_document_def target_known_def on_policy_published_def py_max_def two_versions_def
        version_at_def verify_integrity_def REAUTHENTICATION_WINDOW_def del: action_value.simps)
  then obtain db' where u: "rollback_policy id (\<lambda>_ t. t) 100 ?q [] two_versions = Inr db'"
    by (cases "rollback_policy id (\<lambda>_ t. t) 100 ?q [] two_versions") auto
  from rollback_restores [OF u] u show ?thesis
    by (fastforce simp: two_versions_def max_version_def versions_of_def version_at_def Let_def)
qed

end
