(* ===== verification/Rollouts.thy ===== *)
theory Rollouts
  imports Publication
begin

text \<open>
  Staged rollouts (\<open>governance/rollouts.py\<close>): the stages of a request, starting a rollout in the publishing
  transaction, enrolling the repositories of a stage, advancing, pausing, resuming, rolling back, the safety
  thresholds, and the version a repository resolves while a rollout is in progress (\<open>_version_for\<close> of
  \<open>governance/resolver.py\<close>). Handlers read the rollout first and write in a later transaction; both parts are
  definitions of their own. The key that orders repositories in a percentage stage (a SHA-256) is the parameter
  \<open>order\<close>; the scans that ended are an argument of the statistics.
\<close>

section \<open>Stages\<close>

datatype raw_stage =
    RsNotObject
  | RsRepositories "ustr option" "int option list option"
  | RsPercent "ustr option" "int option"
  | RsNeither "ustr option"

definition MAX_STAGES :: nat where "MAX_STAGES = 10"

definition stage_label :: "nat \<Rightarrow> ustr option \<Rightarrow> ustr" where
  "stage_label index name =
     take 100 (case name of
       Some n \<Rightarrow> if py_strip n = [] then asc ''Stage '' @ digits (index + 1) else n
     | None \<Rightarrow> asc ''Stage '' @ digits (index + 1))"

definition stage_ids :: "int option list \<Rightarrow> int list option" where
  "stage_ids ids =
     (if list_all (\<lambda>i. case i of None \<Rightarrow> False | Some n \<Rightarrow> 1 \<le> n) ids then Some (map the ids) else None)"

fun parse_stage_list :: "nat \<Rightarrow> int \<Rightarrow> raw_stage list \<Rightarrow> cp_error + stage_plan list" where
  "parse_stage_list index last_percent [] = Inr []"
| "parse_stage_list index last_percent (RsNotObject # _) = Inl (InvalidInput ''stages'')"
| "parse_stage_list index last_percent (RsNeither _ # _) = Inl (InvalidInput ''stages'')"
| "parse_stage_list index last_percent (RsRepositories name ids # rest) =
     (case ids of
        None \<Rightarrow> Inl (InvalidInput ''stages.repositories'')
      | Some raw \<Rightarrow>
          if raw = [] \<or> 5000 < length raw then Inl (InvalidInput ''stages.repositories'')
          else case stage_ids raw of
            None \<Rightarrow> Inl (InvalidInput ''stages.repositories'')
          | Some ns \<Rightarrow>
              (case parse_stage_list (index + 1) last_percent rest of
                 Inl e \<Rightarrow> Inl e
               | Inr stages \<Rightarrow> Inr (StageRepositories (stage_label index name) (sort (remdups ns)) # stages)))"
| "parse_stage_list index last_percent (RsPercent name percent # rest) =
     (case percent of
        None \<Rightarrow> Inl (InvalidInput ''stages.percent'')
      | Some p \<Rightarrow>
          if p < 1 \<or> 100 < p then Inl (InvalidInput ''stages.percent'')
          else if p < last_percent then Inl (InvalidInput ''stages.percent'')
          else (case parse_stage_list (index + 1) p rest of
                  Inl e \<Rightarrow> Inl e
                | Inr stages \<Rightarrow> Inr (StagePercent (stage_label index name) (nat p) # stages)))"

definition parse_stages :: "raw_stage list option \<Rightarrow> cp_error + stage_plan list" where
  "parse_stages raw =
     (case raw of
        None \<Rightarrow> Inl (InvalidInput ''stages'')
      | Some rs \<Rightarrow>
          if rs = [] \<or> MAX_STAGES < length rs then Inl (InvalidInput ''stages'')
          else case parse_stage_list 0 0 rs of
            Inl e \<Rightarrow> Inl e
          | Inr stages \<Rightarrow>
              Inr (case last stages of
                     StagePercent _ p \<Rightarrow> if p \<noteq> 100 then stages @ [StagePercent (asc ''All repositories'') 100] else stages
                   | StageRepositories _ _ \<Rightarrow> stages))"

section \<open>Enrolment\<close>

definition scope_repositories :: "gov_db \<Rightarrow> int \<Rightarrow> policy_target \<Rightarrow> int list" where
  "scope_repositories db account target =
     (case target of
        TgGroup g \<Rightarrow> filter (\<lambda>r. r \<in> set (group_member_ids db account g)) (known_ids db account)
      | _ \<Rightarrow> known_ids db account)"

definition enrolled_in :: "pub_db \<Rightarrow> string \<Rightarrow> int list" where
  "enrolled_in db rollout = map (\<lambda>((_, r), _). r) (filter (\<lambda>((i, _), _). i = rollout) (pb_enrolled db))"

text \<open>\<open>INSERT OR IGNORE\<close> for each repository, then the invalidation.\<close>

definition enroll :: "string \<Rightarrow> int \<Rightarrow> int list \<Rightarrow> nat \<Rightarrow> int \<Rightarrow> pub_db \<Rightarrow> pub_db" where
  "enroll rollout account wanted stage now db =
     on_gov (invalidate_repositories account (Some wanted) now)
       (db\<lparr>pb_enrolled := fold (\<lambda>r es. if map_of es (rollout, r) = None then es @ [((rollout, r), (stage, now))] else es)
                              wanted (pb_enrolled db)\<rparr>)"

definition stage_wanted ::
  "(string \<Rightarrow> int \<Rightarrow> string) \<Rightarrow> string \<Rightarrow> int list \<Rightarrow> int list \<Rightarrow> stage_plan \<Rightarrow> int list" where
  "stage_wanted order rollout scope already stage =
     (case stage of
        StageRepositories _ ids \<Rightarrow> filter (\<lambda>r. r \<in> set scope \<and> r \<notin> set already) ids
      | StagePercent _ share \<Rightarrow>
          (let ordered = sort_key (order rollout) scope;
               target_count = max 1 ((length ordered * share + 99) div 100);
               enrolled_in_scope = card (set already \<inter> set scope);
               remaining = filter (\<lambda>r. r \<notin> set already) ordered
           in take (target_count - enrolled_in_scope) remaining))"

definition enroll_stage ::
  "(string \<Rightarrow> int \<Rightarrow> string) \<Rightarrow> string \<Rightarrow> int \<Rightarrow> policy_target \<Rightarrow> stage_plan list \<Rightarrow> nat \<Rightarrow> int \<Rightarrow> pub_db
     \<Rightarrow> pub_db \<times> int list" where
  "enroll_stage order rollout account target stages index now db =
     (let wanted = stage_wanted order rollout (scope_repositories (pb_gov db) account target) (enrolled_in db rollout)
                     (stages ! index)
      in (enroll rollout account wanted index now db, wanted))"

definition enroll_remaining :: "string \<Rightarrow> int \<Rightarrow> policy_target \<Rightarrow> nat \<Rightarrow> int \<Rightarrow> pub_db \<Rightarrow> pub_db \<times> int list" where
  "enroll_remaining rollout account target stage now db =
     (let remaining = filter (\<lambda>r. r \<notin> set (enrolled_in db rollout)) (scope_repositories (pb_gov db) account target)
      in (enroll rollout account remaining stage now db, remaining))"

section \<open>Starting\<close>

definition in_progress :: "rollout_state \<Rightarrow> bool" where
  "in_progress s \<longleftrightarrow> s = RoPilot \<or> s = RoRollout \<or> s = RoPaused"

text \<open>The unique indexes of the table: one rollout in progress per target, and one per version.\<close>

definition rollout_conflict :: "pub_db \<Rightarrow> string \<Rightarrow> rollout_row \<Rightarrow> bool" where
  "rollout_conflict db i row \<longleftrightarrow>
     list_ex (\<lambda>(j, x). j \<noteq> i \<and> ro_account x = ro_account row \<and> ro_target x = ro_target row
        \<and> (in_progress (ro_state x) \<and> in_progress (ro_state row) \<or> ro_to x = ro_to row)) (pb_rollouts db)"

record limits_override =
  lo_max_error_rate :: "rat option"
  lo_max_block_rate :: "rat option"
  lo_min_scans :: "rat option"

definition no_limits :: limits_override where
  "no_limits = \<lparr>lo_max_error_rate = None, lo_max_block_rate = None, lo_min_scans = None\<rparr>"

text \<open>The route's checks of \<open>rollout.thresholds\<close>: no negative number, and no rate above 1.\<close>

definition limits_valid :: "limits_override \<Rightarrow> bool" where
  "limits_valid l \<longleftrightarrow>
     (case lo_max_error_rate l of None \<Rightarrow> True | Some x \<Rightarrow> 0 \<le> x \<and> x \<le> 1)
     \<and> (case lo_max_block_rate l of None \<Rightarrow> True | Some x \<Rightarrow> 0 \<le> x \<and> x \<le> 1)
     \<and> (case lo_min_scans l of None \<Rightarrow> True | Some x \<Rightarrow> 0 \<le> x)"

definition with_override :: "rat option \<Rightarrow> rat \<Rightarrow> rat" where
  "with_override x d = (case x of None \<Rightarrow> d | Some y \<Rightarrow> y)"

definition start_rollout ::
  "(string \<Rightarrow> int \<Rightarrow> string) \<Rightarrow> actor \<Rightarrow> string \<Rightarrow> stage_plan list \<Rightarrow> limits_override \<Rightarrow> bool option \<Rightarrow> bool option
     \<Rightarrow> publish_hook" where
  "start_rollout order who rollout stages limits auto_pause auto_rollback p db =
     (case pu_target p of
        TgRepository _ \<Rightarrow> Inl (InvalidInput ''rollout'')
      | _ \<Rightarrow>
          (let s = snd (load_settings (pb_gov db) (pu_account p));
               row = \<lparr>ro_account = pu_account p, ro_target = pu_target p, ro_from = pu_previous p, ro_to = pu_version p,
                      ro_state = RoPilot, ro_stages = stages, ro_current = 0,
                      ro_thresholds =
                        \<lparr>th_max_error_rate = with_override (lo_max_error_rate limits) (st_max_error_rate s),
                         th_max_block_rate = with_override (lo_max_block_rate limits) (st_max_block_rate s),
                         th_min_scans = floor (with_override (lo_min_scans limits) (of_int (st_min_scans s)))\<rparr>,
                      ro_auto_pause = (case auto_pause of None \<Rightarrow> st_auto_pause s | Some b \<Rightarrow> b),
                      ro_auto_rollback = (case auto_rollback of None \<Rightarrow> st_auto_rollback s | Some b \<Rightarrow> b),
                      ro_stage_started_at = pu_now p, ro_paused_at = None, ro_paused_reason = None, ro_paused_from = None,
                      ro_completed_at = None, ro_rolled_back_at = None, ro_rollback_version = None\<rparr>
           in if map_of (pb_rollouts db) rollout \<noteq> None \<or> rollout_conflict db rollout row then Inl StoreIntegrity
              else (let (db1, enrolled) = enroll_stage order rollout (pu_account p) (pu_target p) stages 0 (pu_now p)
                           (db\<lparr>pb_rollouts := pb_rollouts db @ [(rollout, row)]\<rparr>)
                    in Inr (on_gov (log_event (RolloutStarted who (pu_account p) rollout (length enrolled))) db1))))"

section \<open>Advancing\<close>

definition update_rollout :: "string \<Rightarrow> (rollout_row \<Rightarrow> rollout_row) \<Rightarrow> pub_db \<Rightarrow> pub_db" where
  "update_rollout i f db = db\<lparr>pb_rollouts := map (\<lambda>(j, x). (j, if j = i then f x else x)) (pb_rollouts db)\<rparr>"

text \<open>\<open>_manageable\<close> and the checks before the transaction; a handler keeps the row it read.\<close>

definition manageable :: "principal \<Rightarrow> string \<Rightarrow> pub_db \<Rightarrow> cp_error + rollout_row" where
  "manageable p i db =
     (if \<not> is_hex_id (asc i) then Inl NotFound
      else case map_of (pb_rollouts db) i of None \<Rightarrow> Inl NotFound | Some x \<Rightarrow>
        (case require p PoliciesRead (ro_account x) of Inl e \<Rightarrow> Inl e | Inr _ \<Rightarrow>
           if can p PoliciesPublish (ro_account x) then Inr x else Inl PermissionDenied))"

definition check_advance :: "principal \<Rightarrow> string \<Rightarrow> pub_db \<Rightarrow> cp_error + rollout_row" where
  "check_advance p i db =
     (case manageable p i db of Inl e \<Rightarrow> Inl e
      | Inr x \<Rightarrow> if ro_state x \<noteq> RoPilot \<and> ro_state x \<noteq> RoRollout then Inl Conflict else Inr x)"

text \<open>The transaction, for the row that was read: the \<open>UPDATE\<close> names the rollout only.\<close>

definition advance_db ::
  "(string \<Rightarrow> int \<Rightarrow> string) \<Rightarrow> int \<Rightarrow> string \<Rightarrow> rollout_row \<Rightarrow> pub_db \<Rightarrow> pub_db \<times> int list \<times> bool" where
  "advance_db order now i x db =
     (let account = ro_account x; target = ro_target x; stages = ro_stages x; index = ro_current x + 1;
          (db1, enrolled) = (if index < length stages then enroll_stage order i account target stages index now db
                             else (db, []));
          finished = (if index < length stages
            then index = length stages - 1
              \<and> set (scope_repositories (pb_gov db1) account target) \<subseteq> set (enrolled_in db1 i)
            else True);
          (db2, more) = (if finished then enroll_remaining i account target index now db1 else (db1, []))
      in (update_rollout i (\<lambda>r. r\<lparr>ro_current := min index (length stages - 1),
            ro_state := if finished then RoActive else RoRollout, ro_stage_started_at := now,
            ro_completed_at := if finished then Some now else None\<rparr>) db2, enrolled @ more, finished))"

definition commit_advance ::
  "(string \<Rightarrow> int \<Rightarrow> string) \<Rightarrow> int \<Rightarrow> principal \<Rightarrow> string \<Rightarrow> rollout_row \<Rightarrow> pub_db \<Rightarrow> cp_error + pub_db" where
  "commit_advance order now p i x db =
     (case advance_db order now i x db of (db1, enrolled, finished) \<Rightarrow>
        case map_of (pb_rollouts db1) i of None \<Rightarrow> Inr db1 | Some r \<Rightarrow>
          if rollout_conflict db1 i r then Inl StoreIntegrity
          else Inr (on_gov (log_event (RolloutAdvanced (user_actor (pr_user_id p) (pr_login p)) (ro_account x) i
                      finished (length enrolled))) db1))"

section \<open>Pausing and resuming\<close>

definition check_pause ::
  "(nat \<Rightarrow> ustr \<Rightarrow> ustr) \<Rightarrow> principal \<Rightarrow> string \<Rightarrow> ustr option \<Rightarrow> pub_db \<Rightarrow> cp_error + rollout_row \<times> ustr" where
  "check_pause clean p i reason db =
     (case manageable p i db of Inl e \<Rightarrow> Inl e | Inr x \<Rightarrow>
        if ro_state x \<noteq> RoPilot \<and> ro_state x \<noteq> RoRollout then Inl Conflict
        else case text_field clean ''reason'' MAX_REASON_CHARS True reason of Inl e \<Rightarrow> Inl e
          | Inr note \<Rightarrow> Inr (x, (case note of Some (c # cs) \<Rightarrow> c # cs | _ \<Rightarrow> asc ''paused'')))"

text \<open>\<open>_pause_row\<close>: conditional on the state.\<close>

definition pause_row :: "int \<Rightarrow> actor \<Rightarrow> string \<Rightarrow> int \<Rightarrow> ustr \<Rightarrow> pub_db \<Rightarrow> cp_error + pub_db" where
  "pause_row now who i account reason db =
     (case map_of (pb_rollouts db) i of
        None \<Rightarrow> Inl Conflict
      | Some x \<Rightarrow>
          if ro_state x \<noteq> RoPilot \<and> ro_state x \<noteq> RoRollout then Inl Conflict
          else Inr (on_gov (emit_notice (NoRolloutPaused account i) \<circ> log_event (RolloutPaused who account i reason))
            (update_rollout i (\<lambda>r. r\<lparr>ro_state := RoPaused, ro_paused_at := Some now, ro_paused_reason := Some reason,
                                     ro_paused_from := Some (ro_state r)\<rparr>) db)))"

definition check_resume :: "principal \<Rightarrow> string \<Rightarrow> pub_db \<Rightarrow> cp_error + rollout_row" where
  "check_resume p i db =
     (case manageable p i db of Inl e \<Rightarrow> Inl e | Inr x \<Rightarrow> if ro_state x \<noteq> RoPaused then Inl Conflict else Inr x)"

definition commit_resume :: "principal \<Rightarrow> string \<Rightarrow> rollout_row \<Rightarrow> pub_db \<Rightarrow> pub_db" where
  "commit_resume p i x db =
     on_gov (log_event (RolloutResumed (user_actor (pr_user_id p) (pr_login p)) (ro_account x) i))
       (update_rollout i (\<lambda>r. if ro_state r = RoPaused
          then r\<lparr>ro_state := (case ro_paused_from r of None \<Rightarrow> RoRollout | Some s \<Rightarrow> s), ro_paused_at := None,
                 ro_paused_reason := None, ro_paused_from := None\<rparr> else r) db)"

section \<open>Rolling back\<close>

definition check_rollback_rollout ::
  "(nat \<Rightarrow> ustr \<Rightarrow> ustr) \<Rightarrow> principal \<Rightarrow> string \<Rightarrow> ustr option \<Rightarrow> pub_db \<Rightarrow> cp_error + rollout_row \<times> ustr" where
  "check_rollback_rollout clean p i reason db =
     (if \<not> is_hex_id (asc i) then Inl NotFound
      else case map_of (pb_rollouts db) i of None \<Rightarrow> Inl NotFound | Some x \<Rightarrow>
        (case require p PoliciesRollback (ro_account x) of Inl e \<Rightarrow> Inl e | Inr _ \<Rightarrow>
           if \<not> in_progress (ro_state x) then Inl Conflict
           else case text_field clean ''reason'' MAX_REASON_CHARS True reason of Inl e \<Rightarrow> Inl e
             | Inr note \<Rightarrow> Inr (x, (case note of None \<Rightarrow> [] | Some t \<Rightarrow> t))))"

text \<open>The hook that marks the rollout inside the publication of the restored version.\<close>

definition finish_rollback :: "actor \<Rightarrow> string \<Rightarrow> rollout_row \<Rightarrow> ustr \<Rightarrow> publish_hook" where
  "finish_rollback who i x reason p db =
     (let db1 = update_rollout i (\<lambda>r. r\<lparr>ro_state := RoRolledBack, ro_rolled_back_at := Some (pu_now p),
                   ro_rollback_version := Some (pu_version p)\<rparr>) db
      in Inr (on_gov (log_event (RolloutRolledBack who (ro_account x) i (pu_version p) reason)
             \<circ> invalidate_repositories (ro_account x)
                 (Some (scope_repositories (pb_gov db1) (ro_account x) (ro_target x))) (pu_now p)) db1))"

text \<open>\<open>_rollback_row\<close> reads the current version and publishes the one before the rollout.\<close>

definition rollback_row ::
  "(string \<Rightarrow> string) \<Rightarrow> (nat \<Rightarrow> ustr \<Rightarrow> ustr) \<Rightarrow> int \<Rightarrow> actor \<Rightarrow> int \<Rightarrow> ustr \<Rightarrow> bool \<Rightarrow> string \<Rightarrow> rollout_row \<Rightarrow> pub_db
     \<Rightarrow> cp_error + pub_db" where
  "rollback_row hash clean now who authenticated reason confirm i x db =
     (if ro_from x < 1 then Inl Conflict
      else rollback_policy hash clean now
        \<lparr>rb_account = ro_account x, rb_actor = who, rb_authenticated_at = authenticated, rb_version = int (ro_from x),
         rb_expected = int (current_version db (ro_account x) (ro_target x)), rb_reason = Some reason,
         rb_confirm = confirm, rb_target = ro_target x\<rparr>
        [finish_rollback who i x reason] db)"

section \<open>Safety thresholds\<close>

text \<open>Division of Python integers \<open>0 \<le> a \<le> b\<close>: the nearest binary64 number, ties to even, as an exact rational.
  \<open>scale\<close> doubles until the significand has 53 bits; the fuel exceeds the smallest exponent.\<close>

fun scale :: "nat \<Rightarrow> rat \<Rightarrow> nat \<Rightarrow> rat \<times> nat" where
  "scale 0 x k = (x, k)"
| "scale (Suc fuel) x k = (if 4503599627370496 \<le> x then (x, k) else scale fuel (2 * x) (k + 1))"

definition round_half_even :: "rat \<Rightarrow> int" where
  "round_half_even x =
     (let f = floor x; d = x - of_int f
      in if d < 1 / 2 then f else if 1 / 2 < d then f + 1 else if even f then f else f + 1)"

definition float_rate :: "nat \<Rightarrow> nat \<Rightarrow> rat" where
  "float_rate a b =
     (if a = 0 then 0
      else (case scale 1074 (of_nat a / of_nat b) 0 of (m, k) \<Rightarrow> of_int (round_half_even m) / 2 ^ k))"

datatype scan_end = SePassed | SeFailed | SeError

record scan_row =
  sn_repository :: int
  sn_end :: "scan_end option"
  sn_completed_at :: "int option"
  sn_policy_version :: "nat option"

record scan_statistics =
  ss_scanned :: nat
  ss_passed :: nat
  ss_blocked :: nat
  ss_errors :: nat

definition counted :: "pub_db \<Rightarrow> string \<Rightarrow> nat \<Rightarrow> scan_row \<Rightarrow> bool" where
  "counted db rollout version s \<longleftrightarrow>
     (case map_of (pb_enrolled db) (rollout, sn_repository s) of
        None \<Rightarrow> False
      | Some (_, since) \<Rightarrow> (case sn_completed_at s of None \<Rightarrow> False | Some t \<Rightarrow> since \<le> t))
     \<and> sn_policy_version s = Some version \<and> sn_end s \<noteq> None"

definition stage_statistics :: "scan_row list \<Rightarrow> pub_db \<Rightarrow> string \<Rightarrow> nat \<Rightarrow> scan_statistics" where
  "stage_statistics scans db rollout version =
     (let rows = filter (counted db rollout version) scans;
          count = (\<lambda>e. length (filter (\<lambda>s. sn_end s = Some e) rows))
      in \<lparr>ss_scanned = length rows, ss_passed = count SePassed, ss_blocked = count SeFailed, ss_errors = count SeError\<rparr>)"

datatype breach = TooManyErrors nat nat | TooManyBlocked nat nat

definition breach_text :: "breach \<Rightarrow> ustr" where
  "breach_text b = (case b of
      TooManyErrors e n \<Rightarrow> digits e @ asc '' of '' @ digits n @ asc '' scans could not be completed''
    | TooManyBlocked e n \<Rightarrow> digits e @ asc '' of '' @ digits n @ asc '' scans were blocked'')"

text \<open>One pass over a rollout: too few scans, an uncaught exception, no breach, or a breach.\<close>

datatype verdict = TooFew | DivisionByZero | Healthy | Breach breach

definition judge :: "thresholds \<Rightarrow> scan_statistics \<Rightarrow> verdict" where
  "judge th s =
     (if int (ss_scanned s) < th_min_scans th then TooFew
      else if ss_scanned s = 0 then DivisionByZero
      else if th_max_error_rate th < float_rate (ss_errors s) (ss_scanned s)
      then Breach (TooManyErrors (ss_errors s) (ss_scanned s))
      else if th_max_block_rate th < float_rate (ss_blocked s) (ss_scanned s)
      then Breach (TooManyBlocked (ss_blocked s) (ss_scanned s))
      else Healthy)"

text \<open>\<open>evaluate\<close>: the rollouts read at the start, one after the other. A conflict skips one; any other exception ends the pass,
  with what was written before it in place.\<close>

definition evaluated :: "pub_db \<Rightarrow> (string \<times> rollout_row) list" where
  "evaluated db =
     filter (\<lambda>(_, x). (ro_state x = RoPilot \<or> ro_state x = RoRollout) \<and> ro_auto_pause x) (pb_rollouts db)"

definition act_on_breach ::
  "(string \<Rightarrow> string) \<Rightarrow> (nat \<Rightarrow> ustr \<Rightarrow> ustr) \<Rightarrow> int \<Rightarrow> breach \<Rightarrow> string \<Rightarrow> rollout_row \<Rightarrow> pub_db
     \<Rightarrow> pub_db \<times> nat \<times> bool" where
  "act_on_breach hash clean now b i x db =
     (case pause_row now system_actor i (ro_account x) (asc ''safety threshold exceeded: '' @ breach_text b) db of
        Inl _ \<Rightarrow> (db, 0, False)
      | Inr db1 \<Rightarrow>
          if \<not> ro_auto_rollback x then (db1, 1, False)
          else (case map_of (pb_rollouts db1) i of None \<Rightarrow> (db1, 1, True) | Some x1 \<Rightarrow>
            (case rollback_row hash clean now system_actor now (asc ''automatic rollback: '' @ breach_text b) True i x1 db1 of
               Inr db2 \<Rightarrow> (db2, 1, False)
             | Inl Conflict \<Rightarrow> (db1, 1, False)
             | Inl _ \<Rightarrow> (db1, 1, True))))"

fun evaluate_rows ::
  "(string \<Rightarrow> string) \<Rightarrow> (nat \<Rightarrow> ustr \<Rightarrow> ustr) \<Rightarrow> int \<Rightarrow> scan_row list \<Rightarrow> (string \<times> rollout_row) list \<Rightarrow> pub_db \<Rightarrow> nat
     \<Rightarrow> pub_db \<times> nat \<times> bool" where
  "evaluate_rows hash clean now scans [] db acted = (db, acted, False)"
| "evaluate_rows hash clean now scans ((i, x) # rows) db acted =
     (case judge (ro_thresholds x) (stage_statistics scans db i (ro_to x)) of
        DivisionByZero \<Rightarrow> (db, acted, True)
      | Breach b \<Rightarrow>
          (case act_on_breach hash clean now b i x db of (db1, n, crashed) \<Rightarrow>
             if crashed then (db1, acted + n, True) else evaluate_rows hash clean now scans rows db1 (acted + n))
      | _ \<Rightarrow> evaluate_rows hash clean now scans rows db acted)"

definition evaluate_rollouts ::
  "(string \<Rightarrow> string) \<Rightarrow> (nat \<Rightarrow> ustr \<Rightarrow> ustr) \<Rightarrow> int \<Rightarrow> scan_row list \<Rightarrow> pub_db \<Rightarrow> pub_db \<times> nat \<times> bool" where
  "evaluate_rollouts hash clean now scans db = evaluate_rows hash clean now scans (evaluated db) db 0"

section \<open>The version of a repository\<close>

definition rollout_of :: "pub_db \<Rightarrow> int \<Rightarrow> policy_target \<Rightarrow> (string \<times> rollout_row) option" where
  "rollout_of db account target =
     find (\<lambda>(_, x). ro_account x = account \<and> ro_target x = target \<and> in_progress (ro_state x)) (pb_rollouts db)"

definition version_for ::
  "pub_db \<Rightarrow> int \<Rightarrow> policy_target \<Rightarrow> int \<Rightarrow> (string \<times> nat) list \<Rightarrow> nat \<times> (string \<times> nat) list" where
  "version_for db account target repository used =
     (let latest = max_version db account target
      in case rollout_of db account target of
           None \<Rightarrow> (latest, used)
         | Some (i, x) \<Rightarrow>
             if ro_to x \<noteq> latest then (latest, used)
             else (let v = (if map_of (pb_enrolled db) (i, repository) \<noteq> None then latest else ro_from x)
                   in (v, AList.update i v used)))"

section \<open>Enrolment\<close>

definition add_rows :: "string \<Rightarrow> nat \<Rightarrow> int \<Rightarrow> int list \<Rightarrow> ((string \<times> int) \<times> (nat \<times> int)) list \<Rightarrow> ((string \<times> int) \<times> (nat \<times> int)) list" where
  "add_rows i stage now ws es =
     fold (\<lambda>r es. if map_of es (i, r) = None then es @ [((i, r), (stage, now))] else es) ws es"

lemma map_of_add_rows:
  "map_of (add_rows i stage now ws es) k =
     (if map_of es k = None \<and> fst k = i \<and> snd k \<in> set ws then Some (stage, now) else map_of es k)"
proof -
  have step: "map_of (if map_of es (i, r) = None then es @ [((i, r), (stage, now))] else es) k =
      (if map_of es k = None \<and> k = (i, r) then Some (stage, now) else map_of es k)" for r es
    by (auto simp: map_add_def split: option.split)
  show ?thesis
    unfolding add_rows_def
  proof (induction ws arbitrary: es)
    case (Cons r ws)
    show ?case unfolding fold.simps comp_apply Cons step by (cases k) auto
  qed simp
qed

lemma enrolled_in_iff: "r \<in> set (enrolled_in db i) \<longleftrightarrow> map_of (pb_enrolled db) (i, r) \<noteq> None"
  by (force simp: enrolled_in_def map_of_eq_None_iff)

lemma enroll_simps [simp]:
  "pb_rollouts (enroll i a ws st now db) = pb_rollouts db" "pb_versions (enroll i a ws st now db) = pb_versions db"
  "pb_gov (enroll i a ws st now db) = invalidate_repositories a (Some ws) now (pb_gov db)"
  "pb_enrolled (enroll i a ws st now db) = add_rows i st now ws (pb_enrolled db)"
  by (simp_all add: enroll_def on_gov_def add_rows_def)

lemma on_gov_simps [simp]:
  "pb_rollouts (on_gov f db) = pb_rollouts db" "pb_versions (on_gov f db) = pb_versions db"
  "pb_enrolled (on_gov f db) = pb_enrolled db" "pb_gov (on_gov f db) = f (pb_gov db)"
  "pb_drafts (on_gov f db) = pb_drafts db" "pb_approvals (on_gov f db) = pb_approvals db"
  by (simp_all add: on_gov_def)

lemma set_enrolled_in_enroll [simp]:
  "set (enrolled_in (enroll i a ws st now db) j) = set (enrolled_in db j) \<union> (if j = i then set ws else {})"
  by (auto simp: enrolled_in_iff map_of_add_rows split: if_splits)

text \<open>The repositories of an account do not depend on the cache, the audit log or the outbox.\<close>

lemma repositories_simps [simp]:
  "known_ids (invalidate_repositories a ids now db) = known_ids db"
  "group_member_ids (invalidate_repositories a ids now db) = group_member_ids db"
  "known_ids (log_event e db) = known_ids db" "group_member_ids (log_event e db) = group_member_ids db"
  "known_ids (emit_notice n db) = known_ids db" "group_member_ids (emit_notice n db) = group_member_ids db"
  by (simp_all add: fun_eq_iff known_ids_def account_repositories_def repository_rows_def group_member_ids_def
      invalidate_repositories_def log_event_def emit_notice_def)

lemma scope_repositories_simps [simp]:
  "scope_repositories (invalidate_repositories a ids now db) = scope_repositories db"
  "scope_repositories (log_event e db) = scope_repositories db"
  "scope_repositories (emit_notice n db) = scope_repositories db"
  by (simp_all add: fun_eq_iff scope_repositories_def split: policy_target.split)

lemma distinct_map_filter_fst:
  assumes "distinct (map fst xs)" and "\<And>x y. f x = Some y \<Longrightarrow> fst y = fst x"
  shows "distinct (map fst (List.map_filter f xs))"
  using assms(1)
proof (induction xs)
  case (Cons x xs)
  have "fst y \<in> fst ` set xs" if "y \<in> set (List.map_filter f xs)" for y
    using that assms(2) by (force simp: map_filter_def)
  with Cons show ?case
    by (cases "f x") (auto simp: map_filter_simps dest: assms(2))
qed (simp add: map_filter_simps)

lemma distinct_known_ids [simp]: "distinct (known_ids db account)"
proof -
  have "distinct (map fst (account_repositories db account))"
    unfolding account_repositories_def by (rule distinct_map_filter_fst) auto
  then show ?thesis by (simp add: known_ids_def)
qed

lemma distinct_scope [simp]: "distinct (scope_repositories db account target)"
  by (cases target) (simp_all add: scope_repositories_def)

text \<open>What a stage adds is in the scope and not enrolled yet.\<close>

lemma stage_wanted_new: "set (stage_wanted order i scope already stage) \<subseteq> set scope - set already"
  by (cases stage) (auto simp: stage_wanted_def Let_def dest: in_set_takeD)

definition share_target :: "nat \<Rightarrow> nat \<Rightarrow> nat" where
  "share_target n share = max 1 ((n * share + 99) div 100)"

lemma share_target_le: "share \<le> 100 \<Longrightarrow> 0 < n \<Longrightarrow> share_target n share \<le> n"
proof -
  assume "share \<le> 100" "0 < n"
  then have "n * share \<le> 100 * n" by (simp add: mult.commute)
  then have "(n * share + 99) div 100 \<le> (100 * n + 99) div 100" by (intro div_le_mono) simp
  also have "\<dots> = n" by simp
  finally show ?thesis using \<open>0 < n\<close> by (simp add: share_target_def)
qed

lemma percent_wanted_length:
  assumes "distinct scope" and "scope \<noteq> []" and "share \<le> 100"
  shows "length (stage_wanted order i scope already (StagePercent name share))
    = share_target (length scope) share - card (set already \<inter> set scope)"
proof -
  have "set (filter (\<lambda>r. r \<notin> set already) (sort_key (order i) scope)) = set scope - set already" by auto
  then have "length (filter (\<lambda>r. r \<notin> set already) (sort_key (order i) scope)) = card (set scope - set already)"
    using assms(1) by (metis distinct_card distinct_filter distinct_sort)
  also have "\<dots> = length scope - card (set already \<inter> set scope)"
    using assms(1) by (simp add: card_Diff_subset_Int Int_commute distinct_card)
  finally show ?thesis
    using diff_le_mono [OF share_target_le [of share "length scope"], of "card (set already \<inter> set scope)"] assms(2,3)
    by (simp add: stage_wanted_def Let_def share_target_def min_absorb2)
qed

text \<open>A percentage stage enrols its share. Enrolling a stage of \<open>share\<close> percent leaves exactly that share of the scope
  enrolled, rounded up and at least one, or what was enrolled before if that was more; nothing is taken out, and
  only repositories of the scope are added.\<close>

theorem stage_enrols_its_share:
  assumes "stages ! index = StagePercent name share" and "share \<le> 100"
    and "scope_repositories (pb_gov db) account target = scope" and "scope \<noteq> []"
    and "enroll_stage order i account target stages index now db = (db', wanted)"
  shows "card (set (enrolled_in db' i) \<inter> set scope)
      = max (card (set (enrolled_in db i) \<inter> set scope)) (max 1 ((length scope * share + 99) div 100))
    \<and> set (enrolled_in db' i) = set (enrolled_in db i) \<union> set wanted \<and> set wanted \<subseteq> set scope"
proof -
  let ?old = "set (enrolled_in db i)"
  have dist: "distinct scope" using assms(3) distinct_scope by metis
  have w: "wanted = stage_wanted order i scope (enrolled_in db i) (StagePercent name share)"
    and db': "db' = enroll i account wanted index now db"
    using assms(1,3,5) by (auto simp: enroll_stage_def Let_def)
  have new: "set wanted \<subseteq> set scope - ?old" unfolding w by (rule stage_wanted_new)
  have dw: "distinct wanted" unfolding w stage_wanted_def using dist by (simp add: Let_def)
  have "set (enrolled_in db' i) \<inter> set scope = (?old \<inter> set scope) \<union> set wanted" using new by (auto simp: db')
  moreover have "card ((?old \<inter> set scope) \<union> set wanted) = card (?old \<inter> set scope) + card (set wanted)"
    using new by (intro card_Un_disjoint) auto
  ultimately have "card (set (enrolled_in db' i) \<inter> set scope) = card (?old \<inter> set scope) + length wanted"
    using dw by (simp add: distinct_card)
  also have "\<dots> = max (card (?old \<inter> set scope)) (share_target (length scope) share)"
    using percent_wanted_length [OF dist assms(4,2), of order i "enrolled_in db i" name] unfolding w by simp
  finally show ?thesis using new by (auto simp: db' share_target_def)
qed

section \<open>Completion\<close>

lemma pb_simps_update_rollout [simp]:
  "pb_gov (update_rollout i f db) = pb_gov db" "pb_versions (update_rollout i f db) = pb_versions db"
  "pb_enrolled (update_rollout i f db) = pb_enrolled db" "enrolled_in (update_rollout i f db) j = enrolled_in db j"
  "enrolled_in (on_gov g db) j = enrolled_in db j"
  by (simp_all add: update_rollout_def enrolled_in_def on_gov_def)

lemma map_of_update_rollout:
  "map_of (pb_rollouts (update_rollout i f db)) j = map_option (\<lambda>x. if j = i then f x else x) (map_of (pb_rollouts db) j)"
proof -
  have "map_of (map (\<lambda>(j, x). (j, if j = i then f x else x)) xs) j = map_option (\<lambda>x. if j = i then f x else x) (map_of xs j)"
    for xs :: "(string \<times> rollout_row) list" by (induction xs) auto
  then show ?thesis by (simp add: update_rollout_def)
qed

lemma max_version_simps [simp]:
  "max_version (on_gov f db) = max_version db" "max_version (update_rollout i g db) = max_version db"
  "max_version (enroll i a ws st now db) = max_version db"
  by (simp_all add: fun_eq_iff max_version_def versions_of_def)

lemma enroll_stage_facts:
  assumes "enroll_stage order i account target stages index now db = (db', wanted)"
  shows "pb_rollouts db' = pb_rollouts db" "pb_versions db' = pb_versions db"
    "scope_repositories (pb_gov db') = scope_repositories (pb_gov db)"
    "set (enrolled_in db i) \<subseteq> set (enrolled_in db' i)"
  using assms by (auto simp: enroll_stage_def Let_def)

lemma enroll_remaining_facts:
  assumes "enroll_remaining i account target stage now db = (db', wanted)"
  shows "pb_rollouts db' = pb_rollouts db" "pb_versions db' = pb_versions db"
    "scope_repositories (pb_gov db') = scope_repositories (pb_gov db)"
    "set (scope_repositories (pb_gov db) account target) \<subseteq> set (enrolled_in db' i)"
    "set (enrolled_in db i) \<subseteq> set (enrolled_in db' i)"
  using assms by (auto simp: enroll_remaining_def Let_def)

definition advanced_row :: "int \<Rightarrow> rollout_row \<Rightarrow> bool \<Rightarrow> rollout_row \<Rightarrow> rollout_row" where
  "advanced_row now x finished r = r\<lparr>ro_current := min (ro_current x + 1) (length (ro_stages x) - 1),
     ro_state := if finished then RoActive else RoRollout, ro_stage_started_at := now,
     ro_completed_at := if finished then Some now else None\<rparr>"

lemma advance_db_facts:
  assumes "advance_db order now i x db = (db', en, fin)"
  shows "pb_rollouts db' = pb_rollouts (update_rollout i (advanced_row now x fin) db)"
    and "pb_versions db' = pb_versions db"
    and "scope_repositories (pb_gov db') = scope_repositories (pb_gov db)"
    and "fin \<Longrightarrow> set (scope_repositories (pb_gov db) (ro_account x) (ro_target x)) \<subseteq> set (enrolled_in db' i)"
    and "length (ro_stages x) \<le> ro_current x + 1 \<Longrightarrow> fin"
    and "set (enrolled_in db i) \<subseteq> set (enrolled_in db' i)"
proof -
  let ?index = "ro_current x + 1"
  obtain db1 e1 where s: "(if ?index < length (ro_stages x)
      then enroll_stage order i (ro_account x) (ro_target x) (ro_stages x) ?index now db else (db, [])) = (db1, e1)"
    by (meson surj_pair)
  have one: "pb_rollouts db1 = pb_rollouts db" "pb_versions db1 = pb_versions db"
    "scope_repositories (pb_gov db1) = scope_repositories (pb_gov db)" "set (enrolled_in db i) \<subseteq> set (enrolled_in db1 i)"
    using s enroll_stage_facts [of order i "ro_account x" "ro_target x" "ro_stages x" ?index now db db1 e1]
    by (auto split: if_splits)
  obtain db2 e2 where r: "(if fin then enroll_remaining i (ro_account x) (ro_target x) ?index now db1 else (db1, [])) = (db2, e2)"
    by (meson surj_pair)
  have two: "pb_rollouts db2 = pb_rollouts db1" "pb_versions db2 = pb_versions db1"
    "scope_repositories (pb_gov db2) = scope_repositories (pb_gov db1)" "set (enrolled_in db1 i) \<subseteq> set (enrolled_in db2 i)"
    "fin \<Longrightarrow> set (scope_repositories (pb_gov db1) (ro_account x) (ro_target x)) \<subseteq> set (enrolled_in db2 i)"
    using r enroll_remaining_facts [of i "ro_account x" "ro_target x" ?index now db1 db2 e2]
    by (auto split: if_splits)
  have fin: "fin = (if ?index < length (ro_stages x) then ?index = length (ro_stages x) - 1
      \<and> set (scope_repositories (pb_gov db1) (ro_account x) (ro_target x)) \<subseteq> set (enrolled_in db1 i) else True)"
    and db': "db' = update_rollout i (advanced_row now x fin) db2"
    using assms s r by (auto simp: advance_db_def Let_def advanced_row_def [abs_def] min_def split: prod.splits if_splits)
  show "pb_rollouts db' = pb_rollouts (update_rollout i (advanced_row now x fin) db)"
    by (simp add: db' update_rollout_def one two)
  show "length (ro_stages x) \<le> ro_current x + 1 \<Longrightarrow> fin" using fin by simp
  show "fin \<Longrightarrow> set (scope_repositories (pb_gov db) (ro_account x) (ro_target x)) \<subseteq> set (enrolled_in db' i)"
    using one two by (simp add: db')
  show "set (enrolled_in db i) \<subseteq> set (enrolled_in db' i)" using one two by (auto simp: db')
  show "pb_versions db' = pb_versions db" "scope_repositories (pb_gov db') = scope_repositories (pb_gov db)"
    using one two by (simp_all add: db')
qed

text \<open>An administrator advances the rollout again and again, at the given times; a refused request changes nothing.\<close>

fun advances :: "(string \<Rightarrow> int \<Rightarrow> string) \<Rightarrow> principal \<Rightarrow> string \<Rightarrow> int list \<Rightarrow> pub_db \<Rightarrow> pub_db" where
  "advances order p i [] db = db"
| "advances order p i (now # nows) db =
     advances order p i nows
       (case check_advance p i db of Inl _ \<Rightarrow> db
        | Inr x \<Rightarrow> (case commit_advance order now p i x db of Inl _ \<Rightarrow> db | Inr db' \<Rightarrow> db'))"

lemma rollout_conflict_advanced:
  assumes "map_of (pb_rollouts db) i = Some x" and "\<not> rollout_conflict db i x" and "in_progress (ro_state x)"
    and "pb_rollouts db' = pb_rollouts (update_rollout i f db)" and "ro_account (f x) = ro_account x"
    and "ro_target (f x) = ro_target x" and "ro_to (f x) = ro_to x"
  shows "\<not> rollout_conflict db' i (f x)"
  using assms by (auto simp: rollout_conflict_def list_ex_iff update_rollout_def)

text \<open>The state of a rollout that nobody else touches.\<close>

definition advancing :: "principal \<Rightarrow> string \<Rightarrow> rollout_row \<Rightarrow> pub_db \<Rightarrow> bool" where
  "advancing p i x db \<longleftrightarrow> map_of (pb_rollouts db) i = Some x \<and> is_hex_id (asc i) \<and> ro_current x < length (ro_stages x)
     \<and> can p PoliciesRead (ro_account x) \<and> can p PoliciesPublish (ro_account x)
     \<and> (ro_state x = RoPilot \<or> ro_state x = RoRollout) \<and> \<not> rollout_conflict db i x"

definition completed :: "string \<Rightarrow> int \<Rightarrow> policy_target \<Rightarrow> pub_db \<Rightarrow> bool" where
  "completed i account target db \<longleftrightarrow> (\<exists>y. map_of (pb_rollouts db) i = Some y \<and> ro_state y = RoActive
       \<and> ro_account y = account \<and> ro_target y = target \<and> \<not> rollout_conflict db i y)
     \<and> set (scope_repositories (pb_gov db) account target) \<subseteq> set (enrolled_in db i)"

lemma advance_ok:
  assumes "advancing p i x db"
  shows "\<exists>db' x'. check_advance p i db = Inr x \<and> commit_advance order now p i x db = Inr db'
     \<and> scope_repositories (pb_gov db') = scope_repositories (pb_gov db) \<and> max_version db' = max_version db
     \<and> (completed i (ro_account x) (ro_target x) db'
        \<or> advancing p i x' db' \<and> ro_current x' = ro_current x + 1 \<and> ro_stages x' = ro_stages x
          \<and> ro_account x' = ro_account x \<and> ro_target x' = ro_target x \<and> ro_current x + 1 < length (ro_stages x))"
proof -
  note a = assms [unfolded advancing_def]
  have check: "check_advance p i db = Inr x"
    using a by (auto simp: check_advance_def manageable_def require_def can_def role_in_def split: option.splits)
  obtain db1 en fin where d: "advance_db order now i x db = (db1, en, fin)" by (cases "advance_db order now i x db") auto
  note f = advance_db_facts [OF d]
  let ?x' = "advanced_row now x fin x"
  have look: "map_of (pb_rollouts db1) i = Some ?x'" using a by (simp add: f(1) map_of_update_rollout)
  have nc: "\<not> rollout_conflict db1 i ?x'"
    by (rule rollout_conflict_advanced [OF _ _ _ f(1)]) (use a in \<open>auto simp: advanced_row_def in_progress_def\<close>)
  let ?db' = "on_gov (log_event (RolloutAdvanced (user_actor (pr_user_id p) (pr_login p)) (ro_account x) i fin (length en))) db1"
  have commit: "commit_advance order now p i x db = Inr ?db'"
    using look nc by (simp add: commit_advance_def d)
  have nc': "\<not> rollout_conflict ?db' i ?x'" using nc by (simp add: rollout_conflict_def)
  have max: "max_version ?db' = max_version db" by (simp add: fun_eq_iff max_version_def versions_of_def f(2))
  show ?thesis
  proof (cases fin)
    case True
    then have "completed i (ro_account x) (ro_target x) ?db'"
      using look nc' f(3,4) by (auto simp: completed_def advanced_row_def)
    then show ?thesis using check commit max f(3) by auto
  next
    case False
    then have "ro_current x + 1 < length (ro_stages x)" using f(5) by linarith
    moreover from this have "advancing p i ?x' ?db'"
      using a look nc' False by (auto simp: advancing_def advanced_row_def)
    ultimately show ?thesis using check commit max f(3)
      by (intro exI [of _ ?db'] exI [of _ ?x']) (auto simp: advanced_row_def)
  qed
qed

lemma advances_completed:
  "completed i account target db \<Longrightarrow> advances order p i nows db = db"
proof (induction nows)
  case (Cons now nows)
  then have "\<exists>e. check_advance p i db = Inl e"
    by (auto simp: completed_def check_advance_def manageable_def split: sum.splits option.splits)
  with Cons show ?case by auto
qed simp

lemma advances_complete:
  assumes "advancing p i x db" and "length (ro_stages x) \<le> ro_current x + length nows"
  shows "completed i (ro_account x) (ro_target x) (advances order p i nows db)
    \<and> scope_repositories (pb_gov (advances order p i nows db)) = scope_repositories (pb_gov db)
    \<and> max_version (advances order p i nows db) = max_version db"
  using assms
proof (induction nows arbitrary: x db)
  case Nil
  then show ?case by (simp add: advancing_def)
next
  case (Cons now nows)
  from advance_ok [OF Cons.prems(1), of order now] obtain db' x' where
    s: "check_advance p i db = Inr x" "commit_advance order now p i x db = Inr db'"
      "scope_repositories (pb_gov db') = scope_repositories (pb_gov db)" "max_version db' = max_version db"
    and c: "completed i (ro_account x) (ro_target x) db' \<or> advancing p i x' db' \<and> ro_current x' = ro_current x + 1
      \<and> ro_stages x' = ro_stages x \<and> ro_account x' = ro_account x \<and> ro_target x' = ro_target x" by blast
  from c show ?case
  proof
    assume "completed i (ro_account x) (ro_target x) db'"
    then show ?thesis using s advances_completed by simp
  next
    assume n: "advancing p i x' db' \<and> ro_current x' = ro_current x + 1
      \<and> ro_stages x' = ro_stages x \<and> ro_account x' = ro_account x \<and> ro_target x' = ro_target x"
    with Cons.IH [of x' db'] Cons.prems(2) s show ?thesis by simp
  qed
qed

text \<open>C14: a rollout completes. When nobody else touches a rollout in progress, an administrator who advances it as often as
  it has stages left finds it active, with every repository of its scope enrolled, whatever its stages are.\<close>

theorem rollout_completes:
  assumes "advancing p i x db" and "length (ro_stages x) \<le> ro_current x + length nows"
  shows "\<exists>y. map_of (pb_rollouts (advances order p i nows db)) i = Some y \<and> ro_state y = RoActive
    \<and> set (scope_repositories (pb_gov db) (ro_account x) (ro_target x)) \<subseteq> set (enrolled_in (advances order p i nows db) i)"
  using advances_complete [OF assms, of order] by (auto simp: completed_def)

text \<open>An advance does not look at the state it overwrites. Once a request to advance has read the rollout, its transaction
  sets the rollout to in rollout or active whatever happened to it since: a pause, by an administrator or by a safety
  threshold, or a rollback that came in between is undone.\<close>

theorem advance_overrides_any_state:
  assumes "map_of (pb_rollouts db) i = Some y" and "commit_advance order now p i x db = Inr db'"
  shows "\<exists>z. map_of (pb_rollouts db') i = Some z \<and> ro_state z \<in> {RoRollout, RoActive}
    \<and> ro_paused_reason z = ro_paused_reason y"
proof -
  obtain db1 en fin where d: "advance_db order now i x db = (db1, en, fin)" by (cases "advance_db order now i x db") auto
  from advance_db_facts(1) [OF d] assms(1) have "map_of (pb_rollouts db1) i = Some (advanced_row now x fin y)"
    by (simp add: map_of_update_rollout)
  with assms(2) show ?thesis by (auto simp: commit_advance_def d advanced_row_def split: if_splits)
qed

section \<open>The safety pass\<close>

text \<open>C16: one rollout can stop the safety pass. A rollout whose minimum number of scans is not positive, which the route
  accepts, and that has no scans yet divides by zero: the pass ends there, and no rollout after it is looked at.\<close>

theorem zero_minimum_stops_the_pass:
  assumes "evaluated db = (i, x) # rest" and "th_min_scans (ro_thresholds x) \<le> 0"
    and "\<forall>s \<in> set scans. \<not> counted db i (ro_to x) s"
  shows "evaluate_rollouts hash clean now scans db = (db, 0, True)"
proof -
  have "ss_scanned (stage_statistics scans db i (ro_to x)) = 0"
    using assms(3) by (simp add: stage_statistics_def Let_def filter_empty_conv)
  then show ?thesis using assms(1,2) by (simp add: evaluate_rollouts_def judge_def)
qed

lemma fold_err_hooks [simp]:
  "fold_err f [] s = Inr s" "fold_err f (x # xs) s = (case f x s of Inl e \<Rightarrow> Inl e | Inr t \<Rightarrow> fold_err f xs t)"
  by simp_all

lemma fst_update_rollout [simp]: "map fst (pb_rollouts (update_rollout i f db)) = map fst (pb_rollouts db)"
  by (simp add: update_rollout_def case_prod_beta)

text \<open>A rollback of a rollout changes this rollout only, and leaves the enrolment alone.\<close>

lemma rollback_row_rollouts:
  assumes "rollback_row hash clean now who auth reason confirm i x db = Inr db'"
  shows "pb_rollouts db' = pb_rollouts (update_rollout i (\<lambda>r. r\<lparr>ro_state := RoRolledBack, ro_rolled_back_at := Some now,
      ro_rollback_version := Some (Suc (current_version db (ro_account x) (ro_target x)))\<rparr>) db)"
    and "pb_enrolled db' = pb_enrolled db"
  using assms
  by (auto simp: rollback_row_def rollback_policy_def commit_rollback_def Let_def on_policy_published_def
      finish_rollback_def update_rollout_def on_gov_def split: if_splits sum.splits)

lemma pause_row_rollouts:
  assumes "pause_row now who i account reason db = Inr db'"
  shows "pb_rollouts db' = pb_rollouts (update_rollout i (\<lambda>r. r\<lparr>ro_state := RoPaused, ro_paused_at := Some now,
      ro_paused_reason := Some reason, ro_paused_from := Some (ro_state r)\<rparr>) db)"
    and "pb_enrolled db' = pb_enrolled db"
  using assms by (auto simp: pause_row_def update_rollout_def on_gov_def split: option.splits if_splits)

lemma act_on_breach_facts:
  assumes "act_on_breach hash clean now b i x db = (db', n, crashed)"
  shows "pb_enrolled db' = pb_enrolled db" and "map fst (pb_rollouts db') = map fst (pb_rollouts db)"
    and "j \<noteq> i \<Longrightarrow> map_of (pb_rollouts db') j = map_of (pb_rollouts db) j"
    and "map_of (pb_rollouts db') i = Some y \<Longrightarrow> ro_state y \<notin> {RoPilot, RoRollout}"
proof -
  let ?reason = "asc ''safety threshold exceeded: '' @ breach_text b"
  have "pb_enrolled db' = pb_enrolled db \<and> map fst (pb_rollouts db') = map fst (pb_rollouts db) \<and> (j \<noteq> i \<longrightarrow> map_of (pb_rollouts db') j = map_of (pb_rollouts db) j)
    \<and> (map_of (pb_rollouts db') i = Some y \<longrightarrow> ro_state y \<notin> {RoPilot, RoRollout})"
  proof (cases "pause_row now system_actor i (ro_account x) ?reason db")
    case (Inl e)
    with assms have "db' = db" by (simp add: act_on_breach_def)
    with Inl show ?thesis by (auto simp: pause_row_def split: option.splits if_splits)
  next
    case (Inr db1)
    note p = pause_row_rollouts [OF Inr]
    have one: "pb_enrolled db1 = pb_enrolled db" "map fst (pb_rollouts db1) = map fst (pb_rollouts db)" "j \<noteq> i \<Longrightarrow> map_of (pb_rollouts db1) j = map_of (pb_rollouts db) j"
      "\<And>z. map_of (pb_rollouts db1) i = Some z \<Longrightarrow> ro_state z = RoPaused"
      using p by (auto simp: map_of_update_rollout option.map_ident)
    from assms Inr consider "db' = db1"
      | auth r x1 where "rollback_row hash clean now system_actor auth r True i x1 db1 = Inr db'"
      by (auto simp: act_on_breach_def split: if_splits option.splits sum.splits cp_error.splits)
    then show ?thesis
    proof cases
      case 1
      with one show ?thesis by auto
    next
      case 2
      with rollback_row_rollouts [OF 2] one show ?thesis by (auto simp: map_of_update_rollout option.map_ident)
    qed
  qed
  then show "pb_enrolled db' = pb_enrolled db" "map fst (pb_rollouts db') = map fst (pb_rollouts db)" "j \<noteq> i \<Longrightarrow> map_of (pb_rollouts db') j = map_of (pb_rollouts db) j"
    "map_of (pb_rollouts db') i = Some y \<Longrightarrow> ro_state y \<notin> {RoPilot, RoRollout}" by blast+
qed

lemma stage_statistics_cong: "pb_enrolled db = pb_enrolled db' \<Longrightarrow> stage_statistics scans db = stage_statistics scans db'"
  by (simp add: fun_eq_iff stage_statistics_def counted_def [abs_def])

lemma evaluate_rows_other:
  assumes "evaluate_rows hash clean now scans rows db acted = (db', n, c)" and "i \<notin> set (map fst rows)"
  shows "map_of (pb_rollouts db') i = map_of (pb_rollouts db) i"
  using assms
proof (induction rows arbitrary: db acted)
  case (Cons row rows)
  obtain j x where row: "row = (j, x)" by (cases row)
  show ?case
  proof (cases "judge (ro_thresholds x) (stage_statistics scans db j (ro_to x))")
    case (Breach b)
    obtain db1 k cr where a: "act_on_breach hash clean now b j x db = (db1, k, cr)"
      by (cases "act_on_breach hash clean now b j x db") auto
    from act_on_breach_facts(3) [OF a, of i] Cons.prems(2) have "map_of (pb_rollouts db1) i = map_of (pb_rollouts db) i"
      by (simp add: row)
    with Cons a Breach show ?thesis by (auto simp: row split: if_splits)
  qed (use Cons row in auto)
qed simp

lemma evaluate_rows_breach:
  assumes "evaluate_rows hash clean now scans rows db acted = (db', n, False)" and "distinct (map fst rows)"
    and "(i, x) \<in> set rows" and "judge (ro_thresholds x) (stage_statistics scans db i (ro_to x)) = Breach b"
    and "map_of (pb_rollouts db') i = Some y"
  shows "ro_state y \<notin> {RoPilot, RoRollout}"
  using assms
proof (induction rows arbitrary: db acted)
  case (Cons row rows)
  obtain j z where row: "row = (j, z)" by (cases row)
  show ?case
  proof (cases "judge (ro_thresholds z) (stage_statistics scans db j (ro_to z))")
    case (Breach b')
    obtain db1 k cr where a: "act_on_breach hash clean now b' j z db = (db1, k, cr)"
      by (cases "act_on_breach hash clean now b' j z db") auto
    with Cons.prems(1) Breach have rest: "evaluate_rows hash clean now scans rows db1 (acted + k) = (db', n, False)"
      by (auto simp: row split: if_splits)
    show ?thesis
    proof (cases "i = j")
      case True
      from evaluate_rows_other [OF rest, of i] Cons.prems(2,5) True have "map_of (pb_rollouts db1) j = Some y"
        by (simp add: row)
      with act_on_breach_facts(4) [OF a] show ?thesis by blast
    next
      case False
      have "stage_statistics scans db1 = stage_statistics scans db"
        by (rule stage_statistics_cong) (rule act_on_breach_facts(1) [OF a])
      with Cons.IH [OF rest] Cons.prems(2-5) False show ?thesis by (simp add: row)
    qed
  next
    case DivisionByZero
    with Cons.prems(1) show ?thesis by (simp add: row)
  qed (use Cons row in auto)
qed simp

lemma evaluate_rows_keys:
  "evaluate_rows hash clean now scans rows db acted = (db', n, c) \<Longrightarrow> map fst (pb_rollouts db') = map fst (pb_rollouts db)"
proof (induction rows arbitrary: db acted)
  case (Cons row rows)
  obtain j z where row: "row = (j, z)" by (cases row)
  show ?case
  proof (cases "judge (ro_thresholds z) (stage_statistics scans db j (ro_to z))")
    case (Breach b)
    obtain db1 k cr where a: "act_on_breach hash clean now b j z db = (db1, k, cr)"
      by (cases "act_on_breach hash clean now b j z db") auto
    from act_on_breach_facts(2) [OF a] Cons a Breach show ?thesis by (auto simp: row split: if_splits)
  qed (use Cons row in auto)
qed simp


section \<open>Concrete rollouts\<close>

definition sample_installation :: installation_row where
  "sample_installation = \<lparr>in_id = 10, in_account_id = 1, in_account_login = asc ''org'', in_account_type = AtOrganization,
     in_state = InActive, in_updated_at = 0\<rparr>"

definition sample_known :: "int \<Rightarrow> known_repository" where
  "sample_known r = \<lparr>kr_installation_id = 10, kr_repository_id = r, kr_owner = asc ''org'', kr_name = asc ''web'',
     kr_archived = False, kr_last_seen_at = 0\<rparr>"

definition rollout_gov :: gov_db where
  "rollout_gov = \<lparr>gv_installations = [sample_installation], gv_known = map sample_known [101, 102, 103],
     gv_session_repositories = [], gv_groups = [], gv_group_members = [], gv_cache = [], gv_modes = [], gv_settings = [],
     gv_exceptions = [], gv_audit = [], gv_outbox = []\<rparr>"

definition sample_stages :: "stage_plan list" where
  "sample_stages = [StageRepositories (asc ''pilot'') [101], StagePercent (asc ''half'') 50, StagePercent (asc ''all'') 100]"

definition rollout_to :: "int \<Rightarrow> int \<Rightarrow> rollout_row" where
  "rollout_to account min_scans = \<lparr>ro_account = account, ro_target = TgOrganization, ro_from = 1, ro_to = 2, ro_state = RoPilot,
     ro_stages = sample_stages, ro_current = 0,
     ro_thresholds = \<lparr>th_max_error_rate = 1 / 5, th_max_block_rate = 1 / 2, th_min_scans = min_scans\<rparr>,
     ro_auto_pause = True, ro_auto_rollback = False, ro_stage_started_at = 0, ro_paused_at = None, ro_paused_reason = None,
     ro_paused_from = None, ro_completed_at = None, ro_rolled_back_at = None, ro_rollback_version = None\<rparr>"

definition staged_db :: pub_db where
  "staged_db = \<lparr>pb_gov = rollout_gov, pb_versions = [], pb_drafts = [], pb_approvals = [],
     pb_rollouts = [(sample_id, rollout_to 1 1)], pb_enrolled = [((sample_id, 101), (0, 0))]\<rparr>"

definition failed_scan :: scan_row where
  "failed_scan = \<lparr>sn_repository = 101, sn_end = Some SeError, sn_completed_at = Some 50, sn_policy_version = Some 2\<rparr>"

definition paused_db :: pub_db where
  "paused_db = (case pause_row 60 system_actor sample_id 1 [] staged_db of Inl _ \<Rightarrow> staged_db | Inr db \<Rightarrow> db)"

definition no_order :: "string \<Rightarrow> int \<Rightarrow> string" where
  "no_order i r = []"

lemmas rollout_sample_defs = sample_installation_def sample_known_def rollout_gov_def sample_stages_def rollout_to_def
  staged_db_def

lemma sample_scope: "scope_repositories (pb_gov staged_db) 1 TgOrganization = [101, 102, 103]"
  by code_simp

lemma stage_enrols_its_share_witness:
  "card (set (enrolled_in (fst (enroll_stage no_order sample_id 1 TgOrganization sample_stages 1 60 staged_db)) sample_id)
     \<inter> {101, 102, 103}) = 2"
proof -
  let ?res = "enroll_stage no_order sample_id 1 TgOrganization sample_stages 1 60 staged_db"
  have old: "enrolled_in staged_db sample_id = [101]" by (simp add: staged_db_def enrolled_in_def)
  have stage: "sample_stages ! 1 = StagePercent (asc ''half'') 50" by (simp add: sample_stages_def)
  have "card (set (enrolled_in (fst ?res) sample_id) \<inter> set [101, 102, 103])
      = max (card (set (enrolled_in staged_db sample_id) \<inter> set [101, 102, 103]))
          (max 1 ((length [101, 102, 103::int] * 50 + 99) div 100))"
    by (rule stage_enrols_its_share [OF stage _ sample_scope, of no_order sample_id 60 "fst ?res" "snd ?res", THEN conjunct1])
      simp_all
  also have "\<dots> = 2" unfolding old by simp
  finally show ?thesis by simp
qed

lemma sample_advancing: "advancing sample_principal sample_id (rollout_to 1 1) staged_db"
  by (simp add: advancing_def sample_hex staged_db_def rollout_to_def sample_stages_def can_def role_in_def
      sample_principal_def permission_defs rollout_conflict_def)

lemma rollout_completes_witness:
  "\<exists>y. map_of (pb_rollouts (advances no_order sample_principal sample_id [60, 70, 80] staged_db)) sample_id = Some y
     \<and> ro_state y = RoActive"
  using rollout_completes [OF sample_advancing, of "[60, 70, 80]" no_order] by (auto simp: rollout_to_def sample_stages_def)

lemma sample_paused: "map_option ro_state (map_of (pb_rollouts paused_db) sample_id) = Some RoPaused"
  by (simp add: paused_db_def pause_row_def staged_db_def rollout_to_def map_of_update_rollout update_rollout_def on_gov_def)

lemma paused_commit:
  "\<exists>db'. commit_advance no_order 61 sample_principal sample_id (rollout_to 1 1) paused_db = Inr db'"
proof -
  obtain db1 en fin where d: "advance_db no_order 61 sample_id (rollout_to 1 1) paused_db = (db1, en, fin)"
    by (cases "advance_db no_order 61 sample_id (rollout_to 1 1) paused_db") auto
  have "map fst (pb_rollouts paused_db) = [sample_id]"
    by (simp add: paused_db_def pause_row_def staged_db_def rollout_to_def update_rollout_def on_gov_def)
  then have "map fst (pb_rollouts db1) = [sample_id]" by (simp add: advance_db_facts(1) [OF d])
  then have "\<not> rollout_conflict db1 sample_id r" for r by (auto simp: rollout_conflict_def list_ex_iff)
  then show ?thesis by (auto simp: commit_advance_def d split: option.split)
qed

lemma advance_overrides_any_state_witness:
  "\<exists>db' z. commit_advance no_order 61 sample_principal sample_id (rollout_to 1 1) paused_db = Inr db'
     \<and> map_option ro_state (map_of (pb_rollouts paused_db) sample_id) = Some RoPaused
     \<and> map_of (pb_rollouts db') sample_id = Some z \<and> ro_state z \<in> {RoRollout, RoActive}"
proof -
  from sample_paused obtain y where y: "map_of (pb_rollouts paused_db) sample_id = Some y" by auto
  from paused_commit obtain db' where c: "commit_advance no_order 61 sample_principal sample_id (rollout_to 1 1) paused_db = Inr db'" ..
  from advance_overrides_any_state [OF y c] c sample_paused show ?thesis by blast
qed

text \<open>Two organizations: the first rollout has a minimum of 0 scans, the second one only fails.\<close>

definition stuck_db :: pub_db where
  "stuck_db = staged_db\<lparr>pb_rollouts := [(''a'', rollout_to 2 0), (sample_id, rollout_to 1 1)]\<rparr>"

lemma zero_minimum_stops_the_pass_witness:
  "evaluate_rollouts id (\<lambda>_ t. t) 60 [failed_scan] stuck_db = (stuck_db, 0, True)
   \<and> judge (ro_thresholds (rollout_to 1 1)) (stage_statistics [failed_scan] stuck_db sample_id 2) = Breach (TooManyErrors 1 1)"
proof
  show "evaluate_rollouts id (\<lambda>_ t. t) 60 [failed_scan] stuck_db = (stuck_db, 0, True)"
    by (rule zero_minimum_stops_the_pass [of _ "''a''" "rollout_to 2 0" "[(sample_id, rollout_to 1 1)]"])
      (simp_all add: evaluated_def stuck_db_def rollout_to_def counted_def staged_db_def sample_id_def)
  show "judge (ro_thresholds (rollout_to 1 1)) (stage_statistics [failed_scan] stuck_db sample_id 2) = Breach (TooManyErrors 1 1)"
    by code_simp
qed


end
