(* ===== verification/Resolver.thy ===== *)
theory Resolver
  imports Rollouts
begin

text \<open>
  The effective policy of a repository (\<open>governance/resolver.py\<close>): the layers of a resolution, the resolution itself
  with the versions it used, the cache of resolutions and its propagation; and the operations that change what a
  resolution depends on beside publications, exceptions, settings and rollouts: group membership and archiving
  (\<open>governance/groups.py\<close>) and the mode of a repository (\<open>governance/inventory.py\<close>). The operator's mandatory policy is
  a parameter of the process, as in the code.
\<close>

section \<open>Layers\<close>

definition label_of :: "ustr \<Rightarrow> string" where
  "label_of s = map char_of s"

definition version_label :: "string \<Rightarrow> nat \<Rightarrow> string" where
  "version_label label n = take 200 (label @ '' v'' @ label_of (digits n))"

definition service_layer :: "(config \<times> string) option \<Rightarrow> policy_layer option" where
  "service_layer service =
     (case service of
        None \<Rightarrow> None
      | Some (c, description) \<Rightarrow>
          if cfg_policies c = [] then None
          else Some \<lparr>pl_level = LvService, pl_source_id = [],
                     pl_label = take 200 (''mandatory policy ('' @ description @ '')''), pl_version = None,
                     pl_rules = map (\<lambda>(rule, a). (rule, \<lparr>rq_action = a, rq_enforcement = Mandatory\<rparr>))
                       (filter (\<lambda>(_, a). a \<noteq> ALLOW)
                         (map (\<lambda>(rule, ov). (rule, or_builtin rule (ov_action ov))) (cfg_policies c)))\<rparr>)"

text \<open>A missing version, a document that does not parse and inputs the models refuse are exceptions.\<close>

datatype resolve_error = MissingVersion | BadDocument | InvalidInputs

definition policy_layer_of ::
  "pub_db \<Rightarrow> int \<Rightarrow> policy_target \<Rightarrow> nat \<Rightarrow> layer_level \<Rightarrow> string \<Rightarrow> resolve_error + policy_layer option" where
  "policy_layer_of db account target version level label =
     (if version = 0 then Inr None
      else case version_at db account target version of
        None \<Rightarrow> Inl MissingVersion
      | Some stored \<Rightarrow>
          (case parse_document (pv_document stored) of
             None \<Rightarrow> Inl BadDocument
           | Some fd \<Rightarrow>
               if requirements fd = [] then Inr None
               else Inr (Some \<lparr>pl_level = level, pl_source_id = label_of (target_id target),
                               pl_label = version_label label version, pl_version = Some version,
                               pl_rules = requirements fd\<rparr>)))"

definition baseline_layer :: "nat \<times> settings \<Rightarrow> policy_layer list" where
  "baseline_layer vs = (case vs of (v, s) \<Rightarrow>
     if st_baseline s = [] then []
     else [\<lparr>pl_level = LvOrganization, pl_source_id = ''baseline'',
            pl_label = ''security baseline (settings v'' @ label_of (digits v) @ '')'',
            pl_version = (if v = 0 then None else Some v),
            pl_rules = map (\<lambda>(rule, a). (rule, \<lparr>rq_action = a, rq_enforcement = Mandatory\<rparr>)) (st_baseline s)\<rparr>])"

text \<open>The groups of a repository that are not archived: the first 50 by name.\<close>

definition group_rows :: "gov_db \<Rightarrow> int \<Rightarrow> int \<Rightarrow> (ustr \<times> group_row) list" where
  "group_rows db account repository =
     take 50 (sort_key (\<lambda>(_, r). gg_name_key r)
       (List.map_filter (\<lambda>(a, g, r). if a = account \<and> r = repository
            then (case map_of (gv_groups db) g of Some row \<Rightarrow> if gg_archived row then None else Some (g, row) | None \<Rightarrow> None)
            else None) (gv_group_members db)))"

definition governance_mode :: "gov_db \<Rightarrow> int \<Rightarrow> int \<Rightarrow> repository_mode" where
  "governance_mode db account repository =
     (case map_of (gv_modes db) (account, repository) of
        Some m \<Rightarrow> mo_mode m | None \<Rightarrow> st_onboarding (snd (load_settings db account)))"

section \<open>Resolution\<close>

type_synonym layering = "policy_layer list \<times> (string \<times> nat) list"

definition add_layer ::
  "pub_db \<Rightarrow> int \<Rightarrow> int \<Rightarrow> policy_target \<Rightarrow> layer_level \<Rightarrow> string \<Rightarrow> layering \<Rightarrow> resolve_error + nat \<times> layering" where
  "add_layer db account repository target level label acc =
     (case acc of (layers, used) \<Rightarrow>
      case version_for db account target repository used of (version, used') \<Rightarrow>
        (case policy_layer_of db account target version level label of
           Inl e \<Rightarrow> Inl e
         | Inr l \<Rightarrow> Inr (version, (case l of None \<Rightarrow> layers | Some x \<Rightarrow> layers @ [x]), used')))"

fun add_groups ::
  "pub_db \<Rightarrow> int \<Rightarrow> int \<Rightarrow> (ustr \<times> group_row) list \<Rightarrow> layering \<Rightarrow> resolve_error + (ustr \<times> nat) list \<times> layering" where
  "add_groups db account repository [] acc = Inr ([], acc)"
| "add_groups db account repository ((g, row) # rest) acc =
     (case add_layer db account repository (TgGroup g) LvGroup (''group '' @ label_of (gg_name row) @ '' policy'') acc of
        Inl e \<Rightarrow> Inl e
      | Inr (version, acc') \<Rightarrow>
          (case add_groups db account repository rest acc' of
             Inl e \<Rightarrow> Inl e
           | Inr (groups, acc'') \<Rightarrow> Inr ((g, version) # groups, acc'')))"

definition positive :: "nat \<Rightarrow> nat option" where
  "positive n = (if n = 0 then None else Some n)"

definition earliest :: "grant list \<Rightarrow> int option" where
  "earliest gs = py_min id (List.map_filter gr_expires_at gs)"

definition resolve_in ::
  "(config \<times> string) option \<Rightarrow> int \<Rightarrow> int \<Rightarrow> int \<Rightarrow> pub_db \<Rightarrow> resolve_error + resolved_governance" where
  "resolve_in service now account repository db =
     (let stored = load_settings (pb_gov db) account;
          first = (case service_layer service of None \<Rightarrow> [] | Some l \<Rightarrow> [l]) @ baseline_layer stored;
          rows = group_rows (pb_gov db) account repository
      in case add_layer db account repository TgOrganization LvOrganization ''organization policy'' (first, []) of
        Inl e \<Rightarrow> Inl e
      | Inr (organization, acc1) \<Rightarrow>
      (case add_groups db account repository rows acc1 of
        Inl e \<Rightarrow> Inl e
      | Inr (groups, acc2) \<Rightarrow>
      (case add_layer db account repository (TgRepository (id_text repository)) LvRepositoryPolicy ''repository policy'' acc2 of
        Inl e \<Rightarrow> Inl e
      | Inr (version, layers, used) \<Rightarrow>
          (let grants = active_grants (pb_gov db) account repository (map fst rows) now;
               i = \<lparr>gi_layers = layers, gi_exceptions = grants, gi_mode = governance_mode (pb_gov db) account repository\<rparr>
           in if \<not> inputs_ok i then Inl InvalidInputs
              else Inr \<lparr>rs_inputs = i,
                 rs_versions = \<lparr>vs_organization = positive organization, vs_settings = positive (fst stored),
                   vs_groups = dict_of groups, vs_repository = positive version, vs_rollouts = used,
                   vs_exceptions = map gr_exception_id grants\<rparr>,
                 rs_valid_until = earliest grants, rs_resolved_at = now\<rparr>))))"

section \<open>The cache\<close>

definition store_resolution :: "int \<Rightarrow> int \<Rightarrow> resolved_governance \<Rightarrow> gov_db \<Rightarrow> gov_db" where
  "store_resolution account repository g db =
     db\<lparr>gv_cache := AList.update (account, repository)
          \<lparr>cw_state = CsUpToDate, cw_resolved = Some g,
           cw_invalidated_at = (case map_of (gv_cache db) (account, repository) of None \<Rightarrow> None | Some c \<Rightarrow> cw_invalidated_at c),
           cw_attempts = 0\<rparr> (gv_cache db)\<rparr>"

definition still_valid :: "int \<Rightarrow> resolved_governance \<Rightarrow> bool" where
  "still_valid now g \<longleftrightarrow> (case rs_valid_until g of None \<Rightarrow> True | Some t \<Rightarrow> now < t)"

text \<open>The document of an up-to-date row that is still valid; otherwise the caller resolves and stores.\<close>

definition cached :: "int \<Rightarrow> int \<Rightarrow> int \<Rightarrow> gov_db \<Rightarrow> resolved_governance option" where
  "cached now account repository db =
     (case map_of (gv_cache db) (account, repository) of
        None \<Rightarrow> None
      | Some c \<Rightarrow> (case cw_resolved c of
            None \<Rightarrow> None
          | Some g \<Rightarrow> if cw_state c = CsUpToDate \<and> still_valid now g then Some g else None))"

definition for_repository ::
  "(config \<times> string) option \<Rightarrow> int \<Rightarrow> int \<Rightarrow> int \<Rightarrow> pub_db \<Rightarrow> resolve_error + resolved_governance \<times> pub_db" where
  "for_repository service now account repository db =
     (case cached now account repository (pb_gov db) of
        Some g \<Rightarrow> Inr (g, db)
      | None \<Rightarrow>
          (case resolve_in service now account repository db of
             Inl e \<Rightarrow> Inl e
           | Inr g \<Rightarrow> Inr (g, on_gov (store_resolution account repository g) db)))"

section \<open>Propagation\<close>

definition MAX_PROPAGATION_ATTEMPTS :: nat where "MAX_PROPAGATION_ATTEMPTS = 5"

definition cache_update :: "int \<Rightarrow> int \<Rightarrow> (cache_row \<Rightarrow> cache_row) \<Rightarrow> gov_db \<Rightarrow> gov_db" where
  "cache_update account repository f db =
     db\<lparr>gv_cache := map (\<lambda>(k, c). (k, if k = (account, repository) then f c else c)) (gv_cache db)\<rparr>"

definition mark_syncing :: "int \<Rightarrow> int \<Rightarrow> int \<Rightarrow> gov_db \<Rightarrow> gov_db" where
  "mark_syncing now account repository db =
     (if map_of (gv_cache db) (account, repository) = None
      then db\<lparr>gv_cache := gv_cache db @ [((account, repository),
             \<lparr>cw_state = CsSyncing, cw_resolved = None, cw_invalidated_at = Some now, cw_attempts = 0\<rparr>)]\<rparr>
      else cache_update account repository (\<lambda>c. c\<lparr>cw_state := CsSyncing\<rparr>) db)"

definition pending_work :: "nat \<Rightarrow> gov_db \<Rightarrow> (int \<times> int) list" where
  "pending_work limit db =
     (let stale = take limit (map fst (sort_key (\<lambda>(_, c). case cw_invalidated_at c of None \<Rightarrow> (0, 0) | Some t \<Rightarrow> (1::nat, t))
            (filter (\<lambda>(_, c). cw_state c \<noteq> CsUpToDate \<and> cw_attempts c < MAX_PROPAGATION_ATTEMPTS) (gv_cache db))));
          missing = remdups (List.map_filter (\<lambda>k.
            case find (\<lambda>i. in_id i = kr_installation_id k) (gv_installations db) of
              None \<Rightarrow> None
            | Some i \<Rightarrow> if in_state i \<noteq> InDeleted \<and> map_of (gv_cache db) (in_account_id i, kr_repository_id k) = None
                        then Some (in_account_id i, kr_repository_id k) else None) (gv_known db))
      in stale @ take (limit - length stale) missing)"

text \<open>One repository of the pass: mark, resolve, store or record the failure.\<close>

definition propagate_one ::
  "(config \<times> string) option \<Rightarrow> int \<Rightarrow> int \<times> int \<Rightarrow> pub_db \<Rightarrow> pub_db \<times> bool" where
  "propagate_one service now key db =
     (case key of (account, repository) \<Rightarrow>
      let db1 = on_gov (mark_syncing now account repository) db
      in case resolve_in service now account repository db1 of
           Inr g \<Rightarrow> (on_gov (store_resolution account repository g) db1, True)
         | Inl _ \<Rightarrow> (on_gov (cache_update account repository
                      (\<lambda>c. c\<lparr>cw_state := CsError, cw_attempts := cw_attempts c + 1\<rparr>)) db1, False))"

definition propagate :: "(config \<times> string) option \<Rightarrow> int \<Rightarrow> nat \<Rightarrow> pub_db \<Rightarrow> pub_db \<times> nat \<times> nat" where
  "propagate service now limit db =
     fold (\<lambda>key (d, resolved, failed). case propagate_one service now key d of
             (d', ok) \<Rightarrow> if ok then (d', resolved + 1, failed) else (d', resolved, failed + 1))
       (pending_work limit (pb_gov db)) (db, 0, 0)"

section \<open>Groups\<close>

definition add_members_in :: "int \<Rightarrow> int \<Rightarrow> ustr \<Rightarrow> int list \<Rightarrow> gov_db \<Rightarrow> cp_error + gov_db" where
  "add_members_in now account g ids db =
     (case map_of (gv_groups db) g of
        None \<Rightarrow> Inl NotFound
      | Some row \<Rightarrow>
          if gg_account row \<noteq> account then Inl NotFound
          else if gg_archived row then Inl Conflict
          else if \<exists>r \<in> set ids. r \<notin> set (known_ids db account) then Inl NotFound
          else (let added = filter (\<lambda>r. (account, g, r) \<notin> set (gv_group_members db)) (remdups ids)
                in if added = [] then Inr db
                   else Inr (invalidate_repositories account (Some added) now
                     (db\<lparr>gv_group_members := gv_group_members db @ map (\<lambda>r. (account, g, r)) added\<rparr>))))"

definition remove_members_in :: "int \<Rightarrow> int \<Rightarrow> ustr \<Rightarrow> int list \<Rightarrow> gov_db \<Rightarrow> gov_db" where
  "remove_members_in now account g ids db =
     (let removed = filter (\<lambda>r. (account, g, r) \<in> set (gv_group_members db)) (remdups ids)
      in if removed = [] then db
         else invalidate_repositories account (Some removed) now
           (db\<lparr>gv_group_members := filter (\<lambda>m. m \<notin> (\<lambda>r. (account, g, r)) ` set removed) (gv_group_members db)\<rparr>))"

text \<open>The transaction of \<open>archive\<close>: exceptions scoped to the group end with it.\<close>

definition archive_group :: "int \<Rightarrow> int \<Rightarrow> ustr \<Rightarrow> gov_db \<Rightarrow> gov_db" where
  "archive_group now account g db =
     invalidate_repositories account (Some (group_member_ids db account g)) now
       (db\<lparr>gv_groups := map (\<lambda>(h, r). (h, if h = g then r\<lparr>gg_archived := True\<rparr> else r)) (gv_groups db),
           gv_exceptions := map (\<lambda>(i, x). (i,
             if ex_account_id x = account \<and> ex_scope x = ScGroup \<and> ex_scope_id x = g \<and> open_status (ex_status x)
             then x\<lparr>ex_status := (if ex_status x = ExRequested then ExCancelled else ExRevoked), ex_ended_at := Some now\<rparr>
             else x)) (gv_exceptions db)\<rparr>)"

text \<open>The transactions of \<open>create\<close> and of \<open>update\<close>, which changes the name.\<close>

definition MAX_GROUPS_PER_ORGANIZATION :: nat where "MAX_GROUPS_PER_ORGANIZATION = 500"

definition name_taken :: "gov_db \<Rightarrow> int \<Rightarrow> ustr \<Rightarrow> ustr \<Rightarrow> bool" where
  "name_taken db account key g \<longleftrightarrow>
     list_ex (\<lambda>(h, r). h \<noteq> g \<and> gg_account r = account \<and> gg_name_key r = key \<and> \<not> gg_archived r) (gv_groups db)"

definition create_group :: "int \<Rightarrow> ustr \<Rightarrow> ustr \<Rightarrow> ustr \<Rightarrow> gov_db \<Rightarrow> cp_error + gov_db" where
  "create_group account g name key db =
     (if MAX_GROUPS_PER_ORGANIZATION
           \<le> length (filter (\<lambda>(_, r). gg_account r = account \<and> \<not> gg_archived r) (gv_groups db)) then Inl Conflict
      else if name_taken db account key g then Inl Conflict
      else if map_of (gv_groups db) g \<noteq> None then Inl StoreIntegrity
      else Inr (db\<lparr>gv_groups := gv_groups db @
             [(g, \<lparr>gg_account = account, gg_name = name, gg_name_key = key, gg_archived = False\<rparr>)]\<rparr>))"

definition rename_group :: "int \<Rightarrow> ustr \<Rightarrow> ustr \<Rightarrow> ustr \<Rightarrow> gov_db \<Rightarrow> cp_error + gov_db" where
  "rename_group account g name key db =
     (if name_taken db account key g then Inl Conflict
      else Inr (db\<lparr>gv_groups := map (\<lambda>(h, r). (h, if h = g then r\<lparr>gg_name := name, gg_name_key := key\<rparr> else r)) (gv_groups db)\<rparr>))"

section \<open>Modes\<close>

definition mode_row_of :: "gov_db \<Rightarrow> int \<Rightarrow> int \<Rightarrow> mode_row" where
  "mode_row_of db account r =
     (case map_of (gv_modes db) (account, r) of
        Some m \<Rightarrow> m
      | None \<Rightarrow> \<lparr>mo_onboarded = ''discovered'', mo_mode = st_onboarding (snd (load_settings db account))\<rparr>)"

text \<open>One repository of \<open>apply_in\<close>: the row it writes, if any, and whether the mode changes.\<close>

definition apply_mode :: "int \<Rightarrow> repository_mode option \<Rightarrow> bool \<Rightarrow> int \<Rightarrow> gov_db \<Rightarrow> gov_db \<times> bool" where
  "apply_mode account mode onboard r db =
     (let current = mode_row_of db account r;
          target = (case mode of None \<Rightarrow> mo_mode current | Some m \<Rightarrow> m);
          onboarding = (if onboard then ''onboarded'' else mo_onboarded current)
      in if map_of (gv_modes db) (account, r) = Some \<lparr>mo_onboarded = onboarding, mo_mode = target\<rparr> then (db, False)
         else (db\<lparr>gv_modes := AList.update (account, r) \<lparr>mo_onboarded = onboarding, mo_mode = target\<rparr> (gv_modes db)\<rparr>,
               mo_mode current \<noteq> target))"

definition apply_modes :: "int \<Rightarrow> int \<Rightarrow> repository_mode option \<Rightarrow> bool \<Rightarrow> int list \<Rightarrow> gov_db \<Rightarrow> gov_db" where
  "apply_modes now account mode onboard ids db =
     (let (db1, changed) = fold (\<lambda>r (d, ch). case apply_mode account mode onboard r d of
                                    (d', c) \<Rightarrow> (d', if c then ch @ [r] else ch))
                             (filter (\<lambda>r. r \<in> set (known_ids db account)) ids) (db, [])
      in if changed = [] then db1 else invalidate_repositories account (Some changed) now db1)"

text \<open>The rows \<open>discovered\<close> adds for repositories seen for the first time.\<close>

definition discovered :: "int \<Rightarrow> int list \<Rightarrow> gov_db \<Rightarrow> gov_db" where
  "discovered account ids db =
     (let s = snd (load_settings db account);
          onboarding = (\<lambda>r. case map_of (account_repositories db account) r of
            Some info \<Rightarrow> if ar_archived info \<and> st_archived s = ArExclude then ''excluded''
                         else if st_auto_onboard s then ''onboarded'' else ''discovered''
          | None \<Rightarrow> if st_auto_onboard s then ''onboarded'' else ''discovered'')
      in db\<lparr>gv_modes := fold (\<lambda>r ms. if map_of ms (account, r) = None
           then ms @ [((account, r), \<lparr>mo_onboarded = onboarding r, mo_mode = st_onboarding s\<rparr>)] else ms) ids (gv_modes db)\<rparr>)"

end
