(* ===== verification/Coherence.thy ===== *)
theory Coherence
  imports Resolver
begin

text \<open>
  The effective-policy cache never holds a resolution that no longer applies: the inputs a resolution reads, the
  operations of the governance services as steps, and the proof that each step marks every row whose inputs it
  changes (the table of \<open>governance/cache.py\<close>).
\<close>

section \<open>What a resolution depends on\<close>

text \<open>The version a repository resolves for a target, and the layer of that version.\<close>

definition repo_version :: "pub_db \<Rightarrow> int \<Rightarrow> policy_target \<Rightarrow> int \<Rightarrow> nat" where
  "repo_version db account target repository = fst (version_for db account target repository [])"

definition target_layer ::
  "pub_db \<Rightarrow> int \<Rightarrow> int \<Rightarrow> policy_target \<Rightarrow> layer_level \<Rightarrow> string \<Rightarrow> resolve_error + policy_layer option" where
  "target_layer db account repository target level label =
     policy_layer_of db account target (repo_version db account target repository) level label"

definition option_list :: "'a option \<Rightarrow> 'a list" where
  "option_list x = (case x of None \<Rightarrow> [] | Some y \<Rightarrow> [y])"

lemma version_for_version: "fst (version_for db a t r used) = repo_version db a t r"
  by (auto simp: repo_version_def version_for_def Let_def split: option.splits)

lemma add_layer_eq:
  "add_layer db a r t level label (layers, used) =
     (case target_layer db a r t level label of Inl e \<Rightarrow> Inl e
      | Inr l \<Rightarrow> Inr (repo_version db a t r, layers @ option_list l, snd (version_for db a t r used)))"
  using version_for_version [of db a t r used]
  by (cases "version_for db a t r used")
    (auto simp: add_layer_def target_layer_def option_list_def split: sum.splits option.splits)

definition group_layer :: "pub_db \<Rightarrow> int \<Rightarrow> int \<Rightarrow> ustr \<times> group_row \<Rightarrow> resolve_error + policy_layer list" where
  "group_layer db a r e = (case e of (g, row) \<Rightarrow>
     (case target_layer db a r (TgGroup g) LvGroup (''group '' @ label_of (gg_name row) @ '' policy'') of
        Inl e \<Rightarrow> Inl e | Inr l \<Rightarrow> Inr (option_list l)))"

lemma add_groups_eq:
  "map_sum id (\<lambda>(_, layers, _). layers) (add_groups db a r rows (layers, used)) =
     (case map_err (group_layer db a r) rows of Inl e \<Rightarrow> Inl e | Inr ls \<Rightarrow> Inr (layers @ concat ls))"
proof (induction rows arbitrary: layers used)
  case (Cons e rows)
  obtain g row where e: "e = (g, row)" by (cases e)
  show ?case
  proof (cases "target_layer db a r (TgGroup g) LvGroup (''group '' @ label_of (gg_name row) @ '' policy'')")
    case (Inl x)
    then show ?thesis by (simp add: e add_layer_eq group_layer_def)
  next
    case (Inr l)
    with Cons [of "layers @ option_list l" "snd (version_for db a (TgGroup g) r used)"] show ?thesis
      by (auto simp: e add_layer_eq group_layer_def split: sum.splits)
  qed
qed simp

text \<open>The inputs of a resolution, without the bookkeeping of versions.\<close>

definition resolve_inputs ::
  "(config \<times> string) option \<Rightarrow> int \<Rightarrow> int \<Rightarrow> int \<Rightarrow> pub_db \<Rightarrow> resolve_error + inputs" where
  "resolve_inputs service now a r db =
     (let rows = group_rows (pb_gov db) a r in
      case target_layer db a r TgOrganization LvOrganization ''organization policy'' of Inl e \<Rightarrow> Inl e
      | Inr l1 \<Rightarrow>
      (case map_err (group_layer db a r) rows of Inl e \<Rightarrow> Inl e
      | Inr ls \<Rightarrow>
      (case target_layer db a r (TgRepository (id_text r)) LvRepositoryPolicy ''repository policy'' of Inl e \<Rightarrow> Inl e
      | Inr l3 \<Rightarrow>
          (let i = \<lparr>gi_layers = option_list (service_layer service) @ baseline_layer (load_settings (pb_gov db) a)
                      @ option_list l1 @ concat ls @ option_list l3,
                   gi_exceptions = active_grants (pb_gov db) a r (map fst rows) now,
                   gi_mode = governance_mode (pb_gov db) a r\<rparr>
           in if inputs_ok i then Inr i else Inl InvalidInputs))))"

lemma resolve_in_inputs: "map_sum id rs_inputs (resolve_in service now a r db) = resolve_inputs service now a r db"
proof -
  let ?rows = "group_rows (pb_gov db) a r"
  let ?first = "option_list (service_layer service) @ baseline_layer (load_settings (pb_gov db) a)"
  have first: "(case service_layer service of None \<Rightarrow> [] | Some l \<Rightarrow> [l]) = option_list (service_layer service)"
    by (simp add: option_list_def)
  show ?thesis
  proof (cases "target_layer db a r TgOrganization LvOrganization ''organization policy''")
    case (Inl e)
    then show ?thesis by (simp add: resolve_in_def resolve_inputs_def Let_def first add_layer_eq)
  next
    case (Inr l1)
    let ?used = "snd (version_for db a TgOrganization r [])"
    from add_groups_eq [of db a r ?rows "?first @ option_list l1" ?used] show ?thesis
      by (cases "map_err (group_layer db a r) ?rows"; cases "add_groups db a r ?rows (?first @ option_list l1, ?used)")
        (auto simp: resolve_in_def resolve_inputs_def Let_def first add_layer_eq Inr split: sum.splits)
  qed
qed

text \<open>What a resolution reads: two states that agree on it resolve alike.\<close>

definition targets :: "(ustr \<times> group_row) list \<Rightarrow> int \<Rightarrow> policy_target set" where
  "targets rows r = {TgOrganization, TgRepository (id_text r)} \<union> TgGroup ` fst ` set rows"

definition same_gov :: "int \<Rightarrow> int \<Rightarrow> int \<Rightarrow> gov_db \<Rightarrow> gov_db \<Rightarrow> bool" where
  "same_gov now a r g g' \<longleftrightarrow> load_settings g a = load_settings g' a \<and> group_rows g a r = group_rows g' a r
     \<and> governance_mode g a r = governance_mode g' a r
     \<and> active_grants g a r (map fst (group_rows g a r)) now = active_grants g' a r (map fst (group_rows g a r)) now"

definition same_versions :: "int \<Rightarrow> int \<Rightarrow> pub_db \<Rightarrow> pub_db \<Rightarrow> bool" where
  "same_versions a r db db' \<longleftrightarrow> (\<forall>t \<in> targets (group_rows (pb_gov db) a r) r.
     repo_version db a t r = repo_version db' a t r
     \<and> version_at db a t (repo_version db a t r) = version_at db' a t (repo_version db a t r))"

lemma map_err_cong: "(\<And>x. x \<in> set xs \<Longrightarrow> f x = g x) \<Longrightarrow> map_err f xs = map_err g xs"
  by (induction xs) (auto split: sum.splits)

lemma resolve_inputs_cong:
  assumes "same_gov now a r (pb_gov db) (pb_gov db')" and "same_versions a r db db'"
  shows "resolve_inputs service now a r db = resolve_inputs service now a r db'"
proof -
  have layer: "target_layer db a r t level label = target_layer db' a r t level label"
    if "t \<in> targets (group_rows (pb_gov db) a r) r" for t level label
    using assms(2) that by (auto simp: same_versions_def target_layer_def policy_layer_of_def)
  have groups: "map_err (group_layer db a r) (group_rows (pb_gov db) a r) = map_err (group_layer db' a r) (group_rows (pb_gov db) a r)"
  proof (rule map_err_cong)
    fix e assume "e \<in> set (group_rows (pb_gov db) a r)"
    then have "TgGroup (fst e) \<in> targets (group_rows (pb_gov db) a r) r" by (simp add: targets_def)
    from layer [OF this] show "group_layer db a r e = group_layer db' a r e"
      by (simp add: group_layer_def split_beta)
  qed
  have others: "target_layer db a r TgOrganization = target_layer db' a r TgOrganization"
    "target_layer db a r (TgRepository (id_text r)) = target_layer db' a r (TgRepository (id_text r))"
    by (auto simp: fun_eq_iff layer targets_def)
  have gov: "load_settings (pb_gov db') a = load_settings (pb_gov db) a" "group_rows (pb_gov db') a r = group_rows (pb_gov db) a r"
    "governance_mode (pb_gov db') a r = governance_mode (pb_gov db) a r"
    "active_grants (pb_gov db') a r (map fst (group_rows (pb_gov db) a r)) now
       = active_grants (pb_gov db) a r (map fst (group_rows (pb_gov db) a r)) now"
    using assms(1) unfolding same_gov_def by auto
  show ?thesis unfolding resolve_inputs_def Let_def gov groups others ..
qed

section \<open>The cache and the clock\<close>

lemma take_filter_all: "(\<And>x. x \<in> set (take n xs) \<Longrightarrow> P x) \<Longrightarrow> take n (filter P xs) = take n xs"
proof (induction xs arbitrary: n)
  case (Cons x xs)
  then show ?case by (cases n) auto
qed simp

lemma earliest_le:
  assumes "e \<in> set gs" and "gr_expires_at e = Some t"
  shows "\<exists>u. earliest gs = Some u \<and> u \<le> t"
proof -
  have "t \<in> set (List.map_filter gr_expires_at gs)" using assms by (force simp: map_filter_def)
  moreover from this obtain u where "earliest gs = Some u" by (cases "earliest gs") (auto simp: earliest_def)
  ultimately show ?thesis using py_min_SomeD(2) [of id "List.map_filter gr_expires_at gs" u t] by (auto simp: earliest_def)
qed

lemma in_force_later: "in_force t x \<Longrightarrow> now \<le> t \<Longrightarrow> in_force now x"
  by (auto simp: in_force_def split: option.splits)

text \<open>Until the first of its exceptions expires, the exceptions of a repository stay the same.\<close>

lemma active_grants_later:
  assumes "now \<le> t" and "case earliest (active_grants g a r gs now) of None \<Rightarrow> True | Some u \<Rightarrow> t < u"
  shows "active_grants g a r gs t = active_grants g a r gs now"
proof -
  let ?f = "\<lambda>now. filter (\<lambda>(_, x). applies_to x a r gs \<and> in_force now x) (gv_exceptions g)"
  let ?L = "sort_key fst (?f now)"
  have "?f t = filter (\<lambda>(_, x). in_force t x) (?f now)"
    using assms(1) by (auto simp: filter_filter intro!: filter_cong dest: in_force_later)
  then have later: "sort_key fst (?f t) = filter (\<lambda>(_, x). in_force t x) ?L" by (simp add: filter_sort)
  have "take 256 (filter (\<lambda>(_, x). in_force t x) ?L) = take 256 ?L"
  proof (rule take_filter_all)
    fix e assume e: "e \<in> set (take 256 ?L)"
    obtain i x where ix: "e = (i, x)" by (cases e)
    from in_set_takeD [OF e] have now: "in_force now x" by (simp add: ix)
    from e have "grant_of g (i, x) \<in> set (active_grants g a r gs now)" by (auto simp: active_grants_def ix)
    with earliest_le [of "grant_of g (i, x)"] assms(2) now show "case e of (_, x) \<Rightarrow> in_force t x"
      by (cases "ex_permanent x") (force simp: ix in_force_def grant_of_def split: option.splits)+
  qed
  then show ?thesis by (simp add: active_grants_def later)
qed

definition fresh_entry :: "(config \<times> string) option \<Rightarrow> int \<Rightarrow> int \<Rightarrow> int \<Rightarrow> pub_db \<Rightarrow> resolved_governance \<Rightarrow> bool" where
  "fresh_entry service now a r db g \<longleftrightarrow> resolve_inputs service now a r db = Inr (rs_inputs g)
     \<and> rs_valid_until g = earliest (gi_exceptions (rs_inputs g))"

definition coherent :: "(config \<times> string) option \<Rightarrow> int \<Rightarrow> pub_db \<Rightarrow> bool" where
  "coherent service now db \<longleftrightarrow>
     (\<forall>a r g. cached now a r (pb_gov db) = Some g \<longrightarrow> fresh_entry service now a r db g)"

lemma resolve_inputs_later:
  assumes "resolve_inputs service now a r db = Inr i" and "now \<le> t"
    and "case earliest (gi_exceptions i) of None \<Rightarrow> True | Some u \<Rightarrow> t < u"
  shows "resolve_inputs service t a r db = Inr i"
proof -
  let ?gs = "map fst (group_rows (pb_gov db) a r)"
  have "gi_exceptions i = active_grants (pb_gov db) a r ?gs now"
    using assms(1) by (auto simp: resolve_inputs_def Let_def split: sum.splits if_splits)
  with active_grants_later [of now t "pb_gov db" a r ?gs] assms(2,3)
  have "active_grants (pb_gov db) a r ?gs t = active_grants (pb_gov db) a r ?gs now" by simp
  note same = this
  have "resolve_inputs service t a r db = resolve_inputs service now a r db"
    unfolding resolve_inputs_def Let_def same ..
  then show ?thesis using assms(1) by simp
qed

lemma coherent_tick:
  assumes "coherent service now db" and "now \<le> t"
  shows "coherent service t db"
  unfolding coherent_def
proof (intro allI impI)
  fix a r g assume c: "cached t a r (pb_gov db) = Some g"
  then have v: "still_valid t g" and "cached now a r (pb_gov db) = Some g"
    using assms(2) by (auto simp: cached_def still_valid_def split: option.splits if_splits)
  with assms(1) have "fresh_entry service now a r db g" by (simp add: coherent_def)
  with resolve_inputs_later [of service now a r db "rs_inputs g" t] v assms(2) show "fresh_entry service t a r db g"
    by (auto simp: fresh_entry_def still_valid_def split: option.splits)
qed

text \<open>An operation keeps the cache coherent when it leaves alone, or marks, every row whose resolution it changes.\<close>

lemma coherent_step:
  assumes "coherent service now db"
    and "\<And>a r g. cached now a r (pb_gov db') = Some g \<Longrightarrow> cached now a r (pb_gov db) = Some g
       \<and> same_gov now a r (pb_gov db) (pb_gov db') \<and> same_versions a r db db'"
  shows "coherent service now db'"
  unfolding coherent_def
proof (intro allI impI)
  fix a r g assume "cached now a r (pb_gov db') = Some g"
  from assms(2) [OF this] assms(1) resolve_inputs_cong [of now a r db db' service]
  show "fresh_entry service now a r db' g" by (auto simp: coherent_def fresh_entry_def)
qed

section \<open>Rollouts in progress\<close>

definition rollouts_inv :: "pub_db \<Rightarrow> bool" where
  "rollouts_inv db \<longleftrightarrow> distinct (map fst (pb_rollouts db))
     \<and> (\<forall>i x j y. map_of (pb_rollouts db) i = Some x \<longrightarrow> map_of (pb_rollouts db) j = Some y \<longrightarrow>
          in_progress (ro_state x) \<longrightarrow> in_progress (ro_state y) \<longrightarrow> ro_account x = ro_account y \<longrightarrow> ro_target x = ro_target y
          \<longrightarrow> i = j)
     \<and> (\<forall>i x. map_of (pb_rollouts db) i = Some x \<longrightarrow> ro_paused_from x \<in> {None, Some RoPilot, Some RoRollout})"

lemma rollouts_invD:
  assumes "rollouts_inv db"
  shows "distinct (map fst (pb_rollouts db))"
    and "map_of (pb_rollouts db) i = Some x \<Longrightarrow> map_of (pb_rollouts db) j = Some y \<Longrightarrow> in_progress (ro_state x) \<Longrightarrow>
      in_progress (ro_state y) \<Longrightarrow> ro_account x = ro_account y \<Longrightarrow> ro_target x = ro_target y \<Longrightarrow> i = j"
    and "map_of (pb_rollouts db) i = Some x \<Longrightarrow> ro_paused_from x \<in> {None, Some RoPilot, Some RoRollout}"
  using assms unfolding rollouts_inv_def by blast+

lemma rollout_of_iff:
  assumes "rollouts_inv db"
  shows "rollout_of db a t = Some (i, x) \<longleftrightarrow>
    map_of (pb_rollouts db) i = Some x \<and> ro_account x = a \<and> ro_target x = t \<and> in_progress (ro_state x)"
proof
  assume "rollout_of db a t = Some (i, x)"
  then have "(i, x) \<in> set (pb_rollouts db) \<and> ro_account x = a \<and> ro_target x = t \<and> in_progress (ro_state x)"
    unfolding rollout_of_def find_Some_iff by (auto simp: in_set_conv_nth)
  then show "map_of (pb_rollouts db) i = Some x \<and> ro_account x = a \<and> ro_target x = t \<and> in_progress (ro_state x)"
    using rollouts_invD(1) [OF assms] by simp
next
  assume r: "map_of (pb_rollouts db) i = Some x \<and> ro_account x = a \<and> ro_target x = t \<and> in_progress (ro_state x)"
  then have "rollout_of db a t \<noteq> None" unfolding rollout_of_def find_None_iff by (auto dest: map_of_SomeD)
  then obtain j y where f: "rollout_of db a t = Some (j, y)" by auto
  then have y: "map_of (pb_rollouts db) j = Some y" "ro_account y = a" "ro_target y = t" "in_progress (ro_state y)"
    using rollouts_invD(1) [OF assms] unfolding rollout_of_def find_Some_iff by (auto simp: in_set_conv_nth)
  from rollouts_invD(2) [OF assms, of j y i x] y r have "i = j" by auto
  with y r f show "rollout_of db a t = Some (i, x)" by simp
qed

text \<open>Two states with the same versions, rollout and enrolment for a target.\<close>

definition same_target_state :: "int \<Rightarrow> policy_target \<Rightarrow> pub_db \<Rightarrow> pub_db \<Rightarrow> bool" where
  "same_target_state a t db db' \<longleftrightarrow> versions_of db a t = versions_of db' a t
     \<and> map_option (\<lambda>(i, x). (i, ro_to x, ro_from x)) (rollout_of db a t) = map_option (\<lambda>(i, x). (i, ro_to x, ro_from x)) (rollout_of db' a t)
     \<and> (\<forall>i x r. rollout_of db a t = Some (i, x) \<longrightarrow> map_of (pb_enrolled db) (i, r) = map_of (pb_enrolled db') (i, r))"

lemma same_target_stateD:
  assumes "same_target_state a t db db'"
  shows "repo_version db a t r = repo_version db' a t r" and "version_at db a t n = version_at db' a t n"
proof -
  from assms have "max_version db a t = max_version db' a t" by (simp add: same_target_state_def max_version_def)
  then show "repo_version db a t r = repo_version db' a t r"
    using assms unfolding same_target_state_def
    by (cases "rollout_of db a t"; cases "rollout_of db' a t")
      (auto simp: repo_version_def version_for_def Let_def)
  show "version_at db a t n = version_at db' a t n" using assms by (simp add: same_target_state_def version_at_def)
qed

text \<open>An operation that changes one target of one account.\<close>

definition touches :: "int \<Rightarrow> policy_target \<Rightarrow> pub_db \<Rightarrow> pub_db \<Rightarrow> bool" where
  "touches account target db db' \<longleftrightarrow> (\<forall>a t. (a, t) \<noteq> (account, target) \<longrightarrow> same_target_state a t db db')"

lemma touches_same_versions:
  assumes "touches account target db db'" and "account = a \<Longrightarrow> target \<notin> targets (group_rows (pb_gov db) a r) r"
  shows "same_versions a r db db'"
  unfolding same_versions_def
proof
  fix t assume "t \<in> targets (group_rows (pb_gov db) a r) r"
  with assms have "same_target_state a t db db'" unfolding touches_def by (metis prod.inject)
  from same_target_stateD [OF this] show "repo_version db a t r = repo_version db' a t r
      \<and> version_at db a t (repo_version db a t r) = version_at db' a t (repo_version db a t r)" by simp
qed

lemma touchesI:
  assumes inv: "rollouts_inv db" "rollouts_inv db'"
    and "\<And>a t. (a, t) \<noteq> (account, target) \<Longrightarrow> versions_of db a t = versions_of db' a t"
    and row: "\<And>j. (case map_of (pb_rollouts db) j of Some x \<Rightarrow> (ro_account x, ro_target x) = (account, target) | None \<Rightarrow> True)
        \<and> (case map_of (pb_rollouts db') j of Some x \<Rightarrow> (ro_account x, ro_target x) = (account, target) | None \<Rightarrow> True)
        \<or> map_of (pb_rollouts db) j = map_of (pb_rollouts db') j \<and> (\<forall>r. map_of (pb_enrolled db) (j, r) = map_of (pb_enrolled db') (j, r))"
  shows "touches account target db db'"
  unfolding touches_def
proof (intro allI impI)
  fix a t assume ne: "(a, t) \<noteq> (account, target)"
  have "rollout_of db a t = Some (j, x) \<longleftrightarrow> rollout_of db' a t = Some (j, x)" for j x
    using row [of j] ne by (auto simp: rollout_of_iff [OF inv(1)] rollout_of_iff [OF inv(2)] split: option.splits)
  then have eq: "rollout_of db a t = rollout_of db' a t"
    by (cases "rollout_of db a t"; cases "rollout_of db' a t") auto
  have "map_of (pb_enrolled db) (j, r) = map_of (pb_enrolled db') (j, r)" if "rollout_of db a t = Some (j, x)" for j x r
    using that row [of j] ne by (auto simp: rollout_of_iff [OF inv(1)] split: option.splits)
  with assms(3) [OF ne] eq show "same_target_state a t db db'" by (simp add: same_target_state_def)
qed

section \<open>Marking rows\<close>

definition gov_view where
  "gov_view g = (gv_groups g, gv_group_members g, gv_modes g, gv_settings g, gv_exceptions g)"

lemma gov_view_simps [simp]:
  "gov_view (invalidate_repositories a ids t g) = gov_view g" "gov_view (invalidate_scope a sc sid t g) = gov_view g"
  "gov_view (log_event e g) = gov_view g" "gov_view (emit_notice n g) = gov_view g"
  by (simp_all add: gov_view_def invalidate_repositories_def invalidate_scope_def log_event_def emit_notice_def
      split: exception_scope.split)

lemma same_gov_view:
  assumes "gov_view g = gov_view g'"
  shows "same_gov now a r g g'"
proof -
  have eqs: "gv_groups g' = gv_groups g" "gv_group_members g' = gv_group_members g" "gv_modes g' = gv_modes g"
    "gv_settings g' = gv_settings g" "gv_exceptions g' = gv_exceptions g"
    using assms by (simp_all add: gov_view_def)
  have label: "group_label g' = group_label g" by (simp add: fun_eq_iff group_label_def eqs)
  have grants: "grant_of g' = grant_of g" unfolding grant_of_def [abs_def] label ..
  show ?thesis
    unfolding same_gov_def load_settings_def group_rows_def governance_mode_def active_grants_def grants eqs by simp
qed

lemma cached_invalidate [simp]:
  "cached now a r (invalidate_repositories acc ids t g) =
     (if a = acc \<and> (case ids of None \<Rightarrow> True | Some rs \<Rightarrow> r \<in> set rs) then None else cached now a r g)"
  by (cases "map_of (gv_cache g) (a, r)") (auto simp: cached_def map_of_invalidate split: option.split)

lemma cached_simps [simp]:
  "cached now a r (log_event e g) = cached now a r g" "cached now a r (emit_notice n g) = cached now a r g"
  by (simp_all add: cached_def log_event_def emit_notice_def)

lemma known_simps [simp]:
  "known_ids (invalidate_scope a sc sid t g) = known_ids g"
  by (simp add: invalidate_scope_def split: exception_scope.split)

lemma cache_keys_simps [simp]:
  "map fst (gv_cache (invalidate_repositories a ids t g)) = map fst (gv_cache g)"
  "map fst (gv_cache (invalidate_scope a sc sid t g)) = map fst (gv_cache g)"
  "map fst (gv_cache (log_event e g)) = map fst (gv_cache g)" "map fst (gv_cache (emit_notice n g)) = map fst (gv_cache g)"
proof -
  show inv: "map fst (gv_cache (invalidate_repositories a ids t g)) = map fst (gv_cache g)" for ids
    by (simp add: invalidate_repositories_def case_prod_beta)
  show "map fst (gv_cache (invalidate_scope a sc sid t g)) = map fst (gv_cache g)"
    using inv by (simp add: invalidate_scope_def split: exception_scope.split)
qed (simp_all add: log_event_def emit_notice_def)

text \<open>The scope of a target is marked: a row that is still cached does not depend on the target.\<close>

definition spared :: "int \<Rightarrow> policy_target \<Rightarrow> gov_db \<Rightarrow> int \<Rightarrow> int \<Rightarrow> bool" where
  "spared account target g a r \<longleftrightarrow> (a = account \<longrightarrow> 0 \<le> r \<longrightarrow> target \<notin> targets (group_rows g a r) r)"

definition marks :: "int \<Rightarrow> policy_target \<Rightarrow> gov_db \<Rightarrow> gov_db \<Rightarrow> bool" where
  "marks account target g g' \<longleftrightarrow> gov_view g' = gov_view g \<and> known_ids g' = known_ids g
     \<and> map fst (gv_cache g') = map fst (gv_cache g)
     \<and> (\<forall>now a r x. cached now a r g' = Some x \<longrightarrow> cached now a r g = Some x \<and> spared account target g a r)"

lemma group_rows_member:
  "(h, row) \<in> set (group_rows g a r) \<Longrightarrow> (a, h, r) \<in> set (gv_group_members g) \<and> map_of (gv_groups g) h = Some row \<and> \<not> gg_archived row"
  by (auto simp: group_rows_def map_filter_def dest!: in_set_takeD split: if_splits option.splits)

lemma group_rows_member_ids: "h \<in> fst ` set (group_rows g a r) \<Longrightarrow> r \<in> set (group_member_ids g a h)"
proof -
  assume "h \<in> fst ` set (group_rows g a r)"
  then obtain row where "(h, row) \<in> set (group_rows g a r)" by auto
  from group_rows_member [OF this] show "r \<in> set (group_member_ids g a h)" by (force simp: group_member_ids_def)
qed

lemma id_text_value: "0 \<le> r \<Longrightarrow> digits_value (id_text r) = r"
  by (simp add: id_text_def)

lemma invalidate_scope_spares:
  assumes "target_known g account target" and "cached now a r (invalidate_scope account (target_scope target) (target_id target) t g') = Some x"
    and "gv_group_members g' = gv_group_members g"
  shows "cached now a r g' = Some x \<and> spared account target g a r"
proof (cases target)
  case TgOrganization
  with assms(2) show ?thesis by (auto simp: invalidate_scope_def spared_def split: if_splits)
next
  case (TgGroup h)
  then have "a = account \<longrightarrow> r \<notin> set (group_member_ids g account h)" "cached now a r g' = Some x"
    using assms(2,3) by (auto simp: invalidate_scope_def group_member_ids_def split: if_splits)
  then show ?thesis
    using group_rows_member_ids [of h g account r] by (auto simp: spared_def targets_def TgGroup)
next
  case (TgRepository s)
  then have "all_digits s" using assms(1) by (simp add: target_known_def)
  with TgRepository assms(2) have "a = account \<longrightarrow> r \<noteq> digits_value s" "cached now a r g' = Some x"
    by (auto simp: invalidate_scope_def split: if_splits)
  then show ?thesis using id_text_value [of r] by (auto simp: spared_def targets_def TgRepository)
qed

lemma marks_publish:
  assumes "target_known g account target" and "gov_view g' = gov_view g" and "known_ids g' = known_ids g"
    and "map fst (gv_cache g') = map fst (gv_cache g)" and "\<And>now a r. cached now a r g' = cached now a r g"
  shows "marks account target g (invalidate_scope account (target_scope target) (target_id target) t g')"
  using assms invalidate_scope_spares [OF assms(1), of _ _ _ t g']
  by (simp add: marks_def) (metis gov_view_def prod.inject)

lemma marks_more:
  assumes "marks account target g g'" and "gov_view g'' = gov_view g'" and "known_ids g'' = known_ids g'"
    and "map fst (gv_cache g'') = map fst (gv_cache g')" and "\<And>now a r x. cached now a r g'' = Some x \<Longrightarrow> cached now a r g' = Some x"
  shows "marks account target g g''"
  using assms unfolding marks_def by metis

section \<open>The invariant\<close>

definition gov_inv :: "gov_db \<Rightarrow> bool" where
  "gov_inv g \<longleftrightarrow> (\<forall>a r. (a, r) \<in> fst ` set (gv_cache g) \<longrightarrow> 0 \<le> r \<and> r \<in> set (known_ids g a))
     \<and> (\<forall>a h r. (a, h, r) \<in> set (gv_group_members g) \<longrightarrow> (\<exists>row. map_of (gv_groups g) h = Some row \<and> gg_account row = a))
     \<and> distinct (map fst (gv_exceptions g))"

lemma cached_key: "cached now a r g = Some x \<Longrightarrow> (a, r) \<in> fst ` set (gv_cache g)"
  by (auto simp: cached_def image_iff split: option.splits dest!: map_of_SomeD) force

lemma gov_invD:
  "gov_inv g \<Longrightarrow> cached now a r g = Some x \<Longrightarrow> 0 \<le> r \<and> r \<in> set (known_ids g a)"
  using cached_key by (fastforce simp: gov_inv_def)

lemma gov_inv_cong:
  "gov_inv g \<Longrightarrow> gov_view g' = gov_view g \<Longrightarrow> known_ids g' = known_ids g \<Longrightarrow> map fst (gv_cache g') = map fst (gv_cache g)
     \<Longrightarrow> gov_inv g'"
  by (simp add: gov_inv_def gov_view_def) (metis list.set_map)

definition cache_inv :: "(config \<times> string) option \<Rightarrow> int \<Rightarrow> pub_db \<Rightarrow> bool" where
  "cache_inv service now db \<longleftrightarrow> coherent service now db \<and> gov_inv (pb_gov db) \<and> rollouts_inv db"

text \<open>A transaction that marks the scope of the target it changes.\<close>

lemma cache_inv_touch:
  assumes "cache_inv service now db" and "rollouts_inv db'" and "touches account target db db'"
    and "marks account target (pb_gov db) (pb_gov db')"
  shows "cache_inv service now db'"
proof -
  have "coherent service now db'"
  proof (rule coherent_step)
    show "coherent service now db" using assms(1) by (simp add: cache_inv_def)
    fix a r g assume c: "cached now a r (pb_gov db') = Some g"
    with assms(4) have old: "cached now a r (pb_gov db) = Some g" "spared account target (pb_gov db) a r"
      by (auto simp: marks_def)
    with assms(1) have "0 \<le> r" using gov_invD by (auto simp: cache_inv_def)
    with old have "same_versions a r db db'" by (intro touches_same_versions [OF assms(3)]) (auto simp: spared_def)
    moreover have "same_gov now a r (pb_gov db) (pb_gov db')"
      using assms(4) by (intro same_gov_view) (simp add: marks_def)
    ultimately show "cached now a r (pb_gov db) = Some g \<and> same_gov now a r (pb_gov db) (pb_gov db') \<and> same_versions a r db db'"
      using old by simp
  qed
  moreover have "gov_inv (pb_gov db')"
    using assms(1,4) gov_inv_cong [of "pb_gov db" "pb_gov db'"] by (simp add: cache_inv_def marks_def)
  ultimately show ?thesis using assms(2) by (simp add: cache_inv_def)
qed

section \<open>Publications\<close>

text \<open>The governance tables after some invalidations, audit events and notices.\<close>

definition quiet :: "gov_db \<Rightarrow> gov_db \<Rightarrow> bool" where
  "quiet g g' \<longleftrightarrow> gov_view g' = gov_view g \<and> known_ids g' = known_ids g \<and> map fst (gv_cache g') = map fst (gv_cache g)
     \<and> (\<forall>now a r x. cached now a r g' = Some x \<longrightarrow> cached now a r g = Some x)"

lemma quiet_simps [simp]:
  "quiet g g" "quiet g g' \<Longrightarrow> quiet g (invalidate_repositories a ids t g')"
  "quiet g (log_event e g') \<longleftrightarrow> quiet g g'" "quiet g (emit_notice n g') \<longleftrightarrow> quiet g g'"
  by (auto simp: quiet_def)

lemma marks_quiet: "marks account target g g' \<Longrightarrow> quiet g' g'' \<Longrightarrow> marks account target g g''"
  by (erule marks_more) (auto simp: quiet_def)

lemma rollouts_inv_cong: "rollouts_inv db \<Longrightarrow> pb_rollouts db' = pb_rollouts db \<Longrightarrow> rollouts_inv db'"
  by (simp add: rollouts_inv_def)

lemma rollouts_inv_update:
  assumes "rollouts_inv db" and "pb_rollouts db' = pb_rollouts (update_rollout i f db)"
    and "\<And>x. map_of (pb_rollouts db) i = Some x \<Longrightarrow> ro_account (f x) = ro_account x \<and> ro_target (f x) = ro_target x
      \<and> (in_progress (ro_state (f x)) \<longrightarrow> in_progress (ro_state x)) \<and> ro_paused_from (f x) \<in> {None, Some RoPilot, Some RoRollout}"
  shows "rollouts_inv db'"
  unfolding rollouts_inv_def
proof (intro conjI allI impI)
  show "distinct (map fst (pb_rollouts db'))" using rollouts_invD(1) [OF assms(1)] by (simp add: assms(2))
  have old: "\<exists>y. map_of (pb_rollouts db) j = Some y \<and> ro_account x = ro_account y \<and> ro_target x = ro_target y
      \<and> (in_progress (ro_state x) \<longrightarrow> in_progress (ro_state y)) \<and> ro_paused_from x \<in> {None, Some RoPilot, Some RoRollout}"
    if "map_of (pb_rollouts db') j = Some x" for j x
    using that assms(3) rollouts_invD(3) [OF assms(1)] by (auto simp: assms(2) map_of_update_rollout split: if_splits)
  fix j x k y
  show "ro_paused_from x \<in> {None, Some RoPilot, Some RoRollout}" if "map_of (pb_rollouts db') j = Some x"
    using old [OF that] by blast
  assume a: "map_of (pb_rollouts db') j = Some x" "map_of (pb_rollouts db') k = Some y" "in_progress (ro_state x)"
    "in_progress (ro_state y)" "ro_account x = ro_account y" "ro_target x = ro_target y"
  from old [OF a(1)] old [OF a(2)] a(3-6) rollouts_invD(2) [OF assms(1)] show "j = k" by metis
qed

lemma start_rollout_facts:
  assumes "start_rollout order who i stages limits ap ar p db = Inr db'"
  shows "\<exists>row. pb_rollouts db' = pb_rollouts db @ [(i, row)] \<and> ro_account row = pu_account p \<and> ro_target row = pu_target p
      \<and> ro_state row = RoPilot \<and> ro_paused_from row = None \<and> \<not> rollout_conflict db i row"
    and "map_of (pb_rollouts db) i = None" and "pb_versions db' = pb_versions db"
    and "j \<noteq> i \<Longrightarrow> map_of (pb_enrolled db') (j, r) = map_of (pb_enrolled db) (j, r)"
    and "quiet (pb_gov db) (pb_gov db')"
  using assms
  by (auto simp: start_rollout_def Let_def enroll_stage_def map_of_add_rows split: policy_target.splits if_splits)

lemma rollouts_inv_start:
  assumes "rollouts_inv db" and "pb_rollouts db' = pb_rollouts db @ [(i, row)]" and "map_of (pb_rollouts db) i = None"
    and "ro_paused_from row = None" and "\<not> rollout_conflict db i row"
  shows "rollouts_inv db'"
  unfolding rollouts_inv_def
proof (intro conjI allI impI)
  show "distinct (map fst (pb_rollouts db'))"
    using rollouts_invD(1) [OF assms(1)] assms(3) by (simp add: assms(2) map_of_eq_None_iff)
  have look: "map_of (pb_rollouts db') j = (if j = i then Some row else map_of (pb_rollouts db) j)" for j
    using assms(3) by (auto simp: assms(2) map_add_def split: option.split)
  have nc: "\<not> (ro_account x = ro_account row \<and> ro_target x = ro_target row \<and> in_progress (ro_state x) \<and> in_progress (ro_state row))"
    if "map_of (pb_rollouts db) j = Some x" "j \<noteq> i" for j x
    using assms(5) map_of_SomeD [OF that(1)] that(2) by (auto simp: rollout_conflict_def list_ex_iff)
  fix j x k y
  show "ro_paused_from x \<in> {None, Some RoPilot, Some RoRollout}" if "map_of (pb_rollouts db') j = Some x"
    using that assms(4) rollouts_invD(3) [OF assms(1)] by (auto simp: look split: if_splits)
  assume a: "map_of (pb_rollouts db') j = Some x" "map_of (pb_rollouts db') k = Some y" "in_progress (ro_state x)"
    "in_progress (ro_state y)" "ro_account x = ro_account y" "ro_target x = ro_target y"
  show "j = k"
  proof (cases "j = i \<or> k = i")
    case True
    with a nc show ?thesis unfolding look by (metis option.inject)
  next
    case False
    with a rollouts_invD(2) [OF assms(1), of j x k y] show ?thesis by (simp add: look)
  qed
qed

text \<open>The part every publication shares: a version of one target is added, and its scope is marked.\<close>

definition published_step :: "int \<Rightarrow> policy_target \<Rightarrow> pub_db \<Rightarrow> pub_db \<Rightarrow> bool" where
  "published_step account target db db1 \<longleftrightarrow> (\<exists>row. pb_versions db1 = pb_versions db @ [row] \<and> pv_account row = account
       \<and> pv_target row = target)
     \<and> pb_rollouts db1 = pb_rollouts db \<and> pb_enrolled db1 = pb_enrolled db \<and> marks account target (pb_gov db) (pb_gov db1)"

lemma published_versions:
  "published_step account target db db1 \<Longrightarrow> (a, t) \<noteq> (account, target) \<Longrightarrow> versions_of db1 a t = versions_of db a t"
  by (auto simp: published_step_def versions_of_def)

definition version_added :: "int \<Rightarrow> policy_target \<Rightarrow> pub_db \<Rightarrow> pub_db \<Rightarrow> bool" where
  "version_added account target db told \<longleftrightarrow> (\<exists>row. pb_versions told = pb_versions db @ [row] \<and> pv_account row = account
       \<and> pv_target row = target)
     \<and> pb_rollouts told = pb_rollouts db \<and> pb_enrolled told = pb_enrolled db \<and> gov_view (pb_gov told) = gov_view (pb_gov db)
     \<and> known_ids (pb_gov told) = known_ids (pb_gov db) \<and> map fst (gv_cache (pb_gov told)) = map fst (gv_cache (pb_gov db))
     \<and> (\<forall>now a r. cached now a r (pb_gov told) = cached now a r (pb_gov db))"

lemma version_added_intro:
  "pv_account row = account \<Longrightarrow> pv_target row = target \<Longrightarrow>
     version_added account target db (db\<lparr>pb_versions := pb_versions db @ [row]\<rparr>)"
  by (simp add: version_added_def)

lemma version_added_told:
  "version_added account target db told \<Longrightarrow> version_added account target db (on_gov (emit_notice n \<circ> log_event e) told)"
  by (simp add: version_added_def)

lemma published_hooks:
  assumes "fold_err (\<lambda>h. h p) (on_policy_published # hooks) told = Inr db'" and "version_added account target db told"
    and "pu_account p = account" and "pu_target p = target" and known: "target_known (pb_gov db) account target"
  shows "\<exists>db1. published_step account target db db1 \<and> fold_err (\<lambda>h. h p) hooks db1 = Inr db'"
proof -
  let ?db1 = "on_gov (invalidate_scope account (target_scope target) (target_id target) (pu_now p)) told"
  have "marks account target (pb_gov db) (pb_gov ?db1)"
    using marks_publish [OF known, of "pb_gov told" "pu_now p"] assms(2) by (simp add: version_added_def)
  then have "published_step account target db ?db1"
    using assms(2) by (simp add: published_step_def version_added_def)
  moreover have "fold_err (\<lambda>h. h p) hooks ?db1 = Inr db'"
    using assms(1,3,4) by (simp add: on_policy_published_def)
  ultimately show ?thesis by blast
qed

lemma commit_update_published:
  assumes "commit_update hash t q change hooks db = Inr db'"
  shows "\<exists>db1 p. published_step (ur_account q) (ur_target q) db db1 \<and> pu_account p = ur_account q \<and> pu_target p = ur_target q
    \<and> fold_err (\<lambda>h. h p) hooks db1 = Inr db'"
proof -
  obtain doc changes reason where ch: "change = (doc, changes, reason)" by (cases change) auto
  from assms have known: "target_known (pb_gov db) (ur_account q) (ur_target q)"
    by (auto simp: commit_update_def ch Let_def split: if_splits)
  have "\<exists>told p. fold_err (\<lambda>h. h p) (on_policy_published # hooks) told = Inr db' \<and> version_added (ur_account q) (ur_target q) db told
      \<and> pu_account p = ur_account q \<and> pu_target p = ur_target q"
    using assms unfolding commit_update_def ch Let_def prod.case
    by (cases "ur_emergency q")
      (auto simp del: fold_err.simps fold_err_hooks split: if_splits intro!: exI version_added_intro version_added_told)
  then obtain told p where "fold_err (\<lambda>h. h p) (on_policy_published # hooks) told = Inr db'"
    "version_added (ur_account q) (ur_target q) db told" "pu_account p = ur_account q" "pu_target p = ur_target q" by blast
  with published_hooks [OF this known] show ?thesis by blast
qed

lemma commit_rollback_published:
  assumes "commit_rollback hash t q change hooks db = Inr db'"
  shows "\<exists>db1 p. published_step (rb_account q) (rb_target q) db db1 \<and> pu_account p = rb_account q \<and> pu_target p = rb_target q
    \<and> fold_err (\<lambda>h. h p) hooks db1 = Inr db'"
proof -
  obtain restored changes weak reason where ch: "change = (restored, changes, weak, reason)" by (cases change) auto
  from assms have known: "target_known (pb_gov db) (rb_account q) (rb_target q)"
    by (auto simp: commit_rollback_def ch Let_def split: if_splits)
  have "\<exists>told p. fold_err (\<lambda>h. h p) (on_policy_published # hooks) told = Inr db' \<and> version_added (rb_account q) (rb_target q) db told
      \<and> pu_account p = rb_account q \<and> pu_target p = rb_target q"
    using assms unfolding commit_rollback_def ch Let_def prod.case
    by (auto simp del: fold_err.simps fold_err_hooks split: if_splits intro!: exI version_added_intro version_added_told)
  then obtain told p where "fold_err (\<lambda>h. h p) (on_policy_published # hooks) told = Inr db'"
    "version_added (rb_account q) (rb_target q) db told" "pu_account p = rb_account q" "pu_target p = rb_target q" by blast
  with published_hooks [OF this known] show ?thesis by blast
qed

lemma cache_inv_published:
  assumes inv: "cache_inv service now db" and p: "published_step account target db db1"
    and q: "quiet (pb_gov db1) (pb_gov db')" and v: "pb_versions db' = pb_versions db1" and r: "rollouts_inv db'"
    and rows: "\<And>j. (case map_of (pb_rollouts db1) j of Some x \<Rightarrow> (ro_account x, ro_target x) = (account, target) | None \<Rightarrow> True)
        \<and> (case map_of (pb_rollouts db') j of Some x \<Rightarrow> (ro_account x, ro_target x) = (account, target) | None \<Rightarrow> True)
        \<or> map_of (pb_rollouts db1) j = map_of (pb_rollouts db') j
          \<and> (\<forall>r. map_of (pb_enrolled db1) (j, r) = map_of (pb_enrolled db') (j, r))"
  shows "cache_inv service now db'"
proof (rule cache_inv_touch [OF inv r])
  have "versions_of db' a t = versions_of db1 a t" for a t by (simp add: versions_of_def v)
  then show "touches account target db db'"
    using published_versions [OF p] p inv r rows
    by (intro touchesI) (auto simp: cache_inv_def published_step_def)
  show "marks account target (pb_gov db) (pb_gov db')"
    using p q by (auto simp: published_step_def intro: marks_quiet)
qed

lemma cache_inv_update:
  assumes "cache_inv service now db" and "commit_update hash t q change hooks db = Inr db'"
    and "hooks = [] \<or> (\<exists>order who i stages limits ap ar. hooks = [start_rollout order who i stages limits ap ar])"
  shows "cache_inv service now db'"
proof -
  from commit_update_published [OF assms(2)] obtain db1 p where
    pub: "published_step (ur_account q) (ur_target q) db db1" and p: "pu_account p = ur_account q" "pu_target p = ur_target q"
    and h: "fold_err (\<lambda>h. h p) hooks db1 = Inr db'" by blast
  have r1: "rollouts_inv db1"
    using assms(1) pub rollouts_inv_cong by (auto simp: cache_inv_def published_step_def)
  from assms(3) show ?thesis
  proof
    assume "hooks = []"
    with h have "db' = db1" by simp
    with r1 show ?thesis by (intro cache_inv_published [OF assms(1) pub]) simp_all
  next
    assume "\<exists>order who i stages limits ap ar. hooks = [start_rollout order who i stages limits ap ar]"
    then obtain order who i stages limits ap ar where "start_rollout order who i stages limits ap ar p db1 = Inr db'"
      using h by (auto split: sum.splits)
    note s = start_rollout_facts [OF this]
    from s(1) obtain row where row: "pb_rollouts db' = pb_rollouts db1 @ [(i, row)]" "ro_account row = ur_account q"
      "ro_target row = ur_target q" "ro_paused_from row = None" "\<not> rollout_conflict db1 i row" using p by auto
    have look: "map_of (pb_rollouts db') j = (if j = i then Some row else map_of (pb_rollouts db1) j)" for j
      using s(2) by (auto simp: row(1) map_add_def split: option.split)
    show ?thesis
    proof (rule cache_inv_published [OF assms(1) pub s(5,3)])
      show "rollouts_inv db'" using rollouts_inv_start [OF r1 row(1) s(2) row(4,5)] .
      show "(case map_of (pb_rollouts db1) j of Some x \<Rightarrow> (ro_account x, ro_target x) = (ur_account q, ur_target q) | None \<Rightarrow> True)
        \<and> (case map_of (pb_rollouts db') j of Some x \<Rightarrow> (ro_account x, ro_target x) = (ur_account q, ur_target q) | None \<Rightarrow> True)
        \<or> map_of (pb_rollouts db1) j = map_of (pb_rollouts db') j
          \<and> (\<forall>r. map_of (pb_enrolled db1) (j, r) = map_of (pb_enrolled db') (j, r))" for j
        using s(2,4) row(2,3) by (cases "j = i") (simp_all add: look)
    qed
  qed
qed

lemma cache_inv_rollback:
  assumes "cache_inv service now db" and "commit_rollback hash t q change hooks db = Inr db'"
    and "hooks = [] \<or> (\<exists>who i x reason. hooks = [finish_rollback who i x reason] \<and> map_of (pb_rollouts db) i = Some x
        \<and> ro_account x = rb_account q \<and> ro_target x = rb_target q)"
  shows "cache_inv service now db'"
proof -
  from commit_rollback_published [OF assms(2)] obtain db1 p where
    pub: "published_step (rb_account q) (rb_target q) db db1" and p: "pu_account p = rb_account q" "pu_target p = rb_target q"
    and h: "fold_err (\<lambda>h. h p) hooks db1 = Inr db'" by blast
  have r1: "rollouts_inv db1" and same: "pb_rollouts db1 = pb_rollouts db"
    using assms(1) pub rollouts_inv_cong by (auto simp: cache_inv_def published_step_def)
  from assms(3) show ?thesis
  proof
    assume "hooks = []"
    with h have "db' = db1" by simp
    with r1 show ?thesis by (intro cache_inv_published [OF assms(1) pub]) simp_all
  next
    assume "\<exists>who i x reason. hooks = [finish_rollback who i x reason] \<and> map_of (pb_rollouts db) i = Some x
        \<and> ro_account x = rb_account q \<and> ro_target x = rb_target q"
    then obtain who i x reason where x: "map_of (pb_rollouts db1) i = Some x" "ro_account x = rb_account q" "ro_target x = rb_target q"
      and "finish_rollback who i x reason p db1 = Inr db'" using h same by (auto split: sum.splits)
    then have db': "db' = on_gov (log_event (RolloutRolledBack who (ro_account x) i (pu_version p) reason)
          \<circ> invalidate_repositories (ro_account x) (Some (scope_repositories (pb_gov db1) (ro_account x) (ro_target x))) (pu_now p))
        (update_rollout i (\<lambda>r. r\<lparr>ro_state := RoRolledBack, ro_rolled_back_at := Some (pu_now p),
             ro_rollback_version := Some (pu_version p)\<rparr>) db1)"
      by (simp add: finish_rollback_def Let_def)
    show ?thesis
    proof (rule cache_inv_published [OF assms(1) pub])
      show "rollouts_inv db'"
        by (rule rollouts_inv_update [OF r1, of _ i "\<lambda>r. r\<lparr>ro_state := RoRolledBack, ro_rolled_back_at := Some (pu_now p),
             ro_rollback_version := Some (pu_version p)\<rparr>"])
          (use rollouts_invD(3) [OF r1] in \<open>auto simp: db' in_progress_def\<close>)
      show "(case map_of (pb_rollouts db1) j of Some x \<Rightarrow> (ro_account x, ro_target x) = (rb_account q, rb_target q) | None \<Rightarrow> True)
        \<and> (case map_of (pb_rollouts db') j of Some x \<Rightarrow> (ro_account x, ro_target x) = (rb_account q, rb_target q) | None \<Rightarrow> True)
        \<or> map_of (pb_rollouts db1) j = map_of (pb_rollouts db') j
          \<and> (\<forall>r. map_of (pb_enrolled db1) (j, r) = map_of (pb_enrolled db') (j, r))" for j
        using x by (cases "j = i") (simp_all add: db' map_of_update_rollout option.map_ident)
    qed (simp_all add: db')
  qed
qed

lemma cache_inv_quiet:
  assumes "cache_inv service now db" and "rollouts_inv db'" and "\<And>a t. same_target_state a t db db'"
    and "quiet (pb_gov db) (pb_gov db')"
  shows "cache_inv service now db'"
proof -
  have "same_versions a r db db'" for a r
    using same_target_stateD [OF assms(3)] by (simp add: same_versions_def)
  moreover have "same_gov now a r (pb_gov db) (pb_gov db')" for a r
    using assms(4) by (intro same_gov_view) (simp add: quiet_def)
  moreover have "cached now a r (pb_gov db) = Some g" if "cached now a r (pb_gov db') = Some g" for a r g
    using that assms(4) by (simp add: quiet_def)
  moreover have "coherent service now db" "gov_inv (pb_gov db)" using assms(1) by (simp_all add: cache_inv_def)
  moreover from this have "gov_inv (pb_gov db')"
    using assms(4) unfolding quiet_def by (blast intro: gov_inv_cong)
  ultimately show ?thesis
    using assms(2) coherent_step [of service now db db'] unfolding cache_inv_def by blast
qed

text \<open>Pausing and resuming keep a rollout in progress.\<close>

lemma same_target_state_update:
  assumes "rollouts_inv db" and "rollouts_inv db'" and "pb_rollouts db' = pb_rollouts (update_rollout i f db)"
    and "pb_versions db' = pb_versions db" and "pb_enrolled db' = pb_enrolled db"
    and "\<And>x. map_of (pb_rollouts db) i = Some x \<Longrightarrow> ro_account (f x) = ro_account x \<and> ro_target (f x) = ro_target x
      \<and> ro_to (f x) = ro_to x \<and> ro_from (f x) = ro_from x \<and> in_progress (ro_state (f x)) = in_progress (ro_state x)"
  shows "same_target_state a t db db'"
proof -
  have earlier: "\<exists>x. rollout_of db a t = Some (j, x) \<and> ro_to x = ro_to y \<and> ro_from x = ro_from y"
    if "rollout_of db' a t = Some (j, y)" for j y
    using that assms(6) by (auto simp: rollout_of_iff [OF assms(1)] rollout_of_iff [OF assms(2)] assms(3) map_of_update_rollout
        split: if_splits)
  have later: "\<exists>y. rollout_of db' a t = Some (j, y)" if "rollout_of db a t = Some (j, x)" for j x
    using that assms(6) by (auto simp: rollout_of_iff [OF assms(1)] rollout_of_iff [OF assms(2)] assms(3) map_of_update_rollout)
  have "map_option (\<lambda>(i, x). (i, ro_to x, ro_from x)) (rollout_of db a t) = map_option (\<lambda>(i, x). (i, ro_to x, ro_from x)) (rollout_of db' a t)"
    using earlier later by (cases "rollout_of db a t"; cases "rollout_of db' a t") fastforce+
  then show ?thesis by (simp add: same_target_state_def versions_of_def assms(4,5))
qed

lemma cache_inv_keep_progress:
  assumes "cache_inv service now db" and "pb_rollouts db' = pb_rollouts (update_rollout i f db)"
    and "pb_versions db' = pb_versions db" and "pb_enrolled db' = pb_enrolled db" and "quiet (pb_gov db) (pb_gov db')"
    and f: "\<And>x. map_of (pb_rollouts db) i = Some x \<Longrightarrow> ro_account (f x) = ro_account x \<and> ro_target (f x) = ro_target x
      \<and> ro_to (f x) = ro_to x \<and> ro_from (f x) = ro_from x \<and> in_progress (ro_state (f x)) = in_progress (ro_state x)
      \<and> ro_paused_from (f x) \<in> {None, Some RoPilot, Some RoRollout}"
  shows "cache_inv service now db'"
proof -
  have r: "rollouts_inv db" using assms(1) by (simp add: cache_inv_def)
  have r': "rollouts_inv db'" by (rule rollouts_inv_update [OF r assms(2)]) (use f in auto)
  show ?thesis
    by (rule cache_inv_quiet [OF assms(1) r' _ assms(5)], rule same_target_state_update [OF r r' assms(2-4)]) (use f in auto)
qed

lemma cache_inv_pause:
  assumes "cache_inv service now db" and "pause_row t who i account reason db = Inr db'"
  shows "cache_inv service now db'"
proof (rule cache_inv_keep_progress [OF assms(1) pause_row_rollouts(1) [OF assms(2)] _ pause_row_rollouts(2) [OF assms(2)]])
qed (use assms(2) in \<open>auto simp: pause_row_def in_progress_def split: option.splits if_splits\<close>)

lemma cache_inv_resume:
  assumes "cache_inv service now db" and "check_resume p i db = Inr x"
  shows "cache_inv service now (commit_resume p i x db)"
proof -
  have look: "map_of (pb_rollouts db) i = Some x" "ro_state x = RoPaused"
    using assms(2) by (auto simp: check_resume_def manageable_def split: sum.splits option.splits if_splits)
  have "ro_paused_from x \<in> {None, Some RoPilot, Some RoRollout}"
    using rollouts_invD(3) [OF _ look(1)] assms(1) by (simp add: cache_inv_def)
  then show ?thesis
    using look
    by (intro cache_inv_keep_progress [OF assms(1), of _ i "\<lambda>r. if ro_state r = RoPaused
          then r\<lparr>ro_state := (case ro_paused_from r of None \<Rightarrow> RoRollout | Some s \<Rightarrow> s), ro_paused_at := None,
                 ro_paused_reason := None, ro_paused_from := None\<rparr> else r"])
      (auto simp: commit_resume_def in_progress_def split: option.splits)
qed

section \<open>Advancing\<close>

definition enrolment_marked :: "string \<Rightarrow> int \<Rightarrow> int list \<Rightarrow> pub_db \<Rightarrow> pub_db \<Rightarrow> bool" where
  "enrolment_marked i account en db db' \<longleftrightarrow> quiet (pb_gov db) (pb_gov db')
     \<and> (\<forall>now r g. cached now account r (pb_gov db') = Some g \<longrightarrow> r \<notin> set en)
     \<and> (\<forall>j r. j \<noteq> i \<or> r \<notin> set en \<longrightarrow> map_of (pb_enrolled db') (j, r) = map_of (pb_enrolled db) (j, r))"

lemma enrolment_marked_enroll: "enrolment_marked i account ws (db) (enroll i account ws st now db)"
  by (auto simp: enrolment_marked_def map_of_add_rows)

lemma enrolment_marked_trans:
  assumes "enrolment_marked i account en db db1" and "enrolment_marked i account en' db1 db2"
  shows "enrolment_marked i account (en @ en') db db2"
  using assms unfolding enrolment_marked_def quiet_def by (metis Un_iff set_append)

lemma enrolment_marked_refl: "enrolment_marked i account [] db db"
  by (simp add: enrolment_marked_def)

lemma advance_db_marked:
  assumes "advance_db order now i x db = (db', en, fin)"
  shows "enrolment_marked i (ro_account x) en db db'"
proof -
  let ?index = "ro_current x + 1"
  obtain db1 e1 where s: "(if ?index < length (ro_stages x)
      then enroll_stage order i (ro_account x) (ro_target x) (ro_stages x) ?index now db else (db, [])) = (db1, e1)"
    by (meson surj_pair)
  have one: "enrolment_marked i (ro_account x) e1 db db1"
    using s enrolment_marked_enroll enrolment_marked_refl by (auto simp: enroll_stage_def Let_def split: if_splits)
  obtain db2 e2 where r: "(if fin then enroll_remaining i (ro_account x) (ro_target x) ?index now db1 else (db1, [])) = (db2, e2)"
    by (meson surj_pair)
  have two: "enrolment_marked i (ro_account x) e2 db1 db2"
    using r enrolment_marked_enroll enrolment_marked_refl by (auto simp: enroll_remaining_def Let_def split: if_splits)
  have "db' = update_rollout i (advanced_row now x fin) db2" "en = e1 @ e2"
    using assms s r by (auto simp: advance_db_def Let_def advanced_row_def [abs_def] min_def split: prod.splits if_splits)
  with enrolment_marked_trans [OF one two] show ?thesis by (simp add: enrolment_marked_def)
qed

lemma scope_member:
  assumes "r \<in> set (known_ids g account)" and "target \<in> targets (group_rows g account r) r"
  shows "r \<in> set (scope_repositories g account target)"
  using assms group_rows_member_ids [of _ g account r]
  by (cases target) (auto simp: scope_repositories_def targets_def)

lemma cache_inv_advance:
  assumes inv: "cache_inv service now db" and check: "check_advance p i db = Inr x"
    and commit: "commit_advance order t p i x db = Inr db'"
  shows "cache_inv service now db'"
proof -
  have r0: "rollouts_inv db" and g0: "gov_inv (pb_gov db)" using inv by (simp_all add: cache_inv_def)
  have x: "map_of (pb_rollouts db) i = Some x" and st: "in_progress (ro_state x)"
    using check by (auto simp: check_advance_def manageable_def in_progress_def split: sum.splits option.splits if_splits)
  obtain db1 en fin where d: "advance_db order t i x db = (db1, en, fin)" by (cases "advance_db order t i x db") auto
  note f = advance_db_facts [OF d] and m = advance_db_marked [OF d, unfolded enrolment_marked_def]
  from commit obtain e where db': "db' = on_gov (log_event e) db1"
    using x by (auto simp: commit_advance_def d f(1) map_of_update_rollout split: if_splits)
  let ?f = "advanced_row t x fin" and ?A = "ro_account x" and ?T = "ro_target x"
  have look: "map_of (pb_rollouts db') j = (if j = i then Some (?f x) else map_of (pb_rollouts db) j)" for j
    using x by (simp add: db' f(1) map_of_update_rollout option.map_ident)
  have en1: "pb_enrolled db' = pb_enrolled db1" by (simp add: db')
  have r1: "rollouts_inv db'"
    by (rule rollouts_inv_update [OF r0, of _ i ?f])
      (use x st rollouts_invD(3) [OF r0 x] in \<open>auto simp: db' f(1) advanced_row_def\<close>)
  have versions: "versions_of db' a u = versions_of db a u" for a u by (simp add: db' versions_of_def f(2))
  have touch: "touches ?A ?T db db'"
  proof (rule touchesI [OF r0 r1])
    show "(case map_of (pb_rollouts db) j of Some y \<Rightarrow> (ro_account y, ro_target y) = (?A, ?T) | None \<Rightarrow> True)
      \<and> (case map_of (pb_rollouts db') j of Some y \<Rightarrow> (ro_account y, ro_target y) = (?A, ?T) | None \<Rightarrow> True)
      \<or> map_of (pb_rollouts db) j = map_of (pb_rollouts db') j
        \<and> (\<forall>r. map_of (pb_enrolled db) (j, r) = map_of (pb_enrolled db') (j, r))" for j
      using x m by (cases "j = i") (simp_all add: look advanced_row_def en1)
  qed (simp add: versions)
  have old: "rollout_of db ?A ?T = Some (i, x)" using x st by (simp add: rollout_of_iff [OF r0])
  have new: "rollout_of db' ?A ?T = (if fin then None else Some (i, ?f x))"
  proof (cases fin)
    case True
    have "rollout_of db' ?A ?T \<noteq> Some (j, y)" for j y
    proof
      assume "rollout_of db' ?A ?T = Some (j, y)"
      then have y: "map_of (pb_rollouts db') j = Some y" "ro_account y = ?A" "ro_target y = ?T" "in_progress (ro_state y)"
        unfolding rollout_of_iff [OF r1] by simp_all
      show False
      proof (cases "j = i")
        case True
        with y(1,4) \<open>fin\<close> show False unfolding look by (auto simp: advanced_row_def in_progress_def)
      next
        case False
        with y(1) have "map_of (pb_rollouts db) j = Some y" unfolding look by simp
        from rollouts_invD(2) [OF r0 this x y(4) st y(2,3)] False show False by simp
      qed
    qed
    then show ?thesis using True by (cases "rollout_of db' ?A ?T") auto
  next
    case False
    then have "rollout_of db' ?A ?T = Some (i, ?f x)"
      unfolding rollout_of_iff [OF r1] look by (simp add: advanced_row_def in_progress_def)
    with False show ?thesis by simp
  qed
  have maxv: "max_version db' = max_version db" by (simp add: fun_eq_iff max_version_def versions)
  have same: "repo_version db ?A ?T r = repo_version db' ?A ?T r"
    if r: "r \<in> set (scope_repositories (pb_gov db) ?A ?T)" "r \<notin> set en" for r
  proof -
    have enr: "map_of (pb_enrolled db') (i, r) = map_of (pb_enrolled db) (i, r)" using m r(2) by (simp add: db')
    have "map_of (pb_enrolled db) (i, r) \<noteq> None" if fin
      using f(4) [OF that] r(1) enrolled_in_iff [of r db' i] enr by (auto simp: db')
    then show ?thesis
      by (cases fin) (auto simp: repo_version_def version_for_def Let_def old new maxv enr advanced_row_def)
  qed
  have "coherent service now db'"
  proof (rule coherent_step)
    show "coherent service now db" using inv by (simp add: cache_inv_def)
    fix a r g assume "cached now a r (pb_gov db') = Some g"
    then have c: "cached now a r (pb_gov db1) = Some g" by (simp add: db')
    then have c0: "cached now a r (pb_gov db) = Some g" using m by (simp add: quiet_def)
    have "same_versions a r db db'"
      unfolding same_versions_def
    proof
      fix u assume u: "u \<in> targets (group_rows (pb_gov db) a r) r"
      show "repo_version db a u r = repo_version db' a u r
        \<and> version_at db a u (repo_version db a u r) = version_at db' a u (repo_version db a u r)"
      proof (cases "(a, u) = (?A, ?T)")
        case True
        with c m have "r \<notin> set en" by auto
        moreover have "r \<in> set (scope_repositories (pb_gov db) ?A ?T)"
          using True u gov_invD [OF g0 c0] by (intro scope_member) auto
        ultimately show ?thesis using same True by (simp add: version_at_def versions)
      next
        case False
        with touch have "same_target_state a u db db'" by (auto simp: touches_def)
        from same_target_stateD [OF this] show ?thesis by simp
      qed
    qed
    moreover have "same_gov now a r (pb_gov db) (pb_gov db')"
      using m by (intro same_gov_view) (simp add: db' quiet_def)
    ultimately show "cached now a r (pb_gov db) = Some g \<and> same_gov now a r (pb_gov db) (pb_gov db') \<and> same_versions a r db db'"
      using c0 by simp
  qed
  moreover have "gov_inv (pb_gov db')"
    by (rule gov_inv_cong [OF g0]) (use m in \<open>simp_all add: db' quiet_def\<close>)
  ultimately show ?thesis using r1 by (simp add: cache_inv_def)
qed

section \<open>Changes of the governance tables\<close>

definition gov_step :: "int \<Rightarrow> gov_db \<Rightarrow> gov_db \<Rightarrow> bool" where
  "gov_step now g g' \<longleftrightarrow> gov_inv g'
     \<and> (\<forall>a r c. cached now a r g' = Some c \<longrightarrow> cached now a r g = Some c \<and> same_gov now a r g g')"

lemma gov_stepD:
  assumes "gov_step now g g'"
  shows "gov_inv g'" and "cached now a r g' = Some c \<Longrightarrow> cached now a r g = Some c"
    and "cached now a r g' = Some c \<Longrightarrow> same_gov now a r g g'"
  using assms unfolding gov_step_def by blast+

lemma cache_inv_gov:
  assumes inv: "cache_inv service now db" and step: "gov_step now (pb_gov db) g'"
  shows "cache_inv service now (db\<lparr>pb_gov := g'\<rparr>)"
proof -
  let ?db = "db\<lparr>pb_gov := g'\<rparr>"
  have "same_target_state a t db ?db" for a t
    by (simp add: same_target_state_def versions_of_def rollout_of_def)
  from same_target_stateD [OF this] have v: "same_versions a r db ?db" for a r by (simp add: same_versions_def)
  have "coherent service now ?db"
  proof (rule coherent_step)
    show "coherent service now db" using inv by (simp add: cache_inv_def)
    fix a r c assume "cached now a r (pb_gov ?db) = Some c"
    then have "cached now a r g' = Some c" by simp
    with gov_stepD(2,3) [OF step this] v show "cached now a r (pb_gov db) = Some c
        \<and> same_gov now a r (pb_gov db) (pb_gov ?db) \<and> same_versions a r db ?db" by simp
  qed
  moreover have "rollouts_inv ?db"
    by (rule rollouts_inv_cong [of db]) (use inv in \<open>simp_all add: cache_inv_def\<close>)
  ultimately show ?thesis using gov_stepD(1) [OF step] by (simp add: cache_inv_def)
qed

lemma insort_key_map: "insort_key f (h x) (map h xs) = map h (insort_key (\<lambda>x. f (h x)) x xs)"
  by (induction xs) auto

lemma sort_key_map: "sort_key f (map h xs) = map h (sort_key (\<lambda>x. f (h x)) xs)"
  by (induction xs) (simp_all add: insort_key_map)

lemma insort_key_eq: "f x = g x \<Longrightarrow> (\<And>y. y \<in> set xs \<Longrightarrow> f y = g y) \<Longrightarrow> insort_key f x xs = insort_key g x xs"
  by (induction xs) auto

lemma sort_key_eq: "(\<And>x. x \<in> set xs \<Longrightarrow> f x = g x) \<Longrightarrow> sort_key f xs = sort_key g xs"
proof (induction xs)
  case (Cons x xs)
  then have "sort_key f xs = sort_key g xs" by simp
  then show ?case using Cons.prems insort_key_eq [of f x g "sort_key g xs"] by simp
qed simp

definition granted_to :: "int \<Rightarrow> int \<Rightarrow> int \<Rightarrow> ustr list \<Rightarrow> string \<times> exception_row \<Rightarrow> bool" where
  "granted_to now a r gs e \<longleftrightarrow> applies_to (snd e) a r gs \<and> in_force now (snd e)"

lemma active_grants_eq:
  "active_grants g a r gs now = map (grant_of g) (take 256 (sort_key fst (filter (granted_to now a r gs) (gv_exceptions g))))"
proof -
  have "(\<lambda>(_, x). applies_to x a r gs \<and> in_force now x) = granted_to now a r gs"
    by (simp add: fun_eq_iff granted_to_def)
  then show ?thesis by (simp add: active_grants_def)
qed

text \<open>The exceptions in force are the same when every row keeps its ID, whether it is in force, and what it grants.\<close>

lemma active_grants_map:
  assumes "gv_exceptions g' = map h (gv_exceptions g)"
    and "\<And>e. e \<in> set (gv_exceptions g) \<Longrightarrow> fst (h e) = fst e \<and> granted_to now a r gs (h e) = granted_to now a r gs e
      \<and> (granted_to now a r gs e \<longrightarrow> grant_of g' (h e) = grant_of g e)"
  shows "active_grants g' a r gs now = active_grants g a r gs now"
proof -
  let ?P = "granted_to now a r gs" and ?E = "gv_exceptions g"
  have "filter (?P \<circ> h) ?E = filter ?P ?E" using assms(2) by (intro filter_cong) simp_all
  then have "filter ?P (map h ?E) = map h (filter ?P ?E)" by (simp add: filter_map)
  moreover have "sort_key fst (map h (filter ?P ?E)) = map h (sort_key fst (filter ?P ?E))"
  proof -
    have "sort_key (\<lambda>x. fst (h x)) (filter ?P ?E) = sort_key fst (filter ?P ?E)"
      using assms(2) by (intro sort_key_eq) auto
    then show ?thesis by (simp add: sort_key_map)
  qed
  moreover have "grant_of g' (h e) = grant_of g e" if "e \<in> set (take 256 (sort_key fst (filter ?P ?E)))" for e
    using assms(2) in_set_takeD [OF that] by auto
  ultimately show ?thesis by (simp add: active_grants_eq assms(1) take_map)
qed

lemma group_label_cong: "gv_groups g = gv_groups g' \<Longrightarrow> group_label g = group_label g'"
  by (simp add: fun_eq_iff group_label_def)

lemma grant_of_core:
  "group_label g' = group_label g \<Longrightarrow> core x = core y \<Longrightarrow> grant_of g' (i, x) = grant_of g (i, y)"
  by (cases "ex_scope y") (simp_all add: grant_of_def core_def)

lemma applies_to_core: "core x = core y \<Longrightarrow> applies_to x a r gs = applies_to y a r gs"
  by (cases "ex_scope y") (simp_all add: core_def applies_to_def)

lemma in_force_core: "core x = core y \<Longrightarrow> (ex_status x = ExActive) = (ex_status y = ExActive) \<Longrightarrow> in_force now x = in_force now y"
  by (cases "ex_expires_at y") (simp_all add: core_def in_force_def)

text \<open>A change of one row leaves the exceptions of a repository alone when the row does not apply to it, or is active
  before exactly when it is after.\<close>

lemma active_grants_update:
  assumes "gv_exceptions g' = gv_exceptions (update_exception i f g)" and "gv_groups g' = gv_groups g"
    and "distinct (map fst (gv_exceptions g))" and "map_of (gv_exceptions g) i = Some x" and "core (f x) = core x"
    and "(ex_status (f x) = ExActive) = (ex_status x = ExActive) \<or> \<not> applies_to x a r gs"
  shows "active_grants g' a r gs now = active_grants g a r gs now"
proof (rule active_grants_map)
  let ?h = "\<lambda>(j, y). (j, if j = i then f y else y)"
  show "gv_exceptions g' = map ?h (gv_exceptions g)" using assms(1) by (simp add: update_exception_def)
  fix e assume e: "e \<in> set (gv_exceptions g)"
  obtain j y where jy: "e = (j, y)" by (cases e)
  show "fst (?h e) = fst e \<and> granted_to now a r gs (?h e) = granted_to now a r gs e
      \<and> (granted_to now a r gs e \<longrightarrow> grant_of g' (?h e) = grant_of g e)"
  proof (cases "j = i")
    case True
    with e jy assms(3,4) have y: "y = x" by (metis map_of_is_SomeI option.inject)
    have "granted_to now a r gs (i, f x) = granted_to now a r gs (i, x)"
      using assms(6) applies_to_core [OF assms(5)] in_force_core [OF assms(5)] by (auto simp: granted_to_def)
    then show ?thesis using True y jy grant_of_core [OF group_label_cong [OF assms(2)] assms(5)] by simp
  next
    case False
    then show ?thesis using jy grant_of_core [OF group_label_cong [OF assms(2)] refl] by simp
  qed
qed

lemma active_grants_add:
  assumes "gv_exceptions g' = gv_exceptions g @ [(i, x)]" and "gv_groups g' = gv_groups g"
    and "ex_status x \<noteq> ExActive \<or> \<not> applies_to x a r gs"
  shows "active_grants g' a r gs now = active_grants g a r gs now"
proof -
  have "grant_of g' = grant_of g"
    using grant_of_core [OF group_label_cong [OF assms(2)] refl] by (simp add: fun_eq_iff split_paired_all)
  moreover have "\<not> granted_to now a r gs (i, x)" using assms(3) by (auto simp: granted_to_def in_force_def)
  ultimately show ?thesis by (simp add: active_grants_eq assms(1))
qed

lemma invalidate_scope_spares_exception:
  assumes "cached now a r (invalidate_scope (ex_account_id x) (ex_scope x) (ex_scope_id x) t g') = Some c"
    and "gv_group_members g' = gv_group_members g" and "0 \<le> r"
  shows "cached now a r g' = Some c \<and> \<not> applies_to x a r (map fst (group_rows g a r))"
proof (cases "ex_scope x")
  case ScOrganization
  with assms(1) show ?thesis by (auto simp: invalidate_scope_def applies_to_def split: if_splits)
next
  case ScGroup
  with assms(1,2) have "a = ex_account_id x \<longrightarrow> r \<notin> set (group_member_ids g a (ex_scope_id x))" "cached now a r g' = Some c"
    by (auto simp: invalidate_scope_def group_member_ids_def split: if_splits)
  then show ?thesis using group_rows_member_ids [of "ex_scope_id x" g a r] by (auto simp: applies_to_def ScGroup)
next
  case ScRepository
  have "all_digits (id_text r)" by (simp add: id_text_def)
  with ScRepository assms(1,3) show ?thesis using id_text_value [of r]
    by (auto simp: invalidate_scope_def applies_to_def split: if_splits)
qed

lemma group_rows_cong:
  assumes "gv_groups g' = gv_groups g" and "gv_group_members g' = gv_group_members g"
  shows "group_rows g' = group_rows g"
  unfolding group_rows_def [abs_def] assms ..

lemma load_settings_cong:
  assumes "gv_settings g' = gv_settings g"
  shows "load_settings g' = load_settings g"
  unfolding load_settings_def [abs_def] assms ..

lemma governance_mode_cong:
  assumes "gv_settings g' = gv_settings g" and "gv_modes g' = gv_modes g"
  shows "governance_mode g' = governance_mode g"
  unfolding governance_mode_def [abs_def] load_settings_cong [OF assms(1)] assms(2) ..

lemma same_gov_exceptions:
  assumes "gv_groups g' = gv_groups g" and "gv_group_members g' = gv_group_members g" and "gv_modes g' = gv_modes g"
    and "gv_settings g' = gv_settings g"
    and "active_grants g' a r (map fst (group_rows g a r)) now = active_grants g a r (map fst (group_rows g a r)) now"
  shows "same_gov now a r g g'"
  unfolding same_gov_def assms(5) load_settings_cong [OF assms(4)] group_rows_cong [OF assms(1,2)]
    governance_mode_cong [OF assms(4,3)] by simp

definition tables where
  "tables g = (gv_groups g, gv_group_members g, gv_modes g, gv_settings g)"

lemma tables_simps [simp]:
  "tables (invalidate_repositories a ids t g) = tables g" "tables (invalidate_scope a sc sid t g) = tables g"
  "tables (log_event e g) = tables g" "tables (emit_notice n g) = tables g" "tables (update_exception i f g) = tables g"
  "tables (g\<lparr>gv_exceptions := xs\<rparr>) = tables g"
  by (simp_all add: tables_def invalidate_repositories_def invalidate_scope_def log_event_def emit_notice_def
      update_exception_def split: exception_scope.split)

lemma known_update [simp]:
  "known_ids (update_exception i f g) = known_ids g" "known_ids (g\<lparr>gv_exceptions := xs\<rparr>) = known_ids g"
  by (simp_all add: fun_eq_iff known_ids_def account_repositories_def repository_rows_def update_exception_def)

lemma cached_update [simp]:
  "cached now a r (update_exception i f g) = cached now a r g" "cached now a r (g\<lparr>gv_exceptions := xs\<rparr>) = cached now a r g"
  by (simp_all add: cached_def update_exception_def)

lemma keys_update [simp]:
  "gv_cache (update_exception i f g) = gv_cache g"
  by (simp add: update_exception_def)

lemma gov_invI:
  assumes "gov_inv g" and "gv_groups g' = gv_groups g" and "gv_group_members g' = gv_group_members g"
    and "known_ids g' = known_ids g" and "map fst (gv_cache g') = map fst (gv_cache g)"
    and "distinct (map fst (gv_exceptions g'))"
  shows "gov_inv g'"
proof -
  have "fst ` set (gv_cache g') = fst ` set (gv_cache g)" using assms(5) by (metis list.set_map)
  with assms show ?thesis unfolding gov_inv_def by simp
qed

lemma gov_inv_distinct: "gov_inv g \<Longrightarrow> distinct (map fst (gv_exceptions g))"
  by (simp add: gov_inv_def)

text \<open>A change of the exceptions only.\<close>

lemma gov_step_exceptions:
  assumes inv: "gov_inv g" and t: "tables g' = tables g" and "known_ids g' = known_ids g"
    and "map fst (gv_cache g') = map fst (gv_cache g)" and "distinct (map fst (gv_exceptions g'))"
    and c: "\<And>a r c. cached now a r g' = Some c \<Longrightarrow> 0 \<le> r \<Longrightarrow> cached now a r g = Some c
      \<and> active_grants g' a r (map fst (group_rows g a r)) now = active_grants g a r (map fst (group_rows g a r)) now"
  shows "gov_step now g g'"
proof -
  have eqs: "gv_groups g' = gv_groups g" "gv_group_members g' = gv_group_members g" "gv_modes g' = gv_modes g"
    "gv_settings g' = gv_settings g" using t by (simp_all add: tables_def)
  have inv': "gov_inv g'" by (rule gov_invI [OF inv eqs(1,2) assms(3-5)])
  show ?thesis
    unfolding gov_step_def
  proof (intro conjI allI impI)
    fix a r x assume x: "cached now a r g' = Some x"
    from c [OF x] gov_invD [OF inv' x]
    have "active_grants g' a r (map fst (group_rows g a r)) now = active_grants g a r (map fst (group_rows g a r)) now" by simp
    then show "same_gov now a r g g'" by (rule same_gov_exceptions [OF eqs])
    from c [OF x] gov_invD [OF inv' x] show "cached now a r g = Some x" by simp
  qed (rule inv')
qed

lemma gov_step_row:
  assumes inv: "gov_inv g" and x: "map_of (gv_exceptions g) i = Some x" and f: "core (f x) = core x"
    and t: "tables g' = tables g" and k: "known_ids g' = known_ids g" and "map fst (gv_cache g') = map fst (gv_cache g)"
    and e: "gv_exceptions g' = gv_exceptions (update_exception i f g)"
    and c: "\<And>a r c. cached now a r g' = Some c \<Longrightarrow> 0 \<le> r \<Longrightarrow> cached now a r g = Some c
      \<and> ((ex_status (f x) = ExActive) = (ex_status x = ExActive) \<or> \<not> applies_to x a r (map fst (group_rows g a r)))"
  shows "gov_step now g g'"
proof (rule gov_step_exceptions [OF inv t k assms(6)])
  show "distinct (map fst (gv_exceptions g'))" using gov_inv_distinct [OF inv] by (simp add: e)
  fix a r y assume y: "cached now a r g' = Some y" "0 \<le> r"
  have "gv_groups g' = gv_groups g" using t by (simp add: tables_def)
  then show "cached now a r g = Some y
      \<and> active_grants g' a r (map fst (group_rows g a r)) now = active_grants g a r (map fst (group_rows g a r)) now"
    using active_grants_update [where f = f, OF e _ gov_inv_distinct [OF inv] x f] c [OF y] by blast
qed

lemma members_update [simp]:
  "gv_group_members (update_exception i f g) = gv_group_members g" "gv_group_members (log_event e g) = gv_group_members g"
  by (simp_all add: update_exception_def log_event_def)

lemma gov_step_approve:
  assumes "gov_inv g" and "commit_approve t p i note g = Inr g'"
  shows "gov_step now g g'"
proof -
  obtain x where x: "map_of (gv_exceptions g) i = Some x"
    using commit_approve_rows(2) [OF assms(2)] by blast
  show ?thesis
  proof (rule gov_step_row [OF assms(1) x _ _ _ _ commit_approve_rows(1) [OF assms(2)]])
    show "cached now a r g = Some c \<and> ((ex_status (x\<lparr>ex_status := ExActive, ex_decided_at := Some t,
          ex_decided_by := Some (pr_user_id p), ex_note := note, ex_activated_at := Some t\<rparr>) = ExActive) = (ex_status x = ExActive)
        \<or> \<not> applies_to x a r (map fst (group_rows g a r)))" if "cached now a r g' = Some c" "0 \<le> r" for a r c
      using assms(2) that invalidate_scope_spares_exception [of now a r x t "update_exception i f g" c g for f]
      by (auto simp: commit_approve_def x split: if_splits)
  qed (use assms(2) x in \<open>auto simp: commit_approve_def core_def split: if_splits\<close>)
qed

lemma gov_step_end:
  assumes "gov_inv g" and "commit_end t who i from to note g = Inr g'" and "to \<noteq> ExActive"
  shows "gov_step now g g'"
proof -
  obtain x where x: "map_of (gv_exceptions g) i = Some x" "ex_status x = from"
    using commit_end_rows(2) [OF assms(2)] by blast
  show ?thesis
  proof (rule gov_step_row [OF assms(1) x(1) _ _ _ _ commit_end_rows(1) [OF assms(2)]])
    show "cached now a r g = Some c \<and> ((ex_status (x\<lparr>ex_status := to, ex_ended_at := Some t, ex_note := note\<rparr>) = ExActive)
          = (ex_status x = ExActive) \<or> \<not> applies_to x a r (map fst (group_rows g a r)))"
      if "cached now a r g' = Some c" "0 \<le> r" for a r c
      using assms(2,3) that x(2) invalidate_scope_spares_exception [of now a r x t "update_exception i f g" c g for f]
      by (auto simp: commit_end_def Let_def x(1) split: if_splits)
  qed (use assms(2) x in \<open>auto simp: commit_end_def Let_def core_def split: if_splits\<close>)
qed

lemma gov_step_request:
  assumes "gov_inv g" and "commit_request t who i row g = Inr g'"
    and "ex_status row = (if ex_requires_approval row then ExRequested else ExActive)"
  shows "gov_step now g g'"
proof (rule gov_step_exceptions [OF assms(1)])
  note rows = commit_request_rows [OF assms(2)]
  show "distinct (map fst (gv_exceptions g'))"
    using gov_inv_distinct [OF assms(1)] rows(1,2) by (simp add: map_of_eq_None_iff)
  have t: "tables g' = tables g" using assms(2) by (auto simp: commit_request_def Let_def split: if_splits)
  then show "tables g' = tables g" .
  fix a r c assume c: "cached now a r g' = Some c" "0 \<le> r"
  have "cached now a r g = Some c \<and> (ex_status row \<noteq> ExActive \<or> \<not> applies_to row a r (map fst (group_rows g a r)))"
    using assms(2,3) c invalidate_scope_spares_exception [of now a r row t "log_event e (g\<lparr>gv_exceptions := xs\<rparr>)" c g for e xs]
    by (auto simp: commit_request_def Let_def split: if_splits)
  then show "cached now a r g = Some c
      \<and> active_grants g' a r (map fst (group_rows g a r)) now = active_grants g a r (map fst (group_rows g a r)) now"
    using active_grants_add [OF rows(1)] t by (simp add: tables_def)
qed (use assms(2) in \<open>auto simp: commit_request_def Let_def split: if_splits\<close>)

lemma gov_step_refl: "gov_inv g \<Longrightarrow> gov_step now g g"
  by (simp add: gov_step_def same_gov_def)

lemma gov_step_warn:
  assumes "gov_inv g"
  shows "gov_step now g (warn_one t i g)"
proof (cases "map_of (gv_exceptions g) i")
  case None
  then show ?thesis using gov_step_refl [OF assms] by (simp add: warn_one_def)
next
  case (Some x)
  have "warn_one t i g = g \<or> (\<exists>w n. warn_one t i g = emit_notice n (update_exception i (\<lambda>x. if ex_status x = ExActive
          then x\<lparr>ex_warnings_sent := w x\<rparr> else x) g))"
    by (auto simp: warn_one_def Let_def Some split: option.splits)
  then show ?thesis
  proof
    assume "\<exists>w n. warn_one t i g = emit_notice n (update_exception i (\<lambda>x. if ex_status x = ExActive
          then x\<lparr>ex_warnings_sent := w x\<rparr> else x) g)"
    then obtain w n where w: "warn_one t i g = emit_notice n (update_exception i (\<lambda>x. if ex_status x = ExActive
          then x\<lparr>ex_warnings_sent := w x\<rparr> else x) g)" by blast
    show ?thesis by (rule gov_step_row [OF assms Some, where f = "\<lambda>x. if ex_status x = ExActive
          then x\<lparr>ex_warnings_sent := w x\<rparr> else x"]) (simp_all add: w core_def)
  qed (use gov_step_refl [OF assms] in simp)
qed

text \<open>A change of the other tables: the exceptions a repository is granted depend on them through labels only.\<close>

lemma gov_step_tables:
  assumes inv: "gov_inv g'"
    and c: "\<And>a r c. cached now a r g' = Some c \<Longrightarrow> cached now a r g = Some c \<and> load_settings g' a = load_settings g a
      \<and> group_rows g' a r = group_rows g a r \<and> governance_mode g' a r = governance_mode g a r
      \<and> active_grants g' a r (map fst (group_rows g a r)) now = active_grants g a r (map fst (group_rows g a r)) now"
  shows "gov_step now g g'"
  unfolding gov_step_def same_gov_def using inv c by simp

lemma active_grants_cong:
  assumes "gv_exceptions g' = gv_exceptions g" and "\<And>h. h \<in> set gs \<Longrightarrow> group_label g' h = group_label g h"
  shows "active_grants g' a r gs now = active_grants g a r gs now"
proof (rule active_grants_map [where h = id])
  fix e assume "e \<in> set (gv_exceptions g)"
  obtain i x where e: "e = (i, x)" by (cases e)
  have "grant_of g' (i, x) = grant_of g (i, x)" if "granted_to now a r gs (i, x)"
    using that assms(2) by (cases "ex_scope x") (auto simp: granted_to_def applies_to_def grant_of_def)
  then show "fst (id e) = fst e \<and> granted_to now a r gs (id e) = granted_to now a r gs e
      \<and> (granted_to now a r gs e \<longrightarrow> grant_of g' (id e) = grant_of g e)" by (simp add: e)
qed (simp add: assms(1))

lemma gov_step_settings:
  assumes "gov_inv g" and "commit_settings t p account expected change g = Inr g'"
  shows "gov_step now g g'"
proof -
  obtain new weak reason where ch: "change = (new, weak, reason)" by (cases change) auto
  obtain s e n where g': "g' = invalidate_repositories account None t (emit_notice n (log_event e
      (g\<lparr>gv_settings := AList.update account s (gv_settings g)\<rparr>)))"
    using assms(2) by (auto simp: commit_settings_def ch Let_def split: if_splits)
  let ?g = "g\<lparr>gv_settings := AList.update account s (gv_settings g)\<rparr>"
  have f: "gv_groups g' = gv_groups g" "gv_group_members g' = gv_group_members g" "gv_modes g' = gv_modes g"
    "gv_exceptions g' = gv_exceptions g" "gv_settings g' = AList.update account s (gv_settings g)"
    by (simp_all add: g' invalidate_repositories_def log_event_def emit_notice_def)
  have "cached now a r ?g = cached now a r g" for a r by (simp add: cached_def)
  have known: "known_ids g' = known_ids g"
    by (simp add: fun_eq_iff g' known_ids_def account_repositories_def repository_rows_def invalidate_repositories_def
        log_event_def emit_notice_def)
  show ?thesis
  proof (rule gov_step_tables)
    show "gov_inv g'"
      by (rule gov_invI [OF assms(1) f(1,2) known]) (simp_all add: g' f(4) gov_inv_distinct [OF assms(1)])
    fix a r c assume "cached now a r g' = Some c"
    then have c: "a \<noteq> account" "cached now a r g = Some c"
      by (auto simp: g' \<open>cached now a r ?g = cached now a r g\<close> split: if_splits)
    then have s: "load_settings g' a = load_settings g a" by (simp add: load_settings_def f(5) update_conv)
    have "governance_mode g' a r = governance_mode g a r" unfolding governance_mode_def f(3) s ..
    with c s active_grants_cong [OF f(4)] group_label_cong [OF f(1)] group_rows_cong [OF f(1,2)]
    show "cached now a r g = Some c \<and> load_settings g' a = load_settings g a
      \<and> group_rows g' a r = group_rows g a r \<and> governance_mode g' a r = governance_mode g a r
      \<and> active_grants g' a r (map fst (group_rows g a r)) now = active_grants g a r (map fst (group_rows g a r)) now" by simp
  qed
qed

text \<open>Membership: the groups of a repository are those of its own member rows.\<close>

definition members_of :: "int \<Rightarrow> int \<Rightarrow> (int \<times> ustr \<times> int) list \<Rightarrow> (int \<times> ustr \<times> int) list" where
  "members_of a r ms = filter (\<lambda>m. fst m = a \<and> snd (snd m) = r) ms"

lemma map_filter_members:
  "List.map_filter (\<lambda>(a', h, r'). if a' = a \<and> r' = r then F h else None) xs
     = List.map_filter (\<lambda>m. F (fst (snd m))) (members_of a r xs)"
  by (induction xs) (simp_all add: members_of_def map_filter_simps split_beta split: option.split)

lemma group_rows_members:
  assumes "gv_groups g' = gv_groups g" and "members_of a r (gv_group_members g') = members_of a r (gv_group_members g)"
  shows "group_rows g' a r = group_rows g a r"
  unfolding group_rows_def map_filter_members assms ..

lemma gov_step_members:
  assumes "gov_inv g" and "gov_inv g'" and "g' = invalidate_repositories account ids t (g\<lparr>gv_group_members := ms\<rparr>)"
    and "\<And>a r. a \<noteq> account \<or> (case ids of None \<Rightarrow> False | Some rs \<Rightarrow> r \<notin> set rs) \<Longrightarrow>
      members_of a r ms = members_of a r (gv_group_members g)"
  shows "gov_step now g g'"
proof (rule gov_step_tables [OF assms(2)])
  have f: "gv_groups g' = gv_groups g" "gv_group_members g' = ms" "gv_modes g' = gv_modes g"
    "gv_exceptions g' = gv_exceptions g" "gv_settings g' = gv_settings g"
    by (simp_all add: assms(3) invalidate_repositories_def)
  fix a r c assume c: "cached now a r g' = Some c"
  have "cached now a r (g\<lparr>gv_group_members := ms\<rparr>) = cached now a r g" by (simp add: cached_def)
  with c have c0: "cached now a r g = Some c" "a \<noteq> account \<or> (case ids of None \<Rightarrow> False | Some rs \<Rightarrow> r \<notin> set rs)"
    by (auto simp: assms(3) split: if_splits option.splits)
  have "group_rows g' a r = group_rows g a r" by (rule group_rows_members [OF f(1)]) (simp add: f(2) assms(4) [OF c0(2)])
  then show "cached now a r g = Some c \<and> load_settings g' a = load_settings g a
      \<and> group_rows g' a r = group_rows g a r \<and> governance_mode g' a r = governance_mode g a r
      \<and> active_grants g' a r (map fst (group_rows g a r)) now = active_grants g a r (map fst (group_rows g a r)) now"
    using c0 load_settings_cong [OF f(5)] governance_mode_cong [OF f(5,3)] active_grants_cong [OF f(4)]
      group_label_cong [OF f(1)] by simp
qed

lemma members_of_other:
  "(\<And>h r'. (a, h, r') \<in> set ms \<Longrightarrow> r' \<noteq> r) \<Longrightarrow> members_of a r ms = []"
  unfolding members_of_def filter_empty_conv by fastforce

lemma gov_inv_member:
  "gov_inv g \<Longrightarrow> (a, h, r) \<in> set (gv_group_members g) \<Longrightarrow> \<exists>row. map_of (gv_groups g) h = Some row \<and> gg_account row = a"
  unfolding gov_inv_def by blast

lemma gov_inv_members:
  assumes "gov_inv g" and "g' = invalidate_repositories account ids t (g\<lparr>gv_group_members := ms\<rparr>)"
    and "\<And>a h r. (a, h, r) \<in> set ms \<Longrightarrow> (a, h, r) \<in> set (gv_group_members g)
      \<or> (\<exists>row. map_of (gv_groups g) h = Some row \<and> gg_account row = a)"
  shows "gov_inv g'"
proof -
  have "known_ids g' = known_ids g"
    by (simp add: fun_eq_iff assms(2) known_ids_def account_repositories_def repository_rows_def invalidate_repositories_def)
  moreover have "fst ` set (gv_cache g') = fst ` set (gv_cache g)"
    using cache_keys_simps(1) [of account ids t "g\<lparr>gv_group_members := ms\<rparr>"] by (metis assms(2) list.set_map gov_db.select_convs(6) gov_db.surjective gov_db.update_convs(5))
  moreover have "gv_groups g' = gv_groups g" "gv_exceptions g' = gv_exceptions g" "gv_group_members g' = ms"
    by (simp_all add: assms(2) invalidate_repositories_def)
  ultimately show ?thesis
    using assms(1,3) unfolding gov_inv_def by metis
qed

lemma gov_step_add_members:
  assumes inv: "gov_inv g" and "add_members_in t account h ids g = Inr g'"
  shows "gov_step now g g'"
proof -
  obtain row where row: "map_of (gv_groups g) h = Some row" "gg_account row = account"
    using assms(2) by (auto simp: add_members_in_def split: option.splits if_splits)
  let ?added = "filter (\<lambda>r. (account, h, r) \<notin> set (gv_group_members g)) (remdups ids)"
  let ?ms = "gv_group_members g @ map (\<lambda>r. (account, h, r)) ?added"
  have "g' = g \<or> g' = invalidate_repositories account (Some ?added) t (g\<lparr>gv_group_members := ?ms\<rparr>)"
    using assms(2) row by (auto simp: add_members_in_def Let_def split: if_splits)
  then show ?thesis
  proof
    assume g': "g' = invalidate_repositories account (Some ?added) t (g\<lparr>gv_group_members := ?ms\<rparr>)"
    show ?thesis
    proof (rule gov_step_members [OF inv _ g'])
      show "gov_inv g'" by (rule gov_inv_members [OF inv g']) (use row in auto)
      fix a r assume "a \<noteq> account \<or> (case Some ?added of None \<Rightarrow> False | Some rs \<Rightarrow> r \<notin> set rs)"
      then have "members_of a r (map (\<lambda>r. (account, h, r)) ?added) = []" by (intro members_of_other) auto
      then show "members_of a r ?ms = members_of a r (gv_group_members g)" by (simp add: members_of_def)
    qed
  qed (use gov_step_refl [OF inv] in simp)
qed

lemma gov_step_remove_members:
  assumes inv: "gov_inv g"
  shows "gov_step now g (remove_members_in t account h ids g)"
proof -
  let ?g' = "remove_members_in t account h ids g"
  let ?removed = "filter (\<lambda>r. (account, h, r) \<in> set (gv_group_members g)) (remdups ids)"
  let ?ms = "filter (\<lambda>m. m \<notin> (\<lambda>r. (account, h, r)) ` set ?removed) (gv_group_members g)"
  have "?g' = g \<or> ?g' = invalidate_repositories account (Some ?removed) t (g\<lparr>gv_group_members := ?ms\<rparr>)"
    by (simp add: remove_members_in_def Let_def)
  then show ?thesis
  proof
    assume g': "?g' = invalidate_repositories account (Some ?removed) t (g\<lparr>gv_group_members := ?ms\<rparr>)"
    show ?thesis
    proof (rule gov_step_members [OF inv _ g'])
      show "gov_inv ?g'" by (rule gov_inv_members [OF inv g']) auto
      fix a r assume "a \<noteq> account \<or> (case Some ?removed of None \<Rightarrow> False | Some rs \<Rightarrow> r \<notin> set rs)"
      then show "members_of a r ?ms = members_of a r (gv_group_members g)"
        unfolding members_of_def filter_filter by (intro filter_cong) auto
    qed
  qed (use gov_step_refl [OF inv] in simp)
qed

lemma map_of_map_value: "map_of (map (\<lambda>(h, r). (h, f h r)) xs) k = map_option (f k) (map_of xs k)"
  by (induction xs) auto

lemma map_filter_cong:
  "(\<And>x. x \<in> set xs \<Longrightarrow> f x = g x) \<Longrightarrow> List.map_filter f xs = List.map_filter g xs"
  by (induction xs) (simp_all add: map_filter_simps split: option.split)

lemma gov_step_archive:
  assumes inv: "gov_inv g" and row: "map_of (gv_groups g) h = Some row" "gg_account row = account"
  shows "gov_step now g (archive_group t account h g)"
proof (rule gov_step_tables)
  let ?g' = "archive_group t account h g"
  let ?h = "\<lambda>(i, x). (i, if ex_account_id x = account \<and> ex_scope x = ScGroup \<and> ex_scope_id x = h \<and> open_status (ex_status x)
             then x\<lparr>ex_status := (if ex_status x = ExRequested then ExCancelled else ExRevoked), ex_ended_at := Some t\<rparr> else x)"
  let ?A = "\<lambda>k r. if k = h then r\<lparr>gg_archived := True\<rparr> else r"
  have f: "gv_groups ?g' = map (\<lambda>(k, r). (k, ?A k r)) (gv_groups g)" "gv_group_members ?g' = gv_group_members g"
    "gv_modes ?g' = gv_modes g" "gv_settings ?g' = gv_settings g" "gv_exceptions ?g' = map ?h (gv_exceptions g)"
    by (simp_all add: archive_group_def invalidate_repositories_def)
  have groups: "map_of (gv_groups ?g') k = map_option (?A k) (map_of (gv_groups g) k)" for k
    unfolding f(1) map_of_map_value ..
  have known: "known_ids ?g' = known_ids g"
    by (simp add: fun_eq_iff archive_group_def known_ids_def account_repositories_def repository_rows_def invalidate_repositories_def)
  have keys: "map fst (gv_cache ?g') = map fst (gv_cache g)" by (simp add: archive_group_def)
  show "gov_inv ?g'"
  proof -
    have "fst ` set (gv_cache ?g') = fst ` set (gv_cache g)" using keys by (metis list.set_map)
    moreover have "map fst (gv_exceptions ?g') = map fst (gv_exceptions g)" by (simp add: f(5) case_prod_beta)
    moreover have "(\<exists>row. map_of (gv_groups ?g') k = Some row \<and> gg_account row = a)
        \<longleftrightarrow> (\<exists>row. map_of (gv_groups g) k = Some row \<and> gg_account row = a)" for k a
      unfolding groups by (cases "map_of (gv_groups g) k") auto
    ultimately show ?thesis using inv unfolding gov_inv_def known f(2) by simp
  qed
  fix a r c assume c: "cached now a r ?g' = Some c"
  have "cached now a r (g\<lparr>gv_groups := gs, gv_exceptions := es\<rparr>) = cached now a r g" for gs es by (simp add: cached_def)
  with c have c0: "cached now a r g = Some c" "a \<noteq> account \<or> r \<notin> set (group_member_ids g account h)"
    by (auto simp: archive_group_def split: if_splits)
  have other: "k \<noteq> h" if "(a, k, r) \<in> set (gv_group_members g)" for k
  proof
    assume "k = h"
    with gov_inv_member [OF inv that] row have "a = account" by simp
    with that \<open>k = h\<close> c0(2) show False by (force simp: group_member_ids_def)
  qed
  have rows: "group_rows ?g' a r = group_rows g a r"
    unfolding group_rows_def f(2)
    by (rule arg_cong [where f = "\<lambda>x. take 50 (sort_key _ x)"], rule map_filter_cong)
      (use other [of h] in \<open>auto simp: groups split: option.split\<close>)
  moreover have "active_grants ?g' a r (map fst (group_rows g a r)) now = active_grants g a r (map fst (group_rows g a r)) now"
  proof (rule active_grants_map [OF f(5)])
    fix e assume "e \<in> set (gv_exceptions g)"
    obtain i x where e: "e = (i, x)" by (cases e)
    have label: "group_label ?g' = group_label g"
      unfolding group_label_def [abs_def] groups by (auto simp: fun_eq_iff split: option.split)
    have "h \<notin> fst ` set (group_rows g a r)" using other group_rows_member by fastforce
    then have "\<not> granted_to now a r (map fst (group_rows g a r)) (i, x)"
      if "ex_scope x = ScGroup" "ex_scope_id x = h" using that by (auto simp: granted_to_def applies_to_def)
    then show "fst (?h e) = fst e \<and> granted_to now a r (map fst (group_rows g a r)) (?h e)
          = granted_to now a r (map fst (group_rows g a r)) e
      \<and> (granted_to now a r (map fst (group_rows g a r)) e \<longrightarrow> grant_of ?g' (?h e) = grant_of g e)"
      using grant_of_core [OF label refl] by (auto simp: e granted_to_def in_force_def)
  qed
  ultimately show "cached now a r g = Some c \<and> load_settings ?g' a = load_settings g a
      \<and> group_rows ?g' a r = group_rows g a r \<and> governance_mode ?g' a r = governance_mode g a r
      \<and> active_grants ?g' a r (map fst (group_rows g a r)) now = active_grants g a r (map fst (group_rows g a r)) now"
    using c0 load_settings_cong [OF f(4)] governance_mode_cong [OF f(4,3)] by simp
qed

lemma gov_step_create_group:
  assumes inv: "gov_inv g" and "create_group account h name key g = Inr g'"
  shows "gov_step now g g'"
proof (rule gov_step_tables)
  obtain row where g': "g' = g\<lparr>gv_groups := gv_groups g @ [(h, row)]\<rparr>" and new: "map_of (gv_groups g) h = None"
    using assms(2) by (auto simp: create_group_def split: if_splits)
  have look: "map_of (gv_groups g') k = map_of (gv_groups g) k" if "k \<noteq> h" for k
    using that by (auto simp: g' map_add_def split: option.split)
  have same: "map_of (gv_groups g') k = Some x" if "map_of (gv_groups g) k = Some x" for k x
    using that look [of k] new by (cases "k = h") auto
  have other: "k \<noteq> h" if "(a, k, r) \<in> set (gv_group_members g)" for a k r
    using gov_inv_member [OF inv that] new by auto
  have "known_ids g' = known_ids g"
    by (simp add: fun_eq_iff g' known_ids_def account_repositories_def repository_rows_def)
  moreover have "gv_cache g' = gv_cache g" "gv_group_members g' = gv_group_members g" "gv_exceptions g' = gv_exceptions g"
    by (simp_all add: g')
  ultimately show "gov_inv g'" using inv same unfolding gov_inv_def by metis
  fix a r c assume c: "cached now a r g' = Some c"
  then have c0: "cached now a r g = Some c" by (simp add: cached_def g')
  have rows: "group_rows g' a r = group_rows g a r"
    unfolding group_rows_def
    by (rule arg_cong [where f = "\<lambda>x. take 50 (sort_key _ x)"], simp add: g', rule map_filter_cong)
      (use other look in \<open>auto simp: g' split: option.split\<close>)
  have "group_label g' k = group_label g k" if "k \<in> set (map fst (group_rows g a r))" for k
  proof -
    from that have "k \<noteq> h" using group_rows_member other by fastforce
    then show ?thesis by (simp add: group_label_def look)
  qed
  then have "active_grants g' a r (map fst (group_rows g a r)) now = active_grants g a r (map fst (group_rows g a r)) now"
    by (intro active_grants_cong) (simp_all add: g')
  moreover have "load_settings g' = load_settings g" by (rule load_settings_cong) (simp add: g')
  moreover have "governance_mode g' = governance_mode g" by (rule governance_mode_cong) (simp_all add: g')
  ultimately show "cached now a r g = Some c \<and> load_settings g' a = load_settings g a
      \<and> group_rows g' a r = group_rows g a r \<and> governance_mode g' a r = governance_mode g a r
      \<and> active_grants g' a r (map fst (group_rows g a r)) now = active_grants g a r (map fst (group_rows g a r)) now"
    using c0 rows by simp
qed

text \<open>Changes of the mode table.\<close>

lemma gov_step_modes:
  assumes inv: "gov_inv g"
    and g': "g' = (if marked then invalidate_repositories account (Some ids) t (g\<lparr>gv_modes := ms\<rparr>) else g\<lparr>gv_modes := ms\<rparr>)"
    and m: "\<And>a r. \<not> (marked \<and> a = account \<and> r \<in> set ids) \<Longrightarrow>
      governance_mode (g\<lparr>gv_modes := ms\<rparr>) a r = governance_mode g a r"
  shows "gov_step now g g'"
proof (rule gov_step_tables)
  have f: "gv_groups g' = gv_groups g" "gv_group_members g' = gv_group_members g" "gv_modes g' = ms"
    "gv_exceptions g' = gv_exceptions g" "gv_settings g' = gv_settings g" "known_ids g' = known_ids g"
    by (simp_all add: g' fun_eq_iff invalidate_repositories_def known_ids_def account_repositories_def repository_rows_def)
  show "gov_inv g'"
    by (rule gov_invI [OF inv f(1,2,6)]) (simp_all add: f(4) g' gov_inv_distinct [OF inv])
  fix a r c assume c: "cached now a r g' = Some c"
  have "cached now a r (g\<lparr>gv_modes := ms\<rparr>) = cached now a r g" by (simp add: cached_def)
  then have c0: "cached now a r g = Some c" "\<not> (marked \<and> a = account \<and> r \<in> set ids)"
    using c by (auto simp: g' split: if_splits)
  have "governance_mode g' = governance_mode (g\<lparr>gv_modes := ms\<rparr>)"
    by (rule governance_mode_cong) (simp_all add: f)
  then have "governance_mode g' a r = governance_mode g a r" using m [OF c0(2)] by simp
  then show "cached now a r g = Some c \<and> load_settings g' a = load_settings g a
      \<and> group_rows g' a r = group_rows g a r \<and> governance_mode g' a r = governance_mode g a r
      \<and> active_grants g' a r (map fst (group_rows g a r)) now = active_grants g a r (map fst (group_rows g a r)) now"
    using c0(1) load_settings_cong [OF f(5)] active_grants_cong [OF f(4)] group_label_cong [OF f(1)]
      group_rows_cong [OF f(1,2)] by simp
qed

lemma apply_mode_facts:
  assumes "apply_mode account mode onboard r g = (g', c)"
  shows "\<exists>ms. g' = g\<lparr>gv_modes := ms\<rparr>"
    and "\<not> (c \<and> a = account \<and> s = r) \<Longrightarrow> governance_mode g' a s = governance_mode g a s"
proof -
  show "\<exists>ms. g' = g\<lparr>gv_modes := ms\<rparr>"
    using assms by (auto simp: apply_mode_def Let_def split: if_splits intro: exI [of _ "gv_modes g"])
  have load: "load_settings (g\<lparr>gv_modes := ms\<rparr>) = load_settings g" for ms by (rule load_settings_cong) simp
  assume "\<not> (c \<and> a = account \<and> s = r)"
  then show "governance_mode g' a s = governance_mode g a s"
    using assms unfolding apply_mode_def Let_def
    by (cases "(a, s) = (account, r)")
      (auto simp: governance_mode_def mode_row_of_def update_conv load split: if_splits option.splits)
qed

lemma apply_modes_fold:
  assumes "fold (\<lambda>r (d, ch). case apply_mode account mode onboard r d of (d', c) \<Rightarrow> (d', if c then ch @ [r] else ch)) ids (g, ch0)
    = (g', ch)"
  shows "(\<exists>ms. g' = g\<lparr>gv_modes := ms\<rparr>) \<and> set ch0 \<subseteq> set ch
    \<and> (\<forall>a s. \<not> (a = account \<and> s \<in> set ch) \<longrightarrow> governance_mode g' a s = governance_mode g a s)"
  using assms
proof (induction ids arbitrary: g ch0)
  case Nil
  then show ?case by (auto intro: exI [of _ "gv_modes g"])
next
  case (Cons r ids)
  obtain g1 c where a: "apply_mode account mode onboard r g = (g1, c)" by (cases "apply_mode account mode onboard r g") auto
  with Cons.prems have "fold (\<lambda>r (d, ch). case apply_mode account mode onboard r d of (d', c) \<Rightarrow> (d', if c then ch @ [r] else ch)) ids
    (g1, if c then ch0 @ [r] else ch0) = (g', ch)" by simp
  note ih = Cons.IH [OF this]
  from apply_mode_facts(1) [OF a] obtain ms where ms: "g1 = g\<lparr>gv_modes := ms\<rparr>" by blast
  show ?case
  proof (intro conjI allI impI)
    show "\<exists>ms. g' = g\<lparr>gv_modes := ms\<rparr>" using ih by (auto simp: ms)
    show "set ch0 \<subseteq> set ch" using ih by (auto split: if_splits)
    fix b s assume "\<not> (b = account \<and> s \<in> set ch)"
    moreover have "c \<Longrightarrow> r \<in> set ch" using ih by auto
    ultimately show "governance_mode g' b s = governance_mode g b s"
      using ih apply_mode_facts(2) [OF a, of b s] by auto
  qed
qed

lemma gov_step_apply_modes:
  assumes inv: "gov_inv g"
  shows "gov_step now g (apply_modes t account mode onboard ids g)"
proof -
  let ?ids = "filter (\<lambda>r. r \<in> set (known_ids g account)) ids"
  obtain g1 ch where f: "fold (\<lambda>r (d, ch). case apply_mode account mode onboard r d of (d', c) \<Rightarrow> (d', if c then ch @ [r] else ch))
    ?ids (g, []) = (g1, ch)" by (meson surj_pair)
  note facts = apply_modes_fold [OF f]
  then obtain ms where ms: "g1 = g\<lparr>gv_modes := ms\<rparr>" by blast
  have e: "apply_modes t account mode onboard ids g
      = (if ch \<noteq> [] then invalidate_repositories account (Some ch) t (g\<lparr>gv_modes := ms\<rparr>) else g\<lparr>gv_modes := ms\<rparr>)"
    by (simp add: apply_modes_def f ms)
  show ?thesis
    by (rule gov_step_modes [OF inv e]) (use facts in \<open>auto simp: ms\<close>)
qed

lemma gov_step_discovered:
  assumes inv: "gov_inv g"
  shows "gov_step now g (discovered account ids g)"
proof -
  obtain F where d: "discovered account ids g = g\<lparr>gv_modes := fold (\<lambda>r ms. if map_of ms (account, r) = None
           then ms @ [((account, r), \<lparr>mo_onboarded = F r, mo_mode = st_onboarding (snd (load_settings g account))\<rparr>)] else ms)
           ids (gv_modes g)\<rparr>"
    by (simp add: discovered_def Let_def)
  have load: "load_settings (g\<lparr>gv_modes := ms\<rparr>) = load_settings g" for ms by (rule load_settings_cong) simp
  have keep: "governance_mode (g\<lparr>gv_modes := fold (\<lambda>r ms. if map_of ms (account, r) = None
           then ms @ [((account, r), \<lparr>mo_onboarded = F r, mo_mode = st_onboarding (snd (load_settings g account))\<rparr>)] else ms)
           ids ms\<rparr>) a s = governance_mode (g\<lparr>gv_modes := ms\<rparr>) a s" for ms a s
    by (induction ids arbitrary: ms) (auto simp: governance_mode_def load map_add_def split: option.split)
  obtain ms where "discovered account ids g = g\<lparr>gv_modes := ms\<rparr>"
    and "\<And>a s. governance_mode (g\<lparr>gv_modes := ms\<rparr>) a s = governance_mode g a s"
  proof
    show "discovered account ids g = g\<lparr>gv_modes := gv_modes (discovered account ids g)\<rparr>" by (simp add: d)
    show "governance_mode (g\<lparr>gv_modes := gv_modes (discovered account ids g)\<rparr>) a s = governance_mode g a s" for a s
      using keep [of "gv_modes g" a s] by (simp add: d)
  qed
  then show ?thesis by (intro gov_step_modes [OF inv, where marked = False and ms = ms]) simp_all
qed

section \<open>Filling the cache\<close>

text \<open>The cached rows change, and what they are resolved from does not.\<close>

lemma cache_inv_cache:
  assumes inv: "cache_inv service now db" and g: "gov_inv (pb_gov db\<lparr>gv_cache := rows\<rparr>)"
    and c: "\<And>a r c. cached now a r (pb_gov db\<lparr>gv_cache := rows\<rparr>) = Some c \<Longrightarrow>
      cached now a r (pb_gov db) = Some c \<or> fresh_entry service now a r db c"
  shows "cache_inv service now (on_gov (\<lambda>g. g\<lparr>gv_cache := rows\<rparr>) db)"
proof -
  let ?db = "on_gov (\<lambda>g. g\<lparr>gv_cache := rows\<rparr>) db"
  have gov: "pb_gov ?db = pb_gov db\<lparr>gv_cache := rows\<rparr>" by (simp add: on_gov_def)
  have "same_target_state a t db ?db" for a t
    by (simp add: same_target_state_def versions_of_def rollout_of_def on_gov_def)
  from same_target_stateD [OF this] have v: "same_versions a r db ?db" for a r by (simp add: same_versions_def)
  have "same_gov now a r (pb_gov db) (pb_gov ?db)" for a r
    by (rule same_gov_view) (simp add: gov gov_view_def)
  from resolve_inputs_cong [OF this v] have "fresh_entry service now a r ?db c = fresh_entry service now a r db c" for a r c
    by (simp add: fresh_entry_def)
  then have "coherent service now ?db"
    using inv c unfolding coherent_def gov cache_inv_def by blast
  moreover have "rollouts_inv ?db"
    by (rule rollouts_inv_cong [of db]) (use inv in \<open>simp_all add: cache_inv_def on_gov_def\<close>)
  ultimately show ?thesis using g gov by (simp add: cache_inv_def)
qed

lemma gov_inv_cache:
  assumes "gov_inv g" and "fst ` set rows \<subseteq> insert (a, r) (fst ` set (gv_cache g))" and "0 \<le> r" and "r \<in> set (known_ids g a)"
  shows "gov_inv (g\<lparr>gv_cache := rows\<rparr>)"
proof -
  have "known_ids (g\<lparr>gv_cache := rows\<rparr>) = known_ids g"
    by (simp add: fun_eq_iff known_ids_def account_repositories_def repository_rows_def)
  then show ?thesis using assms unfolding gov_inv_def by auto
qed

lemma resolve_in_fresh:
  assumes "resolve_in service now a r db = Inr g"
  shows "fresh_entry service now a r db g"
proof -
  from resolve_in_inputs [of service now a r db] have "resolve_inputs service now a r db = Inr (rs_inputs g)" by (simp add: assms)
  moreover have "rs_valid_until g = earliest (gi_exceptions (rs_inputs g))"
    using assms by (auto simp: resolve_in_def Let_def split: sum.splits if_splits)
  ultimately show ?thesis by (simp add: fresh_entry_def)
qed

lemma cache_inv_store:
  assumes inv: "cache_inv service now db" and "resolve_in service now a r db = Inr g"
    and "0 \<le> r" and "r \<in> set (known_ids (pb_gov db) a)"
  shows "cache_inv service now (on_gov (store_resolution a r g) db)"
proof -
  let ?rows = "AList.update (a, r) \<lparr>cw_state = CsUpToDate, cw_resolved = Some g,
           cw_invalidated_at = (case map_of (gv_cache (pb_gov db)) (a, r) of None \<Rightarrow> None | Some c \<Rightarrow> cw_invalidated_at c),
           cw_attempts = 0\<rparr> (gv_cache (pb_gov db))"
  have "cache_inv service now (on_gov (\<lambda>h. h\<lparr>gv_cache := ?rows\<rparr>) db)"
  proof (rule cache_inv_cache [OF inv])
    have "gov_inv (pb_gov db)" using inv by (simp add: cache_inv_def)
    then show "gov_inv (pb_gov db\<lparr>gv_cache := ?rows\<rparr>)"
      by (rule gov_inv_cache) (use assms(3,4) in \<open>simp_all flip: dom_map_of_conv_image_fst, auto simp: update_conv split: if_splits\<close>)
    fix b s c assume c: "cached now b s (pb_gov db\<lparr>gv_cache := ?rows\<rparr>) = Some c"
    show "cached now b s (pb_gov db) = Some c \<or> fresh_entry service now b s db c"
    proof (cases "(b, s) = (a, r)")
      case True
      with c have "c = g" by (auto simp: cached_def update_conv split: if_splits)
      with True resolve_in_fresh [OF assms(2)] show ?thesis by simp
    next
      case False
      with c show ?thesis by (auto simp: cached_def update_conv split: if_splits)
    qed
  qed
  then show ?thesis by (simp add: on_gov_def store_resolution_def)
qed

lemma map_of_cache_update:
  "map_of (gv_cache (cache_update a r f g)) (b, s) = map_option (\<lambda>c. if (b, s) = (a, r) then f c else c) (map_of (gv_cache g) (b, s))"
proof -
  have "map_of (map (\<lambda>(k, c). (k, if k = (a, r) then f c else c)) xs) (b, s)
      = map_option (\<lambda>c. if (b, s) = (a, r) then f c else c) (map_of xs (b, s))" for xs by (induction xs) auto
  then show ?thesis by (simp add: cache_update_def)
qed

lemma cache_inv_mark:
  assumes inv: "cache_inv service now db" and "\<And>c. cw_state (f c) \<noteq> CsUpToDate"
  shows "cache_inv service now (on_gov (cache_update a r f) db)"
proof -
  let ?rows = "map (\<lambda>(k, c). (k, if k = (a, r) then f c else c)) (gv_cache (pb_gov db))"
  have "cache_inv service now (on_gov (\<lambda>h. h\<lparr>gv_cache := ?rows\<rparr>) db)"
  proof (rule cache_inv_cache [OF inv])
    have inv0: "gov_inv (pb_gov db)" using inv by (simp add: cache_inv_def)
    show "gov_inv (pb_gov db\<lparr>gv_cache := ?rows\<rparr>)"
      by (rule gov_invI [OF inv0]) (simp_all add: gov_inv_distinct [OF inv0] case_prod_beta fun_eq_iff known_ids_def
          account_repositories_def repository_rows_def)
    fix b s c assume "cached now b s (pb_gov db\<lparr>gv_cache := ?rows\<rparr>) = Some c"
    then have "cached now b s (cache_update a r f (pb_gov db)) = Some c" by (simp add: cache_update_def)
    then show "cached now b s (pb_gov db) = Some c \<or> fresh_entry service now b s db c"
      using assms(2) unfolding cached_def map_of_cache_update by (auto split: option.splits if_splits)
  qed
  then show ?thesis by (simp add: on_gov_def cache_update_def)
qed

lemma cache_inv_syncing:
  assumes inv: "cache_inv service now db" and "0 \<le> r" and "r \<in> set (known_ids (pb_gov db) a)"
  shows "cache_inv service now (on_gov (mark_syncing t a r) db)"
proof (cases "map_of (gv_cache (pb_gov db)) (a, r) = None")
  case True
  let ?rows = "gv_cache (pb_gov db) @ [((a, r),
             \<lparr>cw_state = CsSyncing, cw_resolved = None, cw_invalidated_at = Some t, cw_attempts = 0\<rparr>)]"
  have "cache_inv service now (on_gov (\<lambda>h. h\<lparr>gv_cache := ?rows\<rparr>) db)"
  proof (rule cache_inv_cache [OF inv])
    have "gov_inv (pb_gov db)" using inv by (simp add: cache_inv_def)
    then show "gov_inv (pb_gov db\<lparr>gv_cache := ?rows\<rparr>)" by (rule gov_inv_cache) (use assms(2,3) in auto)
    fix b s c assume "cached now b s (pb_gov db\<lparr>gv_cache := ?rows\<rparr>) = Some c"
    then show "cached now b s (pb_gov db) = Some c \<or> fresh_entry service now b s db c"
      by (auto simp: cached_def map_add_def split: option.splits if_splits)
  qed
  then show ?thesis using True by (simp add: on_gov_def mark_syncing_def)
next
  case False
  have "on_gov (mark_syncing t a r) db = on_gov (cache_update a r (\<lambda>c. c\<lparr>cw_state := CsSyncing\<rparr>)) db"
    using False by (auto simp: on_gov_def mark_syncing_def)
  then show ?thesis using cache_inv_mark [OF inv] by simp
qed

text \<open>Repositories and installations that appear, sessions, drafts, approvals, audit events and notices.\<close>

lemma cache_inv_world:
  assumes inv: "cache_inv service now db" and "gov_view g = gov_view (pb_gov db)" and "gv_cache g = gv_cache (pb_gov db)"
    and known: "\<And>a. set (known_ids (pb_gov db) a) \<subseteq> set (known_ids g a)"
  shows "cache_inv service now (db\<lparr>pb_gov := g, pb_drafts := ds, pb_approvals := as\<rparr>)"
proof -
  have "gov_inv (pb_gov db)" using inv by (simp add: cache_inv_def)
  then have "gov_inv g"
    using assms(2) subsetD [OF known] unfolding gov_inv_def gov_view_def assms(3) prod.inject by metis
  moreover have "cached now a r g = cached now a r (pb_gov db)" for a r by (simp add: cached_def assms(3))
  moreover have "same_gov now a r (pb_gov db) g" for a r by (rule same_gov_view) (simp add: assms(2))
  ultimately have "cache_inv service now (db\<lparr>pb_gov := g\<rparr>)" (is "cache_inv _ _ ?db1")
    by (intro cache_inv_gov [OF inv]) (simp add: gov_step_def)
  then show ?thesis
    by (rule cache_inv_quiet) (use \<open>cache_inv service now ?db1\<close> rollouts_inv_cong [of ?db1] in
      \<open>auto simp: cache_inv_def same_target_state_def versions_of_def rollout_of_def\<close>)
qed

end
