(* ===== verification/Cache_Safety.thy ===== *)
theory Cache_Safety
  imports Coherence
begin

text \<open>
  The governance services running together: publications, rollouts, exceptions, settings, groups, modes, propagation
  and the clock as the steps of one system, and what holds of the effective-policy cache in every state it reaches.
  A transaction may write what an earlier read decided (the arguments of the commits are arbitrary); advancing a
  rollout is one step with its check. The operator's mandatory policy is fixed for the process.
\<close>

record gsys =
  gs_now :: int
  gs_db :: pub_db

abbreviation set_gov :: "gov_db \<Rightarrow> gsys \<Rightarrow> gsys" where
  "set_gov g s \<equiv> s\<lparr>gs_db := (gs_db s)\<lparr>pb_gov := g\<rparr>\<rparr>"

abbreviation gov_of :: "gsys \<Rightarrow> gov_db" where
  "gov_of s \<equiv> pb_gov (gs_db s)"

fun request_consistent :: "intent \<Rightarrow> bool" where
  "request_consistent (IRequest _ _ _ row) = (ex_status row = (if ex_requires_approval row then ExRequested else ExActive))"
| "request_consistent _ = True"

inductive gstep :: "(config \<times> string) option \<Rightarrow> gsys \<Rightarrow> gsys \<Rightarrow> bool" for service where
  tick: "gs_now s \<le> t \<Longrightarrow> gstep service s (s\<lparr>gs_now := t\<rparr>)"
| update: "commit_update hash t q change [] (gs_db s) = Inr db \<Longrightarrow> gstep service s (s\<lparr>gs_db := db\<rparr>)"
| staged_update: "commit_update hash t q change [start_rollout order who i stages limits pause back] (gs_db s) = Inr db \<Longrightarrow>
    gstep service s (s\<lparr>gs_db := db\<rparr>)"
| rollback: "commit_rollback hash t q change [] (gs_db s) = Inr db \<Longrightarrow> gstep service s (s\<lparr>gs_db := db\<rparr>)"
| rollback_rollout: "map_of (pb_rollouts (gs_db s)) i = Some x \<Longrightarrow>
    rollback_row hash clean t who authenticated reason confirm i x (gs_db s) = Inr db \<Longrightarrow> gstep service s (s\<lparr>gs_db := db\<rparr>)"
| advance: "check_advance p i (gs_db s) = Inr x \<Longrightarrow> commit_advance order t p i x (gs_db s) = Inr db \<Longrightarrow>
    gstep service s (s\<lparr>gs_db := db\<rparr>)"
| pause: "pause_row t who i account reason (gs_db s) = Inr db \<Longrightarrow> gstep service s (s\<lparr>gs_db := db\<rparr>)"
| resume: "check_resume p i (gs_db s) = Inr x \<Longrightarrow> gstep service s (s\<lparr>gs_db := commit_resume p i x (gs_db s)\<rparr>)"
| exception: "commit_intent y (gov_of s) = Inr g \<Longrightarrow> request_consistent y \<Longrightarrow> gstep service s (set_gov g s)"
| warn: "gstep service s (set_gov (warn_one t j (gov_of s)) s)"
| settings: "commit_settings t p account expected change (gov_of s) = Inr g \<Longrightarrow> gstep service s (set_gov g s)"
| create: "create_group account h name key (gov_of s) = Inr g \<Longrightarrow> gstep service s (set_gov g s)"
| archive: "map_of (gv_groups (gov_of s)) h = Some row \<Longrightarrow>
    gstep service s (set_gov (archive_group t (gg_account row) h (gov_of s)) s)"
| add_members: "add_members_in t account h ids (gov_of s) = Inr g \<Longrightarrow> gstep service s (set_gov g s)"
| remove_members: "gstep service s (set_gov (remove_members_in t account h ids (gov_of s)) s)"
| modes: "gstep service s (set_gov (apply_modes t account mode onboard ids (gov_of s)) s)"
| discover: "gstep service s (set_gov (discovered account ids (gov_of s)) s)"
| resolve: "0 \<le> r \<Longrightarrow> r \<in> set (known_ids (gov_of s) a) \<Longrightarrow> for_repository service (gs_now s) a r (gs_db s) = Inr (c, db) \<Longrightarrow>
    gstep service s (s\<lparr>gs_db := db\<rparr>)"
| propagated: "0 \<le> r \<Longrightarrow> r \<in> set (known_ids (gov_of s) a) \<Longrightarrow>
    gstep service s (s\<lparr>gs_db := fst (propagate_one service (gs_now s) (a, r) (gs_db s))\<rparr>)"
| world: "gov_view g = gov_view (gov_of s) \<Longrightarrow> gv_cache g = gv_cache (gov_of s) \<Longrightarrow>
    (\<And>a. set (known_ids (gov_of s) a) \<subseteq> set (known_ids g a)) \<Longrightarrow>
    gstep service s (s\<lparr>gs_db := (gs_db s)\<lparr>pb_gov := g, pb_drafts := ds, pb_approvals := as\<rparr>\<rparr>)"

inductive greach :: "(config \<times> string) option \<Rightarrow> gsys \<Rightarrow> bool" for service where
  start: "gv_cache (gov_of s) = [] \<Longrightarrow> gv_group_members (gov_of s) = [] \<Longrightarrow> gv_exceptions (gov_of s) = [] \<Longrightarrow>
    pb_rollouts (gs_db s) = [] \<Longrightarrow> pb_versions (gs_db s) = [] \<Longrightarrow> greach service s"
| step: "greach service s \<Longrightarrow> gstep service s s' \<Longrightarrow> greach service s'"

section \<open>The invariant of the system\<close>

lemma rollback_row_commit:
  assumes "rollback_row hash clean t who authenticated reason confirm i x db = Inr db'"
  shows "\<exists>q change. commit_rollback hash t q change [finish_rollback who i x reason] db = Inr db'
    \<and> rb_account q = ro_account x \<and> rb_target q = ro_target x"
  using assms by (fastforce simp: rollback_row_def rollback_policy_def split: if_splits sum.splits)

lemma gov_step_intent:
  assumes "gov_inv g" and "commit_intent y g = Inr g'" and "request_consistent y"
  shows "gov_step now g g'"
proof (cases y)
  case (IEnd t who i what n)
  have "end_status what \<noteq> ExActive" by (cases what) auto
  with IEnd assms gov_step_end show ?thesis by auto
next
  case (IExpire t i)
  with assms gov_step_end [of g t system_actor i ExActive ExExpired None g'] show ?thesis by simp
qed (use assms gov_step_request gov_step_approve in auto)

lemma cache_inv_propagate:
  assumes inv: "cache_inv service now db" and "0 \<le> r" and "r \<in> set (known_ids (pb_gov db) a)"
  shows "cache_inv service now (fst (propagate_one service now (a, r) db))"
proof -
  let ?db = "on_gov (mark_syncing now a r) db"
  have m: "cache_inv service now ?db" using cache_inv_syncing [OF assms] .
  have known: "known_ids (pb_gov ?db) = known_ids (pb_gov db)"
    by (simp add: fun_eq_iff on_gov_def mark_syncing_def cache_update_def known_ids_def account_repositories_def repository_rows_def)
  show ?thesis
  proof (cases "resolve_in service now a r ?db")
    case (Inl e)
    then show ?thesis using cache_inv_mark [OF m] by (simp add: propagate_one_def Let_def)
  next
    case (Inr g)
    from cache_inv_store [OF m Inr assms(2)] assms(3) known show ?thesis
      by (simp add: propagate_one_def Let_def Inr)
  qed
qed

lemma cache_inv_gstep:
  assumes "gstep service s s'" and inv: "cache_inv service (gs_now s) (gs_db s)"
  shows "cache_inv service (gs_now s') (gs_db s')"
proof -
  have g: "gov_inv (gov_of s)" using inv by (simp add: cache_inv_def)
  note gov = cache_inv_gov [OF inv]
  from assms(1) show ?thesis
  proof cases
    case (tick t)
    from inv coherent_tick [OF _ tick(2)] show ?thesis by (simp add: cache_inv_def tick(1))
  next
    case update
    then show ?thesis using cache_inv_update [OF inv] by simp
  next
    case staged_update
    from cache_inv_update [OF inv staged_update(2)] show ?thesis by (simp add: staged_update(1)) blast
  next
    case rollback
    then show ?thesis using cache_inv_rollback [OF inv] by simp
  next
    case (rollback_rollout i x hash clean t who authenticated reason confirm db)
    from rollback_row_commit [OF rollback_rollout(3)] obtain q change where
      c: "commit_rollback hash t q change [finish_rollback who i x reason] (gs_db s) = Inr db"
      and q: "rb_account q = ro_account x" "rb_target q = ro_target x" by blast
    have "cache_inv service (gs_now s) db"
      by (rule cache_inv_rollback [OF inv c]) (use rollback_rollout(2) q in auto)
    then show ?thesis by (simp add: rollback_rollout(1))
  next
    case advance
    then show ?thesis using cache_inv_advance [OF inv] by simp
  next
    case pause
    then show ?thesis using cache_inv_pause [OF inv] by simp
  next
    case resume
    then show ?thesis using cache_inv_resume [OF inv] by simp
  next
    case exception
    then show ?thesis using gov [OF gov_step_intent [OF g]] by simp
  next
    case warn
    then show ?thesis using gov [OF gov_step_warn [OF g]] by simp
  next
    case settings
    then show ?thesis using gov [OF gov_step_settings [OF g]] by simp
  next
    case create
    then show ?thesis using gov [OF gov_step_create_group [OF g]] by simp
  next
    case archive
    then show ?thesis using gov [OF gov_step_archive [OF g _ refl]] by simp
  next
    case add_members
    then show ?thesis using gov [OF gov_step_add_members [OF g]] by simp
  next
    case remove_members
    then show ?thesis using gov [OF gov_step_remove_members [OF g]] by simp
  next
    case modes
    then show ?thesis using gov [OF gov_step_apply_modes [OF g]] by simp
  next
    case discover
    then show ?thesis using gov [OF gov_step_discovered [OF g]] by simp
  next
    case (resolve r a c db)
    show ?thesis
    proof (cases "cached (gs_now s) a r (gov_of s)")
      case None
      with resolve obtain x where "resolve_in service (gs_now s) a r (gs_db s) = Inr x"
        "db = on_gov (store_resolution a r x) (gs_db s)" by (auto simp: for_repository_def split: sum.splits)
      with cache_inv_store [OF inv this(1) resolve(2,3)] show ?thesis by (simp add: resolve(1))
    qed (use resolve inv in \<open>simp add: for_repository_def\<close>)
  next
    case propagated
    then show ?thesis using cache_inv_propagate [OF inv] by simp
  next
    case (world g ds as)
    then show ?thesis using cache_inv_world [OF inv] by simp
  qed
qed

lemma greach_inv: "greach service s \<Longrightarrow> cache_inv service (gs_now s) (gs_db s)"
proof (induction rule: greach.induct)
  case (start s)
  then show ?case by (simp add: cache_inv_def coherent_def cached_def gov_inv_def rollouts_inv_def)
next
  case (step s s')
  then show ?case by (simp add: cache_inv_gstep)
qed


section \<open>History\<close>

lemma keeps_versions_start [simp]: "keeps_versions (start_rollout order who i stages limits pause back)"
  unfolding keeps_versions_def using start_rollout_facts(3) by blast

lemma keeps_versions_finish [simp]: "keeps_versions (finish_rollback who i x reason)"
  by (auto simp: keeps_versions_def finish_rollback_def Let_def)

definition gapless :: "pub_db \<Rightarrow> bool" where
  "gapless db \<longleftrightarrow> (\<forall>a t. map pv_version (versions_of db a t) = [1..<length (versions_of db a t) + 1])"

lemma foldl_max_upt: "foldl max 0 [1..<Suc n] = n"
  by (induction n) auto

lemma gapless_max: "gapless db \<Longrightarrow> max_version db a t = length (versions_of db a t)"
  using foldl_max_upt [of "length (versions_of db a t)"] by (simp add: gapless_def max_version_def)

lemma gapless_add:
  assumes "gapless db" and "pb_versions db' = pb_versions db @ [row]"
    and "pv_version row = max_version db (pv_account row) (pv_target row) + 1"
  shows "gapless db'"
  unfolding gapless_def
proof (intro allI)
  fix a t
  have old: "map pv_version (versions_of db a t) = [1..<length (versions_of db a t) + 1]" using assms(1) by (simp add: gapless_def)
  have new: "versions_of db' a t = versions_of db a t @ (if pv_account row = a \<and> pv_target row = t then [row] else [])"
    by (simp add: versions_of_def assms(2))
  show "map pv_version (versions_of db' a t) = [1..<length (versions_of db' a t) + 1]"
    using old assms(3) gapless_max [OF assms(1)] by (simp add: new)
qed

definition extends_history :: "pub_db \<Rightarrow> pub_db \<Rightarrow> bool" where
  "extends_history db db' \<longleftrightarrow> pb_versions db' = pb_versions db
     \<or> (\<exists>row. pb_versions db' = pb_versions db @ [row] \<and> pv_version row = max_version db (pv_account row) (pv_target row) + 1)"

lemma extends_update:
  "commit_update hash t q change hooks db = Inr db' \<Longrightarrow> list_all keeps_versions hooks \<Longrightarrow> extends_history db db'"
  using commit_update_version(1) [of hash t q "fst change" "fst (snd change)" "snd (snd change)" hooks db db']
  by (fastforce simp: extends_history_def)

lemma extends_rollback:
  "commit_rollback hash t q change hooks db = Inr db' \<Longrightarrow> list_all keeps_versions hooks \<Longrightarrow> extends_history db db'"
  using commit_rollback_version(1) [of hash t q "fst change" "fst (snd change)" "fst (snd (snd change))" "snd (snd (snd change))"
      hooks db db']
  by (fastforce simp: extends_history_def)

lemma extends_same: "pb_versions db' = pb_versions db \<Longrightarrow> extends_history db db'"
  by (simp add: extends_history_def)

lemma gstep_history:
  assumes "gstep service s s'"
  shows "extends_history (gs_db s) (gs_db s')"
  using assms
proof cases
  case update
  then show ?thesis by (auto intro: extends_update)
next
  case staged_update
  then show ?thesis by (auto intro: extends_update)
next
  case rollback
  then show ?thesis by (auto intro: extends_rollback)
next
  case (rollback_rollout i x hash clean t who authenticated reason confirm db)
  from rollback_row_commit [OF rollback_rollout(3)] show ?thesis
    by (auto simp: rollback_rollout(1) intro: extends_rollback)
next
  case (advance p i x order t db)
  obtain db1 en fin where d: "advance_db order t i x (gs_db s) = (db1, en, fin)"
    by (cases "advance_db order t i x (gs_db s)") auto
  then have "pb_versions db = pb_versions (gs_db s)"
    using advance(3) advance_db_facts(2) [OF d] by (auto simp: commit_advance_def d split: option.splits if_splits)
  then show ?thesis by (simp add: advance(1) extends_same)
next
  case pause
  then show ?thesis by (auto simp: pause_row_def intro!: extends_same split: option.splits if_splits)
next
  case (resolve r a c db)
  then show ?thesis
    by (auto simp: for_repository_def on_gov_def intro!: extends_same split: option.splits sum.splits)
next
  case (propagated r a)
  then show ?thesis
    by (auto simp: propagate_one_def Let_def on_gov_def intro!: extends_same split: sum.splits)
qed (auto simp: commit_resume_def intro: extends_same)

lemma greach_gapless: "greach service s \<Longrightarrow> gapless (gs_db s)"
proof (induction rule: greach.induct)
  case (start s)
  then show ?case by (simp add: gapless_def versions_of_def)
next
  case (step s s')
  from gstep_history [OF step(2)] show ?case
    unfolding extends_history_def
  proof
    assume "pb_versions (gs_db s') = pb_versions (gs_db s)"
    then show ?thesis using step(3) by (simp add: gapless_def versions_of_def)
  next
    assume "\<exists>row. pb_versions (gs_db s') = pb_versions (gs_db s) @ [row]
      \<and> pv_version row = max_version (gs_db s) (pv_account row) (pv_target row) + 1"
    then show ?thesis using gapless_add [OF step(3)] by blast
  qed
qed

text \<open>C10: policy history is append-only and gapless. In every state the services reach, the versions of each policy are
  numbered 1, 2, 3 without gaps or repeats, and a step keeps every version as it was and adds at most one, the next
  of its policy: no interleaving loses, renumbers or rewrites a version.\<close>

theorem history_append_only:
  assumes "greach service s" and "gstep service s s'"
  shows "\<exists>new. pb_versions (gs_db s') = pb_versions (gs_db s) @ new \<and> length new \<le> 1
    \<and> map pv_version (versions_of (gs_db s') a t) = [1..<length (versions_of (gs_db s') a t) + 1]"
proof -
  have "gapless (gs_db s')" using greach_gapless greach.step assms by blast
  then have "map pv_version (versions_of (gs_db s') a t) = [1..<length (versions_of (gs_db s') a t) + 1]"
    by (simp add: gapless_def)
  with gstep_history [OF assms(2)] show ?thesis by (auto simp: extends_history_def)
qed

section \<open>Published floors\<close>

lemma map_of_floors:
  "distinct (map fst fs) \<Longrightarrow> map_of (fold (\<lambda>(k, a). AList.update k (f a)) fs acc) k
     = (case map_of fs k of None \<Rightarrow> map_of acc k | Some a \<Rightarrow> Some (f a))"
proof (induction fs arbitrary: acc)
  case (Cons e fs)
  obtain j b where e: "e = (j, b)" by (cases e)
  with Cons.prems have "map_of fs j = None" by (simp add: map_of_eq_None_iff)
  with Cons e show ?case by (simp add: update_conv split: option.split)
qed simp

lemma requirements_floor:
  assumes "distinct (map fst fs)" and "(k, a) \<in> set fs"
  shows "(k, \<lparr>rq_action = a, rq_enforcement = Mandatory\<rparr>) \<in> set (requirements (fs, ds))"
proof (rule map_of_SomeD)
  show "map_of (requirements (fs, ds)) k = Some \<lparr>rq_action = a, rq_enforcement = Mandatory\<rparr>"
    using assms map_of_floors [OF assms(1), of "\<lambda>a. \<lparr>rq_action = a, rq_enforcement = Mandatory\<rparr>" _ k]
    by (simp add: requirements_def)
qed

lemma version_layer:
  assumes "version_at db a t (repo_version db a t r) = Some v" and "gapless db"
    and "target_layer db a r t level label = Inr layer" and "(k, act) \<in> set (fst (row_actions (Some v)))"
  shows "\<exists>l. layer = Some l \<and> (k, \<lparr>rq_action = act, rq_enforcement = Mandatory\<rparr>) \<in> set (pl_rules l)"
proof -
  have "v \<in> set (versions_of db a t)" and n: "pv_version v = repo_version db a t r"
    using assms(1) by (auto simp: version_at_def find_Some_iff)
  then have "pv_version v \<in> set [1..<length (versions_of db a t) + 1]"
    using assms(2) unfolding gapless_def by (metis image_eqI list.set_map)
  then have "1 \<le> pv_version v" unfolding set_upt by simp
  with n have pos: "repo_version db a t r \<noteq> 0" by simp
  obtain fs ds where p: "parse_document (pv_document v) = Some (fs, ds)" "(k, act) \<in> set fs"
    using assms(4) by (auto simp: row_actions_def split: option.splits)
  have "distinct (map fst fs)" using row_actions_ok [of "Some v"] p(1) by (simp add: row_actions_def actions_ok_def)
  from requirements_floor [OF this p(2)] have f: "(k, \<lparr>rq_action = act, rq_enforcement = Mandatory\<rparr>) \<in> set (requirements (fs, ds))" .
  then have "requirements (fs, ds) \<noteq> []" by auto
  with assms(3) pos show ?thesis
    using f by (auto simp: target_layer_def policy_layer_of_def assms(1) p(1))
qed

lemma map_err_member: "map_err f xs = Inr ys \<Longrightarrow> x \<in> set xs \<Longrightarrow> \<exists>y \<in> set ys. f x = Inr y"
  by (induction xs arbitrary: ys) (auto split: sum.splits)

text \<open>The layer of an applicable version is among the resolved ones.\<close>

lemma resolved_layer:
  assumes "resolve_inputs service now a r db = Inr i" and "t \<in> targets (group_rows (pb_gov db) a r) r"
    and "version_at db a t (repo_version db a t r) = Some v" and "gapless db" and "(k, act) \<in> set (fst (row_actions (Some v)))"
  shows "\<exists>l \<in> set (gi_layers i). (k, \<lparr>rq_action = act, rq_enforcement = Mandatory\<rparr>) \<in> set (pl_rules l)"
proof -
  let ?rows = "group_rows (pb_gov db) a r"
  from assms(1) obtain l1 ls l3 where
    1: "target_layer db a r TgOrganization LvOrganization ''organization policy'' = Inr l1"
    and 2: "map_err (group_layer db a r) ?rows = Inr ls"
    and 3: "target_layer db a r (TgRepository (id_text r)) LvRepositoryPolicy ''repository policy'' = Inr l3"
    and i: "gi_layers i = option_list (service_layer service) @ baseline_layer (load_settings (pb_gov db) a)
                      @ option_list l1 @ concat ls @ option_list l3"
    by (auto simp: resolve_inputs_def Let_def split: sum.splits if_splits)
  note layer = version_layer [OF assms(3,4) _ assms(5)]
  from assms(2) consider "t = TgOrganization" | "t = TgRepository (id_text r)" | h row where "t = TgGroup h" "(h, row) \<in> set ?rows"
    by (auto simp: targets_def)
  then show ?thesis
  proof cases
    case 1
    with layer [of LvOrganization "''organization policy''" l1] \<open>target_layer db a r TgOrganization _ _ = _\<close>
    show ?thesis by (auto simp: i option_list_def)
  next
    case 2
    with layer [of LvRepositoryPolicy "''repository policy''" l3] 3 show ?thesis by (auto simp: i option_list_def)
  next
    case (3 h row)
    from map_err_member [OF \<open>map_err _ _ = _\<close> 3(2)] obtain y where y: "y \<in> set ls" "group_layer db a r (h, row) = Inr y" by blast
    then obtain l where "target_layer db a r (TgGroup h) LvGroup (''group '' @ label_of (gg_name row) @ '' policy'') = Inr l"
      "y = option_list l" by (auto simp: group_layer_def split: sum.splits)
    with layer 3(1) y(1) show ?thesis by (fastforce simp: i option_list_def)
  qed
qed

lemma resolve_inputs_sound:
  assumes "resolve_inputs service now a r db = Inr i"
  shows "inputs_ok i \<and> gi_exceptions i = active_grants (pb_gov db) a r (map fst (group_rows (pb_gov db) a r)) now"
proof -
  from assms obtain i' where i': "inputs_ok i'" "i' = i"
    "gi_exceptions i' = active_grants (pb_gov db) a r (map fst (group_rows (pb_gov db) a r)) now"
    unfolding resolve_inputs_def Let_def by (auto split: sum.splits if_splits)
  then show ?thesis by simp
qed


section \<open>Concrete runs\<close>

definition first_db :: pub_db where
  "first_db = \<lparr>pb_gov = rollout_gov, pb_versions = [], pb_drafts = [], pb_approvals = [], pb_rollouts = [], pb_enrolled = []\<rparr>"

definition first_state :: gsys where
  "first_state = \<lparr>gs_now = 0, gs_db = first_db\<rparr>"

definition floor_update :: update_request where
  "floor_update = \<lparr>ur_account = 1, ur_actor = system_actor, ur_authenticated_at = 0, ur_expected = 0,
     ur_floors = [(''ai_trailer'', BLOCK)], ur_defaults = None, ur_reason = None, ur_confirm = False,
     ur_target = TgOrganization, ur_draft = None, ur_emergency = False\<rparr>"

definition floor_document :: json where
  "floor_document = JObject [(''ai_trailer'', JText ''block'')]"

definition published_db :: pub_db where
  "published_db = (case commit_update id 0 floor_update (floor_document, [], None) [] first_db of Inl _ \<Rightarrow> first_db | Inr db \<Rightarrow> db)"

lemma publish_sample: "commit_update id 0 floor_update (floor_document, [], None) [] first_db = Inr published_db"
  by (simp add: published_db_def commit_update_def floor_update_def first_db_def target_known_def max_version_def
      versions_of_def Let_def on_policy_published_def)

lemma first_reach: "greach service first_state"
  by (rule greach.start) (simp_all add: first_state_def first_db_def rollout_gov_def)

lemma sample_step: "gstep service first_state (first_state\<lparr>gs_db := published_db\<rparr>)"
  by (rule gstep.update) (use publish_sample in \<open>simp add: first_state_def\<close>)

lemma published_reach: "greach service (first_state\<lparr>gs_db := published_db\<rparr>)"
  by (rule greach.step [OF first_reach sample_step])

lemma sample_versions: "\<exists>row. pb_versions published_db = [row] \<and> pv_account row = 1 \<and> pv_target row = TgOrganization
    \<and> pv_version row = 1 \<and> pv_document row = floor_document"
  using commit_update_version(1) [OF publish_sample]
  by (auto simp: first_db_def floor_update_def max_version_def versions_of_def)

lemma history_append_only_witness:
  "map pv_version (versions_of published_db 1 TgOrganization) = [1] \<and> length (pb_versions published_db) = 1"
proof -
  from history_append_only [OF first_reach sample_step, of 1 TgOrganization] sample_versions
  show ?thesis by (auto simp: versions_of_def first_state_def first_db_def)
qed

text \<open>The repository resolves to one layer, and the resolution is stored.\<close>

lemma floor_document_parses: "parse_document floor_document = Some ([(''ai_trailer'', BLOCK)], [])"
  by (simp add: floor_document_def parse_document_def known_policy_def KNOWN_POLICY_IDS_def DEFAULT_POLICIES_def mk_policy_def
      floor_action_def action_of_def)

lemma published_db_eq: "published_db = projr (commit_update id 0 floor_update (floor_document, [], None) [] first_db)"
  by (simp add: publish_sample)

lemma published_gov:
  "gv_cache (pb_gov published_db) = []" "gv_group_members (pb_gov published_db) = []" "gv_exceptions (pb_gov published_db) = []"
  "gv_settings (pb_gov published_db) = []" "gv_modes (pb_gov published_db) = []" "pb_rollouts published_db = []"
  unfolding published_db_eq
  by (simp_all add: commit_update_def floor_update_def first_db_def rollout_gov_def target_known_def max_version_def Let_def
      versions_of_def on_policy_published_def on_gov_def invalidate_scope_def invalidate_repositories_def log_event_def emit_notice_def)

lemma published_applies:
  "\<exists>v. version_at published_db 1 TgOrganization (repo_version published_db 1 TgOrganization 101) = Some v
    \<and> row_actions (Some v) = ([(''ai_trailer'', BLOCK)], [])"
proof -
  from sample_versions obtain row where row: "pb_versions published_db = [row]" "pv_account row = 1"
    "pv_target row = TgOrganization" "pv_version row = 1" "pv_document row = floor_document" by blast
  then show ?thesis
    by (simp add: repo_version_def version_for_def rollout_of_def published_gov max_version_def versions_of_def version_at_def
        row_actions_def floor_document_parses)
qed

definition floor_layer :: policy_layer where
  "floor_layer = \<lparr>pl_level = LvOrganization, pl_source_id = [], pl_label = ''organization policy v1'', pl_version = Some 1,
     pl_rules = [(''ai_trailer'', \<lparr>rq_action = BLOCK, rq_enforcement = Mandatory\<rparr>)]\<rparr>"

lemma floor_resolves:
  assumes "pb_versions db = pb_versions published_db" and "pb_rollouts db = []" and "gv_group_members (pb_gov db) = []"
    and "gv_exceptions (pb_gov db) = []" and "gv_settings (pb_gov db) = []"
    and "list_all layer_ok (option_list (service_layer service))"
  shows "\<exists>c. resolve_in service now 1 101 db = Inr c \<and> rs_valid_until c = None
    \<and> rs_inputs c = \<lparr>gi_layers = option_list (service_layer service) @ [floor_layer], gi_exceptions = [],
         gi_mode = governance_mode (pb_gov db) 1 101\<rparr>"
proof -
  from sample_versions obtain row where row: "pb_versions published_db = [row]" "pv_account row = 1"
    "pv_target row = TgOrganization" "pv_version row = 1" "pv_document row = floor_document" by blast
  have label: "label_of (digits (Suc 0)) = ''1''" "label_of [] = []" by code_simp+
  have load: "load_settings (pb_gov db) 1 = (0, DEFAULT_SETTINGS)" by (simp add: load_settings_def assms(5))
  have len: "length (option_list (service_layer service)) \<le> 1" by (simp add: option_list_def split: option.split)
  have ok: "layer_ok floor_layer"
    by (simp add: floor_layer_def layer_ok_def requirement_ok_def unknown_ids_def KNOWN_POLICY_IDS_def DEFAULT_POLICIES_def mk_policy_def)
  have layers: "(case service_layer service of None \<Rightarrow> [] | Some l \<Rightarrow> [l]) = option_list (service_layer service)"
    by (simp add: option_list_def)
  show ?thesis
    using row label assms load len ok unfolding resolve_in_def layers
    by (simp add: add_layer_def version_for_def rollout_of_def max_version_def versions_of_def
        policy_layer_of_def version_at_def floor_document_parses requirements_def version_label_def
        DEFAULT_SETTINGS_def baseline_layer_def group_rows_def active_grants_def
        inputs_ok_def MAX_LAYERS_def MAX_EXCEPTIONS_def earliest_def py_min_def Let_def map_filter_simps floor_layer_def)
qed

lemma published_resolves: "\<exists>c. resolve_in None 0 1 101 published_db = Inr c \<and> rs_valid_until c = None
    \<and> rs_inputs c = \<lparr>gi_layers = [floor_layer], gi_exceptions = [], gi_mode = Enforce\<rparr>"
  using floor_resolves [of published_db None 0]
  by (simp add: published_gov service_layer_def option_list_def governance_mode_def load_settings_def DEFAULT_SETTINGS_def)

definition sample_resolved :: resolved_governance where
  "sample_resolved = projr (resolve_in None 0 1 101 published_db)"

definition cached_state :: gsys where
  "cached_state = \<lparr>gs_now = 0, gs_db = on_gov (store_resolution 1 101 sample_resolved) published_db\<rparr>"

lemma sample_resolved:
  "resolve_in None 0 1 101 published_db = Inr sample_resolved" "rs_valid_until sample_resolved = None"
  "rs_inputs sample_resolved = \<lparr>gi_layers = [floor_layer], gi_exceptions = [], gi_mode = Enforce\<rparr>"
  using published_resolves by (auto simp: sample_resolved_def)

lemma sample_known_ids: "101 \<in> set (known_ids (pb_gov published_db) 1)"
proof -
  have "known_ids (pb_gov published_db) = known_ids rollout_gov"
    unfolding published_db_eq
    by (simp add: fun_eq_iff known_ids_def account_repositories_def repository_rows_def commit_update_def floor_update_def
        first_db_def target_known_def max_version_def Let_def versions_of_def on_policy_published_def on_gov_def
        invalidate_scope_def invalidate_repositories_def log_event_def emit_notice_def)
  moreover have "101 \<in> set (known_ids rollout_gov 1)" by code_simp
  ultimately show ?thesis by simp
qed

lemma sample_served: "for_repository None 0 1 101 published_db = Inr (sample_resolved, gs_db cached_state)"
  by (simp add: for_repository_def cached_def published_gov sample_resolved cached_state_def)

lemma cached_reach: "greach None cached_state"
proof (rule greach.step [OF published_reach])
  have "gstep None (first_state\<lparr>gs_db := published_db\<rparr>) (first_state\<lparr>gs_db := published_db\<rparr>\<lparr>gs_db := gs_db cached_state\<rparr>)"
    by (rule gstep.resolve [where a = 1 and r = 101 and c = sample_resolved])
      (use sample_known_ids sample_served in \<open>simp_all add: first_state_def\<close>)
  then show "gstep None (first_state\<lparr>gs_db := published_db\<rparr>) cached_state"
    by (simp add: first_state_def cached_state_def)
qed

lemma sample_cached: "cached 0 1 101 (gov_of cached_state) = Some sample_resolved"
  by (simp add: cached_state_def cached_def store_resolution_def update_conv still_valid_def sample_resolved on_gov_def)


text \<open>C18: a new operator policy does not reach cached repositories. There is a state the services reach, with a
  repository resolved under no operator policy, such that after a restart with an operator policy the resolver still
  serves the old inputs for it, while resolving it anew would add the operator's mandatory layer: nothing marks the
  cached rows when the operator's policy changes.\<close>

theorem operator_policy_not_invalidated:
  "\<exists>s service g g'. greach None s \<and> for_repository (Some service) (gs_now s) 1 101 (gs_db s) = Inr (g, gs_db s)
     \<and> resolve_in (Some service) (gs_now s) 1 101 (gs_db s) = Inr g'
     \<and> LvService \<in> pl_level ` set (gi_layers (rs_inputs g')) \<and> LvService \<notin> pl_level ` set (gi_layers (rs_inputs g))"
proof -
  let ?service = "(\<lparr>cfg_policies = [(''bot_identity'', \<lparr>ov_enabled = None, ov_action = Some BLOCK\<rparr>)],
     cfg_enforcement = no_enforcement, cfg_remediation = no_remediation\<rparr>, ''operator'')"
  have "for_repository (Some ?service) 0 1 101 (gs_db cached_state) = Inr (sample_resolved, gs_db cached_state)"
    using sample_cached by (simp add: for_repository_def)
  moreover have l: "\<exists>l. service_layer (Some ?service) = Some l \<and> pl_level l = LvService \<and> layer_ok l"
    by (simp add: service_layer_def or_builtin_def layer_ok_def requirement_ok_def unknown_ids_def KNOWN_POLICY_IDS_def
        DEFAULT_POLICIES_def mk_policy_def)
  then have "\<exists>g'. resolve_in (Some ?service) 0 1 101 (gs_db cached_state) = Inr g'
      \<and> LvService \<in> pl_level ` set (gi_layers (rs_inputs g'))"
    using floor_resolves [of "gs_db cached_state" "Some ?service" 0]
    by (fastforce simp: cached_state_def on_gov_def store_resolution_def published_gov option_list_def)
  moreover have "LvService \<notin> pl_level ` set (gi_layers (rs_inputs sample_resolved))"
    by (simp add: sample_resolved floor_layer_def)
  moreover have "gs_now cached_state = 0" by (simp add: cached_state_def)
  ultimately show ?thesis using cached_reach by metis
qed

text \<open>The floor again, with the repository in monitor mode.\<close>

definition monitored :: gsys where
  "monitored = first_state\<lparr>gs_db := published_db\<lparr>pb_gov := apply_modes 0 1 (Some Monitor) False [101] (pb_gov published_db)\<rparr>\<rparr>"

definition monitored_inputs :: inputs where
  "monitored_inputs = \<lparr>gi_layers = [floor_layer], gi_exceptions = [], gi_mode = Monitor\<rparr>"

lemma monitored_reach: "greach None monitored"
  unfolding monitored_def
  using greach.step [OF published_reach, OF gstep.modes [of _ _ 0 1 "Some Monitor" False "[101]"]] by simp

lemma monitored_policy:
  "policy_at (resolved monitored_inputs [weak_config]) ''ai_trailer'' \<in> set (ef_policies (resolved monitored_inputs [weak_config]))"
  "p_id (policy_at (resolved monitored_inputs [weak_config]) ''ai_trailer'') = ''ai_trailer''"
  "effective_action (policy_at (resolved monitored_inputs [weak_config]) ''ai_trailer'') < BLOCK"
  "inputs_ok monitored_inputs"
  by code_simp+

lemma monitored_resolves:
  "\<exists>c db'. for_repository None 0 1 101 (gs_db monitored) = Inr (c, db') \<and> rs_inputs c = monitored_inputs"
proof -
  have g: "gov_of monitored = (pb_gov published_db)\<lparr>gv_modes := [((1, 101), \<lparr>mo_onboarded = ''discovered'', mo_mode = Monitor\<rparr>)]\<rparr>"
    using sample_known_ids
    by (simp add: monitored_def apply_modes_def apply_mode_def mode_row_of_def published_gov load_settings_def DEFAULT_SETTINGS_def
        Let_def invalidate_repositories_def)
  have "governance_mode (gov_of monitored) 1 101 = Monitor" by (simp add: g governance_mode_def)
  moreover have "pb_versions (gs_db monitored) = pb_versions published_db" "pb_rollouts (gs_db monitored) = []"
    by (simp_all add: monitored_def published_gov)
  ultimately obtain c where "resolve_in None 0 1 101 (gs_db monitored) = Inr c" "rs_inputs c = monitored_inputs"
    using floor_resolves [of "gs_db monitored" None 0]
    by (auto simp: g published_gov service_layer_def option_list_def monitored_inputs_def)
  then show ?thesis by (simp add: for_repository_def g cached_def published_gov)
qed


end
