(* ===== verification/Workflow.thy ===== *)
theory Workflow
  imports Rollouts
begin

text \<open>
  The approval workflow in front of a publication (\<open>governance/workflow.py\<close>), with its routes (\<open>api/governance.py\<close>) and
  the direct save of a policy (\<open>put_policy\<close> of \<open>api/app.py\<close>): parsing of the target and the rules, and creating, editing,
  submitting, deciding, cancelling and publishing a draft. A handler reads and checks first (\<open>check\<close>) and writes what
  it read in a later transaction (\<open>commit\<close>). Login names are display text and are left out. \<open>is_digit\<close> and \<open>decimal\<close>
  are \<open>str.isdigit\<close> and the value \<open>int\<close> gives to a character, from Python's Unicode database.
\<close>

section \<open>Requests\<close>

text \<open>A JSON value where a text or an integer is expected; a Boolean is neither.\<close>

datatype json_field = JfNull | JfText ustr | JfInt int | JfOther

definition repository_target :: "int \<Rightarrow> policy_target" where
  "repository_target n = TgRepository (if n < 0 then 45 # digits (nat (- n)) else digits (nat n))"

definition decimal_value :: "(nat \<Rightarrow> nat option) \<Rightarrow> ustr \<Rightarrow> nat option" where
  "decimal_value decimal s =
     foldl (\<lambda>n c. case (n, decimal c) of (Some m, Some d) \<Rightarrow> Some (10 * m + d) | _ \<Rightarrow> None) (Some 0) s"

text \<open>\<open>isdigit\<close> also holds of characters that \<open>int\<close> refuses, such as superscripts: then \<open>int\<close> raises.\<close>

definition parse_target ::
  "(nat \<Rightarrow> bool) \<Rightarrow> (nat \<Rightarrow> nat option) \<Rightarrow> json_field \<Rightarrow> json_field \<Rightarrow> cp_error + policy_target" where
  "parse_target is_digit decimal target_type target_ref =
     (if target_type = JfText (asc ''organization'')
      then (if target_ref = JfNull \<or> target_ref = JfText [] then Inr TgOrganization else Inl (InvalidInput ''target_id''))
      else if target_type = JfText (asc ''group'')
      then (case target_ref of
              JfText g \<Rightarrow> if is_hex_id g then Inr (TgGroup g) else Inl (InvalidInput ''target_id'')
            | _ \<Rightarrow> Inl (InvalidInput ''target_id''))
      else if target_type = JfText (asc ''repository'')
      then (case target_ref of
              JfInt n \<Rightarrow> Inr (repository_target n)
            | JfText s \<Rightarrow>
                if s \<noteq> [] \<and> list_all is_digit s \<and> length s < 17
                then (case decimal_value decimal s of None \<Rightarrow> Inl Unhandled | Some n \<Rightarrow> Inr (repository_target (int n)))
                else Inl (InvalidInput ''target_id'')
            | _ \<Rightarrow> Inl (InvalidInput ''target_id''))
      else Inl (InvalidInput ''target_type''))"

text \<open>\<open>body.get(...) or {}\<close>: every value that Python counts as false sets nothing.\<close>

definition json_falsy :: "json \<Rightarrow> bool" where
  "json_falsy v \<longleftrightarrow> v = JText [] \<or> v = JObject []
     \<or> v \<in> set (map JOther [''null'', ''false'', ''0'', ''0.0'', ''-0.0'', ''[]''])"

definition or_empty :: "json option \<Rightarrow> json" where
  "or_empty v = (case v of None \<Rightarrow> JObject [] | Some x \<Rightarrow> if json_falsy x then JObject [] else x)"

definition parse_rules :: "json option \<Rightarrow> json option \<Rightarrow> cp_error + actions \<times> actions" where
  "parse_rules floors_raw defaults_raw =
     (case validate_floors (or_empty floors_raw) of Inl e \<Rightarrow> Inl e | Inr floors \<Rightarrow>
      case validate_defaults (or_empty defaults_raw) of Inl e \<Rightarrow> Inl e | Inr defaults \<Rightarrow>
        if list_ex (\<lambda>k. k \<in> set (map fst defaults)) (map fst floors) then Inl (InvalidInput ''defaults'')
        else if floors = [] \<and> defaults = [] then Inl (InvalidInput ''floors'')
        else Inr (floors, defaults))"

section \<open>Targets and drafts\<close>

definition target_label :: "gov_db \<Rightarrow> int \<Rightarrow> policy_target \<Rightarrow> ustr option" where
  "target_label db account target =
     (case target of
        TgOrganization \<Rightarrow> Some (asc ''Organization'')
      | TgGroup g \<Rightarrow>
          (case map_of (gv_groups db) g of None \<Rightarrow> None | Some r \<Rightarrow>
             if gg_account r = account \<and> \<not> gg_archived r then Some (asc ''Group '' @ gg_name r) else None)
      | TgRepository r \<Rightarrow>
          if \<not> all_digits r then None
          else map_option (\<lambda>k. full_name (kr_owner k) (kr_name k))
            (py_max kr_last_seen_at (filter (\<lambda>k. kr_repository_id k = digits_value r
               \<and> list_ex (\<lambda>i. in_id i = kr_installation_id k \<and> in_account_id i = account) (gv_installations db)) (gv_known db))))"

definition require_target_access :: "gov_db \<Rightarrow> principal \<Rightarrow> int \<Rightarrow> policy_target \<Rightarrow> cp_error + ustr" where
  "require_target_access db p account target =
     (case target_label db account target of None \<Rightarrow> Inl NotFound | Some label \<Rightarrow>
        (case target of
           TgRepository r \<Rightarrow> if digits_value r \<in> set (visible_repositories db p account) then Inr label else Inl NotFound
         | _ \<Rightarrow> Inr label))"

definition authorized_draft :: "principal \<Rightarrow> string \<Rightarrow> permission \<Rightarrow> pub_db \<Rightarrow> cp_error + draft_row" where
  "authorized_draft p i permission db =
     (if \<not> is_hex_id (asc i) then Inl NotFound
      else case map_of (pb_drafts db) i of None \<Rightarrow> Inl NotFound | Some d \<Rightarrow>
        (case require p PoliciesRead (dr_account d) of Inl e \<Rightarrow> Inl e | Inr _ \<Rightarrow>
         case require_target_access (pb_gov db) p (dr_account d) (dr_target d) of Inl e \<Rightarrow> Inl e | Inr _ \<Rightarrow>
           if can p permission (dr_account d) then Inr d else Inl PermissionDenied))"

definition update_draft :: "string \<Rightarrow> (draft_row \<Rightarrow> draft_row) \<Rightarrow> pub_db \<Rightarrow> pub_db" where
  "update_draft i f db = db\<lparr>pb_drafts := map (\<lambda>(j, d). (j, if j = i then f d else d)) (pb_drafts db)\<rparr>"

text \<open>\<open>UPDATE policy_approvals ... WHERE draft_id = ? AND status IN ...\<close>\<close>

definition update_approvals ::
  "string \<Rightarrow> approval_status list \<Rightarrow> (approval_row \<Rightarrow> approval_row) \<Rightarrow> pub_db \<Rightarrow> pub_db" where
  "update_approvals i states f db =
     db\<lparr>pb_approvals := map (\<lambda>(j, a). (j, if ap_draft a = i \<and> ap_status a \<in> set states then f a else a)) (pb_approvals db)\<rparr>"

definition pending_approval :: "pub_db \<Rightarrow> string \<Rightarrow> (string \<times> approval_row) option" where
  "pending_approval db i = find (\<lambda>(_, a). ap_draft a = i \<and> ap_status a = ApPending) (pb_approvals db)"

definition open_draft :: "draft_state \<Rightarrow> bool" where
  "open_draft s \<longleftrightarrow> s = DrDraft \<or> s = DrPending \<or> s = DrApproved"

definition editable :: "draft_state \<Rightarrow> bool" where
  "editable s \<longleftrightarrow> s = DrDraft \<or> s = DrApproved \<or> s = DrRejected"

definition MAX_OPEN_DRAFTS :: nat where "MAX_OPEN_DRAFTS = 50"

definition MAX_NAME_CHARS :: nat where "MAX_NAME_CHARS = 100"

definition or_text :: "ustr option \<Rightarrow> ustr \<Rightarrow> ustr" where
  "or_text t d = (case t of None \<Rightarrow> d | Some x \<Rightarrow> if x = [] then d else x)"

section \<open>Creating\<close>

definition check_create ::
  "(nat \<Rightarrow> bool) \<Rightarrow> (nat \<Rightarrow> nat option) \<Rightarrow> (string \<Rightarrow> string) \<Rightarrow> (nat \<Rightarrow> ustr \<Rightarrow> ustr) \<Rightarrow> int \<Rightarrow> principal \<Rightarrow> int
     \<Rightarrow> json_field \<Rightarrow> json_field \<Rightarrow> actions \<Rightarrow> actions \<Rightarrow> ustr option \<Rightarrow> ustr option \<Rightarrow> pub_db \<Rightarrow> cp_error + draft_row" where
  "check_create is_digit decimal hash clean now p account target_type target_ref floors defaults title reason db =
     (case require p PoliciesWrite account of Inl e \<Rightarrow> Inl e | Inr _ \<Rightarrow>
      case parse_target is_digit decimal target_type target_ref of Inl e \<Rightarrow> Inl e | Inr target \<Rightarrow>
      case require_target_access (pb_gov db) p account target of Inl e \<Rightarrow> Inl e | Inr label \<Rightarrow>
      case text_field clean ''title'' MAX_NAME_CHARS False title of Inl e \<Rightarrow> Inl e | Inr name \<Rightarrow>
      case text_field clean ''reason'' MAX_REASON_CHARS False reason of Inl e \<Rightarrow> Inl e | Inr why \<Rightarrow>
      case canonical_document floors defaults of Inl e \<Rightarrow> Inl e | Inr doc \<Rightarrow>
        if MAX_DOCUMENT_BYTES < length (json_text doc) then Inl (InvalidInput [])
        else Inr \<lparr>dr_account = account, dr_target = target, dr_base_version = current_version db account target,
               dr_document = doc, dr_fingerprint = hash (json_text doc),
               dr_title = or_text name (label @ asc '' policy change''), dr_reason = why, dr_state = DrDraft,
               dr_revision = 1, dr_created_by = pr_user_id p, dr_updated_at = now, dr_submitted_at = None,
               dr_submitted_by = None, dr_published_version = None, dr_published_at = None, dr_emergency = False,
               dr_rollout = None\<rparr>)"

definition commit_create :: "principal \<Rightarrow> string \<Rightarrow> draft_row \<Rightarrow> pub_db \<Rightarrow> cp_error + pub_db" where
  "commit_create p i d db =
     (if MAX_OPEN_DRAFTS \<le> length (filter (\<lambda>(_, x). dr_account x = dr_account d \<and> open_draft (dr_state x)) (pb_drafts db))
      then Inl Conflict
      else if map_of (pb_drafts db) i \<noteq> None then Inl StoreIntegrity
      else Inr (on_gov (log_event (DraftCreated (user_actor (pr_user_id p) (pr_login p)) (dr_account d) i (dr_base_version d)))
        (db\<lparr>pb_drafts := pb_drafts db @ [(i, d)]\<rparr>)))"

section \<open>Editing\<close>

record draft_edit =
  de_document :: json
  de_title :: ustr
  de_reason :: "ustr option"
  de_base :: nat
  de_revision :: int

text \<open>\<open>None\<close> for the revision is a value that is not an integer. The row read and the values to write.\<close>

definition check_edit ::
  "(nat \<Rightarrow> ustr \<Rightarrow> ustr) \<Rightarrow> principal \<Rightarrow> string \<Rightarrow> int option \<Rightarrow> (actions \<times> actions) option \<Rightarrow> ustr option \<Rightarrow> ustr option
     \<Rightarrow> bool \<Rightarrow> pub_db \<Rightarrow> cp_error + draft_row \<times> draft_edit" where
  "check_edit clean p i expected rules title reason rebase db =
     (case authorized_draft p i PoliciesWrite db of Inl e \<Rightarrow> Inl e | Inr d \<Rightarrow>
        if \<not> editable (dr_state d) then Inl Conflict
        else case expected of None \<Rightarrow> Inl (InvalidInput ''expected_revision'') | Some revision \<Rightarrow>
        (case parse_document (dr_document d) of None \<Rightarrow> Inl Unhandled | Some current \<Rightarrow>
         case canonical_document (fst (case rules of None \<Rightarrow> current | Some r \<Rightarrow> r))
                (snd (case rules of None \<Rightarrow> current | Some r \<Rightarrow> r)) of Inl e \<Rightarrow> Inl e | Inr doc \<Rightarrow>
           if MAX_DOCUMENT_BYTES < length (json_text doc) then Inl (InvalidInput [])
           else (case text_field clean ''title'' MAX_NAME_CHARS False title of Inl e \<Rightarrow> Inl e | Inr name \<Rightarrow>
             case (case reason of None \<Rightarrow> Inr (dr_reason d)
                   | Some _ \<Rightarrow> text_field clean ''reason'' MAX_REASON_CHARS False reason) of Inl e \<Rightarrow> Inl e | Inr why \<Rightarrow>
               Inr (d, \<lparr>de_document = doc, de_title = or_text name (dr_title d), de_reason = why,
                       de_base = (if rebase then current_version db (dr_account d) (dr_target d) else dr_base_version d),
                       de_revision = revision\<rparr>))))"

definition commit_edit ::
  "(string \<Rightarrow> string) \<Rightarrow> int \<Rightarrow> principal \<Rightarrow> string \<Rightarrow> draft_row \<times> draft_edit \<Rightarrow> pub_db \<Rightarrow> cp_error + pub_db" where
  "commit_edit hash now p i change db =
     (case change of (d, e) \<Rightarrow>
      case map_of (pb_drafts db) i of None \<Rightarrow> Inl Conflict | Some current \<Rightarrow>
        if dr_revision current \<noteq> de_revision e \<or> \<not> editable (dr_state current) then Inl Conflict
        else Inr (on_gov (log_event (DraftUpdated (user_actor (pr_user_id p) (pr_login p)) (dr_account d) i
                            (nat (dr_revision d + 1)) (de_base e) (de_base e \<noteq> dr_base_version d)))
          (update_approvals i [ApPending, ApApproved] (\<lambda>a. a\<lparr>ap_status := ApCancelled, ap_decided_at := Some now,
              ap_reason := Some (asc ''draft edited after approval'')\<rparr>)
            (update_draft i (\<lambda>x. x\<lparr>dr_document := de_document e, dr_fingerprint := hash (json_text (de_document e)),
                dr_title := de_title e, dr_reason := de_reason e, dr_base_version := de_base e, dr_state := DrDraft,
                dr_revision := dr_revision x + 1, dr_updated_at := now\<rparr>) db))))"

section \<open>Submitting\<close>

definition check_submit :: "principal \<Rightarrow> string \<Rightarrow> pub_db \<Rightarrow> cp_error + draft_row" where
  "check_submit p i db =
     (case authorized_draft p i PoliciesWrite db of Inl e \<Rightarrow> Inl e | Inr d \<Rightarrow>
        if dr_state d \<noteq> DrDraft then Inl Conflict
        else if target_label (pb_gov db) (dr_account d) (dr_target d) = None then Inl NotFound else Inr d)"

text \<open>The request for approval has the fingerprint of the row that was read; a draft has one pending request at most.\<close>

definition commit_submit :: "int \<Rightarrow> principal \<Rightarrow> string \<Rightarrow> string \<Rightarrow> draft_row \<Rightarrow> pub_db \<Rightarrow> cp_error + pub_db" where
  "commit_submit now p i approval d db =
     (case map_of (pb_drafts db) i of None \<Rightarrow> Inl Conflict | Some current \<Rightarrow>
        if dr_state current \<noteq> DrDraft then Inl Conflict
        else if map_of (pb_approvals db) approval \<noteq> None \<or> pending_approval db i \<noteq> None then Inl StoreIntegrity
        else (let db1 = update_draft i (\<lambda>x. x\<lparr>dr_state := DrPending, dr_submitted_at := Some now,
                          dr_submitted_by := Some (pr_user_id p), dr_updated_at := now\<rparr>) db;
                  row = \<lparr>ap_draft = i, ap_account = dr_account d, ap_fingerprint = dr_fingerprint d,
                         ap_requested_by = pr_user_id p, ap_requested_at = now, ap_status = ApPending,
                         ap_decided_by = None, ap_decided_at = None, ap_reason = None\<rparr>
              in Inr (on_gov (emit_notice (NoApprovalRequested (dr_account d) approval)
                    \<circ> log_event (DraftSubmitted (user_actor (pr_user_id p) (pr_login p)) (dr_account d) i approval))
                   (db1\<lparr>pb_approvals := pb_approvals db1 @ [(approval, row)]\<rparr>))))"

section \<open>Deciding\<close>

definition check_decide ::
  "(nat \<Rightarrow> ustr \<Rightarrow> ustr) \<Rightarrow> principal \<Rightarrow> string \<Rightarrow> bool \<Rightarrow> ustr option \<Rightarrow> pub_db \<Rightarrow> cp_error + draft_row \<times> ustr option" where
  "check_decide clean p i approve reason db =
     (case authorized_draft p i PoliciesApprove db of Inl e \<Rightarrow> Inl e | Inr d \<Rightarrow>
        if dr_state d \<noteq> DrPending then Inl Conflict
        else if st_separate_approver (snd (load_settings (pb_gov db) (dr_account d)))
          \<and> (pr_user_id p = dr_created_by d \<or> dr_submitted_by d = Some (pr_user_id p)) then Inl PermissionDenied
        else map_sum id (Pair d) (text_field clean ''reason'' MAX_REASON_CHARS (\<not> approve) reason))"

definition commit_decide ::
  "int \<Rightarrow> principal \<Rightarrow> string \<Rightarrow> bool \<Rightarrow> draft_row \<times> ustr option \<Rightarrow> pub_db \<Rightarrow> cp_error + pub_db" where
  "commit_decide now p i approve change db =
     (case change of (d, why) \<Rightarrow>
      case pending_approval db i of None \<Rightarrow> Inl Conflict | Some (j, a) \<Rightarrow>
        if ap_fingerprint a \<noteq> dr_fingerprint d then Inl Conflict
        else (let decided = db\<lparr>pb_approvals := map (\<lambda>(k, x). (k, if k = j \<and> ap_status x = ApPending
                  then x\<lparr>ap_status := if approve then ApApproved else ApRejected, ap_decided_by := Some (pr_user_id p),
                         ap_decided_at := Some now, ap_reason := why\<rparr> else x)) (pb_approvals db)\<rparr>
              in Inr (on_gov (log_event (DraftDecided approve (user_actor (pr_user_id p) (pr_login p)) (dr_account d) i j why))
                   (update_draft i (\<lambda>x. if dr_state x = DrPending
                      then x\<lparr>dr_state := if approve then DrApproved else DrRejected, dr_updated_at := now\<rparr> else x) decided))))"

section \<open>Cancelling\<close>

definition check_cancel :: "principal \<Rightarrow> string \<Rightarrow> pub_db \<Rightarrow> cp_error + draft_row" where
  "check_cancel p i db =
     (case authorized_draft p i PoliciesWrite db of Inl e \<Rightarrow> Inl e | Inr d \<Rightarrow>
        if dr_state d = DrPublished \<or> dr_state d = DrCancelled then Inl Conflict else Inr d)"

definition commit_cancel :: "int \<Rightarrow> principal \<Rightarrow> string \<Rightarrow> draft_row \<Rightarrow> pub_db \<Rightarrow> pub_db" where
  "commit_cancel now p i d db =
     on_gov (log_event (DraftCancelled (user_actor (pr_user_id p) (pr_login p)) (dr_account d) i))
       (update_approvals i [ApPending] (\<lambda>a. a\<lparr>ap_status := ApCancelled, ap_decided_at := Some now,
            ap_reason := Some (asc ''draft cancelled'')\<rparr>)
         (update_draft i (\<lambda>x. if dr_state x \<noteq> DrPublished then x\<lparr>dr_state := DrCancelled, dr_updated_at := now\<rparr> else x) db))"

section \<open>Publishing\<close>

text \<open>\<open>mark_published\<close>: the hook inside the publication. Its \<open>UPDATE\<close> names the draft only.\<close>

definition mark_published :: "int \<Rightarrow> string \<Rightarrow> bool \<Rightarrow> publish_hook option \<Rightarrow> publish_hook" where
  "mark_published now i emergency rollout u db =
     (let db1 = update_draft i (\<lambda>x. x\<lparr>dr_state := DrPublished, dr_published_version := Some (pu_version u),
                  dr_published_at := Some now, dr_emergency := emergency, dr_updated_at := now\<rparr>) db
      in case rollout of None \<Rightarrow> Inr db1 | Some h \<Rightarrow>
        (case h u db1 of Inl e \<Rightarrow> Inl e | Inr db2 \<Rightarrow>
           Inr (update_draft i (\<lambda>x. x\<lparr>dr_rollout := map_option fst (find (\<lambda>(_, r). ro_account r = pu_account u
                  \<and> ro_target r = pu_target u \<and> ro_to r = pu_version u) (pb_rollouts db2))\<rparr>) db2)))"

definition publish_request :: "principal \<Rightarrow> string \<Rightarrow> bool \<Rightarrow> bool \<Rightarrow> draft_row \<Rightarrow> ustr option \<Rightarrow> actions \<times> actions \<Rightarrow> update_request" where
  "publish_request p i emergency confirm d why fd =
     \<lparr>ur_account = dr_account d, ur_actor = user_actor (pr_user_id p) (pr_login p),
      ur_authenticated_at = pr_authenticated_at p, ur_expected = int (dr_base_version d), ur_floors = fst fd,
      ur_defaults = Some (snd fd),
      ur_reason = (case why of None \<Rightarrow> dr_reason d | Some t \<Rightarrow> if t = [] then dr_reason d else Some t),
      ur_confirm = confirm, ur_target = dr_target d, ur_draft = Some i, ur_emergency = emergency\<rparr>"

definition check_publish ::
  "(nat \<Rightarrow> ustr \<Rightarrow> ustr) \<Rightarrow> principal \<Rightarrow> string \<Rightarrow> bool \<Rightarrow> bool \<Rightarrow> ustr option \<Rightarrow> pub_db \<Rightarrow> cp_error + draft_row \<times> update_request" where
  "check_publish clean p i emergency confirm reason db =
     (case authorized_draft p i (if emergency then PoliciesEmergency else PoliciesPublish) db of Inl e \<Rightarrow> Inl e | Inr d \<Rightarrow>
        if \<not> open_draft (dr_state d) then Inl Conflict
        else if st_require_approval (snd (load_settings (pb_gov db) (dr_account d))) \<and> dr_state d \<noteq> DrApproved \<and> \<not> emergency
        then Inl ApprovalRequired
        else (case text_field clean ''reason'' MAX_REASON_CHARS emergency reason of Inl e \<Rightarrow> Inl e | Inr why \<Rightarrow>
              case parse_document (dr_document d) of None \<Rightarrow> Inl Unhandled | Some fd \<Rightarrow>
                Inr (d, publish_request p i emergency confirm d why fd)))"

text \<open>\<open>put_policy\<close>, the direct save: refused while the organization requires approval.\<close>

definition check_save ::
  "principal \<Rightarrow> int \<Rightarrow> int \<Rightarrow> json option \<Rightarrow> json option \<Rightarrow> ustr option \<Rightarrow> bool \<Rightarrow> pub_db \<Rightarrow> cp_error + update_request" where
  "check_save p account expected floors defaults reason confirm db =
     (case require p PoliciesWrite account of Inl e \<Rightarrow> Inl e | Inr _ \<Rightarrow>
        if expected < 0 then Inl (InvalidInput ''expected_version'')
        else if (case reason of None \<Rightarrow> False | Some t \<Rightarrow> MAX_REASON_CHARS < length t) then Inl (InvalidInput ''reason'')
        else if st_require_approval (snd (load_settings (pb_gov db) account)) then Inl ApprovalRequired
        else (case validate_floors (case floors of None \<Rightarrow> json_null | Some v \<Rightarrow> v) of Inl e \<Rightarrow> Inl e | Inr fs \<Rightarrow>
              case (case defaults of None \<Rightarrow> Inr None
                    | Some v \<Rightarrow> if v = json_null then Inr None else map_sum id Some (validate_defaults v)) of Inl e \<Rightarrow> Inl e | Inr ds \<Rightarrow>
                Inr \<lparr>ur_account = account, ur_actor = user_actor (pr_user_id p) (pr_login p),
                     ur_authenticated_at = pr_authenticated_at p, ur_expected = expected, ur_floors = fs, ur_defaults = ds,
                     ur_reason = reason, ur_confirm = confirm, ur_target = TgOrganization, ur_draft = None,
                     ur_emergency = False\<rparr>))"

section \<open>Documents stay canonical\<close>

definition canonical :: "json \<Rightarrow> bool" where
  "canonical doc \<longleftrightarrow> (case parse_document doc of None \<Rightarrow> False | Some (fs, ds) \<Rightarrow> canonical_document fs ds = Inr doc)"

lemma set_of_map_of:
  assumes "distinct (map fst xs)" and "distinct (map fst ys)" and "map_of xs = map_of ys"
  shows "set xs = set ys"
proof -
  have "(k, v) \<in> set xs \<longleftrightarrow> (k, v) \<in> set ys" for k v
    using assms by (metis map_of_eq_Some_iff)
  then show ?thesis by auto
qed

lemma sort_key_unique:
  assumes "distinct (map fst xs)" and "distinct (map fst ys)" and "set xs = set ys"
  shows "sort_key fst xs = (sort_key fst ys :: ('k :: linorder \<times> 'v) list)"
proof -
  have "sorted (map fst (sort_key fst xs))" "sorted (map fst (sort_key fst ys))" by simp_all
  moreover have "distinct (map fst (sort_key fst xs))" "distinct (map fst (sort_key fst ys))"
    using assms by (simp_all add: distinct_map)
  moreover have "map fst (sort_key fst xs) = map fst (sort_key fst ys)"
  proof (rule map_sorted_distinct_set_unique [where f = id])
    show "inj_on id (set (map fst (sort_key fst xs)) \<union> set (map fst (sort_key fst ys)))" by simp
    show "set (map fst (sort_key fst xs)) = set (map fst (sort_key fst ys))" using assms(3) by simp
  qed (use calculation in simp_all)
  moreover have "map snd (sort_key fst xs) = map snd (sort_key fst ys)"
  proof -
    have *: "map_of (sort_key fst xs) = map_of (sort_key fst ys)"
      using assms calculation by (intro map_of_inject_set [THEN iffD2]) simp_all
    have "map snd zs = map (\<lambda>k. the (map_of zs k)) (map fst zs)" if "distinct (map fst zs)" for zs :: "('k \<times> 'v) list"
      using that by (auto intro!: map_cong simp: comp_def)
    then show ?thesis using calculation * by metis
  qed
  ultimately show ?thesis by (metis pair_list_eqI)
qed

lemma parse_document_ok:
  assumes "parse_document doc = Some (fs, ds)"
  shows "actions_ok floor_action fs" "actions_ok (\<lambda>_. True) ds"
  using row_actions_ok [of "Some \<lparr>pv_account = 0, pv_target = TgOrganization, pv_version = 0, pv_document = doc,
      pv_fingerprint = [], pv_at = 0, pv_by = system_actor, pv_reason = None, pv_kind = VkChange, pv_rollback_of = None,
      pv_restored = None, pv_draft = None, pv_emergency = False\<rparr>"] assms
  by (simp_all add: row_actions_def)

lemma canonical_written:
  assumes "actions_ok floor_action fs" and "actions_ok (\<lambda>_. True) ds" and "canonical_document fs ds = Inr doc"
  shows "canonical doc"
proof -
  have disj: "set (map fst fs) \<inter> set (map fst ds) = {}"
    using assms(3) by (auto simp: canonical_document_def split: if_splits)
  from document_written [OF assms(1,2) disj assms(3)] obtain fs' ds' where
    p: "parse_document doc = Some (fs', ds')" "map_of fs' = map_of fs" "map_of ds' = map_of ds" by blast
  note ok = parse_document_ok [OF p(1)]
  have sets: "set fs' = set fs" "set ds' = set ds"
    using set_of_map_of p ok assms by (auto simp: actions_ok_def)
  let ?es = "\<lambda>fs ds. map (\<lambda>(k, a). (k, JText (action_value a))) fs @ map (\<lambda>(k, a). (k, default_entry a)) ds"
  have keys: "map fst (?es x y) = map fst x @ map fst y" for x y by (simp add: case_prod_beta)
  have "distinct (map fst (?es fs ds))" "distinct (map fst (?es fs' ds'))"
    unfolding keys using assms ok disj sets by (auto simp: actions_ok_def)
  moreover have "set (?es fs' ds') = set (?es fs ds)" using sets by simp
  ultimately have "sort_key fst (?es fs' ds') = sort_key fst (?es fs ds)" by (intro sort_key_unique) auto
  then have "canonical_document fs' ds' = canonical_document fs ds"
    using sets disj by (auto simp: canonical_document_def)
  then show ?thesis using p(1) assms(3) by (simp add: canonical_def)
qed

lemma validate_actions_ok:
  "validate_actions field ok kvs acc = Inr fs \<Longrightarrow> actions_ok ok acc \<Longrightarrow> actions_ok ok fs"
proof (induction field ok kvs acc rule: validate_actions.induct)
  case (2 field ok k v kvs acc)
  then show ?case by (auto split: if_splits json.splits option.splits intro: actions_ok_update)
qed simp

lemma parse_rules_ok:
  assumes "parse_rules fr dr = Inr (fs, ds)"
  shows "actions_ok floor_action fs" "actions_ok (\<lambda>_. True) ds"
  using assms
  by (auto simp: parse_rules_def validate_floors_def validate_defaults_def actions_ok_def [of _ "[]"]
      split: sum.splits json.splits if_splits intro: validate_actions_ok [where acc = "[]"])

section \<open>The tables after each transaction\<close>

lemma update_draft_simps [simp]:
  "map_of (pb_drafts (update_draft i f db)) j = (if j = i then map_option f (map_of (pb_drafts db) j) else map_of (pb_drafts db) j)"
  "pb_approvals (update_draft i f db) = pb_approvals db" "pb_versions (update_draft i f db) = pb_versions db"
  "pb_gov (update_draft i f db) = pb_gov db" "pb_rollouts (update_draft i f db) = pb_rollouts db"
proof -
  have "map_of (map (\<lambda>(j, d). (j, if j = i then f d else d)) xs) j = (if j = i then map_option f (map_of xs j) else map_of xs j)"
    for xs :: "(string \<times> draft_row) list" by (induction xs) auto
  then show "map_of (pb_drafts (update_draft i f db)) j
      = (if j = i then map_option f (map_of (pb_drafts db) j) else map_of (pb_drafts db) j)"
    by (simp add: update_draft_def)
qed (simp_all add: update_draft_def)

lemma update_approvals_simps [simp]:
  "pb_drafts (update_approvals i ss f db) = pb_drafts db" "pb_versions (update_approvals i ss f db) = pb_versions db"
  "pb_gov (update_approvals i ss f db) = pb_gov db"
  by (simp_all add: update_approvals_def)

lemma in_update_approvals:
  "(j, x) \<in> set (pb_approvals (update_approvals i ss f db)) \<longleftrightarrow>
     (\<exists>a. (j, a) \<in> set (pb_approvals db) \<and> x = (if ap_draft a = i \<and> ap_status a \<in> set ss then f a else a))"
proof -
  have "(j, x) \<in> set (map (\<lambda>(j, a). (j, g a)) xs) \<longleftrightarrow> (\<exists>a. (j, a) \<in> set xs \<and> x = g a)" for g and xs :: "(string \<times> approval_row) list"
    by (induction xs) auto
  then show ?thesis by (simp add: update_approvals_def)
qed

lemma start_rollout_keeps:
  assumes "start_rollout order who r stages limits pause back u db = Inr db'"
  shows "pb_drafts db' = pb_drafts db" "pb_approvals db' = pb_approvals db" "pb_versions db' = pb_versions db"
  using assms by (auto simp: start_rollout_def Let_def enroll_stage_def enroll_def split: policy_target.splits if_splits)

text \<open>A hook that starts a rollout, or none.\<close>

definition rollout_hook :: "publish_hook option \<Rightarrow> bool" where
  "rollout_hook h \<longleftrightarrow> h = None \<or> (\<exists>order who r stages limits pause back. h = Some (start_rollout order who r stages limits pause back))"

lemma mark_published_facts:
  assumes "mark_published now i em h u db = Inr db'" and "rollout_hook h"
  shows "pb_approvals db' = pb_approvals db" "pb_versions db' = pb_versions db"
    and "\<exists>f. (\<forall>d. dr_state (f d) = DrPublished \<and> dr_document (f d) = dr_document d \<and> dr_fingerprint (f d) = dr_fingerprint d
          \<and> dr_created_by (f d) = dr_created_by d \<and> dr_account (f d) = dr_account d)
        \<and> map_of (pb_drafts db') = (\<lambda>j. if j = i then map_option f (map_of (pb_drafts db) j) else map_of (pb_drafts db) j)"
proof -
  let ?f = "\<lambda>x. x\<lparr>dr_state := DrPublished, dr_published_version := Some (pu_version u),
                  dr_published_at := Some now, dr_emergency := em, dr_updated_at := now\<rparr>"
  consider (plain) "db' = update_draft i ?f db"
    | (staged) g db2 where "db' = update_draft i g db2" "\<exists>n. g = (\<lambda>x. x\<lparr>dr_rollout := n\<rparr>)"
        "pb_drafts db2 = pb_drafts (update_draft i ?f db)" "pb_approvals db2 = pb_approvals db" "pb_versions db2 = pb_versions db"
    using assms start_rollout_keeps
    by (fastforce simp: mark_published_def rollout_hook_def Let_def split: option.splits sum.splits)
  then have "pb_approvals db' = pb_approvals db \<and> pb_versions db' = pb_versions db
    \<and> (\<exists>f. (\<forall>d. dr_state (f d) = DrPublished \<and> dr_document (f d) = dr_document d \<and> dr_fingerprint (f d) = dr_fingerprint d
          \<and> dr_created_by (f d) = dr_created_by d \<and> dr_account (f d) = dr_account d)
        \<and> map_of (pb_drafts db') = (\<lambda>j. if j = i then map_option f (map_of (pb_drafts db) j) else map_of (pb_drafts db) j))"
  proof cases
    case plain
    then show ?thesis by (auto simp: fun_eq_iff intro!: exI [of _ ?f])
  next
    case staged
    then obtain n where g: "g = (\<lambda>x. x\<lparr>dr_rollout := n\<rparr>)" by blast
    show ?thesis
      using staged by (auto simp: fun_eq_iff g option.map_comp comp_def intro!: exI [of _ "g \<circ> ?f"])
  qed
  then show "pb_approvals db' = pb_approvals db" "pb_versions db' = pb_versions db"
    and "\<exists>f. (\<forall>d. dr_state (f d) = DrPublished \<and> dr_document (f d) = dr_document d \<and> dr_fingerprint (f d) = dr_fingerprint d
          \<and> dr_created_by (f d) = dr_created_by d \<and> dr_account (f d) = dr_account d)
        \<and> map_of (pb_drafts db') = (\<lambda>j. if j = i then map_option f (map_of (pb_drafts db) j) else map_of (pb_drafts db) j)"
    by blast+
qed

lemma commit_update_told:
  assumes "commit_update hash t q (doc, changes, why) hooks db = Inr db'"
  shows "\<exists>row u db1. fold_err (\<lambda>h. h u) hooks db1 = Inr db' \<and> pb_drafts db1 = pb_drafts db \<and> pb_approvals db1 = pb_approvals db
    \<and> pb_versions db1 = pb_versions db @ [row] \<and> pv_account row = ur_account q \<and> pv_draft row = ur_draft q
    \<and> pv_emergency row = ur_emergency q \<and> pv_fingerprint row = hash (json_text doc) \<and> pv_document row = doc
    \<and> pv_target row = ur_target q \<and> pv_kind row = VkChange"
  using assms
  by (fastforce simp: commit_update_def on_policy_published_def Let_def split: if_splits)

section \<open>Targets\<close>

text \<open>A label exists exactly for the targets of the account that a publication accepts.\<close>

lemma target_known_label: "target_known db account target \<longleftrightarrow> target_label db account target \<noteq> None"
proof (cases target)
  case (TgRepository r)
  show ?thesis
    by (auto simp: TgRepository target_known_def target_label_def list_ex_iff filter_empty_conv simp del: not_None_eq)
qed (auto simp: target_known_def target_label_def open_group_def split: option.splits)

text \<open>A repository given as a text of at most 16 characters that all count as digits, one of which \<open>int\<close> refuses,
  raises in the handler instead of being refused.\<close>

lemma superscript_target_unhandled:
  assumes "is_digit c" and "decimal c = None"
  shows "parse_target is_digit decimal (JfText (asc ''repository'')) (JfText [c]) = Inl Unhandled"
  using assms by (simp add: parse_target_def decimal_value_def str_eval)

text \<open>A draft cancelled after its publication was checked is published all the same.\<close>

lemma cancelled_draft_is_published:
  assumes "map_of (pb_drafts db) i = Some d" and "dr_state d = DrCancelled"
    and "commit_update hash t q change [mark_published t i emergency None] db = Inr db'"
  shows "\<exists>d'. map_of (pb_drafts db') i = Some d' \<and> dr_state d' = DrPublished"
proof -
  obtain doc changes why where ch: "change = (doc, changes, why)" by (cases change) auto
  from commit_update_told [OF assms(3) [unfolded ch]] obtain u db1 where
    m: "fold_err (\<lambda>h. h u) [mark_published t i emergency None] db1 = Inr db'" and d: "pb_drafts db1 = pb_drafts db" by blast
  from m have "mark_published t i emergency None u db1 = Inr db'" by (simp split: sum.splits)
  with assms(1) d show ?thesis using mark_published_facts(3) [of t i emergency None u db1 db'] by (auto simp: rollout_hook_def)
qed

end
