(* ===== verification/Approval_Safety.thy ===== *)
theory Approval_Safety
  imports Workflow
begin

text \<open>
  The approval workflow as a system: requests whose checks and transactions interleave, what holds of drafts, approvals
  and published versions in every state it reaches, a run of it, and the run that gets a document published nobody
  approved, which is possible because a request for approval is written from a stale read.
\<close>

section \<open>The workflow as a system\<close>

text \<open>A handler that has checked but not yet written is an intent; intents are committed in any order, later or never.
  Submitting is one step here (see \<open>stale_requests_publish_unseen\<close> for what happens otherwise).\<close>

datatype wintent =
    WCreate principal draft_row
  | WEdit principal string "draft_row \<times> draft_edit"
  | WDecide principal string bool "draft_row \<times> ustr option"
  | WCancel principal string draft_row
  | WPublish string bool update_request
  | WSave update_request

record wsys =
  ws_db :: pub_db
  ws_intents :: "wintent list"

abbreviation add_wintent :: "wintent \<Rightarrow> wsys \<Rightarrow> wsys" where
  "add_wintent x s \<equiv> s\<lparr>ws_intents := x # ws_intents s\<rparr>"

fun commit_wintent :: "(string \<Rightarrow> string) \<Rightarrow> int \<Rightarrow> string \<Rightarrow> wintent \<Rightarrow> pub_db \<Rightarrow> cp_error + pub_db" where
  "commit_wintent hash t i (WCreate p d) db = commit_create p i d db"
| "commit_wintent hash t _ (WEdit p i change) db = commit_edit hash t p i change db"
| "commit_wintent hash t _ (WDecide p i approve change) db = commit_decide t p i approve change db"
| "commit_wintent hash t _ (WCancel p i d) db = Inr (commit_cancel t p i d db)"
| "commit_wintent hash t _ _ db = Inr db"

text \<open>What the other services write: they do not touch drafts and approvals, and their versions are rollbacks.\<close>

definition other_service :: "pub_db \<Rightarrow> pub_db \<Rightarrow> bool" where
  "other_service db db' \<longleftrightarrow> pb_drafts db' = pb_drafts db \<and> pb_approvals db' = pb_approvals db
     \<and> (\<exists>new. pb_versions db' = pb_versions db @ new \<and> (\<forall>v \<in> set new. pv_kind v = VkRollback))"

inductive wstep ::
  "(nat \<Rightarrow> bool) \<Rightarrow> (nat \<Rightarrow> nat option) \<Rightarrow> (string \<Rightarrow> string) \<Rightarrow> (nat \<Rightarrow> ustr \<Rightarrow> ustr) \<Rightarrow> wsys \<Rightarrow> wsys \<Rightarrow> bool"
  for is_digit decimal hash clean where
  create: "parse_rules fr dr = Inr (fs, ds) \<Longrightarrow>
    check_create is_digit decimal hash clean t p account tt ti fs ds title reason (ws_db s) = Inr d \<Longrightarrow>
    wstep is_digit decimal hash clean s (add_wintent (WCreate p d) s)"
| edit: "(\<And>fd. rules = Some fd \<Longrightarrow> \<exists>fr dr. parse_rules fr dr = Inr fd) \<Longrightarrow>
    check_edit clean p i expected rules title reason rebase (ws_db s) = Inr change \<Longrightarrow>
    wstep is_digit decimal hash clean s (add_wintent (WEdit p i change) s)"
| submit: "check_submit p i (ws_db s) = Inr d \<Longrightarrow> commit_submit t p i j d (ws_db s) = Inr db \<Longrightarrow>
    wstep is_digit decimal hash clean s (s\<lparr>ws_db := db\<rparr>)"
| decide: "check_decide clean p i approve reason (ws_db s) = Inr change \<Longrightarrow>
    wstep is_digit decimal hash clean s (add_wintent (WDecide p i approve change) s)"
| cancel: "check_cancel p i (ws_db s) = Inr d \<Longrightarrow> wstep is_digit decimal hash clean s (add_wintent (WCancel p i d) s)"
| publish: "check_publish clean p i emergency confirm reason (ws_db s) = Inr (d, q) \<Longrightarrow>
    wstep is_digit decimal hash clean s (add_wintent (WPublish i emergency q) s)"
| save: "check_save p account expected floors defaults reason confirm (ws_db s) = Inr q \<Longrightarrow>
    wstep is_digit decimal hash clean s (add_wintent (WSave q) s)"
| commit: "x \<in> set (ws_intents s) \<Longrightarrow> commit_wintent hash t i x (ws_db s) = Inr db \<Longrightarrow>
    wstep is_digit decimal hash clean s (s\<lparr>ws_db := db, ws_intents := remove1 x (ws_intents s)\<rparr>)"
| published: "WPublish i emergency q \<in> set (ws_intents s) \<Longrightarrow> check_update clean t0 q db0 = Inr change \<Longrightarrow>
    rollout_hook h \<Longrightarrow> commit_update hash t q change [mark_published t i emergency h] (ws_db s) = Inr db \<Longrightarrow>
    wstep is_digit decimal hash clean s (s\<lparr>ws_db := db, ws_intents := remove1 (WPublish i emergency q) (ws_intents s)\<rparr>)"
| saved: "WSave q \<in> set (ws_intents s) \<Longrightarrow> check_update clean t0 q db0 = Inr change \<Longrightarrow>
    commit_update hash t q change [] (ws_db s) = Inr db \<Longrightarrow>
    wstep is_digit decimal hash clean s (s\<lparr>ws_db := db, ws_intents := remove1 (WSave q) (ws_intents s)\<rparr>)"
| other: "other_service (ws_db s) db \<Longrightarrow> wstep is_digit decimal hash clean s (s\<lparr>ws_db := db\<rparr>)"

text \<open>An account whose settings require approval by someone else all along.\<close>

definition strict_account :: "int \<Rightarrow> pub_db \<Rightarrow> bool" where
  "strict_account a db \<longleftrightarrow> st_require_approval (snd (load_settings (pb_gov db) a))
     \<and> st_separate_approver (snd (load_settings (pb_gov db) a))"

inductive wreach ::
  "(nat \<Rightarrow> bool) \<Rightarrow> (nat \<Rightarrow> nat option) \<Rightarrow> (string \<Rightarrow> string) \<Rightarrow> (nat \<Rightarrow> ustr \<Rightarrow> ustr) \<Rightarrow> int \<Rightarrow> wsys \<Rightarrow> bool"
  for is_digit decimal hash clean account where
  start: "pb_drafts (ws_db s) = [] \<Longrightarrow> pb_approvals (ws_db s) = [] \<Longrightarrow> pb_versions (ws_db s) = [] \<Longrightarrow>
    ws_intents s = [] \<Longrightarrow> strict_account account (ws_db s) \<Longrightarrow> wreach is_digit decimal hash clean account s"
| step: "wreach is_digit decimal hash clean account s \<Longrightarrow> wstep is_digit decimal hash clean s s' \<Longrightarrow>
    strict_account account (ws_db s') \<Longrightarrow> wreach is_digit decimal hash clean account s'"

section \<open>Approvals are what is published\<close>

text \<open>Someone other than \<open>creator\<close> approved the document with this fingerprint for the draft.\<close>

definition endorsed :: "pub_db \<Rightarrow> string \<Rightarrow> string \<Rightarrow> int \<Rightarrow> bool" where
  "endorsed db i fp creator \<longleftrightarrow> (\<exists>(j, a) \<in> set (pb_approvals db). ap_draft a = i \<and> ap_fingerprint a = fp
     \<and> (ap_status a = ApApproved \<or> ap_status a = ApCancelled) \<and> (\<exists>u. ap_decided_by a = Some u \<and> u \<noteq> creator))"

definition intact :: "(string \<Rightarrow> string) \<Rightarrow> draft_row \<Rightarrow> bool" where
  "intact hash d \<longleftrightarrow> dr_fingerprint d = hash (json_text (dr_document d)) \<and> canonical (dr_document d)"

definition draft_is :: "pub_db \<Rightarrow> string \<Rightarrow> int \<Rightarrow> int \<Rightarrow> bool" where
  "draft_is db i account creator \<longleftrightarrow>
     (\<exists>d. map_of (pb_drafts db) i = Some d \<and> dr_account d = account \<and> dr_created_by d = creator)"

text \<open>An update request that publishes exactly the approved document.\<close>

definition publishes :: "(string \<Rightarrow> string) \<Rightarrow> int \<Rightarrow> pub_db \<Rightarrow> string \<Rightarrow> bool \<Rightarrow> update_request \<Rightarrow> bool" where
  "publishes hash a db i emergency q \<longleftrightarrow> ur_draft q = Some i \<and> ur_emergency q = emergency
     \<and> (\<exists>doc ds c. ur_defaults q = Some ds \<and> canonical_document (ur_floors q) ds = Inr doc
          \<and> draft_is db i (ur_account q) c
          \<and> (ur_account q = a \<longrightarrow> \<not> emergency \<longrightarrow> endorsed db i (hash (json_text doc)) c))"

definition wintent_sound :: "(string \<Rightarrow> string) \<Rightarrow> int \<Rightarrow> pub_db \<Rightarrow> wintent \<Rightarrow> bool" where
  "wintent_sound hash a db y \<longleftrightarrow> (case y of
       WCreate p d \<Rightarrow> intact hash d \<and> dr_state d = DrDraft
     | WEdit p i (d, e) \<Rightarrow> canonical (de_document e)
     | WDecide p i approve (d, why) \<Rightarrow> draft_is db i (dr_account d) (dr_created_by d)
         \<and> (dr_account d = a \<longrightarrow> pr_user_id p \<noteq> dr_created_by d)
     | WCancel p i d \<Rightarrow> True
     | WPublish i emergency q \<Rightarrow> publishes hash a db i emergency q
     | WSave q \<Rightarrow> ur_account q \<noteq> a)"

definition version_endorsed :: "int \<Rightarrow> pub_db \<Rightarrow> version_row \<Rightarrow> bool" where
  "version_endorsed a db v \<longleftrightarrow> (pv_account v = a \<and> pv_kind v = VkChange \<longrightarrow>
     (\<exists>i c. pv_draft v = Some i \<and> draft_is db i a c \<and> (pv_emergency v \<or> endorsed db i (pv_fingerprint v) c)))"

definition draft_sound :: "(string \<Rightarrow> string) \<Rightarrow> int \<Rightarrow> pub_db \<Rightarrow> string \<Rightarrow> draft_row \<Rightarrow> bool" where
  "draft_sound hash a db i d \<longleftrightarrow> intact hash d
     \<and> (dr_account d = a \<longrightarrow> dr_state d = DrApproved \<longrightarrow> endorsed db i (dr_fingerprint d) (dr_created_by d))"

definition pending_sound :: "pub_db \<Rightarrow> bool" where
  "pending_sound db \<longleftrightarrow> (\<forall>(j, a) \<in> set (pb_approvals db). ap_status a = ApPending \<longrightarrow>
     (\<exists>d. map_of (pb_drafts db) (ap_draft a) = Some d \<and> ap_fingerprint a = dr_fingerprint d))"

definition winv :: "(string \<Rightarrow> string) \<Rightarrow> int \<Rightarrow> wsys \<Rightarrow> bool" where
  "winv hash a s \<longleftrightarrow>
     (\<forall>i d. map_of (pb_drafts (ws_db s)) i = Some d \<longrightarrow> draft_sound hash a (ws_db s) i d)
     \<and> pending_sound (ws_db s)
     \<and> (\<forall>y \<in> set (ws_intents s). wintent_sound hash a (ws_db s) y)
     \<and> (\<forall>v \<in> set (pb_versions (ws_db s)). version_endorsed a (ws_db s) v)"

text \<open>Drafts keep their account and creator, and an approval given stays on record.\<close>

definition grows :: "pub_db \<Rightarrow> pub_db \<Rightarrow> bool" where
  "grows db db' \<longleftrightarrow> (\<forall>i a c. draft_is db i a c \<longrightarrow> draft_is db' i a c) \<and> (\<forall>i fp c. endorsed db i fp c \<longrightarrow> endorsed db' i fp c)"

lemma growsD: "grows db db' \<Longrightarrow> draft_is db i a c \<Longrightarrow> draft_is db' i a c" "grows db db' \<Longrightarrow> endorsed db i fp c \<Longrightarrow> endorsed db' i fp c"
  by (simp_all add: grows_def)

lemma wintent_sound_grows: "wintent_sound hash a db y \<Longrightarrow> grows db db' \<Longrightarrow> wintent_sound hash a db' y"
  using growsD by (cases y) (fastforce simp: wintent_sound_def publishes_def)+

lemma version_endorsed_grows: "version_endorsed a db v \<Longrightarrow> grows db db' \<Longrightarrow> version_endorsed a db' v"
  using growsD unfolding version_endorsed_def by blast

lemma winvD:
  assumes "winv hash a s"
  shows "map_of (pb_drafts (ws_db s)) i = Some d \<Longrightarrow> draft_sound hash a (ws_db s) i d" and "pending_sound (ws_db s)"
    and "y \<in> set (ws_intents s) \<Longrightarrow> wintent_sound hash a (ws_db s) y"
    and "v \<in> set (pb_versions (ws_db s)) \<Longrightarrow> version_endorsed a (ws_db s) v"
  using assms by (simp_all add: winv_def)

lemma winvI:
  assumes inv: "winv hash a s" and grows: "grows (ws_db s) (ws_db s')"
    and "\<And>i d. map_of (pb_drafts (ws_db s')) i = Some d \<Longrightarrow> draft_sound hash a (ws_db s') i d"
    and "pending_sound (ws_db s')"
    and intents: "\<And>y. y \<in> set (ws_intents s') \<Longrightarrow> y \<in> set (ws_intents s) \<or> wintent_sound hash a (ws_db s') y"
    and versions: "\<And>v. v \<in> set (pb_versions (ws_db s')) \<Longrightarrow> v \<in> set (pb_versions (ws_db s)) \<or> version_endorsed a (ws_db s') v"
  shows "winv hash a s'"
  unfolding winv_def
proof (intro conjI allI ballI impI)
  show "wintent_sound hash a (ws_db s') y" if "y \<in> set (ws_intents s')" for y
    using intents [OF that] winvD(3) [OF inv] wintent_sound_grows grows by blast
  show "version_endorsed a (ws_db s') v" if "v \<in> set (pb_versions (ws_db s'))" for v
    using versions [OF that] winvD(4) [OF inv] version_endorsed_grows grows by blast
qed (use assms in blast)+

lemma draft_sound_grows: "draft_sound hash a db i d \<Longrightarrow> grows db db' \<Longrightarrow> draft_sound hash a db' i d"
  using growsD by (fastforce simp: draft_sound_def)

lemma growsI:
  assumes "\<And>i d. map_of (pb_drafts db) i = Some d \<Longrightarrow>
      \<exists>d'. map_of (pb_drafts db') i = Some d' \<and> dr_account d' = dr_account d \<and> dr_created_by d' = dr_created_by d"
    and "\<And>j x. (j, x) \<in> set (pb_approvals db) \<Longrightarrow> ap_status x = ApApproved \<or> ap_status x = ApCancelled \<Longrightarrow>
      \<exists>x'. (j, x') \<in> set (pb_approvals db') \<and> ap_draft x' = ap_draft x \<and> ap_fingerprint x' = ap_fingerprint x
        \<and> ap_decided_by x' = ap_decided_by x \<and> (ap_status x' = ApApproved \<or> ap_status x' = ApCancelled)"
  shows "grows db db'"
  unfolding grows_def
proof (intro conjI allI impI)
  show "draft_is db' i a c" if "draft_is db i a c" for i a c
    using that assms(1) by (fastforce simp: draft_is_def)
  show "endorsed db' i fp c" if e: "endorsed db i fp c" for i fp c
  proof -
    from e obtain j x u where x: "(j, x) \<in> set (pb_approvals db)" "ap_draft x = i" "ap_fingerprint x = fp"
      "ap_status x = ApApproved \<or> ap_status x = ApCancelled" "ap_decided_by x = Some u" "u \<noteq> c"
      by (auto simp: endorsed_def)
    from assms(2) [OF x(1,4)] x show ?thesis by (force simp: endorsed_def)
  qed
qed

lemma draft_sound_at:
  assumes "winv hash a s" and "grows (ws_db s) db'"
    and look: "map_of (pb_drafts db') = (\<lambda>k. if k = i then new else map_of (pb_drafts (ws_db s)) k)"
    and "\<And>x. new = Some x \<Longrightarrow> draft_sound hash a db' i x" and "map_of (pb_drafts db') k = Some x"
  shows "draft_sound hash a db' k x"
proof (cases "k = i")
  case False
  then show ?thesis using assms(5) draft_sound_grows [OF winvD(1) [OF assms(1)] assms(2)] by (simp add: look)
qed (use assms(4,5) in \<open>simp add: look\<close>)

lemma drafts_kept_at:
  assumes "map_of (pb_drafts db') = (\<lambda>k. if k = i then map_option f (map_of (pb_drafts db) k) else map_of (pb_drafts db) k)"
    and "\<And>x. dr_account (f x) = dr_account x \<and> dr_created_by (f x) = dr_created_by x" and "map_of (pb_drafts db) k = Some d"
  shows "\<exists>d'. map_of (pb_drafts db') k = Some d' \<and> dr_account d' = dr_account d \<and> dr_created_by d' = dr_created_by d"
  using assms by (cases "k = i") auto

lemma pending_sound_at:
  assumes "pending_sound db" and "map_of (pb_drafts db') = (\<lambda>k. if k = i then new else map_of (pb_drafts db) k)"
    and "\<And>j x. (j, x) \<in> set (pb_approvals db') \<Longrightarrow> ap_status x = ApPending \<Longrightarrow>
      (j, x) \<in> set (pb_approvals db) \<and> ap_draft x \<noteq> i
      \<or> ap_draft x = i \<and> (\<exists>d. new = Some d \<and> ap_fingerprint x = dr_fingerprint d)"
  shows "pending_sound db'"
  unfolding pending_sound_def
proof (clarify)
  fix j x assume x: "(j, x) \<in> set (pb_approvals db')" "ap_status x = ApPending"
  from assms(3) [OF this] assms(1) x(2)
  show "\<exists>d. map_of (pb_drafts db') (ap_draft x) = Some d \<and> ap_fingerprint x = dr_fingerprint d"
    by (auto simp: assms(2) pending_sound_def)
qed

lemma cancelled_itself:
  assumes "x = x\<lparr>ap_status := ApCancelled, ap_decided_at := t, ap_reason := r\<rparr>"
  shows "ap_status x = ApCancelled"
  by (subst assms) simp

lemma winv_create:
  assumes inv: "winv hash a s" and c: "commit_create p i d (ws_db s) = Inr db" and d: "intact hash d" "dr_state d = DrDraft"
    and ys: "set ys \<subseteq> set (ws_intents s)"
  shows "winv hash a (s\<lparr>ws_db := db, ws_intents := ys\<rparr>)"
proof (rule winvI [OF inv])
  from c have t: "map_of (pb_drafts (ws_db s)) i = None" "pb_drafts db = pb_drafts (ws_db s) @ [(i, d)]"
    "pb_approvals db = pb_approvals (ws_db s)" "pb_versions db = pb_versions (ws_db s)"
    by (auto simp: commit_create_def split: if_splits)
  have look: "map_of (pb_drafts db) k = (if k = i then Some d else map_of (pb_drafts (ws_db s)) k)" for k
    using t(1) by (auto simp: t(2) map_add_def split: option.split)
  show g: "grows (ws_db s) (ws_db (s\<lparr>ws_db := db, ws_intents := ys\<rparr>))" using t by (auto intro!: growsI simp: look)
  show "draft_sound hash a (ws_db (s\<lparr>ws_db := db, ws_intents := ys\<rparr>)) k x"
    if "map_of (pb_drafts (ws_db (s\<lparr>ws_db := db, ws_intents := ys\<rparr>))) k = Some x" for k x
    by (rule draft_sound_at [OF inv g, of i "Some d"]) (use that d in \<open>auto simp: look draft_sound_def\<close>)
  show "pending_sound (ws_db (s\<lparr>ws_db := db, ws_intents := ys\<rparr>))"
    using winvD(2) [OF inv] t(1) by (fastforce simp: pending_sound_def t(3) look)
qed (use ys c in \<open>auto simp: commit_create_def split: if_splits\<close>)

lemma winv_edit:
  assumes inv: "winv hash a s" and c: "commit_edit hash t p i (d, e) (ws_db s) = Inr db" and e: "canonical (de_document e)"
    and ys: "set ys \<subseteq> set (ws_intents s)"
  shows "winv hash a (s\<lparr>ws_db := db, ws_intents := ys\<rparr>)"
proof (rule winvI [OF inv])
  let ?f = "\<lambda>x. x\<lparr>dr_document := de_document e, dr_fingerprint := hash (json_text (de_document e)),
                dr_title := de_title e, dr_reason := de_reason e, dr_base_version := de_base e, dr_state := DrDraft,
                dr_revision := dr_revision x + 1, dr_updated_at := t\<rparr>"
  let ?g = "\<lambda>a. a\<lparr>ap_status := ApCancelled, ap_decided_at := Some t, ap_reason := Some (asc ''draft edited after approval'')\<rparr>"
  from c have t: "map_of (pb_drafts db) = (\<lambda>k. if k = i then map_option ?f (map_of (pb_drafts (ws_db s)) k) else map_of (pb_drafts (ws_db s)) k)"
    "pb_approvals db = pb_approvals (update_approvals i [ApPending, ApApproved] ?g (ws_db s))"
    "pb_versions db = pb_versions (ws_db s)"
    by (auto simp: commit_edit_def fun_eq_iff update_approvals_def split: if_splits option.splits)
  show g: "grows (ws_db s) (ws_db (s\<lparr>ws_db := db, ws_intents := ys\<rparr>))"
  proof (rule growsI)
    fix j x assume "(j, x) \<in> set (pb_approvals (ws_db s))" "ap_status x = ApApproved \<or> ap_status x = ApCancelled"
    then show "\<exists>x'. (j, x') \<in> set (pb_approvals (ws_db (s\<lparr>ws_db := db, ws_intents := ys\<rparr>))) \<and> ap_draft x' = ap_draft x
        \<and> ap_fingerprint x' = ap_fingerprint x \<and> ap_decided_by x' = ap_decided_by x
        \<and> (ap_status x' = ApApproved \<or> ap_status x' = ApCancelled)"
      by (intro exI [of _ "if ap_draft x = i \<and> ap_status x \<in> set [ApPending, ApApproved] then ?g x else x"])
        (auto simp: t(2) in_update_approvals)
  qed (use drafts_kept_at [OF t(1)] in simp)
  show "draft_sound hash a (ws_db (s\<lparr>ws_db := db, ws_intents := ys\<rparr>)) k x"
    if "map_of (pb_drafts (ws_db (s\<lparr>ws_db := db, ws_intents := ys\<rparr>))) k = Some x" for k x
    by (rule draft_sound_at [OF inv g, of i "map_option ?f (map_of (pb_drafts (ws_db s)) i)"])
      (use that e in \<open>auto simp: t(1) draft_sound_def intact_def\<close>)
  show "pending_sound (ws_db (s\<lparr>ws_db := db, ws_intents := ys\<rparr>))"
    by (rule pending_sound_at [OF winvD(2) [OF inv], of _ i "map_option ?f (map_of (pb_drafts (ws_db s)) i)"])
      (auto simp: t(1,2) in_update_approvals split: if_splits dest: cancelled_itself)
qed (use ys c in \<open>auto simp: commit_edit_def split: if_splits option.splits\<close>)

lemma winv_submit:
  assumes inv: "winv hash a s" and d: "check_submit p i (ws_db s) = Inr d"
    and c: "commit_submit t p i j d (ws_db s) = Inr db"
  shows "winv hash a (s\<lparr>ws_db := db\<rparr>)"
proof (rule winvI [OF inv])
  let ?f = "\<lambda>x. x\<lparr>dr_state := DrPending, dr_submitted_at := Some t, dr_submitted_by := Some (pr_user_id p), dr_updated_at := t\<rparr>"
  from d have now: "map_of (pb_drafts (ws_db s)) i = Some d"
    by (auto simp: check_submit_def authorized_draft_def split: if_splits option.splits sum.splits)
  from c have t: "map_of (pb_drafts db) = (\<lambda>k. if k = i then map_option ?f (map_of (pb_drafts (ws_db s)) k) else map_of (pb_drafts (ws_db s)) k)"
    "pb_versions db = pb_versions (ws_db s)"
    "\<exists>row. pb_approvals db = pb_approvals (ws_db s) @ [(j, row)] \<and> ap_draft row = i \<and> ap_fingerprint row = dr_fingerprint d"
    by (auto simp: commit_submit_def fun_eq_iff Let_def split: if_splits option.splits)
  show g: "grows (ws_db s) (ws_db (s\<lparr>ws_db := db\<rparr>))" using t by (fastforce intro!: growsI)
  show "draft_sound hash a (ws_db (s\<lparr>ws_db := db\<rparr>)) k x" if "map_of (pb_drafts (ws_db (s\<lparr>ws_db := db\<rparr>))) k = Some x" for k x
    by (rule draft_sound_at [OF inv g, of i "map_option ?f (map_of (pb_drafts (ws_db s)) i)"])
      (use that winvD(1) [OF inv] in \<open>auto simp: t(1) draft_sound_def intact_def\<close>)
  show "pending_sound (ws_db (s\<lparr>ws_db := db\<rparr>))"
    using winvD(2) [OF inv] t(3) now by (fastforce simp: pending_sound_def t(1))
qed (use c in \<open>auto simp: commit_submit_def Let_def split: if_splits option.splits\<close>)

lemma winv_decide:
  assumes inv: "winv hash a s" and c: "commit_decide t p i approve (d, why) (ws_db s) = Inr db"
    and d: "draft_is (ws_db s) i (dr_account d) (dr_created_by d)" "dr_account d = a \<Longrightarrow> pr_user_id p \<noteq> dr_created_by d"
    and ys: "set ys \<subseteq> set (ws_intents s)"
  shows "winv hash a (s\<lparr>ws_db := db, ws_intents := ys\<rparr>)"
proof (rule winvI [OF inv])
  let ?s = "s\<lparr>ws_db := db, ws_intents := ys\<rparr>"
  let ?f = "\<lambda>x. if dr_state x = DrPending
                      then x\<lparr>dr_state := if approve then DrApproved else DrRejected, dr_updated_at := t\<rparr> else x"
  from c obtain j ap where pend: "pending_approval (ws_db s) i = Some (j, ap)" "ap_fingerprint ap = dr_fingerprint d"
    by (auto simp: commit_decide_def Let_def split: option.splits if_splits)
  let ?g = "\<lambda>k x. if k = j \<and> ap_status x = ApPending
                  then x\<lparr>ap_status := if approve then ApApproved else ApRejected, ap_decided_by := Some (pr_user_id p),
                         ap_decided_at := Some t, ap_reason := why\<rparr> else x"
  from c pend have t: "map_of (pb_drafts db) = (\<lambda>k. if k = i then map_option ?f (map_of (pb_drafts (ws_db s)) k) else map_of (pb_drafts (ws_db s)) k)"
    "pb_versions db = pb_versions (ws_db s)" "pb_approvals db = map (\<lambda>(k, x). (k, ?g k x)) (pb_approvals (ws_db s))"
    by (auto simp: commit_decide_def fun_eq_iff Let_def split: if_splits option.splits)
  have in_app: "(k, x) \<in> set (pb_approvals db) \<longleftrightarrow> (\<exists>y. (k, y) \<in> set (pb_approvals (ws_db s)) \<and> x = ?g k y)" for k x
  proof -
    have "(k, x) \<in> set (map (\<lambda>(k, x). (k, ?g k x)) xs) \<longleftrightarrow> (\<exists>y. (k, y) \<in> set xs \<and> x = ?g k y)" for xs
      by (induction xs) auto
    then show ?thesis by (simp only: t(3))
  qed
  show g: "grows (ws_db s) (ws_db ?s)"
  proof (rule growsI)
    fix k x assume "(k, x) \<in> set (pb_approvals (ws_db s))" "ap_status x = ApApproved \<or> ap_status x = ApCancelled"
    then show "\<exists>x'. (k, x') \<in> set (pb_approvals (ws_db ?s)) \<and> ap_draft x' = ap_draft x
        \<and> ap_fingerprint x' = ap_fingerprint x \<and> ap_decided_by x' = ap_decided_by x
        \<and> (ap_status x' = ApApproved \<or> ap_status x' = ApCancelled)"
      by (intro exI [of _ x]) (auto simp: in_app)
  qed (use drafts_kept_at [OF t(1)] in simp)
  from pend(1) have ap: "(j, ap) \<in> set (pb_approvals (ws_db s))" "ap_draft ap = i" "ap_status ap = ApPending"
    by (auto simp: pending_approval_def find_Some_iff dest: nth_mem)
  have "case (j, ap) of (j, a) \<Rightarrow> ap_status a = ApPending \<longrightarrow>
     (\<exists>d. map_of (pb_drafts (ws_db s)) (ap_draft a) = Some d \<and> ap_fingerprint a = dr_fingerprint d)"
    using winvD(2) [OF inv] ap(1) unfolding pending_sound_def by (rule bspec)
  then obtain d' where d': "map_of (pb_drafts (ws_db s)) i = Some d'" "ap_fingerprint ap = dr_fingerprint d'"
    using ap by auto
  with d(1) have who: "dr_created_by d' = dr_created_by d" "dr_account d' = dr_account d" by (auto simp: draft_is_def)
  have approved: "endorsed db i (dr_fingerprint d') (dr_created_by d')" if "approve" "dr_account d' = a"
  proof -
    have "(j, ?g j ap) \<in> set (pb_approvals db)" using in_app ap(1) by blast
    then show ?thesis
      unfolding endorsed_def by (rule rev_bexI) (use ap(2,3) d'(2) who d(2) that in simp)
  qed
  have old: "draft_sound hash a db i d'" using draft_sound_grows [OF winvD(1) [OF inv d'(1)] g] by simp
  have new: "draft_sound hash a db i (?f d')"
  proof (cases "dr_state d' = DrPending")
    case True
    then show ?thesis using old approved by (simp add: draft_sound_def intact_def)
  qed (use old in simp)
  have look: "map_of (pb_drafts db) = (\<lambda>k. if k = i then Some (?f d') else map_of (pb_drafts (ws_db s)) k)"
    using d'(1) by (simp add: t(1) fun_eq_iff)
  show "draft_sound hash a (ws_db ?s) k x" if "map_of (pb_drafts (ws_db ?s)) k = Some x" for k x
    by (rule draft_sound_at [OF inv g, of i "Some (?f d')"]) (use that new look in simp_all)
  show "pending_sound (ws_db ?s)"
    unfolding pending_sound_def
  proof (clarify)
    fix k x assume "(k, x) \<in> set (pb_approvals (ws_db ?s))" "ap_status x = ApPending"
    then have "(k, x) \<in> set (pb_approvals (ws_db s))" by (auto simp: in_app split: if_splits)
    with winvD(2) [OF inv] \<open>ap_status x = ApPending\<close> obtain y where "map_of (pb_drafts (ws_db s)) (ap_draft x) = Some y"
      "ap_fingerprint x = dr_fingerprint y" by (fastforce simp: pending_sound_def)
    then show "\<exists>d. map_of (pb_drafts (ws_db ?s)) (ap_draft x) = Some d \<and> ap_fingerprint x = dr_fingerprint d"
      using d'(1) by (cases "ap_draft x = i") (auto simp: look)
  qed
qed (use ys c in \<open>auto simp: commit_decide_def Let_def split: if_splits option.splits\<close>)

lemma winv_cancel:
  assumes inv: "winv hash a s" and ys: "set ys \<subseteq> set (ws_intents s)"
  shows "winv hash a (s\<lparr>ws_db := commit_cancel t p i d (ws_db s), ws_intents := ys\<rparr>)"
proof -
  let ?db = "commit_cancel t p i d (ws_db s)"
  let ?s = "s\<lparr>ws_db := commit_cancel t p i d (ws_db s), ws_intents := ys\<rparr>"
  let ?f = "\<lambda>x. if dr_state x \<noteq> DrPublished then x\<lparr>dr_state := DrCancelled, dr_updated_at := t\<rparr> else x"
  let ?g = "\<lambda>a. a\<lparr>ap_status := ApCancelled, ap_decided_at := Some t, ap_reason := Some (asc ''draft cancelled'')\<rparr>"
  have t: "map_of (pb_drafts ?db) = (\<lambda>k. if k = i then map_option ?f (map_of (pb_drafts (ws_db s)) k) else map_of (pb_drafts (ws_db s)) k)"
    "pb_approvals ?db = pb_approvals (update_approvals i [ApPending] ?g (ws_db s))"
    by (auto simp: commit_cancel_def fun_eq_iff update_approvals_def)
  have g: "grows (ws_db s) ?db"
  proof (rule growsI)
    fix j x assume "(j, x) \<in> set (pb_approvals (ws_db s))" "ap_status x = ApApproved \<or> ap_status x = ApCancelled"
    then show "\<exists>x'. (j, x') \<in> set (pb_approvals ?db) \<and> ap_draft x' = ap_draft x
        \<and> ap_fingerprint x' = ap_fingerprint x \<and> ap_decided_by x' = ap_decided_by x
        \<and> (ap_status x' = ApApproved \<or> ap_status x' = ApCancelled)"
      unfolding t(2) in_update_approvals by (intro exI [of _ x]) auto
  qed (use drafts_kept_at [OF t(1)] in simp)
  have ds: "draft_sound hash a ?db k x" if "map_of (pb_drafts ?db) k = Some x" for k x
    by (rule draft_sound_at [OF inv g, of i "map_option ?f (map_of (pb_drafts (ws_db s)) i)"])
      (use that winvD(1) [OF inv] in \<open>auto simp: t(1) draft_sound_def intact_def\<close>)
  have ps: "pending_sound ?db"
    by (rule pending_sound_at [OF winvD(2) [OF inv], of _ i "map_option ?f (map_of (pb_drafts (ws_db s)) i)"])
      (auto simp: t in_update_approvals split: if_splits dest: cancelled_itself)
  have vs: "pb_versions ?db = pb_versions (ws_db s)" by (simp add: commit_cancel_def)
  show ?thesis by (rule winvI [OF inv]) (use g ds ps vs ys in auto)
qed

lemma check_update_document:
  assumes "check_update clean t q db = Inr (doc, changes, why)" and "ur_defaults q = Some ds"
  shows "canonical_document (ur_floors q) ds = Inr doc"
  using assms by (auto simp: check_update_def Let_def split: if_splits sum.splits prod.splits)

lemma winv_published:
  assumes inv: "winv hash a s" and y: "publishes hash a (ws_db s) i em q" and q: "check_update clean t0 q db0 = Inr change"
    and h: "rollout_hook h" and c: "commit_update hash t q change [mark_published t i em h] (ws_db s) = Inr db"
    and ys: "set ys \<subseteq> set (ws_intents s)"
  shows "winv hash a (s\<lparr>ws_db := db, ws_intents := ys\<rparr>)"
proof (rule winvI [OF inv])
  let ?s = "s\<lparr>ws_db := db, ws_intents := ys\<rparr>"
  obtain doc changes why where ch: "change = (doc, changes, why)" by (cases change) auto
  from commit_update_told [OF c [unfolded ch]] obtain row u db1
    where "fold_err (\<lambda>h. h u) [mark_published t i em h] db1 = Inr db"
    and db1: "pb_drafts db1 = pb_drafts (ws_db s)" "pb_approvals db1 = pb_approvals (ws_db s)"
      "pb_versions db1 = pb_versions (ws_db s) @ [row]"
    and row: "pv_account row = ur_account q" "pv_draft row = ur_draft q" "pv_emergency row = ur_emergency q"
      "pv_fingerprint row = hash (json_text doc)"
    by blast
  then have m: "mark_published t i em h u db1 = Inr db" by (simp split: sum.splits)
  from mark_published_facts(3) [OF m h] obtain f where f: "\<And>d. dr_state (f d) = DrPublished"
    "\<And>d. dr_document (f d) = dr_document d" "\<And>d. dr_fingerprint (f d) = dr_fingerprint d"
    "\<And>d. dr_created_by (f d) = dr_created_by d" "\<And>d. dr_account (f d) = dr_account d"
    and look: "map_of (pb_drafts db) = (\<lambda>j. if j = i then map_option f (map_of (pb_drafts (ws_db s)) j) else map_of (pb_drafts (ws_db s)) j)"
    unfolding db1 by blast
  have same: "pb_approvals db = pb_approvals (ws_db s)" "pb_versions db = pb_versions (ws_db s) @ [row]"
    using mark_published_facts(1,2) [OF m h] db1 by simp_all
  show g: "grows (ws_db s) (ws_db ?s)"
    by (rule growsI) (use drafts_kept_at [OF look] f same in auto)
  show "draft_sound hash a (ws_db ?s) k x" if "map_of (pb_drafts (ws_db ?s)) k = Some x" for k x
    by (rule draft_sound_at [OF inv g, of i "map_option f (map_of (pb_drafts (ws_db s)) i)"])
      (use that look f winvD(1) [OF inv] in \<open>auto simp: draft_sound_def intact_def\<close>)
  show "pending_sound (ws_db ?s)"
    using winvD(2) [OF inv] f(3) by (fastforce simp: pending_sound_def same look)
  from y obtain d' ds c where y': "ur_draft q = Some i" "ur_emergency q = em" "ur_defaults q = Some ds"
    "canonical_document (ur_floors q) ds = Inr d'" "draft_is (ws_db s) i (ur_account q) c"
    "ur_account q = a \<Longrightarrow> \<not> em \<Longrightarrow> endorsed (ws_db s) i (hash (json_text d')) c"
    by (auto simp: publishes_def)
  have "d' = doc" using check_update_document [OF q [unfolded ch] y'(3)] y'(4) by simp
  then have "version_endorsed a (ws_db ?s) row"
    using y' row growsD(1) [OF g y'(5)] growsD(2) [OF g y'(6)] unfolding version_endorsed_def
    by (cases em) auto
  then show "v \<in> set (pb_versions (ws_db s)) \<or> version_endorsed a (ws_db ?s) v" if "v \<in> set (pb_versions (ws_db ?s))" for v
    using that by (auto simp: same)
qed (use ys in auto)

lemma winv_versions:
  assumes inv: "winv hash a s" and same: "pb_drafts db = pb_drafts (ws_db s)" "pb_approvals db = pb_approvals (ws_db s)"
    and "\<And>v. v \<in> set (pb_versions db) \<Longrightarrow> v \<in> set (pb_versions (ws_db s)) \<or> version_endorsed a db v"
    and ys: "set ys \<subseteq> set (ws_intents s)"
  shows "winv hash a (s\<lparr>ws_db := db, ws_intents := ys\<rparr>)"
proof (rule winvI [OF inv])
  show g: "grows (ws_db s) (ws_db (s\<lparr>ws_db := db, ws_intents := ys\<rparr>))" by (rule growsI) (auto simp: same)
  show "draft_sound hash a (ws_db (s\<lparr>ws_db := db, ws_intents := ys\<rparr>)) k x"
    if "map_of (pb_drafts (ws_db (s\<lparr>ws_db := db, ws_intents := ys\<rparr>))) k = Some x" for k x
    using that draft_sound_grows [OF winvD(1) [OF inv] g] by (simp add: same)
  show "pending_sound (ws_db (s\<lparr>ws_db := db, ws_intents := ys\<rparr>))"
    using winvD(2) [OF inv] by (simp add: pending_sound_def same)
qed (use assms in auto)

lemma authorized_draft_row: "authorized_draft p i permission db = Inr d \<Longrightarrow> map_of (pb_drafts db) i = Some d"
  by (auto simp: authorized_draft_def split: if_splits option.splits sum.splits)

lemma check_create_sound:
  assumes "parse_rules fr dr = Inr (fs, ds)"
    and "check_create is_digit decimal hash clean t p account tt ti fs ds title reason db = Inr d"
  shows "intact hash d" "dr_state d = DrDraft"
proof -
  from assms(2) have "dr_fingerprint d = hash (json_text (dr_document d)) \<and> dr_state d = DrDraft
      \<and> canonical_document fs ds = Inr (dr_document d)"
    by (auto simp: check_create_def split: sum.splits if_splits)
  then show "intact hash d" "dr_state d = DrDraft"
    using canonical_written [OF parse_rules_ok [OF assms(1)]] by (auto simp: intact_def)
qed

lemma check_edit_sound:
  assumes "check_edit clean p i expected rules title reason rebase db = Inr (d, e)"
    and "\<And>fd. rules = Some fd \<Longrightarrow> \<exists>fr dr. parse_rules fr dr = Inr fd"
    and "\<And>d. map_of (pb_drafts db) i = Some d \<Longrightarrow> canonical (dr_document d)"
  shows "canonical (de_document e)"
proof -
  from assms(1) obtain fd where d: "authorized_draft p i PoliciesWrite db = Inr d" "parse_document (dr_document d) = Some fd"
    and doc: "canonical_document (fst (case rules of None \<Rightarrow> fd | Some r \<Rightarrow> r)) (snd (case rules of None \<Rightarrow> fd | Some r \<Rightarrow> r))
        = Inr (de_document e)"
    by (auto simp: check_edit_def simp del: prod.collapse split: sum.splits if_splits option.splits)
  have "canonical (dr_document d)" using assms(3) authorized_draft_row [OF d(1)] .
  then show ?thesis
  proof (cases rules)
    case None
    with doc d(2) \<open>canonical (dr_document d)\<close> show ?thesis by (cases fd) (simp add: canonical_def)
  next
    case (Some r)
    with assms(2) obtain fr dr where "parse_rules fr dr = Inr (fst r, snd r)" by auto
    from canonical_written [OF parse_rules_ok [OF this]] doc Some show ?thesis by simp
  qed
qed

lemma check_publish_sound:
  assumes inv: "winv hash a s" and strict: "strict_account a (ws_db s)"
    and c: "check_publish clean p i emergency confirm reason (ws_db s) = Inr (d, q)"
  shows "publishes hash a (ws_db s) i emergency q"
proof -
  from c obtain why fd where d: "map_of (pb_drafts (ws_db s)) i = Some d" "parse_document (dr_document d) = Some fd"
    and q: "q = publish_request p i emergency confirm d why fd"
    and state: "st_require_approval (snd (load_settings (pb_gov (ws_db s)) (dr_account d))) \<Longrightarrow> \<not> emergency \<Longrightarrow> dr_state d = DrApproved"
    by (auto simp: check_publish_def dest: authorized_draft_row split: sum.splits if_splits option.splits)
  from winvD(1) [OF inv d(1)] have sound: "draft_sound hash a (ws_db s) i d" .
  then have "canonical_document (fst fd) (snd fd) = Inr (dr_document d)"
    using d(2) by (cases fd) (simp add: draft_sound_def intact_def canonical_def)
  then show ?thesis
    using sound d(1) state strict
    by (auto simp: publishes_def q publish_request_def draft_is_def draft_sound_def intact_def strict_account_def)
qed

lemma check_decide_row:
  assumes "check_decide clean p i approve reason db = Inr (d, why)"
  shows "map_of (pb_drafts db) i = Some d"
    and "st_separate_approver (snd (load_settings (pb_gov db) (dr_account d))) \<Longrightarrow> pr_user_id p \<noteq> dr_created_by d"
proof -
  have pair: "map_sum id (Pair x) r = Inr (d, why) \<Longrightarrow> x = d" for x and r :: "cp_error + ustr option"
    by (cases r) simp_all
  from assms show "map_of (pb_drafts db) i = Some d"
    and "st_separate_approver (snd (load_settings (pb_gov db) (dr_account d))) \<Longrightarrow> pr_user_id p \<noteq> dr_created_by d"
    by (auto simp: check_decide_def dest!: pair authorized_draft_row split: sum.splits if_splits)
qed

lemma check_save_account:
  "check_save p account expected floors defaults reason confirm db = Inr q \<Longrightarrow>
    \<not> st_require_approval (snd (load_settings (pb_gov db) (ur_account q)))"
  by (auto simp: check_save_def split: sum.splits if_splits)

lemma winv_wstep:
  assumes "wstep is_digit decimal hash clean s s'" and inv: "winv hash a s" and strict: "strict_account a (ws_db s)"
  shows "winv hash a s'"
proof -
  have add: "winv hash a (add_wintent y s)" if "wintent_sound hash a (ws_db s) y" for y
    by (rule winvI [OF inv]) (use that winvD [OF inv] in \<open>auto simp: grows_def\<close>)
  have canon: "canonical (dr_document d)" if "map_of (pb_drafts (ws_db s)) i = Some d" for i d
    using winvD(1) [OF inv that] by (simp add: draft_sound_def intact_def)
  have rest: "set (remove1 x (ws_intents s)) \<subseteq> set (ws_intents s)" for x by (rule set_remove1_subset)
  have sound: "wintent_sound hash a (ws_db s) y" if "y \<in> set (ws_intents s)" for y using winvD(3) [OF inv that] .
  from assms(1) show ?thesis
  proof cases
    case create
    then show ?thesis using add check_create_sound by (simp add: wintent_sound_def)
  next
    case (edit rules p i expected title reason rebase change)
    then show ?thesis
      using check_edit_sound [of clean p i expected rules title reason rebase "ws_db s" "fst change" "snd change"] add canon
      by (cases change) (simp add: wintent_sound_def)
  next
    case submit
    then show ?thesis using winv_submit [OF inv] by simp
  next
    case (decide p i approve reason change)
    obtain d why where ch: "change = (d, why)" by (cases change)
    note check_decide_row [OF decide(2) [unfolded ch]]
    then show ?thesis using add strict by (auto simp: decide(1) ch wintent_sound_def draft_is_def strict_account_def)
  next
    case cancel
    then show ?thesis using add by (simp add: wintent_sound_def)
  next
    case publish
    then show ?thesis using add check_publish_sound [OF inv strict] by (simp add: wintent_sound_def)
  next
    case (save p account expected floors defaults reason confirm q)
    have "ur_account q \<noteq> a" using check_save_account [OF save(2)] strict by (auto simp: strict_account_def)
    then show ?thesis using add by (simp add: save(1) wintent_sound_def)
  next
    case (commit x t i db)
    note y = sound [OF commit(2)] and c = commit(3)
    show ?thesis
    proof (cases x)
      case (WCreate p d)
      with y c show ?thesis using winv_create [OF inv _ _ _ rest] by (simp add: commit(1) wintent_sound_def)
    next
      case (WEdit p k change)
      with y c show ?thesis
        using winv_edit [OF inv _ _ rest] by (cases change) (simp add: commit(1) wintent_sound_def)
    next
      case (WDecide p k approve change)
      with y c show ?thesis
        using winv_decide [OF inv _ _ _ rest] by (cases change) (auto simp: commit(1) wintent_sound_def)
    next
      case (WCancel p k d)
      with c show ?thesis using winv_cancel [OF inv rest] by (auto simp: commit(1))
    next
      case WPublish
      with c show ?thesis using winv_versions [OF inv _ _ _ rest] by (simp add: commit(1))
    next
      case WSave
      with c show ?thesis using winv_versions [OF inv _ _ _ rest] by (simp add: commit(1))
    qed
  next
    case (published i em q t0 db0 change h t db)
    from sound [OF published(2)] have "publishes hash a (ws_db s) i em q" by (simp add: wintent_sound_def)
    from winv_published [OF inv this published(3,4,5) rest] show ?thesis by (simp add: published(1))
  next
    case (saved q t0 db0 change t db)
    from sound [OF saved(2)] have no: "ur_account q \<noteq> a" by (simp add: wintent_sound_def)
    obtain doc changes why where ch: "change = (doc, changes, why)" by (cases change) auto
    from commit_update_told [OF saved(4) [unfolded ch]] obtain row where t: "pb_drafts db = pb_drafts (ws_db s)"
      "pb_approvals db = pb_approvals (ws_db s)" "pb_versions db = pb_versions (ws_db s) @ [row]" "pv_account row = ur_account q"
      by auto
    show ?thesis
      unfolding saved(1) by (rule winv_versions [OF inv t(1,2) _ rest]) (use t no in \<open>auto simp: version_endorsed_def\<close>)
  next
    case (other db)
    then obtain new where new: "pb_drafts db = pb_drafts (ws_db s)" "pb_approvals db = pb_approvals (ws_db s)"
      "pb_versions db = pb_versions (ws_db s) @ new" "\<And>v. v \<in> set new \<Longrightarrow> pv_kind v = VkRollback"
      by (auto simp: other_service_def)
    have "winv hash a (s\<lparr>ws_db := db, ws_intents := ws_intents s\<rparr>)"
      by (rule winv_versions [OF inv new(1,2)]) (use new(3,4) in \<open>auto simp: version_endorsed_def\<close>)
    then show ?thesis by (simp add: other(1))
  qed
qed

lemma wreach_inv: "wreach is_digit decimal hash clean a s \<Longrightarrow> winv hash a s \<and> strict_account a (ws_db s)"
proof (induction rule: wreach.induct)
  case (start s)
  then show ?case by (simp add: winv_def pending_sound_def)
next
  case (step s s')
  then show ?case using winv_wstep by blast
qed

text \<open>C1: What was published was approved. While an organization requires policy changes to be approved by someone
  else, every version of its policies that is not a rollback comes from a draft, and either it was an emergency
  publication or its document, byte for byte, was approved for that draft by a user other than the one who created
  it. This holds whatever requests run concurrently, with each request's checks made on an older state of the tables
  than the one it writes to, submitting a draft excepted.\<close>

theorem published_was_approved:
  assumes "wreach is_digit decimal hash clean account s" and "v \<in> set (pb_versions (ws_db s))"
    and "pv_account v = account" and "pv_kind v = VkChange"
  shows "\<exists>i d. pv_draft v = Some i \<and> map_of (pb_drafts (ws_db s)) i = Some d \<and> dr_account d = account
    \<and> (pv_emergency v \<or> (\<exists>(j, ap) \<in> set (pb_approvals (ws_db s)). ap_draft ap = i \<and> ap_fingerprint ap = pv_fingerprint v
         \<and> (ap_status ap = ApApproved \<or> ap_status ap = ApCancelled)
         \<and> (\<exists>u. ap_decided_by ap = Some u \<and> u \<noteq> dr_created_by d)))"
  using wreach_inv [OF assms(1)] winvD(4) assms(2-4)
  by (fastforce simp: version_endorsed_def draft_is_def endorsed_def)

section \<open>Other services\<close>

lemma enroll_keeps [simp]:
  "pb_drafts (enroll i a ws st now db) = pb_drafts db" "pb_approvals (enroll i a ws st now db) = pb_approvals db"
  "pb_drafts (update_rollout i f db) = pb_drafts db" "pb_approvals (update_rollout i f db) = pb_approvals db"
  by (simp_all add: enroll_def update_rollout_def)

lemma advance_db_keeps:
  assumes "advance_db order now i x db = (db', en, fin)"
  shows "pb_drafts db' = pb_drafts db" "pb_approvals db' = pb_approvals db" "pb_versions db' = pb_versions db"
  using assms by (auto simp: advance_db_def enroll_stage_def enroll_remaining_def Let_def split: if_splits prod.splits)

text \<open>The rollouts, the rollbacks and every transaction on the governance tables alone leave drafts and approvals
  alone and publish rollbacks only.\<close>

lemma other_services:
  "other_service db (on_gov f db)"
  "commit_advance order now p i x db = Inr db' \<Longrightarrow> other_service db db'"
  "pause_row now who i account reason db = Inr db' \<Longrightarrow> other_service db db'"
  "other_service db (commit_resume p i x db)"
  "commit_rollback hash now q change [] db = Inr db' \<Longrightarrow> other_service db db'"
  "commit_rollback hash now q change [finish_rollback who i x reason] db = Inr db' \<Longrightarrow> other_service db db'"
proof -
  show "commit_advance order now p i x db = Inr db' \<Longrightarrow> other_service db db'"
    using advance_db_keeps [of order now i x db]
    by (cases "advance_db order now i x db") (auto simp: commit_advance_def other_service_def split: option.splits if_splits)
  show "pause_row now who i account reason db = Inr db' \<Longrightarrow> other_service db db'"
    by (auto simp: pause_row_def other_service_def split: option.splits if_splits)
  show "commit_rollback hash now q change [] db = Inr db' \<Longrightarrow> other_service db db'"
    by (auto simp: commit_rollback_def other_service_def on_policy_published_def Let_def split: prod.splits if_splits)
  show "commit_rollback hash now q change [finish_rollback who i x reason] db = Inr db' \<Longrightarrow> other_service db db'"
    by (auto simp: commit_rollback_def other_service_def on_policy_published_def finish_rollback_def Let_def
        split: prod.splits if_splits)
qed (simp_all add: other_service_def commit_resume_def)

section \<open>A run, and one that submits from a stale read\<close>

definition strict_gov :: gov_db where
  "strict_gov = empty_db\<lparr>gv_settings := [(1, (1, Some (DEFAULT_SETTINGS\<lparr>st_require_approval := True\<rparr>)))]\<rparr>"

definition strict_db :: pub_db where
  "strict_db = \<lparr>pb_gov = strict_gov, pb_versions = [], pb_drafts = [], pb_approvals = [], pb_rollouts = [], pb_enrolled = []\<rparr>"

definition warn_document :: json where
  "warn_document = JObject [(''ai_trailer'', JText ''warn'')]"

definition sample_draft :: draft_row where
  "sample_draft = \<lparr>dr_account = 1, dr_target = TgOrganization, dr_base_version = 0, dr_document = warn_document,
     dr_fingerprint = json_text warn_document, dr_title = asc ''Organization policy change'', dr_reason = None,
     dr_state = DrDraft, dr_revision = 1, dr_created_by = 7, dr_updated_at = 5, dr_submitted_at = None,
     dr_submitted_by = None, dr_published_version = None, dr_published_at = None, dr_emergency = False, dr_rollout = None\<rparr>"

lemmas sample_draft_defs = strict_gov_def strict_db_def warn_document_def sample_draft_def empty_db_def sample_principal_def
  approver_def can_def role_in_def permission_defs

lemma sample_rules: "parse_rules (Some warn_document) None = Inr ([(''ai_trailer'', WARN)], [])"
  by (simp add: parse_rules_def warn_document_def or_empty_def json_falsy_def validate_floors_def validate_defaults_def
      known_policy_def KNOWN_POLICY_IDS_def DEFAULT_POLICIES_def mk_policy_def json_null_def action_of_def floor_action_def)

lemma warn_canonical: "canonical_document [(''ai_trailer'', WARN)] [] = Inr warn_document"
  by (simp add: canonical_document_def warn_document_def)

lemma warn_parses: "parse_document warn_document = Some ([(''ai_trailer'', WARN)], [])"
  by (simp add: warn_document_def parse_document_def known_policy_def KNOWN_POLICY_IDS_def DEFAULT_POLICIES_def mk_policy_def
      floor_action_def action_of_def)

lemma warn_length: "length (json_text warn_document) \<le> MAX_DOCUMENT_BYTES"
  by (simp add: warn_document_def json_quote_def json_char_def MAX_DOCUMENT_BYTES_def)

lemma sample_permits:
  "require sample_principal PoliciesWrite 1 = Inr ()" "require sample_principal PoliciesRead 1 = Inr ()"
  "require approver PoliciesRead 1 = Inr ()" "can sample_principal PoliciesWrite 1" "can sample_principal PoliciesPublish 1"
  "can approver PoliciesApprove 1"
  by (simp_all add: require_def sample_draft_defs)

lemma sample_users: "pr_user_id sample_principal = 7" "pr_login sample_principal = asc ''ann''" "pr_user_id approver = 8"
  "pr_authenticated_at sample_principal = 0"
  by (simp_all add: sample_draft_defs)

lemma organization_access [simp]: "require_target_access db p account TgOrganization = Inr (asc ''Organization'')"
  by (simp add: require_target_access_def target_label_def)

lemma sample_create:
  "check_create (\<lambda>_. False) (\<lambda>_. None) id plain_clean 5 sample_principal 1 (JfText (asc ''organization'')) JfNull
     [(''ai_trailer'', WARN)] [] None None strict_db = Inr sample_draft"
  using warn_length
  by (simp add: check_create_def parse_target_def text_field_def warn_canonical sample_permits sample_users str_eval
      current_version_def latest_row_def versions_of_def or_text_def py_max_def strict_db_def sample_draft_def)

definition sample_pending :: draft_row where
  "sample_pending = sample_draft\<lparr>dr_state := DrPending, dr_submitted_at := Some 6, dr_submitted_by := Some 7, dr_updated_at := 6\<rparr>"

definition sample_approval :: approval_row where
  "sample_approval = \<lparr>ap_draft = sample_id, ap_account = 1, ap_fingerprint = json_text warn_document, ap_requested_by = 7,
     ap_requested_at = 6, ap_status = ApPending, ap_decided_by = None, ap_decided_at = None, ap_reason = None\<rparr>"

definition created_db :: pub_db where
  "created_db = strict_db\<lparr>pb_gov := strict_gov\<lparr>gv_audit := [DraftCreated (user_actor 7 (asc ''ann'')) 1 sample_id 0]\<rparr>,
     pb_drafts := [(sample_id, sample_draft)]\<rparr>"

definition submitted_db :: pub_db where
  "submitted_db = projr (commit_submit 6 sample_principal sample_id ''a1'' sample_draft created_db)"

definition decided_db :: pub_db where
  "decided_db = projr (commit_decide 7 approver sample_id True (sample_pending, None) submitted_db)"

lemma sample_commit_create: "commit_create sample_principal sample_id sample_draft strict_db = Inr created_db"
  by (simp add: commit_create_def created_db_def on_gov_def log_event_def MAX_OPEN_DRAFTS_def strict_db_def strict_gov_def
      sample_draft_def sample_principal_def empty_db_def)

lemma sample_check_submit: "check_submit sample_principal sample_id created_db = Inr sample_draft"
  by (simp add: check_submit_def authorized_draft_def created_db_def sample_hex sample_draft_def sample_permits target_label_def)

lemma sample_commit_submit: "commit_submit 6 sample_principal sample_id ''a1'' sample_draft created_db = Inr submitted_db"
  by (simp add: submitted_db_def commit_submit_def created_db_def sample_draft_def strict_db_def pending_approval_def Let_def)

lemma submitted_tables: "pb_drafts submitted_db = [(sample_id, sample_pending)]"
  "pb_approvals submitted_db = [(''a1'', sample_approval)]" "pb_versions submitted_db = []"
  "gv_settings (pb_gov submitted_db) = gv_settings strict_gov"
  by (simp_all add: submitted_db_def commit_submit_def created_db_def sample_draft_def strict_db_def pending_approval_def Let_def
      update_draft_def sample_pending_def sample_approval_def sample_principal_def log_event_def emit_notice_def)

lemma sample_check_decide: "check_decide plain_clean approver sample_id True None submitted_db = Inr (sample_pending, None)"
  by (simp add: check_decide_def authorized_draft_def submitted_tables sample_hex sample_pending_def sample_draft_def sample_permits
      text_field_def sample_users)

lemma sample_commit_decide: "commit_decide 7 approver sample_id True (sample_pending, None) submitted_db = Inr decided_db"
  by (simp add: decided_db_def commit_decide_def pending_approval_def submitted_tables sample_approval_def sample_pending_def
      sample_draft_def Let_def)

lemma decided_tables: "pb_drafts decided_db = [(sample_id, sample_pending\<lparr>dr_state := DrApproved, dr_updated_at := 7\<rparr>)]"
  "pb_approvals decided_db = [(''a1'', sample_approval\<lparr>ap_status := ApApproved, ap_decided_by := Some 8, ap_decided_at := Some 7\<rparr>)]"
  "pb_versions decided_db = []" "gv_settings (pb_gov decided_db) = gv_settings strict_gov"
  by (simp_all add: decided_db_def commit_decide_def pending_approval_def submitted_tables sample_approval_def sample_pending_def
      sample_draft_def Let_def update_draft_def sample_users log_event_def)

definition sample_publication :: update_request where
  "sample_publication = \<lparr>ur_account = 1, ur_actor = user_actor 7 (asc ''ann''), ur_authenticated_at = 0, ur_expected = 0,
     ur_floors = [(''ai_trailer'', WARN)], ur_defaults = Some [], ur_reason = None, ur_confirm = False,
     ur_target = TgOrganization, ur_draft = Some sample_id, ur_emergency = False\<rparr>"

lemma sample_check_publish: "check_publish plain_clean sample_principal sample_id False False None decided_db
    = Inr (sample_pending\<lparr>dr_state := DrApproved, dr_updated_at := 7\<rparr>, sample_publication)"
  by (simp add: check_publish_def authorized_draft_def decided_tables sample_hex sample_pending_def sample_draft_def sample_permits
      text_field_def open_draft_def warn_parses publish_request_def sample_publication_def sample_users)

lemma sample_check_update: "\<exists>changes. check_update plain_clean 8 sample_publication decided_db = Inr (warn_document, changes, None)"
  using warn_length
  by (simp add: check_update_def sample_publication_def current_version_def latest_row_def versions_of_def decided_tables
      row_actions_def Let_def clean_reason_def policy_changes_def changed_keys_def floor_weakened_def warn_canonical py_max_def)

lemma sample_published: "\<exists>db. commit_update id 8 sample_publication (warn_document, changes, None)
     [mark_published 8 sample_id False None] decided_db = Inr db \<and> gv_settings (pb_gov db) = gv_settings strict_gov"
  by (simp add: commit_update_def sample_publication_def target_known_def max_version_def versions_of_def decided_tables Let_def
      on_policy_published_def mark_published_def invalidate_scope_def invalidate_repositories_def log_event_def emit_notice_def)

lemma strict_sample: "gv_settings (pb_gov db) = gv_settings strict_gov \<Longrightarrow> strict_account 1 db"
  by (simp add: strict_account_def load_settings_def strict_gov_def DEFAULT_SETTINGS_def)

abbreviation sample_reach :: "pub_db \<Rightarrow> wintent list \<Rightarrow> bool" where
  "sample_reach db ys \<equiv> wreach (\<lambda>_. False) (\<lambda>_. None) id plain_clean 1 \<lparr>ws_db = db, ws_intents = ys\<rparr>"

lemma sample_reach_step:
  assumes "sample_reach db ys" and "wstep (\<lambda>_. False) (\<lambda>_. None) id plain_clean \<lparr>ws_db = db, ws_intents = ys\<rparr> \<lparr>ws_db = db', ws_intents = ys'\<rparr>"
    and "gv_settings (pb_gov db') = gv_settings strict_gov"
  shows "sample_reach db' ys'"
  using wreach.step [OF assms(1,2)] assms(3) by (simp add: strict_sample)

lemma sample_reach_commit:
  assumes "sample_reach db [y]" and "commit_wintent id t i y db = Inr db'" and "gv_settings (pb_gov db') = gv_settings strict_gov"
  shows "sample_reach db' []"
  using wstep.commit [where s = "\<lparr>ws_db = db, ws_intents = [y]\<rparr>" and x = y] assms(2)
  by (intro sample_reach_step [OF assms(1) _ assms(3)]) simp

lemma reach_created: "sample_reach created_db []"
proof -
  have "sample_reach strict_db []"
    by (rule wreach.start) (simp_all add: strict_sample strict_db_def)
  then have "sample_reach strict_db [WCreate sample_principal sample_draft]"
  proof (rule sample_reach_step)
    show "wstep (\<lambda>_. False) (\<lambda>_. None) id plain_clean \<lparr>ws_db = strict_db, ws_intents = []\<rparr>
        \<lparr>ws_db = strict_db, ws_intents = [WCreate sample_principal sample_draft]\<rparr>"
      using wstep.create [where s = "\<lparr>ws_db = strict_db, ws_intents = []\<rparr>", OF sample_rules, unfolded wsys.simps, OF sample_create]
      by simp
  qed (simp add: strict_db_def)
  then show ?thesis
    by (rule sample_reach_commit [where t = 0 and i = sample_id])
      (simp_all add: sample_commit_create, simp add: created_db_def)
qed

lemma reach_submitted: "sample_reach submitted_db []"
  using wstep.submit [where s = "\<lparr>ws_db = created_db, ws_intents = []\<rparr>", unfolded wsys.simps, OF sample_check_submit sample_commit_submit]
  by (intro sample_reach_step [OF reach_created]) (simp_all add: submitted_tables)

lemma reach_decided: "sample_reach decided_db []"
proof -
  have "sample_reach submitted_db [WDecide approver sample_id True (sample_pending, None)]"
    using wstep.decide [where s = "\<lparr>ws_db = submitted_db, ws_intents = []\<rparr>", unfolded wsys.simps, OF sample_check_decide]
    by (intro sample_reach_step [OF reach_submitted]) (simp_all add: submitted_tables)
  then show ?thesis
    by (rule sample_reach_commit [where t = 7 and i = sample_id]) (simp_all add: sample_commit_decide decided_tables)
qed

lemma reach_published:
  "\<exists>db v. sample_reach db [] \<and> v \<in> set (pb_versions db) \<and> pv_account v = 1 \<and> pv_kind v = VkChange \<and> \<not> pv_emergency v"
proof -
  let ?y = "WPublish sample_id False sample_publication"
  have r: "sample_reach decided_db [?y]"
    using wstep.publish [where s = "\<lparr>ws_db = decided_db, ws_intents = []\<rparr>", unfolded wsys.simps, OF sample_check_publish]
    by (intro sample_reach_step [OF reach_decided]) (simp_all add: decided_tables)
  from sample_check_update obtain changes where u: "check_update plain_clean 8 sample_publication decided_db = Inr (warn_document, changes, None)" ..
  from sample_published obtain db where db: "commit_update id 8 sample_publication (warn_document, changes, None)
     [mark_published 8 sample_id False None] decided_db = Inr db" "gv_settings (pb_gov db) = gv_settings strict_gov" by blast
  have "sample_reach db []"
    using wstep.published [where s = "\<lparr>ws_db = decided_db, ws_intents = [?y]\<rparr>" and h = None, unfolded wsys.simps, OF _ u _ db(1)]
    by (intro sample_reach_step [OF r _ db(2)]) (simp add: rollout_hook_def)
  moreover obtain row where "pb_versions db = pb_versions decided_db @ [row]" "pv_account row = ur_account sample_publication"
    "pv_emergency row = ur_emergency sample_publication" "pv_kind row = VkChange"
    using db(1) mark_published_facts(2) [of 8 sample_id False None]
    by (auto dest!: commit_update_told simp: rollout_hook_def split: sum.splits)
  ultimately show ?thesis by (intro exI [of _ db] exI [of _ row]) (simp add: sample_publication_def)
qed

lemma published_was_approved_witness:
  "\<exists>db v i d. sample_reach db [] \<and> v \<in> set (pb_versions db) \<and> \<not> pv_emergency v \<and> pv_draft v = Some i
     \<and> map_of (pb_drafts db) i = Some d \<and> pv_fingerprint v \<in> ap_fingerprint ` snd ` set (pb_approvals db)"
proof -
  from reach_published obtain db v where v: "sample_reach db []" "v \<in> set (pb_versions db)" "pv_account v = 1"
    "pv_kind v = VkChange" "\<not> pv_emergency v" by blast
  from published_was_approved [OF v(1), of v] v show ?thesis by force
qed

text \<open>A second request to submit, read before the first was rejected and the draft edited, and written afterwards.\<close>

definition other_approver :: principal where
  "other_approver = sample_principal\<lparr>pr_user_id := 9, pr_login := asc ''eve''\<rparr>"

definition block_document :: json where
  "block_document = JObject [(''ai_trailer'', JText ''block'')]"

definition rejected_db :: pub_db where
  "rejected_db = projr (commit_decide 8 other_approver sample_id False (sample_pending, Some (asc ''no'')) submitted_db)"

definition rejected_draft :: draft_row where
  "rejected_draft = sample_pending\<lparr>dr_state := DrRejected, dr_updated_at := 8\<rparr>"

definition sample_edit :: draft_edit where
  "sample_edit = \<lparr>de_document = block_document, de_title = asc ''Organization policy change'', de_reason = None, de_base = 0,
     de_revision = 1\<rparr>"

definition edited_db :: pub_db where
  "edited_db = projr (commit_edit id 9 sample_principal sample_id (rejected_draft, sample_edit) rejected_db)"

definition edited_draft :: draft_row where
  "edited_draft = rejected_draft\<lparr>dr_document := block_document, dr_fingerprint := json_text block_document, dr_state := DrDraft,
     dr_revision := 2, dr_updated_at := 9\<rparr>"

definition resubmitted_db :: pub_db where
  "resubmitted_db = projr (commit_submit 10 sample_principal sample_id ''a2'' sample_draft edited_db)"

definition misapproved_db :: pub_db where
  "misapproved_db = projr (commit_decide 11 approver sample_id True (sample_pending, None) resubmitted_db)"

lemmas stale_run_defs = sample_pending_def sample_draft_def sample_approval_def rejected_draft_def edited_draft_def sample_edit_def

lemma other_permits: "require other_approver PoliciesRead 1 = Inr ()" "can other_approver PoliciesApprove 1" "pr_user_id other_approver = 9"
  by (simp_all add: other_approver_def require_def sample_draft_defs)

lemma rejecting:
  "check_decide plain_clean other_approver sample_id False (Some (asc ''no'')) submitted_db = Inr (sample_pending, Some (asc ''no''))"
  "commit_decide 8 other_approver sample_id False (sample_pending, Some (asc ''no'')) submitted_db = Inr rejected_db"
  by (simp_all add: check_decide_def authorized_draft_def submitted_tables sample_hex [unfolded asc_def] stale_run_defs other_permits text_field_def
      str_eval MAX_REASON_CHARS_def plain_clean_def rejected_db_def commit_decide_def pending_approval_def Let_def)

lemma rejected_tables: "pb_drafts rejected_db = [(sample_id, rejected_draft)]"
  "pb_approvals rejected_db = [(''a1'', sample_approval\<lparr>ap_status := ApRejected, ap_decided_by := Some 9, ap_decided_at := Some 8,
     ap_reason := Some (asc ''no'')\<rparr>)]" "pb_versions rejected_db = []" "gv_settings (pb_gov rejected_db) = gv_settings strict_gov"
  by (simp_all add: rejected_db_def commit_decide_def pending_approval_def submitted_tables stale_run_defs Let_def
      update_draft_def other_permits log_event_def)

lemma block_canonical: "canonical_document [(''ai_trailer'', BLOCK)] [] = Inr block_document"
  by (simp add: canonical_document_def block_document_def)

lemma block_length: "length (json_text block_document) \<le> MAX_DOCUMENT_BYTES"
  by (simp add: block_document_def json_quote_def json_char_def MAX_DOCUMENT_BYTES_def)

lemma block_parses: "parse_document block_document = Some ([(''ai_trailer'', BLOCK)], [])"
  by (simp add: block_document_def parse_document_def known_policy_def KNOWN_POLICY_IDS_def DEFAULT_POLICIES_def mk_policy_def
      floor_action_def action_of_def)

lemma editing:
  "check_edit plain_clean sample_principal sample_id (Some 1) (Some ([(''ai_trailer'', BLOCK)], [])) None None False rejected_db
     = Inr (rejected_draft, sample_edit)"
  "commit_edit id 9 sample_principal sample_id (rejected_draft, sample_edit) rejected_db = Inr edited_db"
  using block_length
  by (simp_all add: check_edit_def authorized_draft_def rejected_tables sample_hex stale_run_defs sample_permits editable_def
      warn_parses block_canonical text_field_def or_text_def edited_db_def commit_edit_def)

lemma edited_tables: "pb_drafts edited_db = [(sample_id, edited_draft)]"
  "pb_approvals edited_db = pb_approvals rejected_db" "pb_versions edited_db = []"
  "gv_settings (pb_gov edited_db) = gv_settings strict_gov"
  by (simp_all add: edited_db_def commit_edit_def rejected_tables stale_run_defs editable_def update_draft_def
      update_approvals_def log_event_def)

lemma resubmitting: "commit_submit 10 sample_principal sample_id ''a2'' sample_draft edited_db = Inr resubmitted_db"
  by (simp add: resubmitted_db_def commit_submit_def edited_tables rejected_tables stale_run_defs pending_approval_def Let_def)

lemma resubmitted_tables:
  "pb_drafts resubmitted_db = [(sample_id, edited_draft\<lparr>dr_state := DrPending, dr_submitted_at := Some 10, dr_updated_at := 10\<rparr>)]"
  "pb_approvals resubmitted_db = pb_approvals edited_db @ [(''a2'', sample_approval\<lparr>ap_requested_at := 10\<rparr>)]"
  "pb_versions resubmitted_db = []" "gv_settings (pb_gov resubmitted_db) = gv_settings strict_gov"
  by (simp_all add: resubmitted_db_def commit_submit_def edited_tables rejected_tables stale_run_defs pending_approval_def Let_def
      update_draft_def sample_users log_event_def emit_notice_def)

lemma misapproving: "commit_decide 11 approver sample_id True (sample_pending, None) resubmitted_db = Inr misapproved_db"
  by (simp add: misapproved_db_def commit_decide_def pending_approval_def resubmitted_tables edited_tables rejected_tables
      stale_run_defs Let_def)

lemma misapproved_tables:
  "pb_drafts misapproved_db = [(sample_id, edited_draft\<lparr>dr_state := DrApproved, dr_submitted_at := Some 10, dr_updated_at := 11\<rparr>)]"
  "ap_fingerprint ` snd ` set (pb_approvals misapproved_db) = {json_text warn_document}"
  "gv_settings (pb_gov misapproved_db) = gv_settings strict_gov"
  by (simp_all add: misapproved_db_def commit_decide_def pending_approval_def resubmitted_tables edited_tables rejected_tables
      stale_run_defs Let_def update_draft_def log_event_def)

definition unseen_publication :: update_request where
  "unseen_publication = sample_publication\<lparr>ur_floors := [(''ai_trailer'', BLOCK)]\<rparr>"

lemma publishing_unseen: "\<exists>d. check_publish plain_clean sample_principal sample_id False False None misapproved_db = Inr (d, unseen_publication)
    \<and> dr_document d = block_document \<and> dr_fingerprint d = json_text block_document"
  by (simp add: check_publish_def authorized_draft_def misapproved_tables sample_hex stale_run_defs sample_permits
      text_field_def open_draft_def block_parses publish_request_def sample_publication_def unseen_publication_def sample_users)

lemma documents_differ: "json_text block_document \<noteq> json_text warn_document"
  by (simp add: block_document_def warn_document_def json_quote_def json_char_def)

text \<open>C17: A document nobody approved can be published. Ann asks twice for approval of her draft; the second request has read
  the draft and waits. Bob opens the first request and is about to approve. Eve rejects it, Ann edits the draft, then
  her second request goes through, and asks for approval of the fingerprint it read before the edit, and so does
  Bob's decision, which compares the two stale fingerprints with each other and never with the draft. The edited
  draft is now approved and its publication passes every check, yet no approval carries its fingerprint. This is why
  \<open>published_was_approved\<close> needs submitting to be one step.\<close>

theorem stale_requests_publish_unseen:
  "\<exists>first second d. strict_account 1 created_db
     \<and> check_submit sample_principal sample_id created_db = Inr first
     \<and> commit_submit 6 sample_principal sample_id ''a1'' first created_db = Inr submitted_db
     \<and> check_decide plain_clean approver sample_id True None submitted_db = Inr second
     \<and> commit_decide 8 other_approver sample_id False (sample_pending, Some (asc ''no'')) submitted_db = Inr rejected_db
     \<and> commit_edit id 9 sample_principal sample_id (rejected_draft, sample_edit) rejected_db = Inr edited_db
     \<and> commit_submit 10 sample_principal sample_id ''a2'' first edited_db = Inr resubmitted_db
     \<and> commit_decide 11 approver sample_id True second resubmitted_db = Inr misapproved_db
     \<and> check_publish plain_clean sample_principal sample_id False False None misapproved_db = Inr (d, unseen_publication)
     \<and> strict_account 1 misapproved_db
     \<and> dr_fingerprint d \<notin> ap_fingerprint ` snd ` set (pb_approvals misapproved_db)"
proof -
  from publishing_unseen obtain d where "check_publish plain_clean sample_principal sample_id False False None misapproved_db
      = Inr (d, unseen_publication)" "dr_fingerprint d = json_text block_document" by blast
  moreover have "strict_account 1 created_db" by (rule strict_sample) (simp add: created_db_def)
  ultimately show ?thesis
    using sample_check_submit sample_commit_submit sample_check_decide rejecting(2) editing(2) resubmitting misapproving
      strict_sample [OF misapproved_tables(3)] documents_differ
    by (intro exI [of _ sample_draft] exI [of _ "(sample_pending, None)"] exI [of _ d]) (simp add: misapproved_tables(2))
qed

text \<open>A draft that was submitted from a stale read is stuck: while it is pending it can be neither edited nor submitted,
  and every decision on it is refused, also on a fresh read. Only cancelling or an emergency publication is left.\<close>

lemma stale_submission_is_stuck:
  assumes "map_of (pb_drafts db) i = Some d" and "dr_state d = DrPending"
    and "pending_approval db i = Some (j, a)" and "ap_fingerprint a \<noteq> dr_fingerprint d"
  shows "\<not> isl (check_decide clean p i approve reason db) \<longrightarrow>
      commit_decide now p i approve (projr (check_decide clean p i approve reason db)) db = Inl Conflict"
    and "isl (check_edit clean p i expected rules title why rebase db)" and "isl (check_submit p i db)"
proof -
  show "\<not> isl (check_decide clean p i approve reason db) \<longrightarrow>
      commit_decide now p i approve (projr (check_decide clean p i approve reason db)) db = Inl Conflict"
  proof
    assume "\<not> isl (check_decide clean p i approve reason db)"
    then obtain x w where c: "check_decide clean p i approve reason db = Inr (x, w)"
      by (cases "check_decide clean p i approve reason db") auto
    with check_decide_row(1) assms(1) have "x = d" by fastforce
    then show "commit_decide now p i approve (projr (check_decide clean p i approve reason db)) db = Inl Conflict"
      using assms(3,4) by (simp add: c commit_decide_def)
  qed
  show "isl (check_edit clean p i expected rules title why rebase db)" "isl (check_submit p i db)"
    using assms(1,2) authorized_draft_row [of p i PoliciesWrite db]
    by (auto simp: check_edit_def check_submit_def editable_def isl_def split: sum.splits)
qed

end
