(* ===== verification/Normalization.thy ===== *)
theory Normalization
  imports Guard_Prelude
begin

text \<open>
  Normalisation of untrusted text for matching (\<open>provenance/normalization.py\<close>). The Unicode
  character database of the standard library is data the program looks up: it is the parameter
  \<open>ucd\<close>, a record of the four lookups the program makes and of \<open>repr\<close>, which depends on it. \<open>ucd_ok\<close> states what the database says
  about ASCII and that NFKC is idempotent; everything else about it stays open.
\<close>

section \<open>The Unicode database\<close>

datatype category = Cc | Cf | So | Sk | Sm | Mn | OtherCategory

record ucd =
  u_nfkc :: "ustr \<Rightarrow> ustr"
  u_category :: "nat \<Rightarrow> category"
  u_casefold :: "nat \<Rightarrow> ustr"
  u_isdigit :: "nat \<Rightarrow> bool"
  u_repr :: "ustr \<Rightarrow> ustr"

definition ascii_lowercase :: "nat \<Rightarrow> nat" where
  "ascii_lowercase c = (if ascii_upper c then c + 32 else c)"

definition ascii_control :: "nat \<Rightarrow> bool" where
  "ascii_control c \<longleftrightarrow> c < 32 \<or> c = 127"

definition ucd_ok :: "ucd \<Rightarrow> bool" where
  "ucd_ok U \<longleftrightarrow> (\<forall>s. isascii s \<longrightarrow> u_nfkc U s = s)
     \<and> (\<forall>c. is_ascii_cp c \<longrightarrow> u_casefold U c = [ascii_lowercase c]
              \<and> (u_category U c = Cc \<longleftrightarrow> ascii_control c) \<and> u_category U c \<noteq> Cf
              \<and> (u_isdigit U c \<longleftrightarrow> ascii_digit c))
     \<and> (\<forall>s. u_nfkc U (u_nfkc U s) = u_nfkc U s)"

text \<open>A database restricted to ASCII and the C1 controls, for evaluation.\<close>

definition ascii_ucd :: ucd where
  "ascii_ucd =
     \<lparr>u_nfkc = (\<lambda>s. s), u_category = (\<lambda>c. if ascii_control c \<or> (128 \<le> c \<and> c < 160) then Cc
        else if c = 0x200B then Cf else if c = 0x1F916 then So else OtherCategory),
      u_casefold = (\<lambda>c. [ascii_lowercase c]), u_isdigit = ascii_digit,
      u_repr = (\<lambda>s. 39 # s @ [39])\<rparr>"

lemma ascii_ucd_ok: "ucd_ok ascii_ucd"
  by (simp add: ucd_ok_def ascii_ucd_def is_ascii_cp_def ascii_control_def)

section \<open>Folding tables\<close>

definition HOMOGLYPHS :: "(nat \<times> char) list" where
  "HOMOGLYPHS =
     [(0x0430, CHR ''a''), (0x0432, CHR ''b''), (0x0435, CHR ''e''), (0x04BB, CHR ''h''),
      (0x0456, CHR ''i''), (0x0458, CHR ''j''), (0x043A, CHR ''k''), (0x043C, CHR ''m''),
      (0x043E, CHR ''o''), (0x0440, CHR ''p''), (0x0441, CHR ''c''), (0x0455, CHR ''s''),
      (0x0442, CHR ''t''), (0x0443, CHR ''y''), (0x0445, CHR ''x''), (0x0501, CHR ''d''),
      (0x051B, CHR ''q''), (0x051D, CHR ''w''), (0x03B1, CHR ''a''), (0x03B5, CHR ''e''),
      (0x03B9, CHR ''i''), (0x03BA, CHR ''k''), (0x03BD, CHR ''v''), (0x03BF, CHR ''o''),
      (0x03C1, CHR ''p''), (0x03C4, CHR ''t''), (0x03C5, CHR ''u''), (0x03C7, CHR ''x''),
      (0x0131, CHR ''i''), (0x0237, CHR ''j'')]"

definition fold_homoglyph :: "nat \<Rightarrow> nat" where
  "fold_homoglyph c = (case map_of HOMOGLYPHS c of None \<Rightarrow> c | Some ch \<Rightarrow> of_char ch)"

definition ascii_invisible :: "nat \<Rightarrow> bool" where
  "ascii_invisible c \<longleftrightarrow> (c < 0x20 \<or> c = 0x7F) \<and> \<not> py_isspace c"

definition DEFAULT_IGNORABLE_RANGES :: "(nat \<times> nat) list" where
  "DEFAULT_IGNORABLE_RANGES =
     [(0x034F, 0x034F), (0x115F, 0x1160), (0x17B4, 0x17B5), (0x180B, 0x180F), (0x2065, 0x2065),
      (0x3164, 0x3164), (0xFE00, 0xFE0F), (0xFFA0, 0xFFA0), (0xFFF0, 0xFFF8), (0xE0000, 0xE0FFF)]"

definition default_ignorable :: "nat \<Rightarrow> bool" where
  "default_ignorable c \<longleftrightarrow> list_ex (\<lambda>(first, last). first \<le> c \<and> c \<le> last) DEFAULT_IGNORABLE_RANGES"

section \<open>Normalisation\<close>

definition visible :: "ucd \<Rightarrow> nat \<Rightarrow> bool" where
  "visible U c \<longleftrightarrow>
     (if py_isspace c then True
      else u_category U c \<noteq> Cc \<and> u_category U c \<noteq> Cf \<and> \<not> default_ignorable c)"

definition ascii_printable :: "nat \<Rightarrow> bool" where
  "ascii_printable c \<longleftrightarrow> 32 \<le> c \<and> c < 127"

definition strip_invisible :: "ucd \<Rightarrow> ustr \<Rightarrow> ustr" where
  "strip_invisible U text =
     (if isascii text
      then (if list_all ascii_printable text then text
            else filter (\<lambda>c. \<not> ascii_invisible c) text)
      else filter (visible U) text)"

definition casefold :: "ucd \<Rightarrow> ustr \<Rightarrow> ustr" where
  "casefold U text = concat (map (u_casefold U) text)"

definition normalize_text :: "ucd \<Rightarrow> ustr \<Rightarrow> ustr" where
  "normalize_text U text =
     (let t = (if isascii text then strip_invisible U text
               else strip_invisible U (u_nfkc U (strip_invisible U text)))
      in py_join [32] (py_split (map fold_homoglyph (casefold U t))))"

definition is_latin_lookalike :: "ucd \<Rightarrow> nat \<Rightarrow> bool" where
  "is_latin_lookalike U c \<longleftrightarrow>
     \<not> is_ascii_cp c \<and> map fold_homoglyph (u_casefold U c) \<noteq> u_casefold U c"

definition normalize_name :: "ucd \<Rightarrow> ustr \<Rightarrow> ustr" where
  "normalize_name U name = normalize_text U name"

definition name_tokens :: "ucd \<Rightarrow> ustr \<Rightarrow> ustr list" where
  "name_tokens U name = py_split (normalize_name U name)"

definition normalize_email :: "ucd \<Rightarrow> ustr \<Rightarrow> ustr" where
  "normalize_email U email =
     (let e = replace_char 32 [] (normalize_text U email)
      in case rpartition_char 64 e of
           (loc, sep, domain) \<Rightarrow> if \<not> sep then e else loc @ [64] @ rstrip_char 46 domain)"

definition normalize_domain :: "ucd \<Rightarrow> ustr \<Rightarrow> ustr" where
  "normalize_domain U d = strip_char 46 (replace_char 32 [] (normalize_text U d))"

definition normalize_trailer_key :: "ucd \<Rightarrow> ustr \<Rightarrow> ustr" where
  "normalize_trailer_key U key =
     (let t = replace_char 45 [32] (replace_char 95 [32] (normalize_text U key))
      in py_join [45] (py_split t))"

definition uses_disguising_characters :: "ucd \<Rightarrow> ustr \<Rightarrow> bool" where
  "uses_disguising_characters U text \<longleftrightarrow>
     normalize_text U text \<noteq> py_join [32] (py_split (casefold U text))"

section \<open>The fast path is the reference path\<close>

lemma ucd_okD:
  assumes "ucd_ok U"
  shows "isascii s \<Longrightarrow> u_nfkc U s = s"
    and "is_ascii_cp c \<Longrightarrow> u_casefold U c = [ascii_lowercase c]"
    and "is_ascii_cp c \<Longrightarrow> u_category U c = Cc \<longleftrightarrow> ascii_control c"
    and "is_ascii_cp c \<Longrightarrow> u_category U c \<noteq> Cf"
    and "is_ascii_cp c \<Longrightarrow> u_isdigit U c \<longleftrightarrow> ascii_digit c"
  using assms unfolding ucd_ok_def by blast+

lemma not_default_ignorable_ascii: "is_ascii_cp c \<Longrightarrow> \<not> default_ignorable c"
  by (simp add: is_ascii_cp_def default_ignorable_def DEFAULT_IGNORABLE_RANGES_def)

lemma visible_ascii:
  "ucd_ok U \<Longrightarrow> is_ascii_cp c \<Longrightarrow> visible U c \<longleftrightarrow> \<not> ascii_invisible c"
  by (auto simp: visible_def ascii_invisible_def ascii_control_def ucd_okD not_default_ignorable_ascii)

lemma printable_not_invisible: "ascii_printable c \<Longrightarrow> \<not> ascii_invisible c"
  by (simp add: ascii_printable_def ascii_invisible_def)

lemma strip_invisible_filter:
  assumes "ucd_ok U"
  shows "strip_invisible U text = filter (visible U) text"
proof (cases "isascii text")
  case True
  then have "filter (visible U) text = filter (\<lambda>c. \<not> ascii_invisible c) text"
    using assms by (intro filter_cong) (auto simp: isascii_def list_all_iff visible_ascii)
  moreover have "list_all ascii_printable text \<Longrightarrow> filter (\<lambda>c. \<not> ascii_invisible c) text = text"
    by (auto simp: list_all_iff intro!: filter_True printable_not_invisible)
  ultimately show ?thesis using True by (simp add: strip_invisible_def)
qed (simp add: strip_invisible_def)

text \<open>The ASCII fast path of the invisible-character filter returns exactly what the per-character
  reference computes, for every text: it is an optimisation and opens no way to hide a character.\<close>

theorem strip_invisible_fast_path:
  assumes "ucd_ok U"
  shows "strip_invisible U text = filter (visible U) text"
  using strip_invisible_filter [OF assms] .

theorem strip_invisible_fast_path_witness:
  "strip_invisible ascii_ucd (asc ''Cl'' @ [0, 9] @ asc ''aude'') = asc ''Cl'' @ [9] @ asc ''aude''"
  unfolding strip_invisible_fast_path [OF ascii_ucd_ok]
  by (simp add: asc_def visible_def py_isspace_def ascii_ucd_def ascii_control_def
      default_ignorable_def DEFAULT_IGNORABLE_RANGES_def)

section \<open>Invisible characters cannot change a comparison key\<close>

definition fold_key :: "ucd \<Rightarrow> ustr \<Rightarrow> ustr" where
  "fold_key U t = py_join [32] (py_split (map fold_homoglyph (casefold U t)))"

lemma normalize_text_ascii:
  "ucd_ok U \<Longrightarrow> isascii t \<Longrightarrow> normalize_text U t = fold_key U (filter (visible U) t)"
  by (simp add: normalize_text_def fold_key_def strip_invisible_filter)

lemma isascii_filter: "isascii t \<Longrightarrow> isascii (filter P t)"
  by (induction t) auto

text \<open>C35: Inserting invisible characters (controls, format characters, default ignorables) anywhere in
  an ASCII text does not change its comparison key: any text whose visible part is the ASCII text
  normalises to the same key, so such characters cannot split a name to evade an exact match.\<close>

theorem invisible_insertion_harmless:
  assumes "ucd_ok U" and "isascii t" and "filter (visible U) t' = filter (visible U) t"
  shows "normalize_text U t' = normalize_text U t"
proof (cases "isascii t'")
  case True
  with assms show ?thesis by (simp add: normalize_text_ascii)
next
  case False
  have "u_nfkc U (filter (visible U) t) = filter (visible U) t"
    using assms(1,2) by (simp add: ucd_okD isascii_filter)
  with False assms show ?thesis
    by (simp add: normalize_text_ascii normalize_text_def [of U t'] fold_key_def strip_invisible_filter)
qed

theorem invisible_insertion_harmless_witness:
  "normalize_text ascii_ucd (asc ''Cl'' @ [0x200B] @ asc ''aude'') = normalize_text ascii_ucd (asc ''Claude'')"
  by (rule invisible_insertion_harmless [OF ascii_ucd_ok])
    (simp_all add: asc_def is_ascii_cp_def visible_def py_isspace_def ascii_ucd_def ascii_control_def
      default_ignorable_def DEFAULT_IGNORABLE_RANGES_def)

section \<open>Keys are fixed points\<close>

lemma fold_homoglyph_ascii [simp]: "is_ascii_cp c \<Longrightarrow> fold_homoglyph c = c"
  by (simp add: fold_homoglyph_def HOMOGLYPHS_def is_ascii_cp_def)

lemma ascii_lowercase_ascii [simp]: "is_ascii_cp c \<Longrightarrow> is_ascii_cp (ascii_lowercase c)"
  by (simp add: is_ascii_cp_def ascii_lowercase_def ascii_upper_def)

lemma ascii_lowercase_idem [simp]: "ascii_lowercase (ascii_lowercase c) = ascii_lowercase c"
  by (simp add: ascii_lowercase_def ascii_upper_def)

lemma fold_ascii:
  assumes "ucd_ok U" and "isascii t"
  shows "map fold_homoglyph (casefold U t) = map ascii_lowercase t"
  using assms(2) by (induction t) (auto simp: casefold_def ucd_okD [OF assms(1)])

lemma ascii_lowercase_space [simp]: "py_isspace (ascii_lowercase c) \<longleftrightarrow> py_isspace c"
  by (auto simp: ascii_lowercase_def ascii_upper_def py_isspace_def)

lemma ascii_lowercase_invisible [simp]: "ascii_invisible (ascii_lowercase c) \<longleftrightarrow> ascii_invisible c"
  by (auto simp: ascii_lowercase_def ascii_upper_def py_isspace_def ascii_invisible_def)

lemma set_split_words: "w \<in> set (split_words cur s) \<Longrightarrow> set w \<subseteq> set cur \<union> set s"
proof (induction s arbitrary: cur)
  case (Cons c s)
  from Cons.prems Cons.IH [of "[]"] Cons.IH [of "c # cur"] show ?case
    by (cases "py_isspace c"; cases "cur = []") auto
qed (auto split: if_splits)

lemma set_squeeze: "set (py_join [32] (py_split s)) \<subseteq> insert 32 (set s)"
  using set_py_join [of "[32]" "py_split s"] set_split_words [of _ "[]" s]
  unfolding py_split_def by fastforce

text \<open>Normalising an ASCII text twice is normalising it once: the stored rule keys are fixed points
  of the function that looks them up.\<close>

theorem normalize_text_idempotent:
  assumes "ucd_ok U" and "isascii t"
  shows "normalize_text U (normalize_text U t) = normalize_text U t"
proof -
  let ?v = "filter (\<lambda>c. \<not> ascii_invisible c) t"
  have vis: "filter (visible U) s = filter (\<lambda>c. \<not> ascii_invisible c) s" if "isascii s" for s
    using that assms(1) by (intro filter_cong) (auto simp: isascii_def list_all_iff visible_ascii)
  have norm: "normalize_text U s
      = py_join [32] (py_split (map ascii_lowercase (filter (\<lambda>c. \<not> ascii_invisible c) s)))"
    if "isascii s" for s
    using that assms(1)
    by (simp add: normalize_text_ascii vis fold_key_def fold_ascii isascii_filter)
  let ?k = "py_join [32] (py_split (map ascii_lowercase ?v))"
  have sub: "set ?k \<subseteq> insert 32 (ascii_lowercase ` set ?v)"
    using set_squeeze [of "map ascii_lowercase ?v"] by simp
  have asc_k: "isascii ?k"
    using sub assms(2) by (fastforce simp: isascii_def list_all_iff is_ascii_cp_def [of 32])
  have "filter (\<lambda>c. \<not> ascii_invisible c) ?k = ?k"
    using sub by (intro filter_True) (auto simp: ascii_invisible_def [of 32])
  moreover have "map ascii_lowercase ?k = ?k"
    using sub by (intro map_idI) (auto simp: ascii_lowercase_def [of 32] ascii_upper_def [of 32])
  ultimately show ?thesis
    by (simp add: norm assms(2) norm [OF asc_k] py_split_join)
qed

theorem normalize_text_idempotent_witness:
  "normalize_text ascii_ucd (normalize_text ascii_ucd (asc '' Claude  Opus'')) = normalize_text ascii_ucd (asc '' Claude  Opus'')"
  by (rule normalize_text_idempotent [OF ascii_ucd_ok]) (simp add: asc_def is_ascii_cp_def)

end
