(* ===== verification/Authors.thy ===== *)
theory Authors
  imports Normalization
begin

text \<open>
  Contributor identities (\<open>provenance/author.py\<close>): the lenient parser of \<open>Name <email>\<close> text that
  records every deviation as an issue and never raises, the structural e-mail check, and the login
  of a GitHub noreply address.
\<close>

record identity =
  id_name :: ustr
  id_email :: ustr

datatype identity_issue =
    IssEmpty | IssMissingName | IssMissingEmail | IssMissingBrackets
  | IssUnbalancedBrackets | IssInvalidEmail | IssTrailingContent

record parsed_identity =
  pi_name :: "ustr option"
  pi_email :: "ustr option"
  pi_issues :: "identity_issue list"

definition identity_str :: "identity \<Rightarrow> ustr" where
  "identity_str i = id_name i @ [32, 60] @ id_email i @ [62]"

definition identity_well_formed :: "parsed_identity \<Rightarrow> bool" where
  "identity_well_formed p \<longleftrightarrow> pi_issues p = []"

definition parsed_identity_str :: "parsed_identity \<Rightarrow> ustr" where
  "parsed_identity_str p =
     (let nm = (case pi_name p of None \<Rightarrow> [] | Some n \<Rightarrow> n)
      in case pi_email p of None \<Rightarrow> nm | Some e \<Rightarrow> py_strip (nm @ [32, 60] @ e @ [62]))"

text \<open>\<open>x or None\<close> on text.\<close>

definition or_none :: "'a list \<Rightarrow> 'a list option" where
  "or_none s = (if s = [] then None else Some s)"

definition is_plausible_email :: "ustr \<Rightarrow> bool" where
  "is_plausible_email value =
     (case rpartition_char 64 value of
        (loc, sep, domain) \<Rightarrow>
          sep \<and> loc \<noteq> [] \<and> 64 \<notin> set loc \<and> 46 \<in> set (strip_char 46 domain)
          \<and> \<not> list_ex (\<lambda>c. py_isspace c \<or> c = 60 \<or> c = 62) value)"

text \<open>The last whitespace token that contains an at sign, and the tokens around it.\<close>

definition split_bare_email :: "ustr \<Rightarrow> ustr option \<times> ustr option" where
  "split_bare_email text =
     (let tokens = py_split text;
          after = rev (takeWhile (\<lambda>t. 64 \<notin> set t) (rev tokens));
          rest = dropWhile (\<lambda>t. 64 \<notin> set t) (rev tokens)
      in case rest of
           [] \<Rightarrow> (or_none (py_join [32] tokens), None)
         | t # before \<Rightarrow> (or_none (py_join [32] (rev before @ after)), Some t))"

definition find_from :: "'a \<Rightarrow> nat \<Rightarrow> 'a list \<Rightarrow> nat option" where
  "find_from d i s = map_option (\<lambda>n. n + i) (find_char d (drop i s))"

text \<open>The three ways to find the parts: brackets in order, stray brackets, no brackets.\<close>

definition identity_parts :: "ustr \<Rightarrow> ustr option \<times> ustr option \<times> identity_issue list" where
  "identity_parts text =
     (let opn = find_char 60 text;
          cls = (case opn of None \<Rightarrow> None | Some i \<Rightarrow> find_from 62 (i + 1) text)
      in case (opn, cls) of
           (Some i, Some j) \<Rightarrow>
             (let name = or_none (py_strip (take i text));
                  email = or_none (py_strip (take (j - (i + 1)) (drop (i + 1) text)));
                  trailing = py_strip (drop (j + 1) text)
              in (name, email,
                  (if trailing \<noteq> [] then [IssTrailingContent] else [])
                  @ (case name of
                       None \<Rightarrow> []
                     | Some n \<Rightarrow> if 62 \<in> set n \<or> 60 \<in> set n then [IssUnbalancedBrackets] else [])))
         | _ \<Rightarrow>
             if opn \<noteq> None \<or> 62 \<in> set text then
               (case split_bare_email (replace_char 62 [32] (replace_char 60 [32] text)) of
                  (name, email) \<Rightarrow> (name, email, [IssUnbalancedBrackets]))
             else
               (case split_bare_email text of
                  (name, email) \<Rightarrow>
                    (name, email, if email \<noteq> None then [IssMissingBrackets] else [])))"

definition parse_identity :: "ustr \<Rightarrow> parsed_identity" where
  "parse_identity value =
     (let text = py_strip value
      in if text = [] then \<lparr>pi_name = None, pi_email = None, pi_issues = [IssEmpty]\<rparr>
         else (case identity_parts text of
           (name, email, issues) \<Rightarrow>
             \<lparr>pi_name = name, pi_email = email,
              pi_issues = unique_first
                (issues @ (if name = None then [IssMissingName] else [])
                 @ (case email of
                      None \<Rightarrow> [IssMissingEmail]
                    | Some e \<Rightarrow> if is_plausible_email e then [] else [IssInvalidEmail]))\<rparr>))"

definition GITHUB_NOREPLY_DOMAIN :: ustr where
  "GITHUB_NOREPLY_DOMAIN = asc ''users.noreply.github.com''"

definition github_login :: "ucd \<Rightarrow> ustr \<Rightarrow> ustr option" where
  "github_login U email =
     (case rpartition_char 64 (normalize_email U email) of
        (loc, sep, domain) \<Rightarrow>
          if \<not> sep \<or> domain \<noteq> GITHUB_NOREPLY_DOMAIN \<or> loc = [] then None
          else (case partition_char 43 loc of
                  (user_id, has_plus, login) \<Rightarrow>
                    if has_plus
                    then (if user_id \<noteq> [] \<and> list_all (u_isdigit U) user_id \<and> login \<noteq> []
                          then Some login else None)
                    else Some loc))"

section \<open>What a parse without issues means\<close>

lemma find_char_Some: "find_char d s = Some i \<Longrightarrow> i < length s \<and> s ! i = d \<and> d \<notin> set (take i s)"
  by (induction s arbitrary: i) (auto split: if_splits)

lemma find_char_None: "find_char d s = None \<longleftrightarrow> d \<notin> set s"
  by (induction s) auto

lemma find_char_append: "d \<notin> set p \<Longrightarrow> find_char d (p @ d # s) = Some (length p)"
  by (induction p) auto

lemma or_none_Some [simp]: "or_none s = Some t \<longleftrightarrow> s = t \<and> t \<noteq> []"
  by (auto simp: or_none_def)

lemma or_none_None [simp]: "or_none s = None \<longleftrightarrow> s = []"
  by (auto simp: or_none_def)

lemma unique_first_Nil_iff [simp]: "unique_first xs = [] \<longleftrightarrow> xs = []"
  by (simp add: unique_first_def)

text \<open>An identity reported as well formed really is \<open>Name <email>\<close>: both parts are present, the name
  is non-empty and holds no angle bracket, the e-mail passes the structural check, and nothing
  follows the closing bracket. Every deviation is an issue.\<close>

theorem well_formed_identity_complete:
  assumes "identity_well_formed (parse_identity value)"
  shows "\<exists>n e. pi_name (parse_identity value) = Some n \<and> pi_email (parse_identity value) = Some e
     \<and> n \<noteq> [] \<and> 60 \<notin> set n \<and> 62 \<notin> set n \<and> is_plausible_email e
     \<and> (\<exists>i j. find_char 60 (py_strip value) = Some i \<and> find_from 62 (i + 1) (py_strip value) = Some j
              \<and> py_strip (drop (j + 1) (py_strip value)) = [])"
proof -
  let ?t = "py_strip value"
  have ne: "?t \<noteq> []"
    using assms by (auto simp: identity_well_formed_def parse_identity_def Let_def)
  obtain name email issues where parts: "identity_parts ?t = (name, email, issues)" by (cases "identity_parts ?t")
  with assms ne have iss: "issues = []" and nm: "name \<noteq> None"
    and em: "\<exists>e. email = Some e \<and> is_plausible_email e"
    by (auto simp: identity_well_formed_def parse_identity_def Let_def split: if_splits option.splits)
  have res: "pi_name (parse_identity value) = name" "pi_email (parse_identity value) = email"
    using ne parts by (simp_all add: parse_identity_def Let_def)
  obtain e where e: "email = Some e" "is_plausible_email e" using em by blast
  obtain i j where ij: "find_char 60 ?t = Some i" "find_from 62 (i + 1) ?t = Some j"
    using parts iss e
    by (auto simp: identity_parts_def Let_def split: option.splits if_splits prod.splits)
  with parts iss nm have "py_strip (drop (j + 1) ?t) = []" and
    "\<exists>n. name = Some n \<and> n \<noteq> [] \<and> 60 \<notin> set n \<and> 62 \<notin> set n"
    by (auto simp: identity_parts_def Let_def or_none_def split: option.splits if_splits)
  with res e ij show ?thesis by blast
qed

definition claude_line :: ustr where
  "claude_line = asc ''Claude <noreply@anthropic.com>''"

theorem well_formed_identity_complete_witness:
  "\<exists>n e. pi_name (parse_identity claude_line) = Some n \<and> pi_email (parse_identity claude_line) = Some e
     \<and> is_plausible_email e"
proof -
  have "identity_well_formed (parse_identity claude_line)"
    by (simp add: claude_line_def str_eval identity_well_formed_def parse_identity_def
        identity_parts_def find_from_def or_none_def is_plausible_email_def)
  from well_formed_identity_complete [OF this] show ?thesis by blast
qed

section \<open>Printing and parsing\<close>

lemma dropWhile_strip: "s \<noteq> [] \<Longrightarrow> \<not> P (hd s) \<Longrightarrow> dropWhile P s = s"
  by (cases s) auto

lemma py_strip_trimmed:
  "s \<noteq> [] \<Longrightarrow> \<not> py_isspace (hd s) \<Longrightarrow> \<not> py_isspace (last s) \<Longrightarrow> py_strip s = s"
  by (simp add: py_strip_def py_rstrip_def py_lstrip_def dropWhile_strip hd_rev)

lemma py_strip_trailing_space:
  assumes "s \<noteq> []" and "\<not> py_isspace (hd s)" and "\<not> py_isspace (last s)"
  shows "py_strip (s @ [32]) = s"
proof -
  have "py_lstrip (s @ [32]) = s @ [32]"
    using assms by (cases s) (auto simp: py_lstrip_def)
  then show ?thesis
    using assms by (simp add: py_strip_def py_rstrip_def dropWhile_strip hd_rev)
qed

lemma plausible_email_chars:
  "is_plausible_email e \<Longrightarrow> e \<noteq> [] \<and> 60 \<notin> set e \<and> 62 \<notin> set e \<and> (\<forall>c \<in> set e. \<not> py_isspace c)"
  by (auto simp: is_plausible_email_def rpartition_char_def Let_def list_ex_iff split: if_splits)

text \<open>Printing an author or committer and parsing the text gives the identity back without issues,
  whenever the name is trimmed, non-empty and free of angle brackets and the e-mail is plausible.\<close>

theorem identity_roundtrip:
  assumes "id_name i \<noteq> []" and "\<not> py_isspace (hd (id_name i))" and "\<not> py_isspace (last (id_name i))"
    and "60 \<notin> set (id_name i)" and "62 \<notin> set (id_name i)" and "is_plausible_email (id_email i)"
  shows "parse_identity (identity_str i)
           = \<lparr>pi_name = Some (id_name i), pi_email = Some (id_email i), pi_issues = []\<rparr>"
proof -
  let ?n = "id_name i" and ?e = "id_email i"
  let ?t = "identity_str i"
  note e = plausible_email_chars [OF assms(6)]
  have strip: "py_strip ?t = ?t"
    using assms(1,2) by (intro py_strip_trimmed) (simp_all add: identity_str_def py_isspace_def)
  have opn: "find_char 60 ?t = Some (length ?n + 1)"
    using find_char_append [of 60 "?n @ [32]" "?e @ [62]"] assms(4) by (simp add: identity_str_def)
  have "drop (length ?n + 2) ?t = ?e @ [62]" by (simp add: identity_str_def)
  then have cls: "find_from 62 (length ?n + 1 + 1) ?t = Some (length ?e + length ?n + 2)"
    using find_char_append [of 62 ?e "[]"] e by (simp add: find_from_def)
  have pre: "py_strip (take (length ?n + 1) ?t) = ?n"
    using py_strip_trailing_space [OF assms(1-3)] by (simp add: identity_str_def)
  have mid: "py_strip (take (length ?e + length ?n + 2 - (length ?n + 1 + 1)) (drop (length ?n + 1 + 1) ?t)) = ?e"
    using py_strip_trimmed [of ?e] e by (simp add: identity_str_def)
  have post: "py_strip (drop (length ?e + length ?n + 2 + 1) ?t) = []"
    by (simp add: identity_str_def py_strip_def py_lstrip_def py_rstrip_def)
  have parts: "identity_parts ?t = (Some ?n, Some ?e, [])"
    unfolding identity_parts_def opn cls Let_def option.case prod.case pre mid post
    using assms(1,4,5) e by (simp add: or_none_def)
  show ?thesis
    using strip parts assms(6) by (simp add: parse_identity_def Let_def identity_str_def unique_first_def)
qed

theorem identity_roundtrip_witness:
  "parse_identity claude_line
     = \<lparr>pi_name = Some (asc ''Claude''), pi_email = Some (asc ''noreply@anthropic.com''), pi_issues = []\<rparr>"
proof -
  let ?i = "\<lparr>id_name = asc ''Claude'', id_email = asc ''noreply@anthropic.com''\<rparr>"
  have "identity_str ?i = claude_line" by (simp add: identity_str_def claude_line_def asc_def)
  moreover have "parse_identity (identity_str ?i) = \<lparr>pi_name = Some (id_name ?i),
      pi_email = Some (id_email ?i), pi_issues = []\<rparr>"
    by (rule identity_roundtrip) (simp_all add: asc_def py_isspace_def is_plausible_email_def
        rpartition_char_def strip_char_def rstrip_char_def lstrip_char_def Let_def)
  ultimately show ?thesis by simp
qed

end
