(* ===== verification/Trailers.thy ===== *)
theory Trailers
  imports Authors
begin

text \<open>
  Commit message trailers (\<open>provenance/trailers.py\<close>): the reading of one line, the scan over the lines
  of a message with its drafts, paragraphs and continuation lines, and the bound of 1000 trailers.
  The scan is the recursion \<open>scan_lines\<close> over the numbered lines; \<open>break\<close> is its early return.
\<close>

section \<open>Data\<close>

datatype trailer_issue = TiMissingSeparator | TiNonstandardKey | TiEmptyValue | TiLeadingCharacters

record trailer =
  t_key :: ustr
  t_value :: ustr
  t_raw :: ustr
  t_line_number :: nat
  t_in_trailer_block :: bool
  t_issues :: "trailer_issue list"
  t_identity :: parsed_identity

record parsed_trailers =
  pt_trailers :: "trailer list"
  pt_truncated :: bool

record draft =
  d_key :: ustr
  d_value_parts :: "ustr list"
  d_raw_parts :: "ustr list"
  d_line_number :: nat
  d_last_line :: nat
  d_paragraph :: nat
  d_issues :: "trailer_issue list"

definition COAUTHOR_TRAILER_KEY :: ustr where
  "COAUTHOR_TRAILER_KEY = asc ''co-authored-by''"

definition MAX_TRAILERS :: nat where
  "MAX_TRAILERS = 1000"

definition MAX_KEY_LENGTH :: nat where
  "MAX_KEY_LENGTH = 64"

definition MAX_LEADING_CHARACTERS :: nat where
  "MAX_LEADING_CHARACTERS = 16"

definition normalized_key :: "ucd \<Rightarrow> trailer \<Rightarrow> ustr" where
  "normalized_key U t = normalize_trailer_key U (t_key t)"

definition t_well_formed :: "trailer \<Rightarrow> bool" where
  "t_well_formed t \<longleftrightarrow> t_issues t = []"

section \<open>One line\<close>

definition key_char :: "nat \<Rightarrow> bool" where
  "key_char c \<longleftrightarrow> ascii_alnum c \<or> c = 45"

definition is_standard_key :: "ustr \<Rightarrow> bool" where
  "is_standard_key key \<longleftrightarrow>
     key \<noteq> [] \<and> length key \<le> MAX_KEY_LENGTH \<and> ascii_alnum (hd key) \<and> list_all key_char key"

definition is_by_key :: "ucd \<Rightarrow> ustr \<Rightarrow> bool" where
  "is_by_key U key \<longleftrightarrow>
     key \<noteq> [] \<and> length key \<le> MAX_KEY_LENGTH
     \<and> (let n = normalize_trailer_key U key
        in endswith n (asc ''-by'') \<and> 3 < length n \<and> list_all key_char n)"

definition starts_key :: "ucd \<Rightarrow> nat \<Rightarrow> bool" where
  "starts_key U c \<longleftrightarrow> ascii_alnum c \<or> is_latin_lookalike U c"

fun skip_from :: "ucd \<Rightarrow> nat \<Rightarrow> ustr \<Rightarrow> ustr" where
  "skip_from U n [] = []"
| "skip_from U n (c # s) = (if n < MAX_LEADING_CHARACTERS \<and> \<not> starts_key U c then skip_from U (Suc n) s else c # s)"

definition skip_leading :: "ucd \<Rightarrow> ustr \<Rightarrow> ustr" where
  "skip_leading U text = py_strip (skip_from U 0 text)"

type_synonym reading = "ustr \<times> ustr \<times> trailer_issue list"

text \<open>The second half of \<open>_parse_text\<close>: a \<open>*-by\<close> key without its colon.\<close>

definition parse_by_head :: "ucd \<Rightarrow> ustr \<Rightarrow> reading option" where
  "parse_by_head U text =
     (let head = takeWhile (\<lambda>c. \<not> py_isspace c) (py_lstrip text)
      in case partition_char 61 head of
           (key, eq, after_eq) \<Rightarrow>
             if is_by_key U key then
               (let rest = (if eq then after_eq @ drop (length head) text else drop (length head) text);
                    v = py_strip (lstrip_char 61 (py_strip rest))
                in if v \<noteq> [] then Some (key, v, [TiMissingSeparator]) else None)
             else None)"

definition parse_text :: "ucd \<Rightarrow> ustr \<Rightarrow> reading option" where
  "parse_text U text =
     (case find_char 58 text of
        None \<Rightarrow> parse_by_head U text
      | Some colon \<Rightarrow>
          if 0 < colon \<and> colon \<le> MAX_KEY_LENGTH + 8 then
            (let written_key = take colon text;
                 key = py_rstrip written_key;
                 v = py_strip (drop (colon + 1) text)
             in if is_standard_key key \<and> \<not> startswith v (asc ''//'')
                then Some (key, v, if key = written_key then [] else [TiNonstandardKey])
                else if is_by_key U key then Some (key, v, [TiNonstandardKey])
                else parse_by_head U text)
          else parse_by_head U text)"

text \<open>The loop over the readings: the shortest key wins, the first of equally short ones.\<close>

fun best_reading :: "ucd \<Rightarrow> ustr \<Rightarrow> reading option \<Rightarrow> ustr list \<Rightarrow> reading option" where
  "best_reading U text best [] = best"
| "best_reading U text best (cand # cs) =
     (if cand = [] \<or> \<not> starts_key U (hd cand) then best_reading U text best cs
      else case parse_text U cand of
             None \<Rightarrow> best_reading U text best cs
           | Some (key, v, issues) \<Rightarrow>
               if (case best of None \<Rightarrow> False | Some b \<Rightarrow> length (fst b) \<le> length key)
               then best_reading U text best cs
               else best_reading U text
                      (Some (key, v, if cand \<noteq> text then issues @ [TiLeadingCharacters] else issues)) cs)"

text \<open>\<open>stripped[0]\<close> is read of a line that is not blank; the caller skips blank lines.\<close>

definition parse_line :: "ucd \<Rightarrow> ustr \<Rightarrow> reading option" where
  "parse_line U line =
     (let text = py_strip (u_nfkc U line); stripped = py_strip line
      in if text = [] \<or> stripped = [] then None
         else if ascii_alnum (hd stripped)
         then (if ascii_alnum (hd text) then parse_text U text else None)
         else best_reading U text None
                (unique_first
                   ([skip_leading U text, py_strip (u_nfkc U (skip_leading U stripped))]
                    @ (if ascii_alnum (hd text) then [text] else []))))"

section \<open>The message\<close>

record scan_state =
  sc_drafts :: "draft list"
  sc_truncated :: bool
  sc_paragraph :: nat
  sc_previous_blank :: bool
  sc_last_content :: nat

definition scan_start :: scan_state where
  "scan_start = \<lparr>sc_drafts = [], sc_truncated = False, sc_paragraph = 0, sc_previous_blank = True,
     sc_last_content = 0\<rparr>"

text \<open>The subject line is a trailer only with a \<open>*-by\<close> key.\<close>

definition line_reading :: "ucd \<Rightarrow> nat \<Rightarrow> ustr \<Rightarrow> reading option" where
  "line_reading U n line =
     (case parse_line U line of
        None \<Rightarrow> None
      | Some (key, v, issues) \<Rightarrow> if n = 1 \<and> \<not> is_by_key U key then None else Some (key, v, issues))"

definition blank :: "ustr \<Rightarrow> bool" where
  "blank line \<longleftrightarrow> py_strip line = []"

definition extend_draft :: "nat \<Rightarrow> ustr \<Rightarrow> draft \<Rightarrow> draft" where
  "extend_draft n line d =
     d\<lparr>d_value_parts := d_value_parts d @ [py_strip line],
       d_raw_parts := d_raw_parts d @ [py_strip line], d_last_line := n\<rparr>"

definition continue_draft :: "nat \<Rightarrow> ustr \<Rightarrow> draft list \<Rightarrow> draft list" where
  "continue_draft n line ds =
     (if line \<noteq> [] \<and> py_isspace (hd line) \<and> ds \<noteq> [] \<and> d_last_line (last ds) + 1 = n
      then butlast ds @ [extend_draft n line (last ds)] else ds)"

fun scan_lines :: "ucd \<Rightarrow> nat \<Rightarrow> ustr list \<Rightarrow> scan_state \<Rightarrow> scan_state" where
  "scan_lines U n [] st = st"
| "scan_lines U n (line # rest) st =
     (if blank line then
        scan_lines U (Suc n) rest
          (st\<lparr>sc_paragraph := (if sc_previous_blank st then sc_paragraph st else sc_paragraph st + 1),
              sc_previous_blank := True\<rparr>)
      else
        (let st1 = st\<lparr>sc_previous_blank := False, sc_last_content := sc_paragraph st\<rparr>
         in case line_reading U n line of
              None \<Rightarrow> scan_lines U (Suc n) rest (st1\<lparr>sc_drafts := continue_draft n line (sc_drafts st1)\<rparr>)
            | Some (key, v, issues) \<Rightarrow>
                if MAX_TRAILERS \<le> length (sc_drafts st1) then st1\<lparr>sc_truncated := True\<rparr>
                else scan_lines U (Suc n) rest
                       (st1\<lparr>sc_drafts := sc_drafts st1 @
                          [\<lparr>d_key = key, d_value_parts = [v], d_raw_parts = [py_strip line],
                            d_line_number = n, d_last_line = n, d_paragraph = sc_paragraph st1,
                            d_issues = issues\<rparr>]\<rparr>)))"

definition finish_draft :: "nat \<Rightarrow> draft \<Rightarrow> trailer" where
  "finish_draft last_content d =
     (let v = py_join [32] (filter (\<lambda>p. p \<noteq> []) (d_value_parts d))
      in \<lparr>t_key = d_key d, t_value = v, t_raw = py_join [32] (d_raw_parts d),
          t_line_number = d_line_number d,
          t_in_trailer_block = (d_paragraph d = last_content \<and> 0 < last_content),
          t_issues = d_issues d @ (if v = [] then [TiEmptyValue] else []),
          t_identity = parse_identity v\<rparr>)"

definition parse_trailers :: "ucd \<Rightarrow> ustr \<Rightarrow> parsed_trailers" where
  "parse_trailers U message =
     (let st = scan_lines U 1 (splitlines message) scan_start
      in \<lparr>pt_trailers = map (finish_draft (sc_last_content st)) (sc_drafts st),
          pt_truncated = sc_truncated st\<rparr>)"

section \<open>What the scan keeps\<close>

text \<open>The specification: the lines that read as trailers, with their numbers, in order.\<close>

fun recognised :: "ucd \<Rightarrow> nat \<Rightarrow> ustr list \<Rightarrow> (nat \<times> reading) list" where
  "recognised U n [] = []"
| "recognised U n (line # rest) =
     (case (if blank line then None else line_reading U n line) of
        None \<Rightarrow> recognised U (Suc n) rest
      | Some r \<Rightarrow> (n, r) # recognised U (Suc n) rest)"

fun keeps :: "nat \<times> reading \<Rightarrow> trailer \<Rightarrow> bool" where
  "keeps (n, key, v, issues) t \<longleftrightarrow>
     t_line_number t = n \<and> t_key t = key \<and> startswith (t_value t) v \<and> startswith (t_issues t) issues"

definition draft_head :: "draft \<Rightarrow> nat \<times> reading" where
  "draft_head d = (d_line_number d, d_key d, hd (d_value_parts d), d_issues d)"

definition drafts_ok :: "draft list \<Rightarrow> bool" where
  "drafts_ok ds \<longleftrightarrow> list_all (\<lambda>d. d_value_parts d \<noteq> []) ds"

lemma drafts_ok_simps [simp]:
  "drafts_ok []" "drafts_ok (ds @ es) \<longleftrightarrow> drafts_ok ds \<and> drafts_ok es"
  "drafts_ok (d # ds) \<longleftrightarrow> d_value_parts d \<noteq> [] \<and> drafts_ok ds"
  by (simp_all add: drafts_ok_def)

lemma continue_draft_heads [simp]:
  "drafts_ok ds \<Longrightarrow> map draft_head (continue_draft n line ds) = map draft_head ds"
  by (cases ds rule: rev_cases) (auto simp: continue_draft_def extend_draft_def draft_head_def)

lemma continue_draft_ok [simp]: "drafts_ok ds \<Longrightarrow> drafts_ok (continue_draft n line ds)"
  by (cases ds rule: rev_cases) (auto simp: continue_draft_def extend_draft_def)

lemma continue_draft_length [simp]: "length (continue_draft n line ds) = length ds"
  by (cases ds rule: rev_cases) (auto simp: continue_draft_def)

lemma scan_lines_spec:
  assumes "length (sc_drafts st) \<le> MAX_TRAILERS" and "drafts_ok (sc_drafts st)"
  shows "map draft_head (sc_drafts (scan_lines U n ls st))
           = take MAX_TRAILERS (map draft_head (sc_drafts st) @ recognised U n ls)
       \<and> drafts_ok (sc_drafts (scan_lines U n ls st))
       \<and> (sc_truncated (scan_lines U n ls st)
            \<longleftrightarrow> sc_truncated st \<or> MAX_TRAILERS < length (sc_drafts st) + length (recognised U n ls))"
  using assms
proof (induction U n ls st rule: scan_lines.induct)
  case (2 U n line rest st)
  show ?case
  proof (cases "blank line \<or> line_reading U n line = None")
    case True
    with 2 show ?thesis by (auto simp: Let_def)
  next
    case False
    then obtain key v issues where r: "line_reading U n line = Some (key, v, issues)" "\<not> blank line"
      by (cases "line_reading U n line") auto
    show ?thesis
    proof (cases "MAX_TRAILERS \<le> length (sc_drafts st)")
      case True
      with 2(4,5) r show ?thesis by (simp add: Let_def)
    next
      case False
      with 2(3) [OF r(2) refl r(1) refl refl] 2(4,5) r show ?thesis
        by (simp add: Let_def draft_head_def)
    qed
  qed
qed auto

lemma startswith_refl [simp]: "startswith s s"
  by (simp add: startswith_def)

lemma startswith_Nil [simp]: "startswith s []"
  by (simp add: startswith_def)

lemma finish_draft_keeps:
  assumes "d_value_parts d \<noteq> []"
  shows "keeps (draft_head d) (finish_draft last_content d)"
proof -
  obtain v vs where "d_value_parts d = v # vs" using assms by (cases "d_value_parts d") auto
  moreover have "startswith (py_join [32] (v # ws)) v" for ws :: "ustr list" by (cases ws) simp_all
  ultimately show ?thesis by (auto simp: finish_draft_def draft_head_def Let_def)
qed

lemma parse_trailers_kept:
  "list_all2 keeps (take MAX_TRAILERS (recognised U 1 (splitlines m))) (pt_trailers (parse_trailers U m))
   \<and> (pt_truncated (parse_trailers U m) \<longleftrightarrow> MAX_TRAILERS < length (recognised U 1 (splitlines m)))"
proof -
  let ?st = "scan_lines U 1 (splitlines m) scan_start"
  have spec: "map draft_head (sc_drafts ?st) = take MAX_TRAILERS (recognised U 1 (splitlines m))"
    "drafts_ok (sc_drafts ?st)" "sc_truncated ?st \<longleftrightarrow> MAX_TRAILERS < length (recognised U 1 (splitlines m))"
    using scan_lines_spec [of scan_start U 1 "splitlines m"] by (simp_all add: scan_start_def)
  have "list_all2 keeps (map draft_head ds) (map (finish_draft lc) ds)" if "drafts_ok ds" for ds lc
    using that by (induction ds) (auto simp: finish_draft_keeps)
  from this [OF spec(2)] spec show ?thesis
    by (simp add: parse_trailers_def Let_def)
qed

text \<open>C34: Nothing is hidden: the trailers found are exactly the first 1000 lines that read as trailers, in
  message order, each with its line number, its key, a value that begins with what the line says and
  every issue of the line. \<open>truncated\<close> is set exactly when there are more than 1000.\<close>

theorem parse_trailers_complete:
  "list_all2 keeps (take MAX_TRAILERS (recognised U 1 (splitlines m))) (pt_trailers (parse_trailers U m))
   \<and> (pt_truncated (parse_trailers U m) \<longleftrightarrow> MAX_TRAILERS < length (recognised U 1 (splitlines m)))"
  by (rule parse_trailers_kept)

lemma recognised_numbers:
  "(k, r) \<in> set (recognised U n ls) \<Longrightarrow> n \<le> k \<and> k < n + length ls"
  by (induction ls arbitrary: n) (fastforce split: option.splits if_splits)+

lemma recognised_sorted: "sorted_wrt (<) (map fst (recognised U n ls))"
  by (induction ls arbitrary: n) (force split: option.splits if_splits dest: recognised_numbers)+

lemma keeps_numbers: "list_all2 keeps rs ts \<Longrightarrow> map t_line_number ts = map fst rs"
  by (induction rule: list_all2_induct) auto

lemma sorted_wrt_take: "sorted_wrt P xs \<Longrightarrow> sorted_wrt P (take n xs)"
  using sorted_wrt_append [of P "take n xs" "drop n xs"] by simp

text \<open>The trailers come in message order with distinct line numbers that exist in the message, and
  there are at most 1000 of them, whatever the message.\<close>

theorem trailer_lines_ordered:
  "sorted_wrt (<) (map t_line_number (pt_trailers (parse_trailers U m)))
   \<and> set (map t_line_number (pt_trailers (parse_trailers U m))) \<subseteq> {1..length (splitlines m)}
   \<and> length (pt_trailers (parse_trailers U m)) \<le> MAX_TRAILERS"
proof -
  let ?r = "recognised U 1 (splitlines m)"
  have nums: "map t_line_number (pt_trailers (parse_trailers U m)) = take MAX_TRAILERS (map fst ?r)"
    using keeps_numbers [OF conjunct1 [OF parse_trailers_kept]] by (simp add: take_map)
  then have "length (pt_trailers (parse_trailers U m)) \<le> MAX_TRAILERS"
    by (metis length_map length_take min.cobounded2)
  moreover have "set (take MAX_TRAILERS (map fst ?r)) \<subseteq> {1..length (splitlines m)}"
    using recognised_numbers by (fastforce dest: in_set_takeD)
  ultimately show ?thesis
    unfolding nums using sorted_wrt_take [OF recognised_sorted] by blast
qed

section \<open>Lines that must be recognised\<close>

lemma find_colon: "find_char 58 (k @ 58 # s) = Some (length k)" if "58 \<notin> set k"
  using that by (rule find_char_append)

lemma standard_key_chars:
  "is_standard_key k \<Longrightarrow> c \<in> set k \<Longrightarrow> c \<noteq> 58 \<and> \<not> py_isspace c"
  by (auto simp: is_standard_key_def list_all_iff key_char_def ascii_class_defs py_isspace_def)

lemma standard_key_rstrip: "is_standard_key k \<Longrightarrow> py_rstrip k = k"
  by (cases k rule: rev_cases) (auto simp: py_rstrip_def dest: standard_key_chars [of _ "last k"])

lemma parse_text_standard:
  assumes "is_standard_key k" and "\<not> startswith (py_strip s) (asc ''//'')"
  shows "parse_text U (k @ 58 # s) = Some (k, py_strip s, [])"
proof -
  have "58 \<notin> set k" using standard_key_chars assms(1) by blast
  moreover have "k \<noteq> []" "length k \<le> MAX_KEY_LENGTH" using assms(1) by (simp_all add: is_standard_key_def)
  ultimately show ?thesis
    using assms standard_key_rstrip by (simp add: parse_text_def find_colon Let_def)
qed

lemma skip_from_prefix:
  assumes "n + length p \<le> MAX_LEADING_CHARACTERS" and "\<forall>c \<in> set p. \<not> starts_key U c"
    and "q \<noteq> []" and "starts_key U (hd q)"
  shows "skip_from U n (p @ q) = q"
  using assms
proof (induction p arbitrary: n)
  case Nil
  then show ?case by (cases q) auto
qed simp

lemma starts_key_ascii [simp]: "is_ascii_cp c \<Longrightarrow> starts_key U c \<longleftrightarrow> ascii_alnum c"
  by (simp add: starts_key_def is_latin_lookalike_def)

lemma unique_first_same [simp]: "unique_first [x, x] = [x]"
  by (simp add: unique_first_def)

text \<open>A trailer cannot be hidden behind punctuation: an ASCII line made of up to 16 characters that are
  neither letters nor digits, a standard key, a colon and a value reads as that trailer, and the
  prefix is reported as an issue. Without a prefix the line reads without issues.\<close>

theorem prefixed_trailer_found:
  assumes "ucd_ok U" and "isascii (p @ k @ 58 # s)" and "length p \<le> MAX_LEADING_CHARACTERS"
    and "\<forall>c \<in> set p. \<not> ascii_alnum c" and "p = [] \<or> \<not> py_isspace (hd p)"
    and "is_standard_key k" and "s \<noteq> []" and "\<not> py_isspace (last s)"
    and "\<not> startswith (py_strip s) (asc ''//'')"
  shows "parse_line U (p @ k @ 58 # s)
           = Some (k, py_strip s, if p = [] then [] else [TiLeadingCharacters])"
proof -
  let ?q = "k @ 58 # s" and ?line = "p @ k @ 58 # s"
  have kne: "k \<noteq> []" and hk: "ascii_alnum (hd k)" and hks: "\<not> py_isspace (hd k)"
    using assms(6) standard_key_chars [OF assms(6), of "hd k"] by (auto simp: is_standard_key_def)
  have asc_q: "isascii ?q" and asc_p: "isascii p" using assms(2) by simp_all
  have stripq: "py_strip ?q = ?q"
    using kne hks assms(7,8) by (intro py_strip_trimmed) (auto simp: hd_append)
  have strip: "py_strip ?line = ?line"
    using kne hks assms(5,7,8) by (intro py_strip_trimmed) (auto simp: hd_append)
  have nfkc: "u_nfkc U ?line = ?line" "u_nfkc U ?q = ?q"
    using ucd_okD(1) [OF assms(1)] assms(2) asc_q by auto
  have "isascii k" using assms(2) by simp
  then have sk: "starts_key U (hd ?q)"
    using kne hk by (cases k) (auto simp: starts_key_def)
  have "\<forall>c \<in> set p. \<not> starts_key U c"
    using assms(4) asc_p by (auto simp: isascii_def list_all_iff)
  from skip_from_prefix [of 0 p U ?q] this assms(3) sk kne
  have skip: "skip_leading U ?line = ?q" by (simp add: skip_leading_def stripq)
  have pt: "parse_text U ?q = Some (k, py_strip s, [])"
    using assms(6,9) by (rule parse_text_standard)
  show ?thesis
  proof (cases "p = []")
    case True
    with pt kne hk strip nfkc show ?thesis by (simp add: parse_line_def Let_def stripq)
  next
    case False
    then have "\<not> ascii_alnum (hd ?line)" using assms(4) by (cases p) auto
    then show ?thesis
      unfolding parse_line_def Let_def nfkc strip skip stripq
      using False kne sk pt by simp
  qed
qed

theorem prefixed_trailer_found_witness:
  "parse_line ascii_ucd (asc ''> '' @ asc ''Co-authored-by'' @ 58 # asc '' Claude'')
     = Some (asc ''Co-authored-by'', asc ''Claude'', [TiLeadingCharacters])"
proof -
  have "py_strip (asc '' Claude'') = asc ''Claude''" by (simp add: str_eval)
  then show ?thesis
    using prefixed_trailer_found [OF ascii_ucd_ok, of "asc ''> ''" "asc ''Co-authored-by''" "asc '' Claude''"]
    by (simp add: str_eval ascii_class_defs is_standard_key_def key_char_def MAX_KEY_LENGTH_def
        MAX_LEADING_CHARACTERS_def)
qed

end
