(* ===== verification/Inputs.thy ===== *)
theory Inputs
  imports Authors
begin

text \<open>
  The guards on untrusted input: terminal sanitisation (\<open>security/sanitization.py\<close>), identifier, revision
  and path validation (\<open>security/validation.py\<close>), the pre-push hook's standard input
  (\<open>git/push.py\<close>) and the request rate limiter (\<open>security/rate_limit.py\<close>). Exceptions are the left
  side of a sum.
\<close>

section \<open>Terminal sanitisation\<close>

definition SANITIZE_MARKER :: ustr where
  "SANITIZE_MARKER = asc ''...[truncated]''"

definition BIDI_CONTROLS :: "nat list" where
  "BIDI_CONTROLS = [0x200E, 0x200F, 0x202A, 0x202B, 0x202C, 0x202D, 0x202E, 0x2066, 0x2067, 0x2068, 0x2069]"

definition hex_digit :: "nat \<Rightarrow> nat" where
  "hex_digit n = (if n < 10 then 48 + n else 87 + n)"

fun hex_string :: "nat \<Rightarrow> ustr" where
  "hex_string n = (if n < 16 then [hex_digit n] else hex_string (n div 16) @ [hex_digit (n mod 16)])"

declare hex_string.simps [simp del]

definition zero_pad :: "nat \<Rightarrow> ustr \<Rightarrow> ustr" where
  "zero_pad w s = replicate (w - length s) 48 @ s"

definition escape_char :: "nat \<Rightarrow> ustr" where
  "escape_char c =
     (if c \<le> 0xFF then 92 # 120 # zero_pad 2 (hex_string c) else 92 # 117 # zero_pad 4 (hex_string c))"

definition terminal_control :: "nat \<Rightarrow> bool" where
  "terminal_control c \<longleftrightarrow> c < 0x20 \<or> (0x7F \<le> c \<and> c \<le> 0x9F) \<or> c \<in> set BIDI_CONTROLS"

definition sanitize_char :: "bool \<Rightarrow> nat \<Rightarrow> ustr" where
  "sanitize_char keep_newlines c =
     (if c = 10 \<and> keep_newlines then [c]
      else if c = 9 then [32]
      else if terminal_control c then escape_char c
      else [c])"

datatype sanitize_error = MaxLengthTooSmall

definition sanitize_for_terminal :: "nat \<Rightarrow> bool \<Rightarrow> ustr \<Rightarrow> sanitize_error + ustr" where
  "sanitize_for_terminal max_length keep_newlines text =
     (if max_length < length SANITIZE_MARKER then Inl MaxLengthTooSmall
      else (let result = concat (map (sanitize_char keep_newlines) text)
            in Inr (if max_length < length result
                    then take (max_length - length SANITIZE_MARKER) result @ SANITIZE_MARKER
                    else result)))"

definition sanitize_block :: "nat \<Rightarrow> ustr \<Rightarrow> ustr \<Rightarrow> sanitize_error + ustr" where
  "sanitize_block max_length indent text =
     (case sanitize_for_terminal max_length True text of
        Inl e \<Rightarrow> Inl e
      | Inr safe \<Rightarrow>
          (case partition_char 10 safe of
             (first, separator, rest) \<Rightarrow>
               if \<not> separator then Inr first
               else Inr (first @ [10] @ py_join [10] (map (\<lambda>line. indent @ line) (split_char 10 rest)))))"

lemma hex_digit_printable: "n < 16 \<Longrightarrow> 48 \<le> hex_digit n \<and> hex_digit n \<le> 102"
  by (auto simp: hex_digit_def)

lemma hex_string_printable: "c \<in> set (hex_string n) \<Longrightarrow> 48 \<le> c \<and> c \<le> 102"
proof (induction n arbitrary: c rule: hex_string.induct)
  case (1 n)
  then show ?case
    using hex_digit_printable [of "n mod 16"] hex_digit_printable [of n]
    by (subst (asm) (2) hex_string.simps) (auto split: if_splits)
qed

lemma escape_char_printable: "d \<in> set (escape_char c) \<Longrightarrow> 48 \<le> d \<and> d \<le> 120"
  by (auto simp: escape_char_def zero_pad_def dest: hex_string_printable split: if_splits)

lemma printable_safe: "48 \<le> c \<Longrightarrow> c \<le> 120 \<Longrightarrow> \<not> terminal_control c"
  by (simp add: terminal_control_def BIDI_CONTROLS_def)

lemma sanitize_char_safe:
  assumes "d \<in> set (sanitize_char kn c)"
  shows "\<not> terminal_control d \<or> (kn \<and> d = 10)"
proof (cases "c = 10 \<and> kn \<or> c = 9 \<or> \<not> terminal_control c")
  case True
  then show ?thesis using assms
    by (auto simp: sanitize_char_def terminal_control_def [of 32] BIDI_CONTROLS_def split: if_splits)
next
  case False
  then have "d \<in> set (escape_char c)" using assms by (auto simp: sanitize_char_def split: if_splits)
  then show ?thesis using escape_char_printable printable_safe by blast
qed

lemma marker_safe: "d \<in> set SANITIZE_MARKER \<Longrightarrow> \<not> terminal_control d"
  by (auto simp: SANITIZE_MARKER_def asc_def terminal_control_def BIDI_CONTROLS_def)

lemma sanitize_safe:
  assumes "sanitize_for_terminal ml kn text = Inr out"
  shows "length out \<le> ml \<and> list_all (\<lambda>d. \<not> terminal_control d \<or> (kn \<and> d = 10)) out"
proof -
  let ?r = "concat (map (sanitize_char kn) text)"
  have ml: "length SANITIZE_MARKER \<le> ml"
    and out: "out = (if ml < length ?r then take (ml - length SANITIZE_MARKER) ?r @ SANITIZE_MARKER else ?r)"
    using assms by (auto simp: sanitize_for_terminal_def Let_def split: if_splits)
  have "d \<in> set out \<Longrightarrow> d \<in> set ?r \<union> set SANITIZE_MARKER" for d
    unfolding out by (auto split: if_splits dest: in_set_takeD)
  then have "list_all (\<lambda>d. \<not> terminal_control d \<or> (kn \<and> d = 10)) out"
    using sanitize_char_safe marker_safe by (fastforce simp: list_all_iff)
  moreover have "length out \<le> ml" using ml unfolding out by auto
  ultimately show ?thesis by blast
qed

text \<open>Whatever a commit message contains, the text printed for it is at most \<open>max_length\<close> long and holds no
  control character that a terminal would act on: no C0 or C1 control, no bidirectional override,
  and no line feed unless the caller keeps line feeds.\<close>

theorem sanitized_text_is_inert:
  assumes "sanitize_for_terminal ml kn text = Inr out"
  shows "length out \<le> ml \<and> list_all (\<lambda>d. \<not> terminal_control d \<or> (kn \<and> d = 10)) out"
  using sanitize_safe [OF assms] .

theorem sanitized_text_is_inert_witness:
  "sanitize_for_terminal 20 False (asc ''a'' @ [27] @ asc ''[2K'') = Inr (asc ''a'' @ 92 # asc ''x1b[2K'')
   \<and> list_all (\<lambda>d. \<not> terminal_control d) (asc ''a'' @ 92 # asc ''x1b[2K'')"
proof -
  have "sanitize_for_terminal 20 False (asc ''a'' @ [27] @ asc ''[2K'') = Inr (asc ''a'' @ 92 # asc ''x1b[2K'')"
    by (simp add: sanitize_for_terminal_def SANITIZE_MARKER_def sanitize_char_def terminal_control_def
        escape_char_def zero_pad_def hex_string.simps [of 27] hex_string.simps [of "Suc 0"] hex_digit_def
        BIDI_CONTROLS_def asc_def Let_def)
  from this and sanitized_text_is_inert [OF this] show ?thesis by simp
qed

lemma split_char_join:
  "ps \<noteq> [] \<Longrightarrow> \<forall>p \<in> set ps. d \<notin> set p \<Longrightarrow> split_char d (py_join [d] ps) = ps"
  by (induction "[d]" ps rule: py_join.induct) (simp_all add: split_char_plain split_char_append)

lemma partition_char_parts:
  assumes "partition_char d s = (a, sep, b)"
  shows "d \<notin> set a \<and> s = a @ (if sep then d # b else [])"
proof (cases "dropWhile (\<lambda>c. c \<noteq> d) s")
  case Nil
  then show ?thesis using assms by (auto simp: partition_char_def Let_def dropWhile_eq_Nil_conv)
next
  case (Cons x xs)
  then have "x = d" using hd_dropWhile [of "\<lambda>c. c \<noteq> d" s] by simp
  with Cons assms takeWhile_dropWhile_id [of "\<lambda>c. c \<noteq> d" s] show ?thesis
    by (auto simp: partition_char_def Let_def dest: set_takeWhileD)
qed

text \<open>A report block cannot impersonate the program's own output: the first line of the block is the
  first line of the sanitised text, and every other line of the block starts with the indentation.\<close>

theorem sanitize_block_indents:
  assumes "sanitize_block ml indent text = Inr out" and "10 \<notin> set indent"
  shows "\<exists>safe. sanitize_for_terminal ml True text = Inr safe
     \<and> split_char 10 out = hd (split_char 10 safe) # map (\<lambda>line. indent @ line) (tl (split_char 10 safe))"
proof -
  obtain safe where safe: "sanitize_for_terminal ml True text = Inr safe"
    using assms(1) by (auto simp: sanitize_block_def split: sum.splits)
  obtain first sep rest where p: "partition_char 10 safe = (first, sep, rest)"
    by (cases "partition_char 10 safe")
  note parts = partition_char_parts [OF p]
  show ?thesis
  proof (cases sep)
    case False
    with assms(1) safe p parts show ?thesis by (simp add: sanitize_block_def split_char_plain)
  next
    case True
    let ?ls = "map (\<lambda>line. indent @ line) (split_char 10 rest)"
    have "\<forall>l \<in> set ?ls. 10 \<notin> set l" using assms(2) split_char_parts by fastforce
    then have "split_char 10 (py_join [10] ?ls) = ?ls" by (intro split_char_join) simp_all
    moreover have "out = first @ 10 # py_join [10] ?ls"
      using assms(1) safe p True by (simp add: sanitize_block_def)
    ultimately show ?thesis using parts True safe by (simp add: split_char_append)
  qed
qed

theorem sanitize_block_indents_witness:
  "sanitize_block 40 (asc ''  '') (asc ''a'' @ 10 # asc ''Result: PASS'') = Inr (asc ''a'' @ 10 # asc ''  Result: PASS'')
   \<and> split_char 10 (asc ''a'' @ 10 # asc ''  Result: PASS'') = [asc ''a'', asc ''  Result: PASS'']"
proof -
  have s: "sanitize_for_terminal 40 True (asc ''a'' @ 10 # asc ''Result: PASS'') = Inr (asc ''a'' @ 10 # asc ''Result: PASS'')"
    by (simp add: sanitize_for_terminal_def SANITIZE_MARKER_def sanitize_char_def terminal_control_def
        BIDI_CONTROLS_def asc_def)
  then have b: "sanitize_block 40 (asc ''  '') (asc ''a'' @ 10 # asc ''Result: PASS'')
      = Inr (asc ''a'' @ 10 # asc ''  Result: PASS'')"
    by (simp add: sanitize_block_def partition_char_def asc_def)
  from sanitize_block_indents [OF b] s have
    "split_char 10 (asc ''a'' @ 10 # asc ''  Result: PASS'')
      = hd (split_char 10 (asc ''a'' @ 10 # asc ''Result: PASS''))
        # map ((@) (asc ''  '')) (tl (split_char 10 (asc ''a'' @ 10 # asc ''Result: PASS'')))"
    by (simp add: asc_def)
  with b show ?thesis by (simp add: asc_def)
qed

section \<open>Identifiers, revisions and paths\<close>

datatype unsafe_input =
    RevisionEmpty | RevisionTooLong | RevisionOption | RevisionControl
  | NotAGitSha | InvalidIdentifier | InvalidConfigKey
  | PathLength | PathInvalid | PathControl
  | PushFields nat | PushObjectName nat | PushMixedFormats nat | PushRefName nat
  | PushInconsistentDeletion nat | PushTooMany

definition MAX_REVISION_LENGTH :: nat where
  "MAX_REVISION_LENGTH = 256"

definition MAX_REPOSITORY_PATH_LENGTH :: nat where
  "MAX_REPOSITORY_PATH_LENGTH = 1024"

definition control_char :: "nat \<Rightarrow> bool" where
  "control_char c \<longleftrightarrow> c < 0x20 \<or> c = 0x7F"

definition validate_revision :: "ustr \<Rightarrow> unsafe_input + ustr" where
  "validate_revision revision =
     (if revision = [] then Inl RevisionEmpty
      else if MAX_REVISION_LENGTH < length revision then Inl RevisionTooLong
      else if startswith revision [45] then Inl RevisionOption
      else if list_ex control_char revision then Inl RevisionControl
      else Inr revision)"

text \<open>The regular expressions, as the predicates they denote.\<close>

definition hex_lower :: "nat \<Rightarrow> bool" where
  "hex_lower c \<longleftrightarrow> ascii_digit c \<or> (97 \<le> c \<and> c \<le> 102)"

definition is_git_sha :: "ustr \<Rightarrow> bool" where
  "is_git_sha s \<longleftrightarrow> (length s = 40 \<or> length s = 64) \<and> list_all hex_lower s"

definition validate_git_sha :: "ustr \<Rightarrow> unsafe_input + ustr" where
  "validate_git_sha s = (if is_git_sha s then Inr s else Inl NotAGitSha)"

definition is_identifier :: "ustr \<Rightarrow> bool" where
  "is_identifier s \<longleftrightarrow>
     (case s of [] \<Rightarrow> False
      | c # cs \<Rightarrow> ascii_lower c \<and> length cs \<le> 63
                  \<and> list_all (\<lambda>d. ascii_lower d \<or> ascii_digit d \<or> d = 95) cs)"

definition validate_identifier :: "ustr \<Rightarrow> unsafe_input + ustr" where
  "validate_identifier s = (if is_identifier s then Inr s else Inl InvalidIdentifier)"

definition config_word :: "ustr \<Rightarrow> bool" where
  "config_word s \<longleftrightarrow>
     (case s of [] \<Rightarrow> False
      | c # cs \<Rightarrow> (ascii_lower c \<or> ascii_upper c) \<and> list_all (\<lambda>d. ascii_alnum d \<or> d = 45) cs)"

definition subsection_char :: "nat \<Rightarrow> bool" where
  "subsection_char c \<longleftrightarrow> ascii_alnum c \<or> c = 95 \<or> c = 46 \<or> c = 47 \<or> c = 45"

definition is_git_config_key :: "ustr \<Rightarrow> bool" where
  "is_git_config_key key \<longleftrightarrow>
     (case partition_char 46 key of
        (sec, has_dot, rest) \<Rightarrow>
          has_dot \<and> config_word sec
          \<and> (case rpartition_char 46 rest of
               (mid, has_mid, name) \<Rightarrow>
                 config_word name \<and> (has_mid \<longrightarrow> mid \<noteq> [] \<and> list_all subsection_char mid)))"

definition validate_git_config_key :: "ustr \<Rightarrow> unsafe_input + ustr" where
  "validate_git_config_key key =
     (if MAX_REVISION_LENGTH < length key \<or> \<not> is_git_config_key key then Inl InvalidConfigKey else Inr key)"

definition validate_repository_path :: "ustr \<Rightarrow> unsafe_input + ustr" where
  "validate_repository_path path =
     (if path = [] \<or> MAX_REPOSITORY_PATH_LENGTH < length path then Inl PathLength
      else if startswith path [47] \<or> startswith path [45] \<or> 92 \<in> set path
              \<or> 58 \<in> set (hd (split_char 47 path)) then Inl PathInvalid
      else if list_ex control_char path then Inl PathControl
      else if list_ex (\<lambda>part. part = [] \<or> part = [46] \<or> part = [46, 46]) (split_char 47 path)
      then Inl PathInvalid
      else Inr path)"

text \<open>What the operating system does with a path: walk its components from the root of the tree.
  \<open>None\<close> is a step above the root.\<close>

fun walk :: "ustr list \<Rightarrow> ustr list \<Rightarrow> ustr list option" where
  "walk dir [] = Some dir"
| "walk dir (c # cs) =
     (if c = [] \<or> c = [46] then walk dir cs
      else if c = [46, 46] then (if dir = [] then None else walk (butlast dir) cs)
      else walk (dir @ [c]) cs)"

lemma walk_plain:
  "\<forall>c \<in> set cs. c \<noteq> [] \<and> c \<noteq> [46] \<and> c \<noteq> [46, 46] \<Longrightarrow> walk dir cs = Some (dir @ cs)"
  by (induction cs arbitrary: dir) auto

text \<open>An accepted repository path stays inside the tree: it is relative, it is not read as an option, and
  following it from the root of the tree never steps above the root and ends exactly at the entry
  its components spell.\<close>

theorem accepted_path_stays_inside:
  assumes "validate_repository_path path = Inr p"
  shows "p = path \<and> hd path \<noteq> 47 \<and> hd path \<noteq> 45 \<and> 92 \<notin> set path
     \<and> walk [] (split_char 47 path) = Some (split_char 47 path)
     \<and> py_join [47] (split_char 47 path) = path"
proof -
  have "p = path" "hd path \<noteq> 47 \<and> hd path \<noteq> 45" "92 \<notin> set path"
    and "\<forall>c \<in> set (split_char 47 path). c \<noteq> [] \<and> c \<noteq> [46] \<and> c \<noteq> [46, 46]"
    using assms
    by (cases path; auto simp: validate_repository_path_def startswith_def list_ex_iff split: if_splits)+
  with walk_plain [of "split_char 47 path" "[]"] show ?thesis by (simp add: py_join_split_char)
qed

theorem accepted_path_stays_inside_witness:
  "walk [] (split_char 47 (asc ''conf/rules.yaml'')) = Some [asc ''conf'', asc ''rules.yaml'']"
proof -
  have "validate_repository_path (asc ''conf/rules.yaml'') = Inr (asc ''conf/rules.yaml'')"
    by (simp add: validate_repository_path_def MAX_REPOSITORY_PATH_LENGTH_def asc_def startswith_def
        control_char_def)
  from accepted_path_stays_inside [OF this]
  have "walk [] (split_char 47 (asc ''conf/rules.yaml'')) = Some (split_char 47 (asc ''conf/rules.yaml''))"
    by blast
  then show ?thesis by (simp add: asc_def)
qed

section \<open>The pre-push hook's input\<close>

record push_update =
  pu_local_ref :: ustr
  pu_local_oid :: ustr
  pu_remote_ref :: ustr
  pu_remote_oid :: ustr

definition MAX_UPDATES :: nat where
  "MAX_UPDATES = 10000"

definition MAX_REF_LENGTH :: nat where
  "MAX_REF_LENGTH = 4096"

definition DELETE_LOCAL_REF :: ustr where
  "DELETE_LOCAL_REF = asc ''(delete)''"

definition is_zero_oid :: "ustr \<Rightarrow> bool" where
  "is_zero_oid oid \<longleftrightarrow> oid \<noteq> [] \<and> list_all (\<lambda>c. c = 48) oid"

definition is_delete :: "push_update \<Rightarrow> bool" where
  "is_delete u \<longleftrightarrow> is_zero_oid (pu_local_oid u)"

definition is_new_ref :: "push_update \<Rightarrow> bool" where
  "is_new_ref u \<longleftrightarrow> is_zero_oid (pu_remote_oid u)"

definition is_tag :: "push_update \<Rightarrow> bool" where
  "is_tag u \<longleftrightarrow> startswith (pu_remote_ref u) (asc ''refs/tags/'')"

definition valid_oid :: "ustr \<Rightarrow> bool" where
  "valid_oid oid \<longleftrightarrow> is_git_sha oid \<or> ((length oid = 40 \<or> length oid = 64) \<and> is_zero_oid oid)"

definition valid_ref :: "ustr \<Rightarrow> bool" where
  "valid_ref ref \<longleftrightarrow> 0 < length ref \<and> length ref \<le> MAX_REF_LENGTH \<and> \<not> list_ex control_char ref"

definition removesuffix_cr :: "ustr \<Rightarrow> ustr" where
  "removesuffix_cr line = (if endswith line [13] then butlast line else line)"

definition parse_push_line :: "nat \<Rightarrow> ustr \<Rightarrow> nat \<Rightarrow> unsafe_input + push_update" where
  "parse_push_line number line seen =
     (case split_char 32 line of
        [local_ref, local_oid, remote_ref, remote_oid] \<Rightarrow>
          if \<not> (valid_oid local_oid \<and> valid_oid remote_oid) then Inl (PushObjectName number)
          else if length local_oid \<noteq> length remote_oid then Inl (PushMixedFormats number)
          else if \<not> (valid_ref local_ref \<and> valid_ref remote_ref) then Inl (PushRefName number)
          else if is_zero_oid local_oid \<noteq> (local_ref = DELETE_LOCAL_REF)
          then Inl (PushInconsistentDeletion number)
          else if MAX_UPDATES \<le> seen then Inl PushTooMany
          else Inr \<lparr>pu_local_ref = local_ref, pu_local_oid = local_oid,
                    pu_remote_ref = remote_ref, pu_remote_oid = remote_oid\<rparr>
      | _ \<Rightarrow> Inl (PushFields number))"

fun push_lines :: "nat \<Rightarrow> ustr list \<Rightarrow> push_update list \<Rightarrow> unsafe_input + push_update list" where
  "push_lines number [] updates = Inr updates"
| "push_lines number (raw # rest) updates =
     (let line = removesuffix_cr raw
      in if line = [] then push_lines (Suc number) rest updates
         else case parse_push_line number line (length updates) of
                Inl e \<Rightarrow> Inl e
              | Inr u \<Rightarrow> push_lines (Suc number) rest (updates @ [u]))"

definition parse_pre_push_input :: "ustr \<Rightarrow> unsafe_input + push_update list" where
  "parse_pre_push_input text = push_lines 1 (split_char 10 text) []"

text \<open>The line git writes for an update, and what makes an update acceptable.\<close>

definition render_update :: "push_update \<Rightarrow> ustr" where
  "render_update u = py_join [32] [pu_local_ref u, pu_local_oid u, pu_remote_ref u, pu_remote_oid u]"

definition valid_update :: "push_update \<Rightarrow> bool" where
  "valid_update u \<longleftrightarrow>
     valid_oid (pu_local_oid u) \<and> valid_oid (pu_remote_oid u)
     \<and> length (pu_local_oid u) = length (pu_remote_oid u)
     \<and> valid_ref (pu_local_ref u) \<and> valid_ref (pu_remote_ref u)
     \<and> (is_delete u \<longleftrightarrow> pu_local_ref u = DELETE_LOCAL_REF)
     \<and> 32 \<notin> set (pu_local_ref u) \<and> 32 \<notin> set (pu_remote_ref u)"

lemma valid_oid_chars: "valid_oid oid \<Longrightarrow> c \<in> set oid \<Longrightarrow> 48 \<le> c \<and> c \<le> 102"
  by (auto simp: valid_oid_def is_git_sha_def is_zero_oid_def hex_lower_def ascii_digit_def list_all_iff)

lemma parse_push_line_Inr:
  "parse_push_line n line seen = Inr u \<longleftrightarrow>
     line = render_update u \<and> valid_update u \<and> seen < MAX_UPDATES"
proof
  assume p: "parse_push_line n line seen = Inr u"
  then obtain a b c d where s: "split_char 32 line = [a, b, c, d]"
    by (auto simp: parse_push_line_def split: list.splits)
  have "line = py_join [32] [a, b, c, d]" using py_join_split_char [of 32 line] s by simp
  moreover have "32 \<notin> set a" "32 \<notin> set c" using split_char_parts [of _ 32 line] s by auto
  ultimately show "line = render_update u \<and> valid_update u \<and> seen < MAX_UPDATES"
    using p s
    by (auto simp: parse_push_line_def valid_update_def render_update_def is_delete_def split: if_splits)
next
  assume u: "line = render_update u \<and> valid_update u \<and> seen < MAX_UPDATES"
  have "32 \<notin> set (pu_local_oid u)" "32 \<notin> set (pu_remote_oid u)"
    using u valid_oid_chars [of _ 32] by (auto simp: valid_update_def)
  then have "split_char 32 line = [pu_local_ref u, pu_local_oid u, pu_remote_ref u, pu_remote_oid u]"
    using u unfolding render_update_def by (auto simp: valid_update_def split_char_append split_char_plain)
  with u show "parse_push_line n line seen = Inr u"
    by (auto simp: parse_push_line_def valid_update_def is_delete_def)
qed

definition push_content :: "ustr \<Rightarrow> ustr list" where
  "push_content text = filter (\<lambda>l. l \<noteq> []) (map removesuffix_cr (split_char 10 text))"

lemma push_lines_Inr:
  "length acc \<le> MAX_UPDATES \<Longrightarrow>
   push_lines n ls acc = Inr us \<longleftrightarrow>
     (\<exists>new. us = acc @ new \<and> list_all valid_update new \<and> length us \<le> MAX_UPDATES
        \<and> map render_update new = filter (\<lambda>l. l \<noteq> []) (map removesuffix_cr ls))"
proof (induction ls arbitrary: n acc)
  case (Cons raw ls)
  show ?case
  proof (cases "removesuffix_cr raw = []")
    case False
    show ?thesis
    proof (cases "\<exists>u. removesuffix_cr raw = render_update u \<and> valid_update u \<and> length acc < MAX_UPDATES")
      case True
      then obtain u where "parse_push_line n (removesuffix_cr raw) (length acc) = Inr u"
        and u: "length acc < MAX_UPDATES" "removesuffix_cr raw = render_update u" "valid_update u"
        using parse_push_line_Inr by blast
      then have "push_lines n (raw # ls) acc = push_lines (Suc n) ls (acc @ [u])"
        using False by (simp add: Let_def)
      moreover have "w = u" if "render_update w = render_update u" "valid_update w" for w
        using that u parse_push_line_Inr [of n "render_update u" "length acc"]
        by (metis sum.inject(2))
      ultimately show ?thesis
        using Cons.IH [of "acc @ [u]" "Suc n"] u False
        by (force simp: map_eq_Cons_conv)
    next
      case none: False
      then obtain e where "parse_push_line n (removesuffix_cr raw) (length acc) = Inl e"
        using parse_push_line_Inr by (metis obj_sumE)
      then have "push_lines n (raw # ls) acc = Inl e" using False by (simp add: Let_def)
      with none False Cons.prems show ?thesis by (auto simp: map_eq_Cons_conv)
    qed
  qed (use Cons in \<open>simp add: Let_def\<close>)
qed auto

text \<open>The pre-push input is accepted exactly when every non-empty line is the line of a valid update and
  there are at most 10000 of them; the updates returned are then those lines in order. A malformed
  line is never skipped: it rejects the whole input, so the push fails closed.\<close>

theorem pre_push_input_exact:
  "parse_pre_push_input text = Inr us \<longleftrightarrow>
     list_all valid_update us \<and> length us \<le> MAX_UPDATES \<and> map render_update us = push_content text"
  unfolding parse_pre_push_input_def push_content_def
  by (subst push_lines_Inr) auto

section \<open>The rate limiter\<close>

record rate_limiter =
  rl_limit :: nat
  rl_windows :: "(ustr \<times> (nat \<times> nat)) list"

definition MAX_TRACKED :: nat where
  "MAX_TRACKED = 10000"

text \<open>\<open>allow\<close> at the minute \<open>window\<close> of the clock, under the lock.\<close>

definition allow :: "ustr \<Rightarrow> nat \<Rightarrow> rate_limiter \<Rightarrow> bool \<times> rate_limiter" where
  "allow key window rl =
     (let ws = (if MAX_TRACKED < length (rl_windows rl) then [] else rl_windows rl);
          found = (case map_of ws key of None \<Rightarrow> (window, 0) | Some p \<Rightarrow> p);
          (start, n) = (if fst found \<noteq> window then (window, 0) else found)
      in (n + 1 \<le> rl_limit rl, rl\<lparr>rl_windows := AList.update key (start, n + 1) ws\<rparr>))"

fun run_requests :: "(ustr \<times> nat) list \<Rightarrow> rate_limiter \<Rightarrow> bool list \<times> rate_limiter" where
  "run_requests [] rl = ([], rl)"
| "run_requests ((key, window) # rs) rl =
     (let (ok, rl') = allow key window rl; (oks, rl'') = run_requests rs rl' in (ok # oks, rl''))"
lemma allow_limit [simp]: "rl_limit (snd (allow k w rl)) = rl_limit rl"
  by (simp add: allow_def Let_def split: prod.splits)

lemma length_update: "length (AList.update k v d) \<le> Suc (length d)"
  by (induction d) auto

lemma allow_bounded: "length (rl_windows (snd (allow k w rl))) \<le> MAX_TRACKED + 1"
  using length_update [of k _ "rl_windows rl"]
  by (auto simp: allow_def Let_def MAX_TRACKED_def split: prod.splits intro: order_trans [OF length_update])

lemma run_requests_append:
  "run_requests (rs @ qs) rl =
     (case run_requests rs rl of (a, rl1) \<Rightarrow> case run_requests qs rl1 of (b, rl2) \<Rightarrow> (a @ b, rl2))"
  by (induction rs rl rule: run_requests.induct) (auto simp: Let_def split: prod.splits)

lemma run_requests_length [simp]: "length (fst (run_requests rs rl)) = length rs"
  by (induction rs rl rule: run_requests.induct) (auto simp: Let_def split: prod.splits)

text \<open>What the table must hold after the requests \<open>rs\<close>: the last window of each key and how many of the
  key's requests fell into it.\<close>

definition requests_in :: "(ustr \<times> nat) list \<Rightarrow> ustr \<Rightarrow> nat \<Rightarrow> nat" where
  "requests_in rs key window = length (filter (\<lambda>r. r = (key, window)) rs)"

definition table_spec :: "(ustr \<times> nat) list \<Rightarrow> ustr \<Rightarrow> (nat \<times> nat) option" where
  "table_spec rs key =
     (case rev (filter (\<lambda>r. fst r = key) rs) of
        [] \<Rightarrow> None | (_, w) # _ \<Rightarrow> Some (w, requests_in rs key w))"
lemma table_spec_snoc:
  "table_spec (rs @ [(k, w)]) key
     = (if key = k then Some (w, Suc (requests_in rs k w)) else table_spec rs key)"
  by (auto simp: table_spec_def requests_in_def split: list.splits)

lemma table_spec_last:
  assumes "sorted (map snd (rs @ [(k, w)]))" and "table_spec rs k = Some (w', n)"
  shows "n = requests_in rs k w' \<and> (w' \<noteq> w \<longrightarrow> requests_in rs k w = 0)"
proof -
  let ?f = "filter (\<lambda>r. fst r = k) rs"
  from assms(2) obtain k' ps where rev_f: "rev ?f = (k', w') # ps" and n: "n = requests_in rs k w'"
    by (auto simp: table_spec_def split: list.splits)
  then have f: "?f = rev ps @ [(k', w')]" by (metis rev.simps(2) rev_rev_ident)
  have "sorted (map snd rs)" using assms(1) by (simp add: sorted_append)
  then have "sorted (map snd ?f)" by (rule sorted_filter)
  then have le: "\<forall>r \<in> set ?f. snd r \<le> w'" unfolding f by (auto simp: sorted_append)
  have "(k', w') \<in> set rs" using f by (metis filter_is_subset in_set_conv_decomp subsetD)
  then have "w' \<le> w" using assms(1) by (force simp: sorted_append)
  then have "w' \<noteq> w \<Longrightarrow> (k, w) \<notin> set rs" using le by fastforce
  then show ?thesis using n by (auto simp: requests_in_def filter_empty_conv)
qed

lemma table_spec_None: "table_spec rs k = None \<Longrightarrow> requests_in rs k w = 0"
proof -
  assume "table_spec rs k = None"
  then have "filter (\<lambda>r. fst r = k) rs = []" by (auto simp: table_spec_def split: list.splits)
  then show ?thesis by (auto simp: requests_in_def filter_empty_conv)
qed

definition table_ok :: "(ustr \<times> nat) list \<Rightarrow> rate_limiter \<Rightarrow> bool" where
  "table_ok rs rl \<longleftrightarrow> distinct (map fst (rl_windows rl)) \<and> (\<forall>k. map_of (rl_windows rl) k = table_spec rs k)"

lemma table_spec_dom: "table_spec rs k \<noteq> None \<longleftrightarrow> k \<in> fst ` set rs"
proof -
  have "table_spec rs k = None \<longleftrightarrow> rev (filter (\<lambda>r. fst r = k) rs) = []"
    by (auto simp: table_spec_def split: list.splits)
  then show ?thesis by (auto simp: filter_empty_conv image_iff)
qed

lemma table_ok_length: "table_ok rs rl \<Longrightarrow> length (rl_windows rl) = card (fst ` set rs)"
proof -
  assume ok: "table_ok rs rl"
  have "set (map fst (rl_windows rl)) = dom (map_of (rl_windows rl))" by (simp add: dom_map_of_conv_image_fst)
  also have "\<dots> = fst ` set rs" using ok table_spec_dom by (auto simp: table_ok_def dom_def)
  finally show ?thesis using ok distinct_card [of "map fst (rl_windows rl)"] by (simp add: table_ok_def)
qed

lemma allow_step:
  assumes "table_ok rs rl" and "sorted (map snd (rs @ [(k, w)]))" and "card (fst ` set rs) \<le> MAX_TRACKED"
  shows "fst (allow k w rl) \<longleftrightarrow> requests_in rs k w < rl_limit rl"
    and "table_ok (rs @ [(k, w)]) (snd (allow k w rl))"
proof -
  have len: "\<not> MAX_TRACKED < length (rl_windows rl)" using assms(1,3) table_ok_length by simp
  have m: "map_of (rl_windows rl) = table_spec rs" using assms(1) by (auto simp: table_ok_def)
  have "fst (allow k w rl) = (requests_in rs k w < rl_limit rl)
      \<and> rl_windows (snd (allow k w rl)) = AList.update k (w, Suc (requests_in rs k w)) (rl_windows rl)"
    using table_spec_last [OF assms(2)] table_spec_None [of rs k w] len
    by (auto simp: allow_def Let_def m split: option.splits)
  then show "fst (allow k w rl) \<longleftrightarrow> requests_in rs k w < rl_limit rl"
    and "table_ok (rs @ [(k, w)]) (snd (allow k w rl))"
    using assms(1) m
    by (auto simp: table_ok_def map_of_update table_spec_snoc distinct_update)
qed

definition granted_requests :: "(ustr \<times> nat) list \<Rightarrow> bool list \<Rightarrow> ustr \<Rightarrow> nat \<Rightarrow> nat" where
  "granted_requests rs oks key window = length (filter (\<lambda>(r, ok). r = (key, window) \<and> ok) (zip rs oks))"

lemma run_requests_spec:
  assumes "sorted (map snd rs)" and "card (fst ` set rs) \<le> MAX_TRACKED"
    and "rl = \<lparr>rl_limit = lim, rl_windows = []\<rparr>"
  shows "table_ok rs (snd (run_requests rs rl)) \<and> rl_limit (snd (run_requests rs rl)) = lim
     \<and> (\<forall>k w. granted_requests rs (fst (run_requests rs rl)) k w = min lim (requests_in rs k w))"
  using assms(1,2)
proof (induction rs rule: rev_induct)
  case Nil
  then show ?case using assms(3)
    by (simp add: table_ok_def table_spec_def granted_requests_def requests_in_def)
next
  case (snoc r rs)
  obtain k w where r: "r = (k, w)" by (cases r)
  have card: "card (fst ` set rs) \<le> MAX_TRACKED"
    by (rule order_trans [OF card_mono snoc.prems(2)]) auto
  have "sorted (map snd rs)" using snoc.prems(1) by (simp add: sorted_append)
  note IH = snoc.IH [OF this card]
  obtain oks st where run: "run_requests rs rl = (oks, st)" by (cases "run_requests rs rl")
  have len: "length oks = length rs" using run_requests_length [of rs rl] run by simp
  have st: "table_ok rs st" "rl_limit st = lim" using IH run by simp_all
  note step = allow_step [OF st(1) snoc.prems(1) [unfolded r] card]
  have run': "run_requests (rs @ [r]) rl = (oks @ [fst (allow k w st)], snd (allow k w st))"
    using run by (simp add: run_requests_append r split: prod.splits)
  have "granted_requests (rs @ [r]) (oks @ [fst (allow k w st)]) k' w'
      = min lim (requests_in (rs @ [r]) k' w')" for k' w'
    using IH run len step(1) st(2) r by (auto simp: granted_requests_def requests_in_def)
  with step(2) st(2) run' r show ?case by simp
qed

text \<open>C36: Rate limiting is exact: while at most 10000 clients are tracked and the clock does not go backwards,
  the number of requests of a client granted in a minute is the number it made, capped at the limit,
  whatever the other clients do.\<close>

theorem rate_limit_exact:
  assumes "sorted (map snd rs)" and "card (fst ` set rs) \<le> MAX_TRACKED"
  shows "granted_requests rs (fst (run_requests rs \<lparr>rl_limit = lim, rl_windows = []\<rparr>)) key window
           = min lim (requests_in rs key window)"
  using run_requests_spec [OF assms refl] by blast

theorem rate_limit_exact_witness:
  "granted_requests [(asc ''a'', 1), (asc ''b'', 1), (asc ''a'', 1), (asc ''a'', 2)]
     (fst (run_requests [(asc ''a'', 1), (asc ''b'', 1), (asc ''a'', 1), (asc ''a'', 2)]
        \<lparr>rl_limit = 1, rl_windows = []\<rparr>)) (asc ''a'') 1 = 1"
  by (subst rate_limit_exact) (simp_all add: MAX_TRACKED_def requests_in_def asc_def card_insert_if)

text \<open>The limiter's memory is bounded: after any sequence of requests, from any clients at any times, it
  tracks at most 10001 windows.\<close>

theorem rate_limiter_memory_bounded:
  "length (rl_windows (snd (run_requests rs \<lparr>rl_limit = lim, rl_windows = []\<rparr>))) \<le> MAX_TRACKED + 1"
proof (cases rs rule: rev_cases)
  case (snoc qs r)
  then show ?thesis
    using allow_bounded by (cases r) (simp add: run_requests_append split: prod.splits, metis snd_conv)
qed simp

end
