(* ===== verification/Detection.thy ===== *)
theory Detection
  imports Trailers Findings Inputs Policies "HOL-Library.Multiset" "HOL-Library.List_Lexorder" "HOL-Library.Char_ord"
begin

text \<open>
  The detection pipeline: the commit model (\<open>git/commit.py\<close>), the detector interface
  (\<open>detectors/base.py\<close>), the registry (\<open>detectors/registry.py\<close>), the engine (\<open>core/engine.py\<close>) and the
  analysis that feeds its result to the policy evaluator (\<open>services/analysis.py\<close>). A detector is a
  value with a name, its declared rules and a function that may raise; the contract it promises is
  the locale \<open>detector_contract\<close>.
\<close>

section \<open>Commits\<close>

record commit =
  cm_sha :: "string option"
  cm_parents :: "string list"
  cm_author :: identity
  cm_committer :: identity
  cm_message :: ustr
  cm_trailers :: "trailer list"
  cm_trailers_truncated :: bool

text \<open>The constructor \<open>Commit(...)\<close>: object names are validated and the trailers always derived.\<close>

definition mk_commit ::
  "ucd \<Rightarrow> string option \<Rightarrow> string list \<Rightarrow> identity \<Rightarrow> identity \<Rightarrow> ustr \<Rightarrow> unsafe_input + commit" where
  "mk_commit U sha parents author committer message =
     (let parsed = parse_trailers U message
      in if (case sha of None \<Rightarrow> False | Some s \<Rightarrow> \<not> is_git_sha (asc s)) then Inl NotAGitSha
         else if list_ex (\<lambda>p. \<not> is_git_sha (asc p)) parents then Inl NotAGitSha
         else Inr \<lparr>cm_sha = sha, cm_parents = parents, cm_author = author, cm_committer = committer,
                   cm_message = message, cm_trailers = pt_trailers parsed,
                   cm_trailers_truncated = pt_truncated parsed\<rparr>)"

definition pending_commit :: "ucd \<Rightarrow> ustr \<Rightarrow> identity \<Rightarrow> identity \<Rightarrow> unsafe_input + commit" where
  "pending_commit U message author committer = mk_commit U None [] author committer message"

definition is_pending :: "commit \<Rightarrow> bool" where
  "is_pending c \<longleftrightarrow> cm_sha c = None"

definition is_merge :: "commit \<Rightarrow> bool" where
  "is_merge c \<longleftrightarrow> 1 < length (cm_parents c)"

definition short_sha :: "commit \<Rightarrow> string" where
  "short_sha c = (case cm_sha c of None \<Rightarrow> ''pending'' | Some s \<Rightarrow> if s = [] then ''pending'' else take 7 s)"

definition subject_line :: "commit \<Rightarrow> ustr" where
  "subject_line c = hd (split_char 10 (cm_message c))"

definition trailers_with_key :: "ucd \<Rightarrow> commit \<Rightarrow> ustr \<Rightarrow> trailer list" where
  "trailers_with_key U c key = filter (\<lambda>t. normalized_key U t = key) (cm_trailers c)"

section \<open>Detectors\<close>

datatype py_exc = PyExc (exc_type: string) (exc_text: ustr)

record detector =
  det_name :: string
  det_rules :: "string list"
  det_detect :: "commit \<Rightarrow> py_exc + finding list"

definition require_complete_trailers :: "commit \<Rightarrow> py_exc + unit" where
  "require_complete_trailers c =
     (if cm_trailers_truncated c
      then Inl (PyExc ''DetectionError'' (asc ''commit has too many trailers to analyse completely''))
      else Inr ())"

section \<open>The registry\<close>

type_synonym registry = "(string \<times> detector) list"

datatype registration_error = InvalidName string | NoRules string | AlreadyRegistered string | NoDetector string

definition register :: "detector \<Rightarrow> registry \<Rightarrow> registration_error + registry" where
  "register d reg =
     (if \<not> is_identifier (asc (det_name d)) then Inl (InvalidName (det_name d))
      else case find (\<lambda>r. \<not> is_identifier (asc r)) (det_rules d) of
        Some r \<Rightarrow> Inl (InvalidName r)
      | None \<Rightarrow>
          if det_rules d = [] then Inl (NoRules (det_name d))
          else if map_of reg (det_name d) \<noteq> None then Inl (AlreadyRegistered (det_name d))
          else Inr (AList.update (det_name d) d reg))"

definition get_detector :: "string \<Rightarrow> registry \<Rightarrow> registration_error + detector" where
  "get_detector name reg = (case map_of reg name of None \<Rightarrow> Inl (NoDetector name) | Some d \<Rightarrow> Inr d)"

text \<open>\<open>all\<close>: sorted by name.\<close>

definition all_detectors :: "registry \<Rightarrow> detector list" where
  "all_detectors reg = map snd (sort_key fst reg)"

definition registry_rules :: "registry \<Rightarrow> string list" where
  "registry_rules reg = concat (map (det_rules \<circ> snd) reg)"

section \<open>The engine\<close>

definition check_finding :: "ucd \<Rightarrow> detector \<Rightarrow> commit \<Rightarrow> finding \<Rightarrow> py_exc option" where
  "check_finding U d c f =
     (if fd_detector f \<noteq> det_name d
      then Some (PyExc ''DetectionError'' (asc ''finding attributed to '' @ u_repr U (asc (fd_detector f))))
      else if fd_rule_id f \<notin> set (det_rules d)
      then Some (PyExc ''DetectionError'' (asc ''finding uses undeclared rule '' @ u_repr U (asc (fd_rule_id f))))
      else if fd_commit_sha f \<noteq> cm_sha c
      then Some (PyExc ''DetectionError'' (asc ''finding refers to a different commit''))
      else None)"

definition run_detector :: "ucd \<Rightarrow> detector \<Rightarrow> commit \<Rightarrow> py_exc + finding list" where
  "run_detector U d c =
     (case det_detect d c of
        Inl e \<Rightarrow> Inl e
      | Inr produced \<Rightarrow>
          (case List.map_filter (check_finding U d c) produced of
             [] \<Rightarrow> Inr produced
           | e # _ \<Rightarrow> Inl e))"

text \<open>The default bound is above the minimum, so this call cannot raise.\<close>

definition sanitize_default :: "ustr \<Rightarrow> ustr" where
  "sanitize_default text = (case sanitize_for_terminal 500 False text of Inl _ \<Rightarrow> [] | Inr s \<Rightarrow> s)"

definition mk_failure :: "detector \<Rightarrow> py_exc \<Rightarrow> detector_failure" where
  "mk_failure d e =
     \<lparr>df_detector = det_name d, df_error_type = exc_type e,
      df_message = sanitize_default (if exc_text e = [] then asc (exc_type e) else exc_text e)\<rparr>"

definition enabled_for :: "string list option \<Rightarrow> detector \<Rightarrow> bool" where
  "enabled_for enabled d \<longleftrightarrow>
     (case enabled of None \<Rightarrow> True | Some rules \<Rightarrow> list_ex (\<lambda>r. r \<in> set rules) (det_rules d))"

definition engine_step ::
  "ucd \<Rightarrow> commit \<Rightarrow> string list option \<Rightarrow> detection_result \<Rightarrow> detector \<Rightarrow> detection_result" where
  "engine_step U c enabled r d =
     (if \<not> enabled_for enabled d
      then r\<lparr>dr_detectors_skipped := dr_detectors_skipped r @ [det_name d]\<rparr>
      else (let r1 = r\<lparr>dr_detectors_run := dr_detectors_run r @ [det_name d]\<rparr>
            in case run_detector U d c of
                 Inl e \<Rightarrow> r1\<lparr>dr_failures := dr_failures r1 @ [mk_failure d e]\<rparr>
               | Inr fs \<Rightarrow> r1\<lparr>dr_findings := dr_findings r1 @ fs\<rparr>))"

definition empty_result :: "commit \<Rightarrow> detection_result" where
  "empty_result c =
     \<lparr>dr_commit_sha = cm_sha c, dr_detectors_run = [], dr_detectors_skipped = [], dr_findings = [],
      dr_failures = []\<rparr>"

definition run_engine :: "ucd \<Rightarrow> registry \<Rightarrow> commit \<Rightarrow> string list option \<Rightarrow> detection_result" where
  "run_engine U reg c enabled = foldl (engine_step U c enabled) (empty_result c) (all_detectors reg)"

section \<open>Analysis\<close>

definition enabled_rules :: "policies \<Rightarrow> string list" where
  "enabled_rules ps = map (p_id \<circ> snd) (filter (p_enabled \<circ> snd) ps)"

text \<open>The report of a commit (\<open>services/reports.py\<close>): findings and failures with the outcome applied.\<close>

record evaluated_finding =
  ef_finding :: finding
  ef_action :: action
  ef_policy_id :: "string option"
  ef_reason :: string

record evaluated_failure =
  ex_failed :: detector_failure
  ex_fail_action :: action
  ex_fail_reason :: string

record commit_report =
  cr_commit_sha :: "string option"
  cr_short_sha :: string
  cr_subject :: ustr
  cr_action :: action
  cr_findings :: "evaluated_finding list"
  cr_failures :: "evaluated_failure list"
  cr_detectors_run :: "string list"
  cr_detectors_skipped :: "string list"

definition MAX_SUBJECT_CHARS :: nat where
  "MAX_SUBJECT_CHARS = 120"

definition report_finding :: "explanation \<Rightarrow> evaluated_finding option" where
  "report_finding e =
     map_option (\<lambda>f. \<lparr>ef_finding = f, ef_action = ex_action e, ef_policy_id = ex_policy_id e,
                      ef_reason = ex_reason e\<rparr>) (ex_finding e)"

definition report_failure :: "explanation \<Rightarrow> evaluated_failure option" where
  "report_failure e =
     (if ex_finding e \<noteq> None then None
      else map_option (\<lambda>x. \<lparr>ex_failed = x, ex_fail_action = ex_action e, ex_fail_reason = ex_reason e\<rparr>)
             (ex_failure e))"

definition build_commit_report :: "string \<Rightarrow> detection_result \<Rightarrow> decision \<Rightarrow> ustr \<Rightarrow> commit_report" where
  "build_commit_report sha detection decision subject =
     \<lparr>cr_commit_sha = dr_commit_sha detection, cr_short_sha = sha,
      cr_subject = take MAX_SUBJECT_CHARS subject, cr_action = dc_action decision,
      cr_findings = List.map_filter report_finding (dc_explanations decision),
      cr_failures = List.map_filter report_failure (dc_explanations decision),
      cr_detectors_run = dr_detectors_run detection,
      cr_detectors_skipped = dr_detectors_skipped detection\<rparr>"

definition analyze :: "ucd \<Rightarrow> registry \<Rightarrow> policies \<Rightarrow> commit \<Rightarrow> commit_report" where
  "analyze U reg ps c =
     (let detection = run_engine U reg c (Some (enabled_rules ps));
          decision = evaluate ps detection
      in build_commit_report (short_sha c) detection decision (subject_line c))"

text \<open>The action of a report over several commits, and its summary counts.\<close>

definition report_action :: "commit_report list \<Rightarrow> action" where
  "report_action rs = most_restrictive (map cr_action rs)"

definition summary_count :: "commit_report list \<Rightarrow> action \<Rightarrow> nat" where
  "summary_count rs a =
     sum_list (map (\<lambda>r. length (filter (\<lambda>x. x = a)
        (map ef_action (cr_findings r) @ map ex_fail_action (cr_failures r)))) rs)"

section \<open>What the engine reports\<close>

lemma map_filter_Nil_iff: "List.map_filter f xs = [] \<longleftrightarrow> (\<forall>x \<in> set xs. f x = None)"
  by (auto simp: map_filter_def filter_empty_conv)

definition attributed :: "detector \<Rightarrow> commit \<Rightarrow> finding \<Rightarrow> bool" where
  "attributed d c f \<longleftrightarrow>
     fd_detector f = det_name d \<and> fd_rule_id f \<in> set (det_rules d) \<and> fd_commit_sha f = cm_sha c"

lemma check_finding_None [simp]: "check_finding U d c f = None \<longleftrightarrow> attributed d c f"
  by (simp add: check_finding_def attributed_def)

lemma run_detector_Inr:
  "run_detector U d c = Inr fs \<longleftrightarrow> det_detect d c = Inr fs \<and> list_all (attributed d c) fs"
proof (cases "det_detect d c")
  case (Inr produced)
  show ?thesis
  proof (cases "List.map_filter (check_finding U d c) produced")
    case Nil
    then have "list_all (attributed d c) produced" by (simp add: map_filter_Nil_iff list_all_iff)
    with Nil Inr show ?thesis by (auto simp: run_detector_def)
  next
    case (Cons e es)
    then have "\<not> list_all (attributed d c) produced"
      using map_filter_Nil_iff [of "check_finding U d c" produced] by (auto simp: list_all_iff)
    then show ?thesis using Inr Cons by (auto simp: run_detector_def)
  qed
qed (simp add: run_detector_def)

text \<open>The specification of a run: for each detector what it contributes.\<close>

definition findings_of :: "ucd \<Rightarrow> commit \<Rightarrow> detector \<Rightarrow> finding list" where
  "findings_of U c d = (case run_detector U d c of Inl _ \<Rightarrow> [] | Inr fs \<Rightarrow> fs)"

definition failures_of :: "ucd \<Rightarrow> commit \<Rightarrow> detector \<Rightarrow> detector_failure list" where
  "failures_of U c d = (case run_detector U d c of Inl e \<Rightarrow> [mk_failure d e] | Inr _ \<Rightarrow> [])"

lemma engine_fold:
  "foldl (engine_step U c en) r ds =
     r\<lparr>dr_detectors_run := dr_detectors_run r @ map det_name (filter (enabled_for en) ds),
       dr_detectors_skipped := dr_detectors_skipped r @ map det_name (filter (\<lambda>d. \<not> enabled_for en d) ds),
       dr_findings := dr_findings r @ concat (map (findings_of U c) (filter (enabled_for en) ds)),
       dr_failures := dr_failures r @ concat (map (failures_of U c) (filter (enabled_for en) ds))\<rparr>"
proof (induction ds arbitrary: r)
  case (Cons d ds)
  show ?case
    unfolding foldl_Cons Cons.IH
    by (cases "run_detector U d c")
      (simp_all add: engine_step_def Let_def findings_of_def [of U c d] failures_of_def [of U c d])
qed simp

lemma run_engine_eq:
  "run_engine U reg c en =
     \<lparr>dr_commit_sha = cm_sha c,
      dr_detectors_run = map det_name (filter (enabled_for en) (all_detectors reg)),
      dr_detectors_skipped = map det_name (filter (\<lambda>d. \<not> enabled_for en d) (all_detectors reg)),
      dr_findings = concat (map (findings_of U c) (filter (enabled_for en) (all_detectors reg))),
      dr_failures = concat (map (failures_of U c) (filter (enabled_for en) (all_detectors reg)))\<rparr>"
  unfolding run_engine_def engine_fold by (simp add: empty_result_def)

section \<open>Registration\<close>

definition register_all :: "detector list \<Rightarrow> registration_error + registry" where
  "register_all ds = fold_err register ds []"

definition registry_ok :: "detector list \<Rightarrow> registry \<Rightarrow> bool" where
  "registry_ok ds reg \<longleftrightarrow> reg = map (\<lambda>d. (det_name d, d)) ds \<and> distinct (map det_name ds)"

lemma update_new: "k \<notin> fst ` set d \<Longrightarrow> AList.update k v d = d @ [(k, v)]"
  by (induction d) auto

lemma register_ok:
  "registry_ok ds reg \<Longrightarrow> register d reg = Inr reg' \<Longrightarrow> registry_ok (ds @ [d]) reg'"
  by (auto simp: register_def registry_ok_def map_of_eq_None_iff image_image update_new
      split: if_splits option.splits)

lemma register_all_ok: "register_all ds = Inr reg \<Longrightarrow> registry_ok ds reg"
proof (induction ds arbitrary: reg rule: rev_induct)
  case (snoc d ds)
  then show ?case
    by (auto simp: register_all_def fold_err_append intro: register_ok split: sum.splits)
qed (simp add: register_all_def registry_ok_def)

lemma all_detectors_ok:
  assumes "registry_ok ds reg"
  shows "mset (all_detectors reg) = mset ds" and "sorted (map det_name (all_detectors reg))"
    and "distinct (map det_name (all_detectors reg))"
proof -
  have key: "map det_name (all_detectors reg) = map fst (sort_key fst reg)"
    using assms by (auto simp: all_detectors_def registry_ok_def)
  have "mset (all_detectors reg) = mset (map snd reg)"
    unfolding all_detectors_def by (simp only: mset_map mset_sort)
  moreover have "map snd reg = ds" using assms by (simp add: registry_ok_def comp_def)
  ultimately show "mset (all_detectors reg) = mset ds" by simp
  show "sorted (map det_name (all_detectors reg))" unfolding key by (rule sorted_sort_key)
  show "distinct (map det_name (all_detectors reg))"
    unfolding key using assms by (simp add: registry_ok_def comp_def)
qed

lemma all_detectors_set: "registry_ok ds reg \<Longrightarrow> set (all_detectors reg) = set ds"
  using all_detectors_ok(1) by (metis set_mset_mset)

text \<open>The engine accounts for every detector: each registered detector is either run or recorded as
  skipped, exactly once and in name order, and it is skipped only when none of its rules is enabled.
  Every finding is attributed to a detector that ran to completion, for a rule it declared, on this
  commit, and every failure to a detector that ran.\<close>

theorem engine_accounts_for_all:
  assumes "register_all ds = Inr reg" and "r = run_engine U reg c en"
  shows "mset (dr_detectors_run r @ dr_detectors_skipped r) = mset (map det_name ds)
     \<and> sorted (dr_detectors_run r) \<and> sorted (dr_detectors_skipped r)
     \<and> set (dr_detectors_skipped r) = det_name ` {d \<in> set ds. \<not> enabled_for en d}
     \<and> (\<forall>f \<in> set (dr_findings r). \<exists>d \<in> set ds. enabled_for en d \<and> attributed d c f
          \<and> (\<exists>fs. run_detector U d c = Inr fs \<and> f \<in> set fs))
     \<and> (\<forall>x \<in> set (dr_failures r). df_detector x \<in> set (dr_detectors_run r))"
proof -
  note ok = register_all_ok [OF assms(1)]
  note all = all_detectors_ok [OF ok] and set = all_detectors_set [OF ok]
  let ?ds = "all_detectors reg"
  have "mset (map det_name (filter (enabled_for en) ?ds) @ map det_name (filter (\<lambda>d. \<not> enabled_for en d) ?ds))
      = image_mset det_name (mset ?ds)"
    by (simp flip: image_mset_union)
  moreover have "sorted (map det_name (filter P ?ds))" for P
    using all(2) by (rule sorted_filter)
  moreover have "\<exists>d \<in> set ds. enabled_for en d \<and> attributed d c f \<and> (\<exists>fs. run_detector U d c = Inr fs \<and> f \<in> set fs)"
    if "f \<in> set (dr_findings r)" for f
  proof -
    from that obtain d where d: "d \<in> set ds" "enabled_for en d" "f \<in> set (findings_of U c d)"
      by (auto simp: assms(2) run_engine_eq set)
    then obtain fs where fs: "run_detector U d c = Inr fs" "f \<in> set fs"
      by (cases "run_detector U d c") (auto simp: findings_of_def)
    then have "attributed d c f" by (simp add: run_detector_Inr list_all_iff)
    with d fs show ?thesis by blast
  qed
  moreover have "df_detector x \<in> set (dr_detectors_run r)" if "x \<in> set (dr_failures r)" for x
    using that by (auto simp: assms(2) run_engine_eq failures_of_def mk_failure_def split: sum.splits)
  ultimately show ?thesis
    using all(1) set by (auto simp: assms(2) run_engine_eq)
qed

definition silent_detector :: detector where
  "silent_detector = \<lparr>det_name = ''silent'', det_rules = [''quiet''], det_detect = (\<lambda>_. Inr [])\<rparr>"

definition empty_commit :: commit where
  "empty_commit = \<lparr>cm_sha = None, cm_parents = [], cm_author = \<lparr>id_name = [], id_email = []\<rparr>,
     cm_committer = \<lparr>id_name = [], id_email = []\<rparr>, cm_message = [], cm_trailers = [],
     cm_trailers_truncated = False\<rparr>"

theorem engine_accounts_for_all_witness:
  "mset (dr_detectors_run (run_engine ascii_ucd [(''silent'', silent_detector)] empty_commit None)
         @ dr_detectors_skipped (run_engine ascii_ucd [(''silent'', silent_detector)] empty_commit None))
     = {#''silent''#}"
proof -
  have "register_all [silent_detector] = Inr [(''silent'', silent_detector)]"
    by (simp add: register_all_def register_def silent_detector_def is_identifier_def asc_def ascii_class_defs)
  from conjunct1 [OF engine_accounts_for_all [OF this refl]] show ?thesis
    by (simp add: silent_detector_def)
qed

section \<open>Failing closed\<close>

lemma evaluate_action:
  "dc_action (evaluate ps r) = BLOCK \<longleftrightarrow>
     dr_failures r \<noteq> []
     \<or> (\<exists>f \<in> set (dr_findings r). ex_action (explain_finding ps f) = BLOCK)"
proof -
  have "dc_action (evaluate ps r) = BLOCK
      \<longleftrightarrow> BLOCK \<in> (\<lambda>f. ex_action (explain_finding ps f)) ` set (dr_findings r) \<union> (\<lambda>x. BLOCK) ` set (dr_failures r)"
    by (simp add: evaluate_def Let_def most_restrictive_block_iff explain_failure_def image_Un image_image)
  also have "\<dots> \<longleftrightarrow> dr_failures r \<noteq> [] \<or> (\<exists>f \<in> set (dr_findings r). ex_action (explain_finding ps f) = BLOCK)"
    by (cases "dr_failures r") (auto simp: image_iff intro: sym)
  finally show ?thesis .
qed

lemma explain_finding_action:
  "ex_action (explain_finding ps f) = (case map_of ps (fd_rule_id f) of None \<Rightarrow> BLOCK | Some p \<Rightarrow> effective_action p)"
  by (simp add: explain_finding_def effective_action_def split: option.split)

definition detector_blocks :: "ucd \<Rightarrow> policies \<Rightarrow> commit \<Rightarrow> detector \<Rightarrow> bool" where
  "detector_blocks U ps c d \<longleftrightarrow>
     (case run_detector U d c of
        Inl _ \<Rightarrow> True
      | Inr fs \<Rightarrow> list_ex (\<lambda>f. case map_of ps (fd_rule_id f) of
                              None \<Rightarrow> True | Some p \<Rightarrow> effective_action p = BLOCK) fs)"

text \<open>C29: A commit is blocked exactly when some detector with an enabled rule raises or returns something
  invalid, or reports a finding for which there is no policy or a blocking one. No detector can
  silence another: a crash of one detector never lets the commit pass.\<close>

theorem analysis_blocks_iff:
  "cr_action (analyze U reg ps c) = BLOCK \<longleftrightarrow>
     list_ex (\<lambda>d. enabled_for (Some (enabled_rules ps)) d \<and> detector_blocks U ps c d) (all_detectors reg)"
proof -
  have "detector_blocks U ps c d \<longleftrightarrow> failures_of U c d \<noteq> []
      \<or> (\<exists>f \<in> set (findings_of U c d). ex_action (explain_finding ps f) = BLOCK)" for d
    by (auto simp: detector_blocks_def failures_of_def findings_of_def explain_finding_action list_ex_iff
        split: sum.splits option.splits)
  then show ?thesis
    by (auto simp: analyze_def Let_def build_commit_report_def evaluate_action run_engine_eq list_ex_iff)
qed

lemma report_parts:
  "List.map_filter report_finding (dc_explanations (evaluate ps r))
     = map (\<lambda>f. \<lparr>ef_finding = f, ef_action = ex_action (explain_finding ps f),
                 ef_policy_id = ex_policy_id (explain_finding ps f), ef_reason = ex_reason (explain_finding ps f)\<rparr>)
         (dr_findings r)"
  "List.map_filter report_failure (dc_explanations (evaluate ps r))
     = map (\<lambda>x. \<lparr>ex_failed = x, ex_fail_action = BLOCK, ex_fail_reason = ex_reason (explain_failure x)\<rparr>)
         (dr_failures r)"
proof -
  have f: "ex_finding (explain_finding ps f) = Some f" for f
    by (simp add: explain_finding_def split: option.split)
  have x: "ex_finding (explain_failure x) = None" "ex_failure (explain_failure x) = Some x"
    "ex_action (explain_failure x) = BLOCK" for x
    by (simp_all add: explain_failure_def)
  show "List.map_filter report_finding (dc_explanations (evaluate ps r))
     = map (\<lambda>f. \<lparr>ef_finding = f, ef_action = ex_action (explain_finding ps f),
                 ef_policy_id = ex_policy_id (explain_finding ps f), ef_reason = ex_reason (explain_finding ps f)\<rparr>)
         (dr_findings r)"
    by (simp add: evaluate_def Let_def map_filter_def report_finding_def f x comp_def)
  show "List.map_filter report_failure (dc_explanations (evaluate ps r))
     = map (\<lambda>x. \<lparr>ex_failed = x, ex_fail_action = BLOCK, ex_fail_reason = ex_reason (explain_failure x)\<rparr>)
         (dr_failures r)"
    by (simp add: evaluate_def Let_def map_filter_def report_failure_def f x comp_def)
qed

text \<open>The report of a commit loses nothing: it lists every finding and every failure of the detection, in
  order, and its overall action is the most restrictive of the actions it lists.\<close>

theorem report_lossless:
  "map ef_finding (cr_findings (analyze U reg ps c)) = dr_findings (run_engine U reg c (Some (enabled_rules ps)))
   \<and> map ex_failed (cr_failures (analyze U reg ps c)) = dr_failures (run_engine U reg c (Some (enabled_rules ps)))
   \<and> cr_action (analyze U reg ps c)
       = most_restrictive (map ef_action (cr_findings (analyze U reg ps c))
                           @ map ex_fail_action (cr_failures (analyze U reg ps c)))"
proof -
  let ?r = "run_engine U reg c (Some (enabled_rules ps))"
  have "dc_action (evaluate ps ?r) = most_restrictive
      (map (\<lambda>f. ex_action (explain_finding ps f)) (dr_findings ?r) @ map (\<lambda>x. BLOCK) (dr_failures ?r))"
    by (simp add: evaluate_def Let_def explain_failure_def comp_def)
  then show ?thesis
    by (simp add: analyze_def Let_def build_commit_report_def report_parts comp_def)
qed

end
