(* ===== verification/Rules.thy ===== *)
theory Rules
  imports Authors Findings Inputs "HOL-Library.List_Lexorder" "HOL-Library.Product_Lexorder"
    "HOL-Library.Char_ord"
begin

text \<open>
  Rule data and identity matching (\<open>rules/models.py\<close>, \<open>rules/matcher.py\<close>): the validators of the rule
  files and their cross-references, the indexes of the matcher, and the evaluation of the evidence
  for a name and an e-mail. Reading the YAML files is input and not modelled. A \<open>ValueError\<close>
  or \<open>KeyError\<close> is the left side of a sum.
\<close>

section \<open>Rule data\<close>

record identity_rule =
  ir_id :: string
  ir_display_name :: ustr
  ir_vendor :: ustr
  ir_names :: "ustr list"
  ir_ambiguous_names :: "ustr list"
  ir_name_prefixes :: "ustr list"
  ir_emails :: "ustr list"
  ir_github_logins :: "ustr list"
  ir_verified :: bool
  ir_reference :: ustr

datatype local_parts = LpAutomation | LpAny

record domain_rule =
  dm_domain :: ustr
  dm_agent :: string
  dm_local_parts :: local_parts
  dm_include_subdomains :: bool

record ai_domain_rules =
  ad_automation_local_parts :: "ustr list"
  ad_domains :: "domain_rule list"

datatype trailer_match = TmKeyPresent | TmAiIdentity

record trailer_rule =
  tr_id :: string
  tr_keys :: "ustr list"
  tr_match :: trailer_match
  tr_description :: ustr
  tr_ignore_values :: "ustr list"

record malformed_check =
  mc_keys :: "ustr list"
  mc_require_identity :: bool

record message_marker =
  mm_id :: string
  mm_agent :: string
  mm_lines :: "ustr list"

record pattern_rules =
  pr_coauthor_trailer_keys :: "ustr list"
  pr_attribution_trailers :: "trailer_rule list"
  pr_malformed_trailer_checks :: "malformed_check list"
  pr_message_markers :: "message_marker list"

record rule_set =
  rs_agents :: "identity_rule list"
  rs_ai_domains :: ai_domain_rules
  rs_bots :: "identity_rule list"
  rs_patterns :: pattern_rules

datatype rule_error =
    EmptyEntry ustr | InvalidEmail ustr | NoIdentifiers string | InvalidDomain ustr
  | InvalidLocalPart ustr | NonCanonicalKey ustr | BadRuleId string | EmptyField
  | DuplicateId string | DuplicateText ustr
  | UnknownAgent string | CoauthorKeyReused string
  | ClaimedTwice ustr string string | UnknownRule string

section \<open>Validation of the rule files\<close>

text \<open>\<open>for x in xs: if bad(x): raise e(x)\<close>: the first offending entry raises.\<close>

fun require_all :: "('a \<Rightarrow> bool) \<Rightarrow> ('a \<Rightarrow> 'e) \<Rightarrow> 'a list \<Rightarrow> 'e + unit" where
  "require_all P e [] = Inr ()"
| "require_all P e (x # xs) = (if P x then require_all P e xs else Inl (e x))"

lemma require_all_Inr [simp]: "require_all P e xs = Inr u \<longleftrightarrow> list_all P xs"
  by (induction xs) auto

definition both :: "'e + unit \<Rightarrow> 'e + unit \<Rightarrow> 'e + unit" where
  "both a b = (case a of Inl e \<Rightarrow> Inl e | Inr _ \<Rightarrow> b)"

lemma both_Inr [simp]: "both a b = Inr u \<longleftrightarrow> a = Inr () \<and> b = Inr ()"
  by (simp add: both_def split: sum.splits)

fun require_unique :: "('a \<Rightarrow> 'e) \<Rightarrow> 'a list \<Rightarrow> 'a list \<Rightarrow> 'e + unit" where
  "require_unique e seen [] = Inr ()"
| "require_unique e seen (v # vs) = (if v \<in> set seen then Inl (e v) else require_unique e (v # seen) vs)"

lemma require_unique_Inr [simp]:
  "require_unique e seen vs = Inr u \<longleftrightarrow> distinct vs \<and> set vs \<inter> set seen = {}"
  by (induction vs arbitrary: seen) auto

definition non_empty_after_normalization :: "ucd \<Rightarrow> ustr list \<Rightarrow> rule_error + unit" where
  "non_empty_after_normalization U vs = require_all (\<lambda>v. normalize_text U v \<noteq> []) EmptyEntry vs"

definition validate_identity_rule :: "ucd \<Rightarrow> identity_rule \<Rightarrow> rule_error + unit" where
  "validate_identity_rule U r =
     both (if is_identifier (asc (ir_id r)) then Inr () else Inl (BadRuleId (ir_id r)))
     (both (if ir_display_name r \<noteq> [] then Inr () else Inl EmptyField)
     (both (non_empty_after_normalization U (ir_names r))
     (both (non_empty_after_normalization U (ir_ambiguous_names r))
     (both (non_empty_after_normalization U (ir_name_prefixes r))
     (both (require_all (\<lambda>e. is_plausible_email (normalize_email U e)) InvalidEmail (ir_emails r))
     (both (non_empty_after_normalization U (ir_github_logins r))
       (if ir_names r \<noteq> [] \<or> ir_name_prefixes r \<noteq> [] \<or> ir_emails r \<noteq> [] \<or> ir_github_logins r \<noteq> []
        then Inr () else Inl (NoIdentifiers (ir_id r)))))))))"

definition validate_domain_rule :: "ucd \<Rightarrow> domain_rule \<Rightarrow> rule_error + unit" where
  "validate_domain_rule U d =
     (let n = normalize_domain U (dm_domain d)
      in if 46 \<notin> set n \<or> n \<noteq> dm_domain d then Inl (InvalidDomain (dm_domain d)) else Inr ())"

definition validate_local_part :: "ucd \<Rightarrow> ustr \<Rightarrow> bool" where
  "validate_local_part U part \<longleftrightarrow>
     part \<noteq> [] \<and> part = normalize_text U part \<and> 64 \<notin> set part \<and> 32 \<notin> set part"

definition validate_domain_rules :: "ucd \<Rightarrow> ai_domain_rules \<Rightarrow> rule_error + unit" where
  "validate_domain_rules U ds =
     both (if ad_automation_local_parts ds = [] then Inl EmptyField else Inr ())
     (both (require_all (validate_local_part U) InvalidLocalPart (ad_automation_local_parts ds))
       (require_all (\<lambda>d. validate_domain_rule U d = Inr ()) (\<lambda>d. InvalidDomain (dm_domain d)) (ad_domains ds)))"

definition canonical_keys :: "ucd \<Rightarrow> ustr list \<Rightarrow> rule_error + unit" where
  "canonical_keys U keys =
     both (if keys = [] then Inl EmptyField else Inr ())
       (require_all (\<lambda>k. k = normalize_trailer_key U k \<and> k \<noteq> []) NonCanonicalKey keys)"

fun all_ok :: "('a \<Rightarrow> 'e + unit) \<Rightarrow> 'a list \<Rightarrow> 'e + unit" where
  "all_ok f [] = Inr ()"
| "all_ok f (x # xs) = both (f x) (all_ok f xs)"

lemma all_ok_Inr [simp]: "all_ok f xs = Inr u \<longleftrightarrow> (\<forall>x \<in> set xs. f x = Inr ())"
  by (induction xs) auto

definition validate_trailer_rule :: "ucd \<Rightarrow> trailer_rule \<Rightarrow> rule_error + unit" where
  "validate_trailer_rule U r =
     both (if is_identifier (asc (tr_id r)) then Inr () else Inl (BadRuleId (tr_id r)))
     (both (canonical_keys U (tr_keys r))
       (if tr_description r = [] then Inl EmptyField else Inr ()))"

definition validate_marker :: "message_marker \<Rightarrow> rule_error + unit" where
  "validate_marker m =
     both (if is_identifier (asc (mm_id m)) then Inr () else Inl (BadRuleId (mm_id m)))
       (if mm_lines m = [] then Inl EmptyField else Inr ())"

definition validate_pattern_rules :: "ucd \<Rightarrow> pattern_rules \<Rightarrow> rule_error + unit" where
  "validate_pattern_rules U p =
     both (canonical_keys U (pr_coauthor_trailer_keys p))
     (both (all_ok (validate_trailer_rule U) (pr_attribution_trailers p))
     (both (all_ok (\<lambda>c. canonical_keys U (mc_keys c)) (pr_malformed_trailer_checks p))
       (all_ok validate_marker (pr_message_markers p))))"

definition agent_aliases :: "ucd \<Rightarrow> identity_rule list \<Rightarrow> ustr list" where
  "agent_aliases U agents =
     map (normalize_name U) (concat (map (\<lambda>a. ir_names a @ ir_ambiguous_names a @ ir_name_prefixes a) agents))"

text \<open>The cross-references of the whole set, in the order the validator checks them.\<close>

definition cross_references :: "ucd \<Rightarrow> rule_set \<Rightarrow> rule_error + unit" where
  "cross_references U rs =
     (let known = map ir_id (rs_agents rs); p = rs_patterns rs; trailers = pr_attribution_trailers p
      in both (require_unique DuplicateId [] known)
        (both (require_unique DuplicateId [] (map ir_id (rs_bots rs)))
        (both (require_all (\<lambda>d. dm_agent d \<in> set known) (\<lambda>d. UnknownAgent (dm_agent d)) (ad_domains (rs_ai_domains rs)))
        (both (require_unique DuplicateText [] (map dm_domain (ad_domains (rs_ai_domains rs))))
        (both (require_all (\<lambda>m. mm_agent m \<in> set known) (\<lambda>m. UnknownAgent (mm_agent m)) (pr_message_markers p))
        (both (require_unique DuplicateId [] (map tr_id trailers))
        (both (require_unique DuplicateText [] (concat (map tr_keys trailers)))
        (both (require_all (\<lambda>r. set (pr_coauthor_trailer_keys p) \<inter> set (tr_keys r) = {})
                 (\<lambda>r. CoauthorKeyReused (tr_id r)) trailers)
          (require_unique DuplicateText [] (agent_aliases U (rs_agents rs)))))))))))"

definition validate_rule_set :: "ucd \<Rightarrow> rule_set \<Rightarrow> rule_error + unit" where
  "validate_rule_set U rs =
     both (if rs_agents rs = [] then Inl EmptyField else Inr ())
     (both (all_ok (validate_identity_rule U) (rs_agents rs))
     (both (validate_domain_rules U (rs_ai_domains rs))
     (both (all_ok (validate_identity_rule U) (rs_bots rs))
     (both (validate_pattern_rules U (rs_patterns rs)) (cross_references U rs)))))"

end
