(* ===== verification/Matcher.thy ===== *)
theory Matcher
  imports Rules
begin

text \<open>
  The identity matcher (\<open>rules/matcher.py\<close>): its indexes, the evidence collected for a name and an
  e-mail, the confidence of the evidence, and the choice among the candidates. The specification
  \<open>evidence_for\<close> says which reasons hold for a rule without any loop; the matcher is proved to
  compute it.
\<close>

section \<open>The matcher and its indexes\<close>

record matcher =
  mt_rules :: "(string \<times> identity_rule) list"
  mt_source :: ustr
  mt_domain_source :: ustr
  mt_names :: "(ustr \<times> string) list"
  mt_ambiguous :: "(ustr \<times> string) list"
  mt_emails :: "(ustr \<times> string) list"
  mt_logins :: "(ustr \<times> string) list"
  mt_prefixes :: "(ustr list \<times> string) list"
  mt_automation :: "ustr list"
  mt_domains :: "(ustr \<times> domain_rule) list"

definition index_entry :: "(ustr \<Rightarrow> ustr) \<Rightarrow> string \<times> ustr \<Rightarrow> (ustr \<times> string) list \<Rightarrow> rule_error + (ustr \<times> string) list" where
  "index_entry norm entry index =
     (case entry of (rule_id, v) \<Rightarrow>
        (let key = norm v; index' = setdefault key rule_id index
         in case map_of index' key of
              Some existing \<Rightarrow> if existing \<noteq> rule_id then Inl (ClaimedTwice v existing rule_id) else Inr index'
            | None \<Rightarrow> Inr index'))"

definition rule_values :: "identity_rule list \<Rightarrow> (identity_rule \<Rightarrow> ustr list) \<Rightarrow> (string \<times> ustr) list" where
  "rule_values rules vs = concat (map (\<lambda>r. map (\<lambda>v. (ir_id r, v)) (vs r)) rules)"

definition build_index ::
  "identity_rule list \<Rightarrow> (identity_rule \<Rightarrow> ustr list) \<Rightarrow> (ustr \<Rightarrow> ustr) \<Rightarrow> rule_error + (ustr \<times> string) list" where
  "build_index rules vs norm = fold_err (index_entry norm) (rule_values rules vs) []"

definition build_matcher ::
  "ucd \<Rightarrow> identity_rule list \<Rightarrow> ustr \<Rightarrow> ai_domain_rules option \<Rightarrow> ustr \<Rightarrow> rule_error + matcher" where
  "build_matcher U rules source domains domain_source =
     (let by_id = dict_of (map (\<lambda>r. (ir_id r, r)) rules)
      in case build_index rules ir_names (normalize_name U) of Inl e \<Rightarrow> Inl e | Inr names \<Rightarrow>
         case build_index rules ir_ambiguous_names (normalize_name U) of Inl e \<Rightarrow> Inl e | Inr ambiguous \<Rightarrow>
         case build_index rules ir_emails (normalize_email U) of Inl e \<Rightarrow> Inl e | Inr emails \<Rightarrow>
         case build_index rules ir_github_logins (normalize_name U) of Inl e \<Rightarrow> Inl e | Inr logins \<Rightarrow>
         Inr \<lparr>mt_rules = by_id, mt_source = source, mt_domain_source = domain_source,
              mt_names = names, mt_ambiguous = ambiguous, mt_emails = emails, mt_logins = logins,
              mt_prefixes = sort (map (\<lambda>(rid, p). (name_tokens U p, rid)) (rule_values rules ir_name_prefixes)),
              mt_automation = (case domains of None \<Rightarrow> [] | Some d \<Rightarrow> ad_automation_local_parts d),
              mt_domains = dict_of (map (\<lambda>d. (dm_domain d, d))
                 (filter (\<lambda>d. dm_agent d \<in> fst ` set by_id)
                    (case domains of None \<Rightarrow> [] | Some d \<Rightarrow> ad_domains d)))\<rparr>)"

section \<open>Collecting the evidence\<close>

type_synonym reasons = "(string \<times> match_reason list) list"

definition rule_reference :: "ustr \<Rightarrow> ustr \<Rightarrow> ustr" where
  "rule_reference source ident = source @ [35] @ ident"

definition mk_reason :: "matcher \<Rightarrow> match_kind \<Rightarrow> ustr \<Rightarrow> string \<Rightarrow> match_reason" where
  "mk_reason m kind v rule_id =
     \<lparr>mr_kind = kind, mr_value = v, mr_rule = rule_reference (mt_source m) (asc rule_id)\<rparr>"

definition lookup_reason ::
  "matcher \<Rightarrow> (ustr \<times> string) list \<Rightarrow> ustr \<Rightarrow> match_kind \<Rightarrow> reasons \<Rightarrow> reasons" where
  "lookup_reason m index v kind reasons =
     (case map_of index v of
        None \<Rightarrow> reasons
      | Some rule_id \<Rightarrow> append_to rule_id (mk_reason m kind v rule_id) reasons)"

definition BOT_SUFFIX :: ustr where
  "BOT_SUFFIX = asc ''[bot]''"

definition prefix_reasons :: "matcher \<Rightarrow> ustr list \<Rightarrow> reasons \<Rightarrow> reasons" where
  "prefix_reasons m tokens reasons =
     fold (\<lambda>(prefix, rule_id) rs.
             if take (length prefix) tokens = prefix \<and> length prefix \<le> length tokens
             then append_to rule_id (mk_reason m MkNamePrefix (py_join [32] prefix) rule_id) rs
             else rs)
       (mt_prefixes m) reasons"

definition name_reasons :: "ucd \<Rightarrow> matcher \<Rightarrow> ustr \<Rightarrow> reasons \<Rightarrow> reasons" where
  "name_reasons U m name reasons =
     (let normalized = normalize_name U name;
          r1 = lookup_reason m (mt_names m) normalized MkName reasons;
          r2 = lookup_reason m (mt_ambiguous m) normalized MkAmbiguousName r1;
          r3 = (if endswith normalized BOT_SUFFIX
                then lookup_reason m (mt_logins m) normalized MkGithubLogin r2 else r2)
      in prefix_reasons m (py_split normalized) r3)"

text \<open>The rule of a domain: the exact one, else the first that covers subdomains.\<close>

definition find_domain_rule :: "matcher \<Rightarrow> ustr \<Rightarrow> domain_rule option" where
  "find_domain_rule m domain =
     (case map_of (mt_domains m) domain of
        Some d \<Rightarrow> Some d
      | None \<Rightarrow> find (\<lambda>d. dm_include_subdomains d \<and> endswith domain (46 # dm_domain d))
                  (map snd (mt_domains m)))"

definition domain_reason :: "ucd \<Rightarrow> matcher \<Rightarrow> ustr \<Rightarrow> (string \<times> match_reason) option" where
  "domain_reason U m email =
     (case rpartition_char 64 email of
        (loc, _, raw_domain) \<Rightarrow>
          (let domain = normalize_domain U raw_domain
           in case find_domain_rule m domain of
                None \<Rightarrow> None
              | Some rule \<Rightarrow>
                  if loc = [] then None
                  else (let base_local = hd (split_char 43 loc);
                            strong = (dm_local_parts rule = LpAny \<or> base_local \<in> set (mt_automation m))
                        in Some (dm_agent rule,
                             \<lparr>mr_kind = (if strong then MkAutomationEmail else MkVendorDomain),
                              mr_value = (if strong then email else domain),
                              mr_rule = rule_reference (mt_domain_source m) (dm_domain rule)\<rparr>))))"

definition match_domain :: "ucd \<Rightarrow> matcher \<Rightarrow> ustr \<Rightarrow> reasons \<Rightarrow> reasons" where
  "match_domain U m email reasons =
     (case domain_reason U m email of None \<Rightarrow> reasons | Some (agent, r) \<Rightarrow> append_to agent r reasons)"

definition email_reasons :: "ucd \<Rightarrow> matcher \<Rightarrow> ustr \<Rightarrow> reasons \<Rightarrow> reasons" where
  "email_reasons U m email reasons =
     (let normalized = normalize_email U email;
          r1 = lookup_reason m (mt_emails m) normalized MkEmail reasons;
          r2 = (case github_login U normalized of
                  None \<Rightarrow> r1
                | Some login \<Rightarrow> lookup_reason m (mt_logins m) (normalize_name U login) MkGithubLogin r1)
      in match_domain U m normalized r2)"

definition collect_reasons :: "ucd \<Rightarrow> matcher \<Rightarrow> ustr option \<Rightarrow> ustr option \<Rightarrow> reasons" where
  "collect_reasons U m name email =
     (let r1 = (case name of None \<Rightarrow> [] | Some n \<Rightarrow> if n = [] then [] else name_reasons U m n [])
      in case email of None \<Rightarrow> r1 | Some e \<Rightarrow> if e = [] then r1 else email_reasons U m e r1)"

section \<open>Weighing it\<close>

record identity_match =
  im_rule_id :: string
  im_display_name :: ustr
  im_vendor :: ustr
  im_confidence :: confidence
  im_reasons :: "match_reason list"

definition STRONG :: "match_kind list" where
  "STRONG = [MkEmail, MkGithubLogin, MkNamePrefix, MkAutomationEmail]"

definition kinds_confidence :: "match_kind set \<Rightarrow> confidence option" where
  "kinds_confidence kinds =
     (if set STRONG \<inter> kinds \<noteq> {} \<or> (MkName \<in> kinds \<and> MkVendorDomain \<in> kinds) then Some ConfHigh
      else if MkName \<in> kinds \<or> (MkAmbiguousName \<in> kinds \<and> MkVendorDomain \<in> kinds) then Some ConfMedium
      else None)"

definition evaluate_reasons :: "matcher \<Rightarrow> string \<times> match_reason list \<Rightarrow> rule_error + identity_match option" where
  "evaluate_reasons m entry =
     (case entry of (rule_id, rs) \<Rightarrow>
        (case kinds_confidence (set (map mr_kind rs)) of
           None \<Rightarrow> Inr None
         | Some c \<Rightarrow>
             (case map_of (mt_rules m) rule_id of
                None \<Rightarrow> Inl (UnknownRule rule_id)
              | Some rule \<Rightarrow>
                  Inr (Some \<lparr>im_rule_id = ir_id rule, im_display_name = ir_display_name rule,
                             im_vendor = ir_vendor rule, im_confidence = c,
                             im_reasons = unique_first rs\<rparr>))))"

definition match_key :: "identity_match \<Rightarrow> int \<times> int \<times> string" where
  "match_key im =
     (- int (confidence_rank (im_confidence im)), - int (length (im_reasons im)), im_rule_id im)"

definition match_identity ::
  "ucd \<Rightarrow> matcher \<Rightarrow> ustr option \<Rightarrow> ustr option \<Rightarrow> rule_error + identity_match option" where
  "match_identity U m name email =
     (case map_err (evaluate_reasons m) (collect_reasons U m name email) of
        Inl e \<Rightarrow> Inl e
      | Inr results \<Rightarrow> Inr (py_min match_key (List.map_filter id results)))"

section \<open>The specification of the evidence\<close>

definition looked_up :: "matcher \<Rightarrow> (ustr \<times> string) list \<Rightarrow> ustr \<Rightarrow> match_kind \<Rightarrow> (string \<times> match_reason) list" where
  "looked_up m index v kind =
     (case map_of index v of None \<Rightarrow> [] | Some rid \<Rightarrow> [(rid, mk_reason m kind v rid)])"

definition name_evidence :: "ucd \<Rightarrow> matcher \<Rightarrow> ustr \<Rightarrow> (string \<times> match_reason) list" where
  "name_evidence U m name =
     (let n = normalize_name U name
      in looked_up m (mt_names m) n MkName @ looked_up m (mt_ambiguous m) n MkAmbiguousName
         @ (if endswith n BOT_SUFFIX then looked_up m (mt_logins m) n MkGithubLogin else [])
         @ [(rid, mk_reason m MkNamePrefix (py_join [32] p) rid).
              (p, rid) \<leftarrow> mt_prefixes m, take (length p) (py_split n) = p])"

definition email_evidence :: "ucd \<Rightarrow> matcher \<Rightarrow> ustr \<Rightarrow> (string \<times> match_reason) list" where
  "email_evidence U m email =
     (let e = normalize_email U email
      in looked_up m (mt_emails m) e MkEmail
         @ (case github_login U e of None \<Rightarrow> []
            | Some login \<Rightarrow> looked_up m (mt_logins m) (normalize_name U login) MkGithubLogin)
         @ (case domain_reason U m e of None \<Rightarrow> [] | Some r \<Rightarrow> [r]))"

definition evidence_for :: "ucd \<Rightarrow> matcher \<Rightarrow> ustr option \<Rightarrow> ustr option \<Rightarrow> (string \<times> match_reason) list" where
  "evidence_for U m name email =
     (case name of None \<Rightarrow> [] | Some n \<Rightarrow> if n = [] then [] else name_evidence U m n)
     @ (case email of None \<Rightarrow> [] | Some e \<Rightarrow> if e = [] then [] else email_evidence U m e)"

definition evidence_kinds :: "ucd \<Rightarrow> matcher \<Rightarrow> ustr option \<Rightarrow> ustr option \<Rightarrow> string \<Rightarrow> match_kind set" where
  "evidence_kinds U m name email rid =
     set (map (\<lambda>(_, r). mr_kind r) (filter (\<lambda>(a, _). a = rid) (evidence_for U m name email)))"

lemma lookup_reason_group:
  "lookup_reason m idx v k (group_pairs evs) = group_pairs (evs @ looked_up m idx v k)"
  by (simp add: lookup_reason_def looked_up_def group_pairs_snoc split: option.splits)

lemma prefix_fold_group:
  "fold (\<lambda>(p, rid) rs. if take (length p) ts = p \<and> length p \<le> length ts
           then append_to rid (mk_reason m MkNamePrefix (py_join [32] p) rid) rs else rs) ps (group_pairs evs)
     = group_pairs (evs @ [(rid, mk_reason m MkNamePrefix (py_join [32] p) rid).
                             (p, rid) \<leftarrow> ps, take (length p) ts = p])"
proof (induction ps arbitrary: evs)
  case (Cons a ps)
  obtain p rid where a: "a = (p, rid)" by (cases a)
  have "take (length p) ts = p \<Longrightarrow> length p \<le> length ts" by (metis length_take min.cobounded1 min_def)
  with Cons show ?case by (auto simp: a group_pairs_snoc)
qed simp

lemma name_reasons_group: "name_reasons U m n (group_pairs evs) = group_pairs (evs @ name_evidence U m n)"
  by (simp add: name_reasons_def name_evidence_def Let_def prefix_reasons_def lookup_reason_group
      prefix_fold_group)

lemma email_reasons_group: "email_reasons U m e (group_pairs evs) = group_pairs (evs @ email_evidence U m e)"
  by (simp add: email_reasons_def email_evidence_def Let_def lookup_reason_group match_domain_def
      group_pairs_snoc split: option.splits prod.splits)

lemma collect_reasons_group: "collect_reasons U m name email = group_pairs (evidence_for U m name email)"
proof -
  have nil: "([] :: reasons) = group_pairs []" by (simp add: group_pairs_def)
  show ?thesis
    unfolding collect_reasons_def evidence_for_def Let_def
    by (auto simp: nil name_reasons_group email_reasons_group split: option.splits)
qed

section \<open>A matcher refers to its own rules\<close>

definition matcher_ok :: "matcher \<Rightarrow> bool" where
  "matcher_ok m \<longleftrightarrow>
     (\<forall>(rid, r) \<in> set (mt_rules m). ir_id r = rid)
     \<and> snd ` (set (mt_names m) \<union> set (mt_ambiguous m) \<union> set (mt_emails m) \<union> set (mt_logins m))
          \<subseteq> fst ` set (mt_rules m)
     \<and> snd ` set (mt_prefixes m) \<subseteq> fst ` set (mt_rules m)
     \<and> (\<forall>(_, d) \<in> set (mt_domains m). dm_agent d \<in> fst ` set (mt_rules m))"

lemma set_setdefault: "set (setdefault k v d) \<subseteq> insert (k, v) (set d)"
  by (auto simp: setdefault_def split: option.splits)

lemma build_index_ids:
  assumes "build_index rules vs norm = Inr index"
  shows "snd ` set index \<subseteq> ir_id ` set rules"
proof (rule fold_err_invariant [where P = "\<lambda>ix. snd ` set ix \<subseteq> ir_id ` set rules"])
  show "fold_err (index_entry norm) (rule_values rules vs) [] = Inr index"
    using assms by (simp add: build_index_def)
next
  fix x ix ix'
  assume "x \<in> set (rule_values rules vs)" and ix: "snd ` set ix \<subseteq> ir_id ` set rules"
    and "index_entry norm x ix = Inr ix'"
  obtain rid v where x: "x = (rid, v)" by (cases x)
  have "ix' = setdefault (norm v) rid ix"
    using \<open>index_entry norm x ix = Inr ix'\<close>
    by (auto simp: x index_entry_def Let_def split: option.splits if_splits)
  with image_mono [OF set_setdefault [of "norm v" rid ix], of snd]
  have "snd ` set ix' \<subseteq> insert rid (snd ` set ix)" by simp
  moreover have "rid \<in> ir_id ` set rules"
    using \<open>x \<in> set (rule_values rules vs)\<close> by (auto simp: x rule_values_def)
  ultimately show "snd ` set ix' \<subseteq> ir_id ` set rules" using ix by blast
qed simp

lemma build_matcher_ok:
  assumes "build_matcher U rules src doms dsrc = Inr m"
  shows "matcher_ok m"
proof -
  let ?ids = "ir_id ` set rules"
  have rules: "mt_rules m = dict_of (map (\<lambda>r. (ir_id r, r)) rules)"
    using assms by (auto simp: build_matcher_def Let_def split: sum.splits)
  have ids: "fst ` set (mt_rules m) = ?ids" unfolding rules by (simp add: image_image)
  have own: "\<forall>(rid, r) \<in> set (mt_rules m). ir_id r = rid"
    unfolding rules using set_dict_of [of "map (\<lambda>r. (ir_id r, r)) rules"] by fastforce
  have "build_index rules ir_names (normalize_name U) = Inr (mt_names m)
      \<and> build_index rules ir_ambiguous_names (normalize_name U) = Inr (mt_ambiguous m)
      \<and> build_index rules ir_emails (normalize_email U) = Inr (mt_emails m)
      \<and> build_index rules ir_github_logins (normalize_name U) = Inr (mt_logins m)"
    using assms by (auto simp: build_matcher_def Let_def split: sum.splits)
  then have ix: "snd ` set (mt_names m) \<subseteq> ?ids" "snd ` set (mt_ambiguous m) \<subseteq> ?ids"
    "snd ` set (mt_emails m) \<subseteq> ?ids" "snd ` set (mt_logins m) \<subseteq> ?ids"
    using build_index_ids by blast+
  have "mt_prefixes m = sort (map (\<lambda>(rid, p). (name_tokens U p, rid)) (rule_values rules ir_name_prefixes))"
    using assms by (auto simp: build_matcher_def Let_def split: sum.splits)
  then have pre: "snd ` set (mt_prefixes m) \<subseteq> ?ids" by (auto simp: rule_values_def)
  have "\<exists>ds. mt_domains m = dict_of (map (\<lambda>d. (dm_domain d, d)) (filter (\<lambda>d. dm_agent d \<in> fst ` set (mt_rules m)) ds))"
    using assms rules by (auto simp: build_matcher_def Let_def split: sum.splits)
  then have dom: "\<forall>(_, d) \<in> set (mt_domains m). dm_agent d \<in> fst ` set (mt_rules m)"
    using set_dict_of by fastforce
  show ?thesis
    unfolding matcher_ok_def ids using own ix pre dom ids by (simp add: image_Un)
qed

lemma looked_up_ids: "(a, r) \<in> set (looked_up m idx v k) \<Longrightarrow> snd ` set idx \<subseteq> A \<Longrightarrow> a \<in> A"
proof (cases "map_of idx v")
  case (Some rid)
  assume "snd ` set idx \<subseteq> A" and "(a, r) \<in> set (looked_up m idx v k)"
  moreover have "rid \<in> snd ` set idx" using map_of_SomeD [OF Some] by (rule image_eqI [rotated]) simp
  ultimately show ?thesis using Some by (auto simp: looked_up_def)
qed (simp add: looked_up_def)

lemma find_in_set: "find P xs = Some x \<Longrightarrow> x \<in> set xs"
  by (induction xs) (auto split: if_splits)

lemma find_domain_rule_in:
  assumes "find_domain_rule m d = Some r"
  shows "\<exists>k. (k, r) \<in> set (mt_domains m)"
proof (cases "map_of (mt_domains m) d")
  case None
  with assms have "r \<in> set (map snd (mt_domains m))"
    by (intro find_in_set) (simp add: find_domain_rule_def)
  then show ?thesis by auto
next
  case (Some r')
  with assms show ?thesis by (auto simp: find_domain_rule_def dest: map_of_SomeD)
qed

lemma domain_reason_rule:
  "domain_reason U m e = Some (a, r) \<Longrightarrow> \<exists>d rule. find_domain_rule m d = Some rule \<and> a = dm_agent rule"
  by (auto simp: domain_reason_def Let_def split: option.splits if_splits prod.splits)

lemma domain_reason_ids:
  assumes "matcher_ok m" and "domain_reason U m e = Some (a, r)"
  shows "a \<in> fst ` set (mt_rules m)"
proof -
  from domain_reason_rule [OF assms(2)] obtain d rule
    where "find_domain_rule m d = Some rule" and a: "a = dm_agent rule" by blast
  from find_domain_rule_in [OF this(1)] obtain k where "(k, rule) \<in> set (mt_domains m)" by blast
  with assms(1) a show ?thesis by (fastforce simp: matcher_ok_def)
qed

lemma evidence_ids:
  assumes "matcher_ok m"
  shows "fst ` set (evidence_for U m name email) \<subseteq> fst ` set (mt_rules m)"
proof -
  let ?A = "fst ` set (mt_rules m)"
  have ix: "a \<in> ?A" if "(a, r) \<in> set (looked_up m idx v k)"
      and "idx \<in> {mt_names m, mt_ambiguous m, mt_emails m, mt_logins m}" for a r idx v k
    using that(2) assms by (intro looked_up_ids [OF that(1)]) (auto simp: matcher_ok_def image_Un)
  have pre: "rid \<in> ?A" if "(p, rid) \<in> set (mt_prefixes m)" for p rid
    using imageI [OF that, of snd] assms by (auto simp: matcher_ok_def)
  have "fst ` set (name_evidence U m n) \<subseteq> ?A" for n
    using pre by (auto simp: name_evidence_def Let_def dest: ix split: if_splits)
  moreover have "fst ` set (email_evidence U m e) \<subseteq> ?A" for e
    using domain_reason_ids [OF assms, of U "normalize_email U e"]
    by (cases "domain_reason U m (normalize_email U e)")
      (auto simp: email_evidence_def Let_def dest: ix split: option.splits)
  ultimately show ?thesis
    by (cases name; cases email) (simp_all add: evidence_for_def image_Un)
qed

text \<open>The candidate of one rule, computed from the specification.\<close>

definition candidate :: "ucd \<Rightarrow> matcher \<Rightarrow> ustr option \<Rightarrow> ustr option \<Rightarrow> string \<Rightarrow> identity_match option" where
  "candidate U m name email rid =
     (case kinds_confidence (evidence_kinds U m name email rid) of
        None \<Rightarrow> None
      | Some c \<Rightarrow>
          (case map_of (mt_rules m) rid of
             None \<Rightarrow> None
           | Some rule \<Rightarrow>
               Some \<lparr>im_rule_id = rid, im_display_name = ir_display_name rule, im_vendor = ir_vendor rule,
                     im_confidence = c,
                     im_reasons = unique_first (map snd (filter (\<lambda>e. fst e = rid) (evidence_for U m name email)))\<rparr>))"

lemma evidence_kinds_alt:
  "evidence_kinds U m name email rid
     = set (map mr_kind (map snd (filter (\<lambda>e. fst e = rid) (evidence_for U m name email))))"
  by (auto simp: evidence_kinds_def case_prod_beta)

lemma evidence_kinds_none:
  "rid \<notin> fst ` set (evidence_for U m name email) \<Longrightarrow> evidence_kinds U m name email rid = {}"
  by (force simp: evidence_kinds_def)

lemma kinds_confidence_empty [simp]: "kinds_confidence {} = None"
  by (simp add: kinds_confidence_def)

lemma evaluate_candidate:
  assumes "matcher_ok m" and "x \<in> set (group_pairs (evidence_for U m name email))"
  shows "evaluate_reasons m x = Inr (candidate U m name email (fst x))"
proof -
  obtain rid rs where x: "x = (rid, rs)" by (cases x)
  have rid: "rid \<in> fst ` set (evidence_for U m name email)"
    and rs: "rs = map snd (filter (\<lambda>e. fst e = rid) (evidence_for U m name email))"
    using assms(2) by (simp_all add: x group_pairs_entry)
  obtain rule where "map_of (mt_rules m) rid = Some rule"
    using evidence_ids [OF assms(1)] rid by (metis (no_types, lifting) map_of_eq_None_iff not_None_eq subsetD)
  moreover then have "ir_id rule = rid" using assms(1) by (auto simp: matcher_ok_def dest: map_of_SomeD)
  ultimately show ?thesis
    unfolding x evaluate_reasons_def candidate_def evidence_kinds_alt fst_conv rs [symmetric]
    by (cases "kinds_confidence (set (map mr_kind rs))") simp_all
qed

lemma match_identity_candidates:
  assumes "matcher_ok m"
  shows "\<exists>cs. match_identity U m name email = Inr (py_min match_key cs)
     \<and> set cs = {c. \<exists>rid. candidate U m name email rid = Some c}"
proof -
  let ?g = "group_pairs (evidence_for U m name email)"
  let ?cs = "List.map_filter id (map (\<lambda>x. candidate U m name email (fst x)) ?g)"
  have "match_identity U m name email = Inr (py_min match_key ?cs)"
    using map_err_total [of ?g "evaluate_reasons m" "\<lambda>x. candidate U m name email (fst x)"]
      evaluate_candidate [OF assms]
    by (simp add: match_identity_def collect_reasons_group)
  moreover have "c \<in> set ?cs" if "candidate U m name email rid = Some c" for c rid
  proof -
    have "rid \<in> fst ` set (evidence_for U m name email)"
      using that evidence_kinds_none [of rid U m name email]
      by (cases "rid \<in> fst ` set (evidence_for U m name email)") (simp_all add: candidate_def)
    then obtain rs where "(rid, rs) \<in> set ?g" by (simp add: group_pairs_entry)
    with that show ?thesis by (force simp: map_filter_def)
  qed
  moreover have "\<exists>rid. candidate U m name email rid = Some c" if "c \<in> set ?cs" for c
    using that by (auto simp: map_filter_def)
  ultimately show ?thesis by blast
qed

section \<open>What a match means\<close>

lemma candidate_Some_iff:
  assumes "matcher_ok m"
  shows "(\<exists>c. candidate U m name email rid = Some c) \<longleftrightarrow> kinds_confidence (evidence_kinds U m name email rid) \<noteq> None"
proof (cases "rid \<in> fst ` set (evidence_for U m name email)")
  case True
  then have "map_of (mt_rules m) rid \<noteq> None"
    using subsetD [OF evidence_ids [OF assms]] by (simp add: map_of_eq_None_iff)
  then show ?thesis by (auto simp: candidate_def split: option.splits)
qed (simp add: candidate_def evidence_kinds_none)

lemma candidate_fields:
  "candidate U m name email rid = Some c \<Longrightarrow>
     im_rule_id c = rid \<and> kinds_confidence (evidence_kinds U m name email rid) = Some (im_confidence c)
     \<and> set (im_reasons c) = {r. (rid, r) \<in> set (evidence_for U m name email)}"
  by (force simp: candidate_def split: option.splits)

text \<open>C33: A matcher that was built never fails to answer, and it answers that nobody matches exactly when no
  rule has sufficient evidence in the confidence table: a strong identifier, a full name, or an
  ambiguous name together with the vendor's domain.\<close>

theorem no_match_iff:
  assumes "build_matcher U rules src doms dsrc = Inr m"
  shows "\<exists>res. match_identity U m name email = Inr res
     \<and> (res = None \<longleftrightarrow> (\<forall>rid. kinds_confidence (evidence_kinds U m name email rid) = None))"
proof -
  note ok = build_matcher_ok [OF assms]
  obtain cs where "match_identity U m name email = Inr (py_min match_key cs)"
    and "set cs = {c. \<exists>rid. candidate U m name email rid = Some c}"
    using match_identity_candidates [OF ok] by blast
  have "cs = [] \<longleftrightarrow> {c. \<exists>rid. candidate U m name email rid = Some c} = {}"
    using \<open>set cs = _\<close> by (simp flip: set_empty)
  then have "cs = [] \<longleftrightarrow> (\<forall>rid. \<not> (\<exists>c. candidate U m name email rid = Some c))" by blast
  then show ?thesis
    unfolding candidate_Some_iff [OF ok] using \<open>match_identity U m name email = _\<close> by simp
qed

text \<open>The match returned is the best one: its confidence is what the table gives for its evidence, its
  reasons are exactly the evidence that holds for its rule, and no other rule has evidence of higher
  confidence.\<close>

theorem match_is_strongest:
  assumes "build_matcher U rules src doms dsrc = Inr m" and "match_identity U m name email = Inr (Some im)"
  shows "kinds_confidence (evidence_kinds U m name email (im_rule_id im)) = Some (im_confidence im)
     \<and> set (im_reasons im) = {r. (im_rule_id im, r) \<in> set (evidence_for U m name email)}
     \<and> (\<forall>rid c. kinds_confidence (evidence_kinds U m name email rid) = Some c
          \<longrightarrow> confidence_rank c \<le> confidence_rank (im_confidence im))"
proof -
  note ok = build_matcher_ok [OF assms(1)]
  obtain cs where cs: "match_identity U m name email = Inr (py_min match_key cs)"
    "set cs = {c. \<exists>rid. candidate U m name email rid = Some c}"
    using match_identity_candidates [OF ok] by blast
  with assms(2) have "py_min match_key cs = Some im" by simp
  from py_min_SomeD [OF this] cs(2) have im: "\<exists>rid. candidate U m name email rid = Some im"
    and least: "candidate U m name email rid = Some c \<Longrightarrow> match_key im \<le> match_key c" for rid c
    by auto
  have "confidence_rank c \<le> confidence_rank (im_confidence im)"
    if k: "kinds_confidence (evidence_kinds U m name email rid) = Some c" for rid c
  proof -
    obtain cand where "candidate U m name email rid = Some cand"
      using candidate_Some_iff [OF ok, of U name email rid] k by auto
    moreover from this k have "im_confidence cand = c" using candidate_fields by fastforce
    ultimately show ?thesis using least by (fastforce simp: match_key_def less_eq_prod_def less_prod_def)
  qed
  with im show ?thesis using candidate_fields by blast
qed

text \<open>Sharing a vendor's domain is not evidence: an address that is not itself listed, at a domain of
  which only automation addresses count, with an ordinary local part and a name no rule lists,
  never matches - whatever the other rules are.\<close>

theorem human_at_vendor_domain_not_matched:
  assumes "build_matcher U rules src doms dsrc = Inr m" and "\<forall>n. name = Some n \<longrightarrow> name_evidence U m n = []"
    and "map_of (mt_emails m) (normalize_email U email) = None"
    and "github_login U (normalize_email U email) = None"
    and "\<forall>a r. domain_reason U m (normalize_email U email) = Some (a, r) \<longrightarrow> mr_kind r = MkVendorDomain"
  shows "match_identity U m name (Some email) = Inr None"
proof -
  note ok = build_matcher_ok [OF assms(1)]
  have "evidence_kinds U m name (Some email) rid \<subseteq> {MkVendorDomain}" for rid
  proof (cases "domain_reason U m (normalize_email U email)")
    case None
    with assms(2-4) show ?thesis
      by (auto simp: evidence_kinds_def evidence_for_def email_evidence_def looked_up_def Let_def
          split: option.splits if_splits)
  next
    case (Some ar)
    with assms(2-5) show ?thesis
      by (cases ar) (auto simp: evidence_kinds_def evidence_for_def email_evidence_def looked_up_def
          Let_def split: option.splits if_splits)
  qed
  then have "kinds_confidence (evidence_kinds U m name (Some email) rid) = None" for rid
    by (force simp: kinds_confidence_def STRONG_def)
  then have none: "candidate U m name (Some email) rid \<noteq> Some c" for rid c
    using candidate_Some_iff [OF ok] by blast
  obtain cs where "match_identity U m name (Some email) = Inr (py_min match_key cs)"
    and "set cs = {c. \<exists>rid. candidate U m name (Some email) rid = Some c}"
    using match_identity_candidates [OF ok] by blast
  with none show ?thesis by simp
qed
section \<open>A concrete matcher\<close>

definition claude_rule :: identity_rule where
  "claude_rule = \<lparr>ir_id = ''claude'', ir_display_name = asc ''Claude'', ir_vendor = asc ''Anthropic'',
     ir_names = [asc ''Claude''], ir_ambiguous_names = [], ir_name_prefixes = [asc ''Claude Opus''],
     ir_emails = [asc ''noreply@anthropic.com''], ir_github_logins = [], ir_verified = True, ir_reference = []\<rparr>"

definition vendor_domains :: ai_domain_rules where
  "vendor_domains = \<lparr>ad_automation_local_parts = [asc ''noreply''],
     ad_domains = [\<lparr>dm_domain = asc ''anthropic.com'', dm_agent = ''claude'', dm_local_parts = LpAutomation,
        dm_include_subdomains = True\<rparr>]\<rparr>"

definition the_matcher :: "matcher" where
 "the_matcher = \<lparr>mt_rules = [(''claude'', claude_rule)], mt_source = asc ''ai-identities.yaml'', mt_domain_source = asc ''ai-domains.yaml'',
   mt_names = [(asc ''claude'', ''claude'')], mt_ambiguous = [], mt_emails = [(asc ''noreply@anthropic.com'', ''claude'')],
   mt_logins = [], mt_prefixes = [([asc ''claude'', asc ''opus''], ''claude'')], mt_automation = [asc ''noreply''],
   mt_domains = [(asc ''anthropic.com'', \<lparr>dm_domain = asc ''anthropic.com'', dm_agent = ''claude'', dm_local_parts = LpAutomation,
        dm_include_subdomains = True\<rparr>)]\<rparr>"

lemmas norm_eval = normalize_name_def normalize_email_def normalize_domain_def normalize_text_def name_tokens_def
  strip_invisible_def casefold_def ascii_ucd_def ascii_lowercase_def ascii_upper_def ascii_printable_def
  fold_homoglyph_def HOMOGLYPHS_def

lemma claude_name_key: "normalize_name ascii_ucd (asc ''Claude'') = asc ''claude''"
 by (simp add: norm_eval str_eval)
lemma claude_email_key: "normalize_email ascii_ucd (asc ''noreply@anthropic.com'') = asc ''noreply@anthropic.com''"
 by (simp add: norm_eval str_eval)
lemma the_matcher_built:
  "build_matcher ascii_ucd [claude_rule] (asc ''ai-identities.yaml'') (Some vendor_domains) (asc ''ai-domains.yaml'') = Inr the_matcher"
  by (simp add: build_matcher_def Let_def claude_rule_def vendor_domains_def the_matcher_def build_index_def
      rule_values_def index_entry_def setdefault_def dict_of_def claude_name_key claude_email_key name_tokens_def)
    (simp add: norm_eval str_eval)

lemma claude_matched:
  "match_identity ascii_ucd the_matcher (Some (asc ''Claude'')) None
     = Inr (Some \<lparr>im_rule_id = ''claude'', im_display_name = asc ''Claude'', im_vendor = asc ''Anthropic'',
         im_confidence = ConfMedium, im_reasons = [mk_reason the_matcher MkName (asc ''claude'') ''claude'']\<rparr>)"
  by (simp add: match_identity_def collect_reasons_def name_reasons_def claude_name_key Let_def
      lookup_reason_def the_matcher_def append_to_def prefix_reasons_def evaluate_reasons_def
      kinds_confidence_def STRONG_def mk_reason_def claude_rule_def map_filter_def py_min_def BOT_SUFFIX_def)
    (simp add: str_eval)

theorem no_match_iff_witness:
  "\<exists>res. match_identity ascii_ucd the_matcher (Some (asc ''Jane'')) None = Inr res
     \<and> (res = None \<longleftrightarrow> (\<forall>rid. kinds_confidence (evidence_kinds ascii_ucd the_matcher (Some (asc ''Jane'')) None rid) = None))"
  by (rule no_match_iff [OF the_matcher_built])

theorem match_is_strongest_witness:
  "kinds_confidence (evidence_kinds ascii_ucd the_matcher (Some (asc ''Claude'')) None ''claude'') = Some ConfMedium"
  using match_is_strongest [OF the_matcher_built claude_matched] by simp

lemma jane_email_key: "normalize_email ascii_ucd (asc ''jane@anthropic.com'') = asc ''jane@anthropic.com''"
  by (simp add: norm_eval str_eval)

lemma jane_name_evidence: "name_evidence ascii_ucd the_matcher (asc ''Jane'') = []"
  by (simp add: name_evidence_def Let_def looked_up_def the_matcher_def BOT_SUFFIX_def)
    (simp add: norm_eval str_eval)

lemma jane_no_login: "github_login ascii_ucd (asc ''jane@anthropic.com'') = None"
  by (simp add: github_login_def jane_email_key GITHUB_NOREPLY_DOMAIN_def) (simp add: str_eval)

lemma jane_domain_reason:
  "domain_reason ascii_ucd the_matcher (asc ''jane@anthropic.com'')
     = Some (''claude'', \<lparr>mr_kind = MkVendorDomain, mr_value = asc ''anthropic.com'',
         mr_rule = rule_reference (asc ''ai-domains.yaml'') (asc ''anthropic.com'')\<rparr>)"
  by (simp add: domain_reason_def the_matcher_def find_domain_rule_def norm_eval str_eval)

theorem human_at_vendor_domain_not_matched_witness:
  "match_identity ascii_ucd the_matcher (Some (asc ''Jane'')) (Some (asc ''jane@anthropic.com'')) = Inr None"
  by (rule human_at_vendor_domain_not_matched [OF the_matcher_built])
    (simp_all add: jane_name_evidence jane_email_key jane_no_login jane_domain_reason,
     simp add: the_matcher_def asc_def)

end
