(* ===== verification/Detectors.thy ===== *)
theory Detectors
  imports Detection Matcher
begin

text \<open>
  The four built-in detectors (\<open>detectors/coauthor.py\<close>, \<open>identity.py\<close>, \<open>trailer.py\<close>, \<open>bot.py\<close>), the
  compiled rules they share (\<open>rules/matcher.py\<close>) and the built-in registry. Each detector is
  proved to honour the contract \<open>detector_contract\<close> of \<open>detectors/base.py\<close>, an interpretation of the
  locale for every set of rules.
\<close>

section \<open>The contract\<close>

text \<open>Rules 3 and 4 of the contract: findings are attributed to the detector, for a declared rule, on the
  commit it was given, and carry evidence.\<close>

locale detector_contract =
  fixes d :: detector
  assumes findings_attributed: "det_detect d c = Inr fs \<Longrightarrow> f \<in> set fs \<Longrightarrow> attributed d c f"
    and evidence_present: "det_detect d c = Inr fs \<Longrightarrow> f \<in> set fs \<Longrightarrow> fd_evidence f \<noteq> []"
    and rules_declared: "det_rules d \<noteq> [] \<and> list_all (\<lambda>r. is_identifier (asc r)) (det_rules d)"
    and name_identifier: "is_identifier (asc (det_name d))"
begin

lemma engine_accepts: "run_detector U d c = det_detect d c"
proof (cases "det_detect d c")
  case (Inr fs)
  then have "run_detector U d c = Inr fs"
    using findings_attributed by (simp add: run_detector_Inr list_all_iff)
  with Inr show ?thesis by simp
qed (simp add: run_detector_def)

lemma registers: "map_of reg (det_name d) = None \<Longrightarrow> register d reg = Inr (AList.update (det_name d) d reg)"
proof -
  assume "map_of reg (det_name d) = None"
  moreover have "find (\<lambda>r. \<not> is_identifier (asc r)) (det_rules d) = None"
    using rules_declared by (simp add: find_None_iff list_all_iff)
  ultimately show ?thesis using rules_declared name_identifier by (simp add: register_def)
qed

end

section \<open>Compiled rules\<close>

record compiled_rules =
  cc_rules :: rule_set
  cc_ai_matcher :: matcher
  cc_bot_matcher :: matcher
  cc_agents :: "(string \<times> identity_rule) list"

definition AI_IDENTITIES_FILE :: ustr where
  "AI_IDENTITIES_FILE = asc ''ai-identities.yaml''"

definition AI_DOMAINS_FILE :: ustr where
  "AI_DOMAINS_FILE = asc ''ai-domains.yaml''"

definition BOT_IDENTITIES_FILE :: ustr where
  "BOT_IDENTITIES_FILE = asc ''bot-identities.yaml''"

definition PATTERNS_FILE :: ustr where
  "PATTERNS_FILE = asc ''patterns.yaml''"

definition compile_rules :: "ucd \<Rightarrow> rule_set \<Rightarrow> rule_error + compiled_rules" where
  "compile_rules U rs =
     (case build_matcher U (rs_agents rs) AI_IDENTITIES_FILE (Some (rs_ai_domains rs)) AI_DOMAINS_FILE of
        Inl e \<Rightarrow> Inl e
      | Inr ai \<Rightarrow>
          (case build_matcher U (rs_bots rs) BOT_IDENTITIES_FILE None [] of
             Inl e \<Rightarrow> Inl e
           | Inr bot_m \<Rightarrow>
               Inr \<lparr>cc_rules = rs, cc_ai_matcher = ai, cc_bot_matcher = bot_m,
                    cc_agents = dict_of (map (\<lambda>a. (ir_id a, a)) (rs_agents rs))\<rparr>))"

text \<open>The exception a failed lookup raises.\<close>

definition rule_exc :: "ucd \<Rightarrow> rule_error \<Rightarrow> py_exc" where
  "rule_exc U e =
     (case e of UnknownRule rid \<Rightarrow> PyExc ''KeyError'' (u_repr U (asc rid)) | _ \<Rightarrow> PyExc ''ValueError'' [])"

definition run_match :: "ucd \<Rightarrow> matcher \<Rightarrow> ustr option \<Rightarrow> ustr option \<Rightarrow> py_exc + identity_match option" where
  "run_match U m name email =
     (case match_identity U m name email of Inl e \<Rightarrow> Inl (rule_exc U e) | Inr r \<Rightarrow> Inr r)"

definition coauthor_keys :: "compiled_rules \<Rightarrow> ustr list" where
  "coauthor_keys R = pr_coauthor_trailer_keys (rs_patterns (cc_rules R))"

fun trailer_issue_value :: "trailer_issue \<Rightarrow> string" where
  "trailer_issue_value TiMissingSeparator = ''missing_separator''"
| "trailer_issue_value TiNonstandardKey = ''nonstandard_key''"
| "trailer_issue_value TiEmptyValue = ''empty_value''"
| "trailer_issue_value TiLeadingCharacters = ''leading_characters''"

fun identity_issue_value :: "identity_issue \<Rightarrow> string" where
  "identity_issue_value IssEmpty = ''empty''"
| "identity_issue_value IssMissingName = ''missing_name''"
| "identity_issue_value IssMissingEmail = ''missing_email''"
| "identity_issue_value IssMissingBrackets = ''missing_brackets''"
| "identity_issue_value IssUnbalancedBrackets = ''unbalanced_brackets''"
| "identity_issue_value IssInvalidEmail = ''invalid_email''"
| "identity_issue_value IssTrailingContent = ''trailing_content''"

definition trailer_notes :: "trailer_issue list \<Rightarrow> string list" where
  "trailer_notes issues = map (\<lambda>i. ''trailer: '' @ trailer_issue_value i) issues"

definition identity_notes :: "identity_issue list \<Rightarrow> string list" where
  "identity_notes issues = map (\<lambda>i. ''identity: '' @ identity_issue_value i) issues"

definition DISGUISED :: string where
  "DISGUISED = ''contains look-alike or invisible Unicode characters''"

section \<open>Co-authors\<close>

definition coauthor_notes :: "ucd \<Rightarrow> trailer \<Rightarrow> string list" where
  "coauthor_notes U t =
     (if uses_disguising_characters U (t_raw t) then [DISGUISED] else [])
     @ (if \<not> t_in_trailer_block t then [''outside the commit's trailer block''] else [])
     @ trailer_notes (t_issues t) @ identity_notes (pi_issues (t_identity t))"

definition coauthor_finding :: "ucd \<Rightarrow> string option \<Rightarrow> trailer \<Rightarrow> identity_match \<Rightarrow> finding" where
  "coauthor_finding U sha t im =
     \<lparr>fd_detector = ''coauthor'', fd_rule_id = ''ai_coauthor'', fd_severity = SevHigh,
      fd_confidence = im_confidence im, fd_title = ''AI coauthor detected'',
      fd_message = asc ''A co-author trailer names an identity associated with the AI agent ''
        @ im_display_name im @ asc ''.'',
      fd_evidence = [mk_evidence SrcCoauthorTrailer (if t_value t \<noteq> [] then t_value t else t_raw t)
        (Some (t_line_number t)) (im_reasons im) (coauthor_notes U t)],
      fd_commit_sha = sha,
      fd_remediation = ''Remove the AI co-author attribution from the commit message before pushing (for example with `git commit --amend`). CommitGuard never rewrites commits itself.''\<rparr>"

fun coauthor_loop :: "ucd \<Rightarrow> compiled_rules \<Rightarrow> string option \<Rightarrow> trailer list \<Rightarrow> py_exc + finding list" where
  "coauthor_loop U R sha [] = Inr []"
| "coauthor_loop U R sha (t # ts) =
     (if normalized_key U t \<notin> set (coauthor_keys R) then coauthor_loop U R sha ts
      else case run_match U (cc_ai_matcher R) (pi_name (t_identity t)) (pi_email (t_identity t)) of
             Inl e \<Rightarrow> Inl e
           | Inr None \<Rightarrow> coauthor_loop U R sha ts
           | Inr (Some im) \<Rightarrow>
               (case coauthor_loop U R sha ts of
                  Inl e \<Rightarrow> Inl e | Inr fs \<Rightarrow> Inr (coauthor_finding U sha t im # fs)))"

definition coauthor_detector :: "ucd \<Rightarrow> compiled_rules \<Rightarrow> detector" where
  "coauthor_detector U R =
     \<lparr>det_name = ''coauthor'', det_rules = [''ai_coauthor''],
      det_detect = (\<lambda>c. case require_complete_trailers c of
                         Inl e \<Rightarrow> Inl e
                       | Inr _ \<Rightarrow> coauthor_loop U R (cm_sha c) (cm_trailers c))\<rparr>"

section \<open>Authors and committers\<close>

type_synonym hit = "evidence_source \<times> ustr \<times> nat option \<times> identity_match"

definition group_hits :: "hit list \<Rightarrow> (string \<times> hit list) list" where
  "group_hits hits = group_pairs (map (\<lambda>h. (case h of (_, _, _, im) \<Rightarrow> (im_rule_id im, h))) hits)"

fun match_candidates ::
  "ucd \<Rightarrow> matcher \<Rightarrow> (evidence_source \<times> ustr \<times> ustr option \<times> ustr option \<times> nat option) list \<Rightarrow> py_exc + hit list" where
  "match_candidates U m [] = Inr []"
| "match_candidates U m ((source, v, name, email, line) # cs) =
     (case run_match U m name email of
        Inl e \<Rightarrow> Inl e
      | Inr r \<Rightarrow>
          (case match_candidates U m cs of
             Inl e \<Rightarrow> Inl e
           | Inr hits \<Rightarrow> Inr ((case r of None \<Rightarrow> [] | Some im \<Rightarrow> [(source, v, line, im)]) @ hits)))"

definition identity_candidates ::
  "commit \<Rightarrow> (evidence_source \<times> ustr \<times> ustr option \<times> ustr option \<times> nat option) list" where
  "identity_candidates c =
     [(SrcAuthor, identity_str (cm_author c), Some (id_name (cm_author c)), Some (id_email (cm_author c)), None),
      (SrcCommitter, identity_str (cm_committer c), Some (id_name (cm_committer c)),
       Some (id_email (cm_committer c)), None)]"

text \<open>\<open>max(..., key=rank)\<close> of the matches of a group; a group is never empty.\<close>

definition strongest_match :: "hit list \<Rightarrow> py_exc + identity_match" where
  "strongest_match hits =
     (case py_max (\<lambda>im. confidence_rank (im_confidence im)) (map (\<lambda>(_, _, _, im). im) hits) of
        None \<Rightarrow> Inl (PyExc ''ValueError'' (asc ''max() iterable argument is empty''))
      | Some im \<Rightarrow> Inr im)"

definition identity_finding :: "ucd \<Rightarrow> string option \<Rightarrow> hit list \<Rightarrow> identity_match \<Rightarrow> finding" where
  "identity_finding U sha hits im =
     \<lparr>fd_detector = ''identity'', fd_rule_id = ''ai_identity'', fd_severity = SevHigh,
      fd_confidence = im_confidence im, fd_title = ''AI agent identity detected'',
      fd_message = asc ''The ''
        @ py_join (asc '' and '') (map (\<lambda>(source, _, _, _). asc (source_label source)) hits)
        @ asc '' identity is associated with the AI agent '' @ im_display_name im @ asc ''.'',
      fd_evidence = map (\<lambda>(source, v, _, m). mk_evidence source v None (im_reasons m)
        (if uses_disguising_characters U v then [DISGUISED] else [])) hits,
      fd_commit_sha = sha,
      fd_remediation = ''Recreate the commit under the responsible human contributor's identity before pushing. CommitGuard never changes who authored a commit.''\<rparr>"

definition group_findings ::
  "(hit list \<Rightarrow> identity_match \<Rightarrow> finding) \<Rightarrow> hit list \<Rightarrow> py_exc + finding list" where
  "group_findings mk hits =
     map_err (\<lambda>g. case strongest_match (snd g) of Inl e \<Rightarrow> Inl e | Inr im \<Rightarrow> Inr (mk (snd g) im))
       (group_hits hits)"

definition identity_detector :: "ucd \<Rightarrow> compiled_rules \<Rightarrow> detector" where
  "identity_detector U R =
     \<lparr>det_name = ''identity'', det_rules = [''ai_identity''],
      det_detect = (\<lambda>c. case match_candidates U (cc_ai_matcher R) (identity_candidates c) of
                         Inl e \<Rightarrow> Inl e
                       | Inr hits \<Rightarrow> group_findings (identity_finding U (cm_sha c)) hits)\<rparr>"

section \<open>Bots\<close>

definition bot_candidates ::
  "ucd \<Rightarrow> compiled_rules \<Rightarrow> commit
     \<Rightarrow> (evidence_source \<times> ustr \<times> ustr option \<times> ustr option \<times> nat option) list" where
  "bot_candidates U R c =
     identity_candidates c
     @ map (\<lambda>t. (SrcCoauthorTrailer, t_value t, pi_name (t_identity t), pi_email (t_identity t),
                  Some (t_line_number t)))
         (filter (\<lambda>t. normalized_key U t \<in> set (coauthor_keys R)) (cm_trailers c))"

definition bot_finding :: "string option \<Rightarrow> hit list \<Rightarrow> identity_match \<Rightarrow> finding" where
  "bot_finding sha hits im =
     \<lparr>fd_detector = ''bot'', fd_rule_id = ''bot_identity'', fd_severity = SevLow,
      fd_confidence = im_confidence im, fd_title = ''Bot identity detected'',
      fd_message = asc ''The commit involves the configured automation identity '' @ im_display_name im
        @ asc ''. This is a bot finding, not an AI attribution.'',
      fd_evidence = map (\<lambda>(source, v, line, m). mk_evidence source v line (im_reasons m) []) hits,
      fd_commit_sha = sha,
      fd_remediation = ''If this automation is expected, set `bot_identity` to `allow` in .commitguard.yaml; otherwise investigate where the commit came from.''\<rparr>"

definition bot_detector :: "ucd \<Rightarrow> compiled_rules \<Rightarrow> detector" where
  "bot_detector U R =
     \<lparr>det_name = ''bot'', det_rules = [''bot_identity''],
      det_detect = (\<lambda>c. case require_complete_trailers c of
                         Inl e \<Rightarrow> Inl e
                       | Inr _ \<Rightarrow>
                           (case match_candidates U (cc_bot_matcher R) (bot_candidates U R c) of
                              Inl e \<Rightarrow> Inl e
                            | Inr hits \<Rightarrow> group_findings (bot_finding (cm_sha c)) hits))\<rparr>"

section \<open>Trailers and footers\<close>

definition MAX_MARKER_LINE_CHARS :: nat where
  "MAX_MARKER_LINE_CHARS = 300"

definition marker_key :: "ucd \<Rightarrow> ustr \<Rightarrow> ustr" where
  "marker_key U line =
     dropWhile (\<lambda>c. py_isspace c \<or> u_category U c \<in> {So, Sk, Sm, Mn}) (normalize_text U line)"

definition attribution_rules :: "compiled_rules \<Rightarrow> (ustr \<times> trailer_rule) list" where
  "attribution_rules R =
     dict_of (concat (map (\<lambda>r. map (\<lambda>k. (k, r)) (tr_keys r)) (pr_attribution_trailers (rs_patterns (cc_rules R)))))"

definition malformed_checks :: "compiled_rules \<Rightarrow> (ustr \<times> malformed_check) list" where
  "malformed_checks R =
     fold (\<lambda>check d. fold (\<lambda>k d'. setdefault k check d') (mc_keys check) d)
       (pr_malformed_trailer_checks (rs_patterns (cc_rules R))) []"

definition markers :: "ucd \<Rightarrow> compiled_rules \<Rightarrow> (ustr \<times> (string \<times> string \<times> ustr)) list" where
  "markers U R =
     dict_of (concat (map (\<lambda>m. map (\<lambda>line. (marker_key U line, (mm_id m, mm_agent m, line))) (mm_lines m))
       (pr_message_markers (rs_patterns (cc_rules R)))))"

definition ai_trailer_finding ::
  "ucd \<Rightarrow> string option \<Rightarrow> trailer \<Rightarrow> match_reason list \<Rightarrow> confidence \<Rightarrow> ustr \<Rightarrow> finding" where
  "ai_trailer_finding U sha t reasons conf_level subject =
     \<lparr>fd_detector = ''trailer'', fd_rule_id = ''ai_trailer'', fd_severity = SevHigh,
      fd_confidence = conf_level, fd_title = ''AI attribution trailer detected'',
      fd_message = asc ''The '' @ u_repr U (t_key t) @ asc '' trailer attributes the commit to '' @ subject @ asc ''.'',
      fd_evidence = [mk_evidence SrcTrailer (t_raw t) (Some (t_line_number t)) reasons []],
      fd_commit_sha = sha,
      fd_remediation = ''Remove the AI attribution trailer from the commit message before pushing.''\<rparr>"

definition attribution_finding ::
  "ucd \<Rightarrow> compiled_rules \<Rightarrow> string option \<Rightarrow> trailer_rule \<Rightarrow> trailer \<Rightarrow> py_exc + finding option" where
  "attribution_finding U R sha rule t =
     (let key_reason = \<lparr>mr_kind = MkTrailerKey, mr_value = normalized_key U t,
                        mr_rule = PATTERNS_FILE @ [35] @ asc (tr_id rule)\<rparr>
      in if tr_match rule = TmKeyPresent then
           (if normalize_text U (t_value t) \<in> set (tr_ignore_values rule) then Inr None
            else Inr (Some (ai_trailer_finding U sha t [key_reason] ConfHigh (asc ''AI assistance''))))
         else (case run_match U (cc_ai_matcher R) (pi_name (t_identity t)) (pi_email (t_identity t)) of
                 Inl e \<Rightarrow> Inl e
               | Inr None \<Rightarrow> Inr None
               | Inr (Some im) \<Rightarrow>
                   Inr (Some (ai_trailer_finding U sha t (key_reason # im_reasons im) (im_confidence im)
                                (asc ''the AI agent '' @ im_display_name im)))))"

definition malformed_finding :: "ucd \<Rightarrow> string option \<Rightarrow> malformed_check \<Rightarrow> trailer \<Rightarrow> finding option" where
  "malformed_finding U sha check t =
     (let notes = trailer_notes (filter (\<lambda>i. i \<noteq> TiLeadingCharacters) (t_issues t))
                  @ (if mc_require_identity check then identity_notes (pi_issues (t_identity t)) else [])
      in if notes = [] then None
         else Some \<lparr>fd_detector = ''trailer'', fd_rule_id = ''malformed_trailer'', fd_severity = SevLow,
            fd_confidence = ConfHigh, fd_title = ''Malformed trailer'',
            fd_message = asc ''The '' @ u_repr U (t_key t)
              @ asc '' trailer is malformed. Tools disagree on how to read malformed trailers, which can hide or misstate attribution.'',
            fd_evidence = [mk_evidence SrcTrailer (t_raw t) (Some (t_line_number t)) [] notes],
            fd_commit_sha = sha,
            fd_remediation = ''Rewrite the trailer as 'Key: Name <email>' or remove it.''\<rparr>)"

text \<open>One turn of the loop over the trailers.\<close>

definition trailer_findings ::
  "ucd \<Rightarrow> compiled_rules \<Rightarrow> string option \<Rightarrow> trailer \<Rightarrow> py_exc + finding list" where
  "trailer_findings U R sha t =
     (let key = normalized_key U t;
          second = (case map_of (malformed_checks R) key of
                      None \<Rightarrow> []
                    | Some check \<Rightarrow> (case malformed_finding U sha check t of None \<Rightarrow> [] | Some f \<Rightarrow> [f]))
      in case map_of (attribution_rules R) key of
           None \<Rightarrow> Inr second
         | Some rule \<Rightarrow>
             (case attribution_finding U R sha rule t of
                Inl e \<Rightarrow> Inl e
              | Inr None \<Rightarrow> Inr second
              | Inr (Some f) \<Rightarrow> Inr (f # second)))"

definition marker_finding ::
  "string option \<Rightarrow> nat \<Rightarrow> ustr \<Rightarrow> string \<Rightarrow> ustr \<Rightarrow> identity_rule \<Rightarrow> finding" where
  "marker_finding sha n line marker_id marker_line agent =
     \<lparr>fd_detector = ''trailer'', fd_rule_id = ''ai_trailer'', fd_severity = SevHigh,
      fd_confidence = ConfHigh, fd_title = ''AI attribution footer detected'',
      fd_message = asc ''The commit message contains an attribution line inserted by ''
        @ ir_display_name agent @ asc ''.'',
      fd_evidence = [mk_evidence SrcMessage (py_strip line) (Some n)
        [\<lparr>mr_kind = MkMessageMarker, mr_value = marker_line, mr_rule = PATTERNS_FILE @ [35] @ asc marker_id\<rparr>] []],
      fd_commit_sha = sha,
      fd_remediation = ''Remove the tool attribution line from the commit message.''\<rparr>"

fun marker_findings ::
  "ucd \<Rightarrow> compiled_rules \<Rightarrow> string option \<Rightarrow> nat \<Rightarrow> ustr list \<Rightarrow> py_exc + finding list" where
  "marker_findings U R sha n [] = Inr []"
| "marker_findings U R sha n (line # rest) =
     (if MAX_MARKER_LINE_CHARS < length line then marker_findings U R sha (Suc n) rest
      else case map_of (markers U R) (marker_key U line) of
             None \<Rightarrow> marker_findings U R sha (Suc n) rest
           | Some (marker_id, agent_id, marker_line) \<Rightarrow>
               (case map_of (cc_agents R) agent_id of
                  None \<Rightarrow> Inl (PyExc ''KeyError'' (u_repr U (asc agent_id)))
                | Some agent \<Rightarrow>
                    (case marker_findings U R sha (Suc n) rest of
                       Inl e \<Rightarrow> Inl e
                     | Inr fs \<Rightarrow> Inr (marker_finding sha n line marker_id marker_line agent # fs))))"

definition trailer_detector :: "ucd \<Rightarrow> compiled_rules \<Rightarrow> detector" where
  "trailer_detector U R =
     \<lparr>det_name = ''trailer'', det_rules = [''ai_trailer'', ''malformed_trailer''],
      det_detect = (\<lambda>c. case require_complete_trailers c of
                         Inl e \<Rightarrow> Inl e
                       | Inr _ \<Rightarrow>
                           (case map_err (trailer_findings U R (cm_sha c)) (cm_trailers c) of
                              Inl e \<Rightarrow> Inl e
                            | Inr fss \<Rightarrow>
                                (case marker_findings U R (cm_sha c) 1 (splitlines (cm_message c)) of
                                   Inl e \<Rightarrow> Inl e
                                 | Inr fs \<Rightarrow> Inr (concat fss @ fs))))\<rparr>"

definition builtin_registry :: "ucd \<Rightarrow> compiled_rules \<Rightarrow> registration_error + registry" where
  "builtin_registry U R =
     register_all [coauthor_detector U R, identity_detector U R, trailer_detector U R, bot_detector U R]"

section \<open>The detectors honour the contract\<close>

text \<open>What the contract asks of a finding, with the detector's name and rules written out.\<close>

definition conforms :: "string \<Rightarrow> string list \<Rightarrow> string option \<Rightarrow> finding \<Rightarrow> bool" where
  "conforms name rules sha f \<longleftrightarrow>
     fd_detector f = name \<and> fd_rule_id f \<in> set rules \<and> fd_commit_sha f = sha \<and> fd_evidence f \<noteq> []"

lemma finding_conforms [simp]:
  "conforms ''coauthor'' [''ai_coauthor''] sha (coauthor_finding U sha t im)"
  "conforms ''trailer'' [''ai_trailer'', ''malformed_trailer''] sha (ai_trailer_finding U sha t rs lv subj)"
  "conforms ''trailer'' [''ai_trailer'', ''malformed_trailer''] sha (marker_finding sha n line mid ml agent)"
  "g \<noteq> [] \<Longrightarrow> conforms ''identity'' [''ai_identity''] sha (identity_finding U sha g im)"
  "g \<noteq> [] \<Longrightarrow> conforms ''bot'' [''bot_identity''] sha (bot_finding sha g im)"
  by (simp_all add: conforms_def coauthor_finding_def ai_trailer_finding_def marker_finding_def
      identity_finding_def bot_finding_def)

lemma contractI:
  assumes "\<And>c fs. det_detect d c = Inr fs \<Longrightarrow> list_all (conforms (det_name d) (det_rules d) (cm_sha c)) fs"
    and "det_rules d \<noteq> []" and "list_all (\<lambda>r. is_identifier (asc r)) (det_rules d)"
    and "is_identifier (asc (det_name d))"
  shows "detector_contract d"
  using assms by unfold_locales (auto simp: list_all_iff conforms_def attributed_def)

lemma coauthor_loop_conforms:
  "coauthor_loop U R sha ts = Inr fs \<Longrightarrow> list_all (conforms ''coauthor'' [''ai_coauthor''] sha) fs"
  by (induction ts arbitrary: fs) (auto split: if_splits sum.splits option.splits)

lemma group_findings_conform:
  assumes "\<And>g im. g \<noteq> [] \<Longrightarrow> P (mk g im)" and "group_findings mk hits = Inr fs"
  shows "list_all P fs"
proof -
  have one: "P f" if "(case strongest_match g of Inl e \<Rightarrow> Inl e | Inr im \<Rightarrow> Inr (mk g im)) = Inr f" for g f
  proof -
    from that obtain im where "strongest_match g = Inr im" and "f = mk g im" by (auto split: sum.splits)
    moreover from this have "g \<noteq> []" by (auto simp: strongest_match_def py_max_def)
    ultimately show "P f" using assms(1) by blast
  qed
  have "list_all2 (\<lambda>g f. (case strongest_match (snd g) of Inl e \<Rightarrow> Inl e | Inr im \<Rightarrow> Inr (mk (snd g) im)) = Inr f)
      (group_hits hits) fs"
    using assms(2) by (simp add: group_findings_def map_err_Inr_iff)
  then show ?thesis by (induction rule: list_all2_induct) (auto dest: one)
qed

lemma trailer_findings_conform:
  assumes "trailer_findings U R sha t = Inr fs"
  shows "list_all (conforms ''trailer'' [''ai_trailer'', ''malformed_trailer''] sha) fs"
proof -
  have "conforms ''trailer'' [''ai_trailer'', ''malformed_trailer''] sha f"
    if "malformed_finding U sha check t = Some f" for check f
    using that by (auto simp: malformed_finding_def conforms_def Let_def split: if_splits)
  moreover have "conforms ''trailer'' [''ai_trailer'', ''malformed_trailer''] sha f"
    if "attribution_finding U R sha rule t = Inr (Some f)" for rule f
    using that by (auto simp: attribution_finding_def Let_def split: if_splits sum.splits option.splits)
  ultimately show ?thesis
    using assms by (auto simp: trailer_findings_def Let_def split: option.splits sum.splits)
qed

lemma marker_findings_conform:
  "marker_findings U R sha n ls = Inr fs \<Longrightarrow>
     list_all (conforms ''trailer'' [''ai_trailer'', ''malformed_trailer''] sha) fs"
  by (induction ls arbitrary: n fs) (auto split: if_splits option.splits sum.splits)

lemma trailer_detect_conforms:
  assumes "det_detect (trailer_detector U R) c = Inr fs"
  shows "list_all (conforms ''trailer'' [''ai_trailer'', ''malformed_trailer''] (cm_sha c)) fs"
proof -
  from assms obtain fss ms where fss: "map_err (trailer_findings U R (cm_sha c)) (cm_trailers c) = Inr fss"
    and ms: "marker_findings U R (cm_sha c) 1 (splitlines (cm_message c)) = Inr ms" and fs: "fs = concat fss @ ms"
    by (auto simp: trailer_detector_def split: sum.splits)
  have "list_all2 (\<lambda>t gs. trailer_findings U R (cm_sha c) t = Inr gs) (cm_trailers c) fss"
    using fss by (simp add: map_err_Inr_iff)
  then have "list_all (conforms ''trailer'' [''ai_trailer'', ''malformed_trailer''] (cm_sha c)) (concat fss)"
    by (induction rule: list_all2_induct) (auto dest: trailer_findings_conform)
  with marker_findings_conform [OF ms] fs show ?thesis by simp
qed

lemmas identifier_eval = is_identifier_def asc_def ascii_class_defs

interpretation coauthor: detector_contract "coauthor_detector U R" for U R
  by (rule contractI) (auto simp: coauthor_detector_def identifier_eval
      intro: coauthor_loop_conforms split: sum.splits)

interpretation identity: detector_contract "identity_detector U R" for U R
  by (rule contractI) (auto simp: identity_detector_def identifier_eval
      intro: group_findings_conform [rotated] split: sum.splits)

interpretation bots: detector_contract "bot_detector U R" for U R
  by (rule contractI) (auto simp: bot_detector_def identifier_eval
      intro: group_findings_conform [rotated] split: sum.splits)

interpretation trailers: detector_contract "trailer_detector U R" for U R
proof (rule contractI)
  fix c fs assume "det_detect (trailer_detector U R) c = Inr fs"
  from trailer_detect_conforms [OF this]
  show "list_all (conforms (det_name (trailer_detector U R)) (det_rules (trailer_detector U R)) (cm_sha c)) fs"
    by (simp add: trailer_detector_def)
qed (simp_all add: trailer_detector_def identifier_eval)

section \<open>The built-in registry\<close>

lemma builtin_registers:
  "builtin_registry U R = Inr
     [(''coauthor'', coauthor_detector U R), (''identity'', identity_detector U R),
      (''trailer'', trailer_detector U R), (''bot'', bot_detector U R)]"
proof -
  have names: "det_name (coauthor_detector U R) = ''coauthor''" "det_name (identity_detector U R) = ''identity''"
    "det_name (trailer_detector U R) = ''trailer''" "det_name (bot_detector U R) = ''bot''"
    by (simp_all add: coauthor_detector_def identity_detector_def trailer_detector_def bot_detector_def)
  show ?thesis
    by (simp add: builtin_registry_def register_all_def coauthor.registers identity.registers
        trailers.registers bots.registers names)
qed

lemma builtin_registry_ok:
  "builtin_registry U R = Inr reg \<Longrightarrow>
     registry_ok [coauthor_detector U R, identity_detector U R, trailer_detector U R, bot_detector U R] reg"
  unfolding builtin_registry_def by (rule register_all_ok)

lemma builtin_detectors:
  "builtin_registry U R = Inr reg \<Longrightarrow>
     set (all_detectors reg) = {coauthor_detector U R, identity_detector U R, trailer_detector U R, bot_detector U R}"
  using all_detectors_set [OF builtin_registry_ok] by simp

text \<open>The built-in registry always builds, and every rule a built-in detector may report has a default
  policy: with the default policies no built-in finding is blocked merely for want of a policy.\<close>

theorem builtin_rules_have_policies:
  "\<exists>reg. builtin_registry U R = Inr reg
     \<and> set (registry_rules reg) = {''ai_coauthor'', ''ai_identity'', ''ai_trailer'', ''malformed_trailer'', ''bot_identity''}
     \<and> set (registry_rules reg) \<subseteq> fst ` set DEFAULT_POLICIES"
  unfolding builtin_registers
  by (simp add: registry_rules_def coauthor_detector_def identity_detector_def trailer_detector_def
      bot_detector_def DEFAULT_POLICIES_def mk_policy_def insert_commute)

section \<open>Attribution is found and blocked\<close>

lemma run_match_total:
  assumes "compile_rules U rs = Inr R"
  shows "\<exists>res. run_match U (cc_ai_matcher R) name email = Inr res \<and> match_identity U (cc_ai_matcher R) name email = Inr res"
proof -
  obtain doms dsrc where "build_matcher U (rs_agents rs) AI_IDENTITIES_FILE doms dsrc = Inr (cc_ai_matcher R)"
    using assms by (auto simp: compile_rules_def split: sum.splits)
  from match_identity_candidates [OF build_matcher_ok [OF this], of U name email] show ?thesis
    by (auto simp: run_match_def)
qed

definition coauthor_hit :: "ucd \<Rightarrow> compiled_rules \<Rightarrow> trailer \<Rightarrow> identity_match option" where
  "coauthor_hit U R t =
     (if normalized_key U t \<in> set (coauthor_keys R)
      then (case match_identity U (cc_ai_matcher R) (pi_name (t_identity t)) (pi_email (t_identity t)) of
              Inl _ \<Rightarrow> None | Inr r \<Rightarrow> r)
      else None)"

text \<open>The co-author detector reports exactly the co-author trailers that match an AI identity: one finding
  per matching trailer, in message order, and nothing for any other trailer. It raises only when the
  message has too many trailers to analyse.\<close>

theorem coauthor_detector_exact:
  assumes "compile_rules U rs = Inr R" and "\<not> cm_trailers_truncated c"
  shows "det_detect (coauthor_detector U R) c
     = Inr (List.map_filter (\<lambda>t. map_option (coauthor_finding U (cm_sha c) t) (coauthor_hit U R t)) (cm_trailers c))"
proof -
  have "coauthor_loop U R sha ts
      = Inr (List.map_filter (\<lambda>t. map_option (coauthor_finding U sha t) (coauthor_hit U R t)) ts)" for sha ts
  proof (induction ts)
    case (Cons t ts)
    obtain res where "run_match U (cc_ai_matcher R) (pi_name (t_identity t)) (pi_email (t_identity t)) = Inr res"
      and "match_identity U (cc_ai_matcher R) (pi_name (t_identity t)) (pi_email (t_identity t)) = Inr res"
      using run_match_total [OF assms(1)] by blast
    with Cons show ?case by (cases res) (auto simp: coauthor_hit_def map_filter_simps)
  qed (simp add: map_filter_simps)
  with assms(2) show ?thesis by (simp add: coauthor_detector_def require_complete_trailers_def)
qed

text \<open>The default policies as far as the pipeline looks at them: a rule that is enabled and blocks.\<close>

definition blocks_rule :: "policies \<Rightarrow> string \<Rightarrow> bool" where
  "blocks_rule ps rule \<longleftrightarrow>
     (case map_of ps rule of None \<Rightarrow> False | Some p \<Rightarrow> p_enabled p \<and> p_action p = BLOCK \<and> p_id p = rule)"

lemma blocks_rule_enabled:
  "blocks_rule ps rule \<Longrightarrow> rule \<in> set (det_rules d) \<Longrightarrow> enabled_for (Some (enabled_rules ps)) d"
  by (force simp: blocks_rule_def enabled_for_def enabled_rules_def list_ex_iff split: option.splits
      dest: map_of_SomeD)

lemma analysis_blocks:
  assumes "d \<in> set (all_detectors reg)" and "blocks_rule ps rule" and "rule \<in> set (det_rules d)"
    and "(\<exists>e. run_detector U d c = Inl e)
         \<or> (\<exists>fs f. run_detector U d c = Inr fs \<and> f \<in> set fs \<and> fd_rule_id f = rule)"
  shows "cr_action (analyze U reg ps c) = BLOCK"
proof -
  have "ex_action (explain_finding ps f) = BLOCK" if "fd_rule_id f = rule" for f
    using assms(2) that
    by (auto simp: explain_finding_action blocks_rule_def effective_action_def split: option.splits)
  with assms(4) have "failures_of U c d \<noteq> []
      \<or> (\<exists>f \<in> set (findings_of U c d). ex_action (explain_finding ps f) = BLOCK)"
    by (auto simp: failures_of_def findings_of_def)
  with assms(1) blocks_rule_enabled [OF assms(2,3)] show ?thesis
    by (auto simp: analyze_def Let_def build_commit_report_def evaluate_action run_engine_eq)
qed

text \<open>C30: Whoever lists an AI agent as a co-author is blocked: if any trailer of the commit, wherever it is
  in the message, has a co-author key and names an identity that matches an AI rule, and the
  \<open>ai_coauthor\<close> policy blocks, then the analysis of the commit blocks.\<close>

theorem ai_coauthor_is_blocked:
  assumes "compile_rules U rs = Inr R" and "builtin_registry U R = Inr reg"
    and "t \<in> set (cm_trailers c)" and "coauthor_hit U R t = Some im" and "blocks_rule ps ''ai_coauthor''"
  shows "cr_action (analyze U reg ps c) = BLOCK"
proof (rule analysis_blocks [where d = "coauthor_detector U R" and rule = "''ai_coauthor''"])
  show "coauthor_detector U R \<in> set (all_detectors reg)" by (simp add: builtin_detectors [OF assms(2)])
  show "''ai_coauthor'' \<in> set (det_rules (coauthor_detector U R))" by (simp add: coauthor_detector_def)
  let ?run = "run_detector U (coauthor_detector U R) c"
  show "(\<exists>e. ?run = Inl e) \<or> (\<exists>fs f. ?run = Inr fs \<and> f \<in> set fs \<and> fd_rule_id f = ''ai_coauthor'')"
  proof (cases ?run)
    case (Inr fs)
    have loop: "coauthor_loop U R sha ts = Inr gs \<Longrightarrow> t \<in> set ts \<Longrightarrow> coauthor_finding U sha t im \<in> set gs" for sha ts gs
      using assms(4)
      by (induction ts arbitrary: gs)
        (auto simp: coauthor_hit_def run_match_def split: if_splits sum.splits option.splits)
    have "coauthor_loop U R (cm_sha c) (cm_trailers c) = Inr fs"
      using Inr unfolding coauthor.engine_accepts by (auto simp: coauthor_detector_def split: sum.splits)
    from loop [OF this assms(3)] Inr show ?thesis by (auto simp: coauthor_finding_def)
  qed simp
qed (rule assms(5))

text \<open>A flood of trailers cannot hide attribution: a commit whose message has more trailers than can be
  analysed is blocked, as soon as one of the trailer rules blocks.\<close>

theorem trailer_flood_is_blocked:
  assumes "builtin_registry U R = Inr reg" and "cm_trailers_truncated c"
    and "blocks_rule ps ''ai_coauthor'' \<or> blocks_rule ps ''ai_trailer''"
  shows "cr_action (analyze U reg ps c) = BLOCK"
proof -
  have "run_detector U (coauthor_detector U R) c = Inl e \<Longrightarrow> blocks_rule ps ''ai_coauthor'' \<Longrightarrow> ?thesis" for e
    by (rule analysis_blocks [where d = "coauthor_detector U R"])
      (auto simp: builtin_detectors [OF assms(1)], simp add: coauthor_detector_def)
  moreover have "run_detector U (trailer_detector U R) c = Inl e \<Longrightarrow> blocks_rule ps ''ai_trailer'' \<Longrightarrow> ?thesis" for e
    by (rule analysis_blocks [where d = "trailer_detector U R"])
      (auto simp: builtin_detectors [OF assms(1)], simp add: trailer_detector_def)
  moreover have "\<exists>e. run_detector U (coauthor_detector U R) c = Inl e" "\<exists>e. run_detector U (trailer_detector U R) c = Inl e"
    using assms(2)
    unfolding coauthor.engine_accepts trailers.engine_accepts
    by (simp_all add: coauthor_detector_def trailer_detector_def require_complete_trailers_def)
  ultimately show ?thesis using assms(3) by blast
qed
section \<open>The theorems at work\<close>

definition sample_rules :: rule_set where
  "sample_rules = \<lparr>rs_agents = [claude_rule], rs_ai_domains = vendor_domains, rs_bots = [],
     rs_patterns = \<lparr>pr_coauthor_trailer_keys = [asc ''co-authored-by''], pr_attribution_trailers = [],
       pr_malformed_trailer_checks = [], pr_message_markers = []\<rparr>\<rparr>"

definition sample_bot_matcher :: matcher where
  "sample_bot_matcher = \<lparr>mt_rules = [], mt_source = BOT_IDENTITIES_FILE, mt_domain_source = [], mt_names = [],
     mt_ambiguous = [], mt_emails = [], mt_logins = [], mt_prefixes = [], mt_automation = [], mt_domains = []\<rparr>"

definition sample_compiled :: compiled_rules where
  "sample_compiled = \<lparr>cc_rules = sample_rules, cc_ai_matcher = the_matcher, cc_bot_matcher = sample_bot_matcher,
     cc_agents = [(''claude'', claude_rule)]\<rparr>"

lemma sample_compiles: "compile_rules ascii_ucd sample_rules = Inr sample_compiled"
proof -
  have "build_matcher ascii_ucd [] BOT_IDENTITIES_FILE None [] = Inr sample_bot_matcher"
    by (simp add: build_matcher_def build_index_def rule_values_def dict_of_def sample_bot_matcher_def)
  with the_matcher_built show ?thesis
    by (simp add: compile_rules_def sample_rules_def sample_compiled_def AI_IDENTITIES_FILE_def
        AI_DOMAINS_FILE_def dict_of_def) (simp add: claude_rule_def)
qed

definition claude_trailer :: trailer where
  "claude_trailer = \<lparr>t_key = asc ''Co-authored-by'', t_value = asc ''Claude'', t_raw = asc ''Co-authored-by: Claude'',
     t_line_number = 3, t_in_trailer_block = True, t_issues = [],
     t_identity = \<lparr>pi_name = Some (asc ''Claude''), pi_email = None, pi_issues = [IssMissingEmail]\<rparr>\<rparr>"

definition claude_commit :: commit where
  "claude_commit = empty_commit\<lparr>cm_trailers := [claude_trailer]\<rparr>"

lemma claude_hit:
  "\<exists>im. coauthor_hit ascii_ucd sample_compiled claude_trailer = Some im"
proof -
  have "normalized_key ascii_ucd claude_trailer = asc ''co-authored-by''"
    by (simp add: normalized_key_def claude_trailer_def normalize_trailer_key_def norm_eval str_eval)
  then show ?thesis
    by (simp add: coauthor_hit_def coauthor_keys_def sample_compiled_def sample_rules_def)
      (simp add: claude_trailer_def claude_matched)
qed

lemma default_blocks: "blocks_rule DEFAULT_POLICIES ''ai_coauthor''"
  by (simp add: blocks_rule_def DEFAULT_POLICIES_def mk_policy_def)

theorem coauthor_detector_exact_witness:
  "\<exists>f. det_detect (coauthor_detector ascii_ucd sample_compiled) claude_commit = Inr [f]"
proof -
  have "\<not> cm_trailers_truncated claude_commit" by (simp add: claude_commit_def empty_commit_def)
  from coauthor_detector_exact [OF sample_compiles this] claude_hit show ?thesis
    by (auto simp: claude_commit_def map_filter_simps)
qed

theorem ai_coauthor_is_blocked_witness:
  "\<exists>reg. builtin_registry ascii_ucd sample_compiled = Inr reg
     \<and> cr_action (analyze ascii_ucd reg DEFAULT_POLICIES claude_commit) = BLOCK"
proof -
  obtain im where "coauthor_hit ascii_ucd sample_compiled claude_trailer = Some im" using claude_hit by blast
  from ai_coauthor_is_blocked [OF sample_compiles builtin_registers _ this default_blocks]
  have "cr_action (analyze ascii_ucd
      [(''coauthor'', coauthor_detector ascii_ucd sample_compiled), (''identity'', identity_detector ascii_ucd sample_compiled),
       (''trailer'', trailer_detector ascii_ucd sample_compiled), (''bot'', bot_detector ascii_ucd sample_compiled)]
      DEFAULT_POLICIES claude_commit) = BLOCK"
    by (simp add: claude_commit_def)
  with builtin_registers show ?thesis by blast
qed

theorem trailer_flood_is_blocked_witness:
  "\<exists>reg. builtin_registry ascii_ucd sample_compiled = Inr reg
     \<and> cr_action (analyze ascii_ucd reg DEFAULT_POLICIES (empty_commit\<lparr>cm_trailers_truncated := True\<rparr>)) = BLOCK"
proof -
  have "cr_action (analyze ascii_ucd reg DEFAULT_POLICIES (empty_commit\<lparr>cm_trailers_truncated := True\<rparr>)) = BLOCK"
    if "builtin_registry ascii_ucd sample_compiled = Inr reg" for reg
    by (rule trailer_flood_is_blocked [OF that]) (simp_all add: default_blocks)
  with builtin_registers show ?thesis by blast
qed

end
