(* ===== verification/Remediation.thy ===== *)
theory Remediation
  imports Detectors
begin

text \<open>
  What an entry point does with a policy result: the enforcement decision and its exit code
  (\<open>services/enforcement.py\<close>), the removal of prohibited lines from a pending commit message
  (\<open>services/remediation.py\<close>) and the commit-msg hook that uses it (\<open>services/hooks.py\<close>). The message
  the hook is given is the one git's cleanup returned; writing the file is the result \<open>hr_written\<close>.
\<close>

section \<open>Enforcement decisions\<close>

datatype enforcement_state = StPassed | StPassedWithWarnings | StBlocked | StError

datatype failure_kind = FkConfiguration | FkAuthorization | FkInfrastructure | FkTimeout | FkInternal

record enforcement_decision =
  ed_state :: enforcement_state
  ed_action :: "action option"
  ed_failure :: "failure_kind option"
  ed_reason :: string

definition ed_allowed :: "enforcement_decision \<Rightarrow> bool" where
  "ed_allowed d \<longleftrightarrow> ed_state d = StPassed \<or> ed_state d = StPassedWithWarnings"

fun state_exit_code :: "enforcement_state \<Rightarrow> nat" where
  "state_exit_code StPassed = 0"
| "state_exit_code StPassedWithWarnings = 0"
| "state_exit_code StBlocked = 1"
| "state_exit_code StError = 2"

definition exit_code :: "enforcement_decision \<Rightarrow> nat" where
  "exit_code d = state_exit_code (ed_state d)"

definition check_conclusion :: "enforcement_decision \<Rightarrow> string" where
  "check_conclusion d =
     (if ed_allowed d then ''success''
      else if ed_failure d = Some FkTimeout then ''timed_out'' else ''failure'')"

text \<open>The constructor of the service refuses a threshold of \<open>allow\<close>.\<close>

definition enforcement_service :: "action \<Rightarrow> policy_error + action" where
  "enforcement_service fail_on =
     (if fail_on = ALLOW then Inl (ValueError ''fail_on must be block or warn'') else Inr fail_on)"

definition decide :: "action \<Rightarrow> action \<Rightarrow> enforcement_decision" where
  "decide fail_on act =
     (if action_rank fail_on \<le> action_rank act then
        \<lparr>ed_state = StBlocked, ed_action = Some act, ed_failure = None,
         ed_reason = ''policy result '' @ action_value act @ '' is at or above fail-on '' @ action_value fail_on\<rparr>
      else if act = WARN then
        \<lparr>ed_state = StPassedWithWarnings, ed_action = Some act, ed_failure = None, ed_reason = ''warnings only''\<rparr>
      else
        \<lparr>ed_state = StPassed, ed_action = Some act, ed_failure = None, ed_reason = ''all policies passed''\<rparr>)"

definition scan_failed :: "failure_kind \<Rightarrow> string \<Rightarrow> enforcement_decision" where
  "scan_failed kind reason =
     \<lparr>ed_state = StError, ed_action = None, ed_failure = Some kind, ed_reason = reason\<rparr>"

text \<open>An entry point lets a change through exactly when the result is below the threshold, and the
  three ways of saying so agree: exit code 0, an allowed state and a successful check. A scan that
  could not be completed is never let through, and is told apart from a blocked one by its exit
  code.\<close>

theorem decision_fails_closed:
  assumes "enforcement_service fail_on = Inr threshold"
  shows "(exit_code (decide threshold act) = 0 \<longleftrightarrow> act < threshold)
     \<and> (ed_allowed (decide threshold act) \<longleftrightarrow> act < threshold)
     \<and> (check_conclusion (decide threshold act) = ''success'' \<longleftrightarrow> act < threshold)
     \<and> (act = BLOCK \<longrightarrow> exit_code (decide threshold act) = 1)
     \<and> exit_code (scan_failed kind reason) = 2 \<and> check_conclusion (scan_failed kind reason) \<noteq> ''success''"
proof -
  have "threshold \<noteq> ALLOW" using assms by (simp add: enforcement_service_def split: if_splits)
  then show ?thesis
    by (cases act; cases threshold)
      (simp_all add: decide_def exit_code_def ed_allowed_def check_conclusion_def scan_failed_def action_le)
qed

theorem decision_fails_closed_witness:
  "exit_code (decide WARN WARN) \<noteq> 0 \<and> exit_code (decide BLOCK WARN) = 0"
proof -
  have "enforcement_service WARN = Inr WARN" "enforcement_service BLOCK = Inr BLOCK"
    by (simp_all add: enforcement_service_def)
  from decision_fails_closed [OF this(1), of WARN FkTimeout "[]"]
    decision_fails_closed [OF this(2), of WARN FkTimeout "[]"]
  show ?thesis by (simp add: action_le)
qed

section \<open>Removing lines of a message\<close>

record removed_line =
  rl_line_number :: nat
  rl_text :: ustr
  rl_rule_id :: string

definition REMOVABLE_SOURCES :: "evidence_source list" where
  "REMOVABLE_SOURCES = [SrcCoauthorTrailer, SrcTrailer, SrcMessage]"

text \<open>The two loops of \<open>removable_lines\<close>; \<open>None\<close> is the early return.\<close>

fun removals_of :: "string \<Rightarrow> evidence list \<Rightarrow> (nat \<times> removed_line) list \<Rightarrow> (nat \<times> removed_line) list option" where
  "removals_of rule [] removals = Some removals"
| "removals_of rule (e # es) removals =
     (if ev_source e \<notin> set REMOVABLE_SOURCES then None
      else case ev_line_number e of
             None \<Rightarrow> None
           | Some n \<Rightarrow> removals_of rule es
               (setdefault n \<lparr>rl_line_number = n, rl_text = ev_value e, rl_rule_id = rule\<rparr> removals))"

fun collect_removals :: "evaluated_finding list \<Rightarrow> (nat \<times> removed_line) list \<Rightarrow> (nat \<times> removed_line) list option" where
  "collect_removals [] removals = Some removals"
| "collect_removals (f # fs) removals =
     (if ef_action f \<noteq> BLOCK then collect_removals fs removals
      else case removals_of (fd_rule_id (ef_finding f)) (fd_evidence (ef_finding f)) removals of
             None \<Rightarrow> None
           | Some removals' \<Rightarrow> collect_removals fs removals')"

definition removable_lines :: "commit_report \<Rightarrow> removed_line list option" where
  "removable_lines r =
     (if list_ex (\<lambda>x. ex_fail_action x = BLOCK) (cr_failures r) then None
      else case collect_removals (cr_findings r) [] of
             None \<Rightarrow> None
           | Some removals \<Rightarrow>
               (if removals = [] then None else Some (map snd (sort_key fst removals))))"

definition with_actual_text :: "ustr \<Rightarrow> removed_line list \<Rightarrow> removed_line list" where
  "with_actual_text message removals =
     (let ls = splitlines message
      in map (\<lambda>r. if 0 < rl_line_number r \<and> rl_line_number r \<le> length ls
                  then r\<lparr>rl_text := py_strip (ls ! (rl_line_number r - 1))\<rparr> else r) removals)"

definition keep_lines :: "nat list \<Rightarrow> ustr list \<Rightarrow> ustr list" where
  "keep_lines numbers ls = map snd (filter (\<lambda>(n, _). n \<notin> set numbers) (enumerate 1 ls))"

definition trim_blank_end :: "ustr list \<Rightarrow> ustr list" where
  "trim_blank_end ls = rev (dropWhile (\<lambda>l. py_strip l = []) (rev ls))"

definition strip_lines :: "ustr \<Rightarrow> nat list \<Rightarrow> ustr" where
  "strip_lines message numbers =
     (let kept = trim_blank_end (keep_lines numbers (splitlines message))
      in if kept = [] then [] else py_join [10] kept @ [10])"

section \<open>The commit-msg hook\<close>

record hook_run =
  hr_enabled :: bool
  hr_report :: "commit_report option"
  hr_removed :: "removed_line list"
  hr_written :: "ustr option"

definition analyze_pending :: "ucd \<Rightarrow> registry \<Rightarrow> policies \<Rightarrow> identity \<Rightarrow> identity \<Rightarrow> ustr \<Rightarrow> unsafe_input + commit_report" where
  "analyze_pending U reg ps author committer text =
     (case pending_commit U text author committer of Inl e \<Rightarrow> Inl e | Inr c \<Rightarrow> Inr (analyze U reg ps c))"

definition auto_remove ::
  "(ustr \<Rightarrow> unsafe_input + commit_report) \<Rightarrow> ustr \<Rightarrow> commit_report
     \<Rightarrow> unsafe_input + (commit_report \<times> removed_line list \<times> ustr) option" where
  "auto_remove analyse message report =
     (case removable_lines report of
        None \<Rightarrow> Inr None
      | Some removals \<Rightarrow>
          (let rewritten = strip_lines message (map rl_line_number removals)
           in if py_strip rewritten = [] then Inr None
              else case analyse rewritten of
                     Inl e \<Rightarrow> Inl e
                   | Inr after \<Rightarrow>
                       if cr_action after = BLOCK then Inr None
                       else Inr (Some (after, with_actual_text message removals, rewritten))))"

definition run_commit_msg ::
  "ucd \<Rightarrow> registry \<Rightarrow> policies \<Rightarrow> identity \<Rightarrow> identity \<Rightarrow> enforcement \<Rightarrow> remediation \<Rightarrow> ustr
     \<Rightarrow> unsafe_input + hook_run" where
  "run_commit_msg U reg ps author committer en rm message =
     (if \<not> en_commit_msg en
      then Inr \<lparr>hr_enabled = False, hr_report = None, hr_removed = [], hr_written = None\<rparr>
      else case analyze_pending U reg ps author committer message of
        Inl e \<Rightarrow> Inl e
      | Inr report \<Rightarrow>
          if rm_auto_remove rm \<and> cr_action report = BLOCK then
            (case auto_remove (analyze_pending U reg ps author committer) message report of
               Inl e \<Rightarrow> Inl e
             | Inr None \<Rightarrow> Inr \<lparr>hr_enabled = True, hr_report = Some report, hr_removed = [], hr_written = None\<rparr>
             | Inr (Some (after, removed, rewritten)) \<Rightarrow>
                 Inr \<lparr>hr_enabled = True, hr_report = Some after, hr_removed = removed, hr_written = Some rewritten\<rparr>)
          else Inr \<lparr>hr_enabled = True, hr_report = Some report, hr_removed = [], hr_written = None\<rparr>)"

text \<open>The pre-commit hook: no message exists yet.\<close>

definition run_pre_commit ::
  "ucd \<Rightarrow> registry \<Rightarrow> policies \<Rightarrow> identity \<Rightarrow> identity \<Rightarrow> enforcement \<Rightarrow> unsafe_input + hook_run" where
  "run_pre_commit U reg ps author committer en =
     (if \<not> en_pre_commit en
      then Inr \<lparr>hr_enabled = False, hr_report = None, hr_removed = [], hr_written = None\<rparr>
      else case analyze_pending U reg ps author committer [] of
        Inl e \<Rightarrow> Inl e
      | Inr report \<Rightarrow> Inr \<lparr>hr_enabled = True, hr_report = Some report, hr_removed = [], hr_written = None\<rparr>)"

section \<open>Lines survive printing\<close>

definition no_break :: "ustr \<Rightarrow> bool" where
  "no_break l \<longleftrightarrow> list_all (\<lambda>c. \<not> is_linebreak c) l"

lemma linebreak_13_10 [simp]: "is_linebreak 13" "is_linebreak 10"
  by (simp_all add: is_linebreak_def)

lemma lines_from_line: "no_break p \<Longrightarrow> lines_from cur (p @ 10 # s) = (rev cur @ p) # lines_from [] s"
proof (induction p arbitrary: cur)
  case Nil
  then show ?case by (cases s) simp_all
next
  case (Cons c p)
  then have "\<not> is_linebreak c" "no_break p" by (simp_all add: no_break_def)
  moreover from this have "c \<noteq> 13" by auto
  ultimately show ?case
    using Cons.IH [of "c # cur"] by (cases "p @ 10 # s") auto
qed

lemma splitlines_print: "list_all no_break ls \<Longrightarrow> splitlines (concat (map (\<lambda>l. l @ [10]) ls)) = ls"
  by (induction ls) (simp_all add: splitlines_def lines_from_line)

lemma print_join: "ls \<noteq> [] \<Longrightarrow> py_join [d] ls @ [d] = concat (map (\<lambda>l. l @ [d]) ls)"
  by (induction "[d]" ls rule: py_join.induct) simp_all

lemma lines_from_no_break:
  "no_break cur \<Longrightarrow> list_all no_break (lines_from cur s)"
  by (induction cur s rule: lines_from.induct) (auto simp: no_break_def)

lemma splitlines_no_break: "list_all no_break (splitlines s)"
  by (simp add: splitlines_def lines_from_no_break no_break_def)

lemma keep_lines_subset: "set (keep_lines ns ls) \<subseteq> set ls"
proof -
  have "set (keep_lines ns ls) \<subseteq> snd ` set (enumerate 1 ls)" by (auto simp: keep_lines_def)
  also have "snd ` set (enumerate 1 ls) = set ls" by (simp flip: set_map)
  finally show ?thesis .
qed

lemma trim_blank_end_subset: "set (trim_blank_end ls) \<subseteq> set ls"
  by (auto simp: trim_blank_end_def dest: set_dropWhileD)

lemma splitlines_strip_lines:
  "splitlines (strip_lines m ns) = trim_blank_end (keep_lines ns (splitlines m))"
proof (cases "trim_blank_end (keep_lines ns (splitlines m)) = []")
  case False
  have "list_all no_break (trim_blank_end (keep_lines ns (splitlines m)))"
    using splitlines_no_break [of m] keep_lines_subset [of ns "splitlines m"]
      trim_blank_end_subset [of "keep_lines ns (splitlines m)"]
    by (auto simp: list_all_iff)
  with False show ?thesis
    by (simp only: strip_lines_def Let_def if_False print_join [OF False] splitlines_print)
qed (simp add: strip_lines_def splitlines_def)

text \<open>Stripping lines deletes exactly those lines: the lines of the new message are the lines of the old
  one with the given numbers left out, in order and unchanged, and without blank lines at the end.\<close>

theorem strip_lines_exact:
  "splitlines (strip_lines m ns) = trim_blank_end (keep_lines ns (splitlines m))"
  by (rule splitlines_strip_lines)

section \<open>What may be removed\<close>

definition evidence_removable :: "(nat \<times> removed_line) list \<Rightarrow> evidence \<Rightarrow> bool" where
  "evidence_removable rs e \<longleftrightarrow> ev_source e \<in> set REMOVABLE_SOURCES
     \<and> (case ev_line_number e of None \<Rightarrow> False | Some n \<Rightarrow> n \<in> fst ` set rs)"

lemma setdefault_keys [simp]: "fst ` set (setdefault k v d) = insert k (fst ` set d)"
  by (force simp: setdefault_def image_iff split: option.splits dest: map_of_SomeD)

lemma evidence_removable_mono:
  "fst ` set rs \<subseteq> fst ` set rs' \<Longrightarrow> evidence_removable rs e \<Longrightarrow> evidence_removable rs' e"
  by (auto simp: evidence_removable_def split: option.splits)

lemma removals_of_Cons:
  "removals_of rule (e # es) rs = Some rs' \<longleftrightarrow>
     ev_source e \<in> set REMOVABLE_SOURCES \<and> (\<exists>n. ev_line_number e = Some n
       \<and> removals_of rule es (setdefault n \<lparr>rl_line_number = n, rl_text = ev_value e, rl_rule_id = rule\<rparr> rs) = Some rs')"
  by (auto split: option.splits)

lemma removals_of_cover:
  "removals_of rule es rs = Some rs' \<Longrightarrow>
     fst ` set rs \<subseteq> fst ` set rs' \<and> list_all (evidence_removable rs') es"
proof (induction es arbitrary: rs)
  case (Cons e es)
  then obtain n where n: "ev_source e \<in> set REMOVABLE_SOURCES" "ev_line_number e = Some n"
    and rec: "removals_of rule es (setdefault n \<lparr>rl_line_number = n, rl_text = ev_value e, rl_rule_id = rule\<rparr> rs) = Some rs'"
    unfolding removals_of_Cons by blast
  from Cons.IH [OF rec] n show ?case by (simp add: evidence_removable_def)
qed simp

lemma collect_removals_cover:
  "collect_removals fs rs = Some rs' \<Longrightarrow>
     fst ` set rs \<subseteq> fst ` set rs'
     \<and> (\<forall>f \<in> set fs. ef_action f = BLOCK \<longrightarrow> list_all (evidence_removable rs') (fd_evidence (ef_finding f)))"
proof (induction fs arbitrary: rs)
  case (Cons f fs)
  show ?case
  proof (cases "ef_action f = BLOCK")
    case True
    with Cons.prems obtain rs1 where one: "removals_of (fd_rule_id (ef_finding f)) (fd_evidence (ef_finding f)) rs = Some rs1"
      and rest: "collect_removals fs rs1 = Some rs'"
      by (auto split: option.splits)
    note a = removals_of_cover [OF one] and b = Cons.IH [OF rest]
    have "list_all (evidence_removable rs') (fd_evidence (ef_finding f))"
      using a b by (auto simp: list_all_iff intro: evidence_removable_mono [of rs1])
    moreover have "fst ` set rs \<subseteq> fst ` set rs'" using a b by (blast intro: subset_trans)
    ultimately show ?thesis using b by simp
  qed (use Cons in simp)
qed simp

definition entries_ok :: "(nat \<Rightarrow> bool) \<Rightarrow> (nat \<times> removed_line) list \<Rightarrow> bool" where
  "entries_ok Q rs \<longleftrightarrow> list_all (\<lambda>x. rl_line_number (snd x) = fst x \<and> Q (fst x)) rs"

lemma entries_ok_Nil [simp]: "entries_ok Q []"
  by (simp add: entries_ok_def)

lemma entries_ok_setdefault:
  "entries_ok Q rs \<Longrightarrow> rl_line_number r = n \<Longrightarrow> Q n \<Longrightarrow> entries_ok Q (setdefault n r rs)"
  by (simp add: entries_ok_def setdefault_def split: option.splits)

lemma removals_of_origin:
  assumes "removals_of rule es rs = Some rs'" and "entries_ok Q rs"
    and "\<forall>e \<in> set es. \<forall>n. ev_line_number e = Some n \<longrightarrow> Q n"
  shows "entries_ok Q rs'"
  using assms
proof (induction es arbitrary: rs)
  case (Cons e es)
  then obtain n where n: "ev_line_number e = Some n"
    and rec: "removals_of rule es (setdefault n \<lparr>rl_line_number = n, rl_text = ev_value e, rl_rule_id = rule\<rparr> rs) = Some rs'"
    unfolding removals_of_Cons by blast
  show ?case
    by (rule Cons.IH [OF rec]) (use Cons.prems n in \<open>simp_all add: entries_ok_setdefault\<close>)
qed simp

lemma collect_removals_origin:
  assumes "collect_removals fs rs = Some rs'" and "entries_ok Q rs"
    and "\<forall>f \<in> set fs. ef_action f = BLOCK \<longrightarrow> (\<forall>e \<in> set (fd_evidence (ef_finding f)). \<forall>n. ev_line_number e = Some n \<longrightarrow> Q n)"
  shows "entries_ok Q rs'"
  using assms
proof (induction fs arbitrary: rs)
  case (Cons f fs)
  show ?case
  proof (cases "ef_action f = BLOCK")
    case True
    with Cons.prems obtain rs1 where one: "removals_of (fd_rule_id (ef_finding f)) (fd_evidence (ef_finding f)) rs = Some rs1"
      and rest: "collect_removals fs rs1 = Some rs'"
      by (auto split: option.splits)
    have "entries_ok Q rs1"
      by (rule removals_of_origin [OF one]) (use Cons.prems True in auto)
    with Cons.IH [OF rest] Cons.prems show ?thesis by simp
  qed (use Cons in simp)
qed simp

text \<open>The lines of a report that carry the evidence of its blocking findings.\<close>

definition blocking_lines :: "commit_report \<Rightarrow> nat set" where
  "blocking_lines r = {n. \<exists>f \<in> set (cr_findings r). ef_action f = BLOCK
     \<and> (\<exists>e \<in> set (fd_evidence (ef_finding f)). ev_line_number e = Some n)}"

lemma removable_lines_exact:
  assumes "removable_lines r = Some removals"
  shows "set (map rl_line_number removals) = blocking_lines r
     \<and> list_all (\<lambda>x. ex_fail_action x \<noteq> BLOCK) (cr_failures r)
     \<and> (\<forall>f \<in> set (cr_findings r). ef_action f = BLOCK \<longrightarrow>
          (\<forall>e \<in> set (fd_evidence (ef_finding f)). ev_source e \<in> set REMOVABLE_SOURCES \<and> ev_line_number e \<noteq> None))"
proof -
  from assms obtain rs where rs: "collect_removals (cr_findings r) [] = Some rs"
    and removals: "removals = map snd (sort_key fst rs)"
    and fails: "list_all (\<lambda>x. ex_fail_action x \<noteq> BLOCK) (cr_failures r)"
    by (auto simp: removable_lines_def list_ex_iff list_all_iff split: if_splits option.splits)
  have origin: "entries_ok (\<lambda>n. n \<in> blocking_lines r) rs"
    by (rule collect_removals_origin [OF rs entries_ok_Nil]) (auto simp: blocking_lines_def)
  note cover = collect_removals_cover [OF rs]
  have "n \<in> fst ` set rs" if "n \<in> blocking_lines r" for n
  proof -
    from that obtain f e where "f \<in> set (cr_findings r)" "ef_action f = BLOCK"
      "e \<in> set (fd_evidence (ef_finding f))" "ev_line_number e = Some n"
      by (auto simp: blocking_lines_def)
    moreover from this cover have "evidence_removable rs e" by (auto simp: list_all_iff)
    ultimately show ?thesis by (simp add: evidence_removable_def)
  qed
  moreover have "map (rl_line_number \<circ> snd) (sort_key fst rs) = map fst (sort_key fst rs)"
    using origin by (auto simp: entries_ok_def list_all_iff)
  then have "set (map rl_line_number removals) = fst ` set rs"
    unfolding removals map_map by simp
  moreover have "fst ` set rs \<subseteq> blocking_lines r" using origin by (auto simp: entries_ok_def list_all_iff)
  ultimately have "set (map rl_line_number removals) = blocking_lines r" by blast
  with fails cover show ?thesis
    by (auto simp: list_all_iff evidence_removable_def split: option.splits)
qed

section \<open>The hook never lets a block through on assumption\<close>

lemma auto_remove_Some:
  assumes "auto_remove analyse message report = Inr (Some (after, removed, text))"
  shows "\<exists>removals. removable_lines report = Some removals \<and> text = strip_lines message (map rl_line_number removals)
     \<and> py_strip text \<noteq> [] \<and> analyse text = Inr after \<and> cr_action after \<noteq> BLOCK"
  using assms by (auto simp: auto_remove_def Let_def split: option.splits if_splits sum.splits)

text \<open>C37: The commit-msg hook rewrites a message only when it is enabled to and the message was blocked. It
  then deletes exactly the lines that carry the evidence of the blocking findings, never leaves a
  blank message, and what it reports is the analysis of the message it wrote, which does not block.\<close>

theorem commit_msg_fix_is_safe:
  assumes "run_commit_msg U reg ps author committer en rm message = Inr h" and "hr_written h = Some text"
  shows "rm_auto_remove rm \<and> (\<exists>report ns after. analyze_pending U reg ps author committer message = Inr report
     \<and> cr_action report = BLOCK \<and> set ns = blocking_lines report
     \<and> splitlines text = trim_blank_end (keep_lines ns (splitlines message)) \<and> py_strip text \<noteq> []
     \<and> analyze_pending U reg ps author committer text = Inr after
     \<and> hr_report h = Some after \<and> cr_action after \<noteq> BLOCK)"
proof -
  from assms obtain report after removed where
    report: "analyze_pending U reg ps author committer message = Inr report" "cr_action report = BLOCK"
    and rm: "rm_auto_remove rm"
    and fixed: "auto_remove (analyze_pending U reg ps author committer) message report = Inr (Some (after, removed, text))"
    and h: "hr_report h = Some after"
    by (auto simp: run_commit_msg_def split: if_splits sum.splits option.splits)
  from auto_remove_Some [OF fixed] obtain removals where r: "removable_lines report = Some removals"
    and wr: "text = strip_lines message (map rl_line_number removals)" and clean: "py_strip text \<noteq> []"
      "analyze_pending U reg ps author committer text = Inr after" "cr_action after \<noteq> BLOCK"
    by blast
  have "set (map rl_line_number removals) = blocking_lines report" using removable_lines_exact [OF r] by blast
  with report rm h clean wr show ?thesis using splitlines_strip_lines by blast
qed

definition footer_finding :: finding where
  "footer_finding = \<lparr>fd_detector = ''footer'', fd_rule_id = ''quiet'', fd_severity = SevHigh, fd_confidence = ConfHigh,
     fd_title = ''footer'', fd_message = [], fd_evidence = [mk_evidence SrcMessage (asc ''x'') (Some 2) [] []],
     fd_commit_sha = None, fd_remediation = ''remove''\<rparr>"

definition footer_detector :: detector where
  "footer_detector = \<lparr>det_name = ''footer'', det_rules = [''quiet''],
     det_detect = (\<lambda>c. Inr (if cm_message c = [97, 10, 120] then [footer_finding] else []))\<rparr>"

definition footer_policies :: policies where
  "footer_policies = [(''quiet'', mk_policy ''quiet'' BLOCK ''no footer'')]"

definition nobody :: identity where
  "nobody = \<lparr>id_name = [], id_email = []\<rparr>"

lemma footer_report:
  "\<exists>rep. analyze_pending ascii_ucd [(''footer'', footer_detector)] footer_policies nobody nobody m = Inr rep
     \<and> cr_action rep = (if m = [97, 10, 120] then BLOCK else ALLOW) \<and> cr_failures rep = []
     \<and> map ef_finding (cr_findings rep) = (if m = [97, 10, 120] then [footer_finding] else [])
     \<and> map ef_action (cr_findings rep) = (if m = [97, 10, 120] then [BLOCK] else [])"
  by (simp add: analyze_pending_def pending_commit_def mk_commit_def analyze_def build_commit_report_def
      run_engine_def engine_step_def all_detectors_def enabled_for_def enabled_rules_def footer_policies_def
      mk_policy_def footer_detector_def run_detector_def check_finding_def footer_finding_def empty_result_def
      evaluate_def explain_finding_def report_finding_def report_failure_def map_filter_def Let_def
      most_restrictive_def strictest_def py_max_def)

theorem commit_msg_fix_is_safe_witness:
  "\<exists>h. run_commit_msg ascii_ucd [(''footer'', footer_detector)] footer_policies nobody nobody
         default_enforcement \<lparr>rm_auto_remove = True, rm_fix_on_push = False\<rparr> [97, 10, 120] = Inr h
     \<and> hr_written h = Some [97, 10] \<and> (\<exists>after. hr_report h = Some after \<and> cr_action after \<noteq> BLOCK)"
proof -
  let ?A = "analyze_pending ascii_ucd [(''footer'', footer_detector)] footer_policies nobody nobody"
  obtain rep where rep: "?A [97, 10, 120] = Inr rep" "cr_action rep = BLOCK" "cr_failures rep = []"
    "map ef_finding (cr_findings rep) = [footer_finding]" "map ef_action (cr_findings rep) = [BLOCK]"
    using footer_report [of "[97, 10, 120]"] by auto
  obtain rep' where rep': "?A [97, 10] = Inr rep'" "cr_action rep' = ALLOW"
    using footer_report [of "[97, 10]"] by auto
  obtain f where f: "cr_findings rep = [f]" "ef_finding f = footer_finding" "ef_action f = BLOCK"
    using rep(4,5) by auto
  have rl: "removable_lines rep = Some [\<lparr>rl_line_number = 2, rl_text = [120], rl_rule_id = ''quiet''\<rparr>]"
    by (simp add: removable_lines_def rep(3) f footer_finding_def mk_evidence_def REMOVABLE_SOURCES_def
        setdefault_def truncate_evidence_def MAX_EVIDENCE_CHARS_def asc_def)
  have st: "strip_lines [97, 10, 120] [2] = [97, 10]"
    by (simp add: strip_lines_def keep_lines_def trim_blank_end_def str_eval)
  have "\<exists>removed. run_commit_msg ascii_ucd [(''footer'', footer_detector)] footer_policies nobody nobody
      default_enforcement \<lparr>rm_auto_remove = True, rm_fix_on_push = False\<rparr> [97, 10, 120]
      = Inr \<lparr>hr_enabled = True, hr_report = Some rep', hr_removed = removed, hr_written = Some [97, 10]\<rparr>"
    using rep rep' rl st
    by (simp add: run_commit_msg_def default_enforcement_def auto_remove_def py_strip_def py_rstrip_def
        py_lstrip_def py_isspace_def)
  then obtain removed where run: "run_commit_msg ascii_ucd [(''footer'', footer_detector)] footer_policies nobody nobody
      default_enforcement \<lparr>rm_auto_remove = True, rm_fix_on_push = False\<rparr> [97, 10, 120]
      = Inr \<lparr>hr_enabled = True, hr_report = Some rep', hr_removed = removed, hr_written = Some [97, 10]\<rparr>" ..
  from commit_msg_fix_is_safe [OF this] run show ?thesis by auto
qed

end
