(* ===== verification/Scan_Jobs.thy ===== *)
theory Scan_Jobs
  imports Members Remediation
begin

text \<open>
  The state of the GitHub App (\<open>github/storage.py\<close>): webhook deliveries, scan jobs with their executions and leases,
  ownership of check runs, merge groups, and the tables of findings and violations that \<open>Violations\<close> works on. Every
  operation is one transaction. Job IDs are chosen by a random generator and are arguments; log lines, metrics and
  columns only shown on the dashboard are left out. Times are whole seconds.
\<close>

section \<open>Data\<close>

datatype delivery_answer = DaNew | DaDuplicate | DaConflict | DaRetry

datatype processing_status = PrReceived | PrProcessing | PrProcessed | PrFailed | PrIgnored

record delivery_row =
  dl_event :: string
  dl_body_sha256 :: string
  dl_received_at :: int
  dl_action :: "string option"
  dl_status :: processing_status
  dl_attempts :: nat
  dl_updated_at :: "int option"
  dl_installation :: "int option"
  dl_repository :: "int option"
  dl_detail :: "string option"

datatype scan_event = EvPush | EvPullRequest | EvMergeGroup

datatype scan_trigger = TrPush | TrPullRequest | TrMergeGroup | TrManual | TrRerun | TrRetry | TrScheduled

datatype job_state = JsQueued | JsRunning | JsPassed | JsFailed | JsError | JsCancelled

definition terminal :: "job_state \<Rightarrow> bool" where
  "terminal s \<longleftrightarrow> s \<noteq> JsQueued \<and> s \<noteq> JsRunning"

record scan_context =
  cx_ref :: "ustr option"
  cx_base_sha :: "string option"
  cx_head_sha :: "string option"
  cx_before_sha :: "string option"
  cx_after_sha :: "string option"

text \<open>What a request for a scan supplies, copied to every further execution.\<close>

record new_job =
  nj_key :: string
  nj_installation :: int
  nj_repository :: int
  nj_owner :: ustr
  nj_name :: ustr
  nj_delivery :: "string option"
  nj_event :: scan_event
  nj_group :: string
  nj_head_sha :: string
  nj_check_name :: string
  nj_pull_request :: "int option"
  nj_context :: scan_context
  nj_requested_by :: "ustr option"

fun new_trigger :: "scan_event \<Rightarrow> scan_trigger" where
  "new_trigger EvPush = TrPush"
| "new_trigger EvPullRequest = TrPullRequest"
| "new_trigger EvMergeGroup = TrMergeGroup"

fun trigger_value :: "scan_trigger \<Rightarrow> string" where
  "trigger_value TrPush = ''push''"
| "trigger_value TrPullRequest = ''pull_request''"
| "trigger_value TrMergeGroup = ''merge_group''"
| "trigger_value TrManual = ''manual''"
| "trigger_value TrRerun = ''rerun''"
| "trigger_value TrRetry = ''retry''"
| "trigger_value TrScheduled = ''scheduled''"

datatype job_failure = JfKind failure_kind | JfStale

record scan_job =
  sj_sequence :: nat
  sj_new :: new_job
  sj_state :: job_state
  sj_attempts :: nat
  sj_created_at :: int
  sj_updated_at :: int
  sj_lease :: "int option"
  sj_check_run :: "int option"
  sj_action :: "action option"
  sj_conclusion :: "string option"
  sj_failure :: "job_failure option"
  sj_message :: "string option"
  sj_started_at :: "int option"
  sj_completed_at :: "int option"
  sj_scan_key :: string
  sj_execution :: nat
  sj_trigger :: scan_trigger
  sj_previous :: "string option"

record check_slot =
  cs_owner :: nat
  cs_run :: "int option"
  cs_updated_at :: int

text \<open>Installation, repository, commit and check name.\<close>

type_synonym slot = "int \<times> int \<times> string \<times> string"

datatype merge_state = MgRequested | MgDestroyed

record merge_group =
  mg_head_ref :: ustr
  mg_base_sha :: string
  mg_base_ref :: ustr
  mg_pull_requests :: "int list"
  mg_state :: merge_state
  mg_reason :: "string option"
  mg_delivery :: "string option"
  mg_job :: "string option"
  mg_updated_at :: int
  mg_destroyed_at :: "int option"

record known_row =
  kn_owner :: ustr
  kn_name :: ustr
  kn_first_seen_at :: int
  kn_last_seen_at :: int
  kn_removed_at :: "int option"

datatype violation_status = VsOpen | VsResolved

text \<open>Why an exposure ended. The texts of different constructors, and of different pull requests, differ; the labels in
  them are left out.\<close>

datatype closed_reason =
    CrLeftPullRequest string string
  | CrUnreachable string string
  | CrMergeGroup string "string option" ustr
  | CrPullRequestMerged int ustr
  | CrPullRequestClosed int
  | CrBranchDeleted ustr
  | CrNotPresent

record violation_row =
  vi_installation :: int
  vi_repository :: int
  vi_fingerprint :: string
  vi_rule :: string
  vi_severity :: severity
  vi_action :: action
  vi_commit :: "string option"
  vi_status :: violation_status
  vi_first_detected_at :: int
  vi_last_detected_at :: int
  vi_first_job :: string
  vi_last_job :: string
  vi_detections :: nat
  vi_resolved_at :: "int option"
  vi_resolution :: "closed_reason option"
  vi_acknowledged :: "(int \<times> int \<times> ustr \<times> ustr option) option"
  vi_updated_at :: int

datatype exposure_kind = EkPullRequest | EkBranch | EkMergeGroup

record exposure_row =
  xp_installation :: int
  xp_repository :: int
  xp_kind :: exposure_kind
  xp_active :: bool
  xp_first_job :: "string option"
  xp_last_job :: "string option"
  xp_opened_at :: int
  xp_closed_at :: "int option"
  xp_closed_reason :: "closed_reason option"

record finding_row =
  fr_job :: string
  fr_installation :: int
  fr_repository :: int
  fr_violation :: "string option"
  fr_fingerprint :: string
  fr_commit :: "string option"
  fr_rule :: string
  fr_severity :: severity
  fr_action :: action
  fr_created_at :: int

datatype installation_action = IaCreated | IaDeleted | IaSuspend | IaUnsuspend | IaNewPermissions

datatype scan_audit =
    AuScanQueued string
  | AuScanRequested string string nat
  | AuRerunRequested string string nat
  | AuRerunRejected int int string
  | AuRetryScheduled string string nat nat
  | AuScanStarted string scan_trigger nat
  | AuScanCancelled string string
  | AuScanFailed string failure_kind
  | AuScanCompleted string job_state
  | AuAuthorizationDenied int int
  | AuMergeGroupCreated int int string
  | AuMergeGroupDestroyed int int string
  | AuPullRequestMerged int int int
  | AuViolationOpened string
  | AuViolationReopened string
  | AuViolationResolved string closed_reason
  | AuViolationAcknowledged string actor "ustr option"
  | AuAcknowledgementRemoved string actor
  | AuMonitoring int int bool
  | AuDeliveryRejected string
  | AuInstallation installation_action int int
  | AuRepositoriesAdded int nat
  | AuRepositoriesRemoved int nat
  | AuRepositoriesSynced int nat nat nat

datatype scan_notice =
    NoViolation int string severity int int "string list"
  | NoViolationDigest int string severity
  | NoMergeQueueFailure int string
  | NoRerunFailed int string
  | NoDisconnected int int installation_state nat
  | NoReconnected int int nat

record scan_db =
  sd_installations :: "installation_row list"
  sd_monitoring :: "((int \<times> int) \<times> bool) list"
  sd_listed :: "((int \<times> int) \<times> ustr \<times> ustr) list"
  sd_known :: "((int \<times> int) \<times> known_row) list"
  sd_deliveries :: "(string \<times> delivery_row) list"
  sd_sequence :: nat
  sd_jobs :: "(string \<times> scan_job) list"
  sd_checks :: "(slot \<times> check_slot) list"
  sd_groups :: "((int \<times> int \<times> string) \<times> merge_group) list"
  sd_violations :: "(string \<times> violation_row) list"
  sd_exposures :: "((string \<times> string) \<times> exposure_row) list"
  sd_findings :: "finding_row list"
  sd_audit :: "scan_audit list"
  sd_outbox :: "scan_notice list"

definition audit_scan :: "scan_audit \<Rightarrow> scan_db \<Rightarrow> scan_db" where
  "audit_scan e db = db\<lparr>sd_audit := sd_audit db @ [e]\<rparr>"

definition notify_scan :: "scan_notice \<Rightarrow> scan_db \<Rightarrow> scan_db" where
  "notify_scan n db = db\<lparr>sd_outbox := sd_outbox db @ [n]\<rparr>"

section \<open>Deliveries\<close>

definition STUCK_DELIVERY_SECONDS :: int where "STUCK_DELIVERY_SECONDS = 600"

text \<open>A processing row without a time counts as old: \<open>(updated_at or 0)\<close>.\<close>

definition stuck :: "int \<Rightarrow> delivery_row \<Rightarrow> bool" where
  "stuck now d \<longleftrightarrow> dl_status d = PrProcessing
     \<and> (case dl_updated_at d of None \<Rightarrow> 0 | Some t \<Rightarrow> t) < now - STUCK_DELIVERY_SECONDS"

definition record_delivery ::
  "string \<Rightarrow> string \<Rightarrow> string \<Rightarrow> int \<Rightarrow> string option \<Rightarrow> scan_db \<Rightarrow> delivery_answer \<times> scan_db" where
  "record_delivery i event body now act db =
     (case map_of (sd_deliveries db) i of
        None \<Rightarrow> (DaNew, db\<lparr>sd_deliveries := sd_deliveries db @ [(i, \<lparr>dl_event = event, dl_body_sha256 = body,
            dl_received_at = now, dl_action = act, dl_status = PrProcessing, dl_attempts = 1, dl_updated_at = Some now,
            dl_installation = None, dl_repository = None, dl_detail = None\<rparr>)]\<rparr>)
      | Some d \<Rightarrow>
          if dl_event d \<noteq> event \<or> dl_body_sha256 d \<noteq> body then (DaConflict, db)
          else if dl_status d = PrFailed \<or> stuck now d
          then (DaRetry, db\<lparr>sd_deliveries := AList.update i (d\<lparr>dl_status := PrProcessing, dl_attempts := dl_attempts d + 1,
                  dl_updated_at := Some now, dl_detail := None\<rparr>) (sd_deliveries db)\<rparr>)
          else (DaDuplicate, db))"

definition finish_delivery ::
  "string \<Rightarrow> processing_status \<Rightarrow> int \<Rightarrow> int option \<Rightarrow> int option \<Rightarrow> string \<Rightarrow> scan_db \<Rightarrow> scan_db" where
  "finish_delivery i status now installation repository detail db =
     db\<lparr>sd_deliveries := map (\<lambda>(j, d). (j, if j = i
          then d\<lparr>dl_status := status, dl_updated_at := Some now,
                 dl_installation := (case installation of None \<Rightarrow> dl_installation d | Some x \<Rightarrow> Some x),
                 dl_repository := (case repository of None \<Rightarrow> dl_repository d | Some x \<Rightarrow> Some x),
                 dl_detail := (if detail = [] then None else Some (take 500 detail))\<rparr> else d)) (sd_deliveries db)\<rparr>"

text \<open>SQL compares NULL with nothing.\<close>

definition fail_stuck_deliveries :: "int \<Rightarrow> scan_db \<Rightarrow> nat \<times> scan_db" where
  "fail_stuck_deliveries now db =
     (let old = (\<lambda>d. dl_status d = PrProcessing
            \<and> (case dl_updated_at d of None \<Rightarrow> False | Some t \<Rightarrow> t < now - STUCK_DELIVERY_SECONDS))
      in (length (filter (\<lambda>(_, d). old d) (sd_deliveries db)),
          db\<lparr>sd_deliveries := map (\<lambda>(j, d). (j, if old d then d\<lparr>dl_status := PrFailed,
                dl_detail := Some ''processing abandoned'', dl_updated_at := Some now\<rparr> else d)) (sd_deliveries db)\<rparr>))"

section \<open>Jobs\<close>

abbreviation job_installation :: "scan_job \<Rightarrow> int" where "job_installation j \<equiv> nj_installation (sj_new j)"
abbreviation job_repository :: "scan_job \<Rightarrow> int" where "job_repository j \<equiv> nj_repository (sj_new j)"
abbreviation job_group :: "scan_job \<Rightarrow> string" where "job_group j \<equiv> nj_group (sj_new j)"
abbreviation job_head :: "scan_job \<Rightarrow> string" where "job_head j \<equiv> nj_head_sha (sj_new j)"
abbreviation job_check_name :: "scan_job \<Rightarrow> string" where "job_check_name j \<equiv> nj_check_name (sj_new j)"

text \<open>Rows of one repository that satisfy a condition, the one with the highest sequence first.\<close>

definition jobs_where :: "scan_db \<Rightarrow> int \<Rightarrow> int \<Rightarrow> (scan_job \<Rightarrow> bool) \<Rightarrow> (string \<times> scan_job) list" where
  "jobs_where db i r P =
     filter (\<lambda>(_, j). job_installation j = i \<and> job_repository j = r \<and> P j) (sd_jobs db)"

definition latest_where :: "scan_db \<Rightarrow> int \<Rightarrow> int \<Rightarrow> (scan_job \<Rightarrow> bool) \<Rightarrow> (string \<times> scan_job) option" where
  "latest_where db i r P = py_max (\<lambda>(_, j). sj_sequence j) (jobs_where db i r P)"

definition see_repository :: "new_job \<Rightarrow> int \<Rightarrow> scan_db \<Rightarrow> scan_db" where
  "see_repository n now db =
     (let k = (nj_installation n, nj_repository n)
      in db\<lparr>sd_known := AList.update k
           (case map_of (sd_known db) k of
              None \<Rightarrow> \<lparr>kn_owner = nj_owner n, kn_name = nj_name n, kn_first_seen_at = now, kn_last_seen_at = now,
                       kn_removed_at = None\<rparr>
            | Some r \<Rightarrow> r\<lparr>kn_last_seen_at := now\<rparr>) (sd_known db)\<rparr>)"

definition next_execution :: "scan_db \<Rightarrow> new_job \<Rightarrow> string \<Rightarrow> nat" where
  "next_execution db n scan_key =
     foldl max 0 (map (\<lambda>(_, j). sj_execution j)
       (jobs_where db (nj_installation n) (nj_repository n) (\<lambda>j. sj_scan_key j = scan_key))) + 1"

definition insert_job ::
  "string \<Rightarrow> new_job \<Rightarrow> int \<Rightarrow> string \<Rightarrow> scan_trigger \<Rightarrow> string option \<Rightarrow> scan_db \<Rightarrow> cp_error + scan_job \<times> scan_db" where
  "insert_job i n now scan_key trigger previous db =
     (if map_of (sd_jobs db) i \<noteq> None then Inl StoreIntegrity
      else (let job = \<lparr>sj_sequence = sd_sequence db + 1, sj_new = n, sj_state = JsQueued, sj_attempts = 0,
                  sj_created_at = now, sj_updated_at = now, sj_lease = None, sj_check_run = None, sj_action = None,
                  sj_conclusion = None, sj_failure = None, sj_message = None, sj_started_at = None,
                  sj_completed_at = None, sj_scan_key = scan_key, sj_execution = next_execution db n scan_key,
                  sj_trigger = trigger, sj_previous = previous\<rparr>
            in Inr (job, (see_repository n now db)\<lparr>sd_sequence := sd_sequence db + 1,
                           sd_jobs := sd_jobs db @ [(i, job)]\<rparr>)))"

text \<open>The row that was found or made, its ID, and whether it was made.\<close>

definition create_job :: "string \<Rightarrow> new_job \<Rightarrow> int \<Rightarrow> scan_db \<Rightarrow> cp_error + (string \<times> scan_job) \<times> bool \<times> scan_db" where
  "create_job i n now db =
     (let existing = latest_where db (nj_installation n) (nj_repository n) (\<lambda>j. nj_key (sj_new j) = nj_key n)
      in case existing of
           Some (k, j) \<Rightarrow>
             if sj_state j \<noteq> JsError \<and> sj_state j \<noteq> JsCancelled then Inr ((k, j), False, db)
             else map_sum id (\<lambda>(job, db'). ((i, job), True, db'))
                    (insert_job i n now (nj_key n) (new_trigger (nj_event n)) (Some k) db)
         | None \<Rightarrow> map_sum id (\<lambda>(job, db'). ((i, job), True, db'))
                    (insert_job i n now (nj_key n) (new_trigger (nj_event n)) None db))"

definition live :: "job_state \<Rightarrow> bool" where
  "live s \<longleftrightarrow> s = JsQueued \<or> s = JsRunning"

definition create_execution ::
  "string \<Rightarrow> string \<Rightarrow> scan_job \<Rightarrow> scan_trigger \<Rightarrow> int \<Rightarrow> string option \<Rightarrow> ustr option \<Rightarrow> scan_db
     \<Rightarrow> cp_error + (string \<times> scan_job) \<times> bool \<times> scan_db" where
  "create_execution i previous_id previous trigger now delivery requested db =
     (let r = job_installation previous; q = job_repository previous; key = sj_scan_key previous
      in case latest_where db r q (\<lambda>j. sj_scan_key j = key \<and> live (sj_state j)) of
           Some kj \<Rightarrow> Inr (kj, False, db)
         | None \<Rightarrow>
             (case (case delivery of None \<Rightarrow> []
                    | Some d \<Rightarrow> jobs_where db r q (\<lambda>j. sj_scan_key j = key \<and> nj_delivery (sj_new j) = Some d)) of
                kj # _ \<Rightarrow> Inr (kj, False, db)
              | [] \<Rightarrow> map_sum id (\<lambda>(job, db'). ((i, job), True, db'))
                  (insert_job i ((sj_new previous)\<lparr>nj_key := trigger_value trigger @ '':'' @ i, nj_delivery := delivery,
                       nj_requested_by := requested\<rparr>) now key trigger (Some previous_id) db)))"

definition update_job :: "string \<Rightarrow> (scan_job \<Rightarrow> scan_job) \<Rightarrow> scan_db \<Rightarrow> scan_db" where
  "update_job i f db = db\<lparr>sd_jobs := map (\<lambda>(k, j). (k, if k = i then f j else j)) (sd_jobs db)\<rparr>"

datatype claim_outcome = CoNothing | CoExhausted scan_job | CoClaimed scan_job

definition abandoned :: "int \<Rightarrow> scan_job \<Rightarrow> bool" where
  "abandoned now j \<longleftrightarrow> sj_state j = JsRunning \<and> (case sj_lease j of None \<Rightarrow> 0 | Some t \<Rightarrow> t) < now"

definition claim_job :: "string \<Rightarrow> int \<Rightarrow> int \<Rightarrow> nat \<Rightarrow> scan_db \<Rightarrow> claim_outcome \<times> scan_db" where
  "claim_job i now lease_seconds max_attempts db =
     (case map_of (sd_jobs db) i of
        None \<Rightarrow> (CoNothing, db)
      | Some j \<Rightarrow>
          if sj_state j \<noteq> JsQueued \<and> \<not> abandoned now j then (CoNothing, db)
          else if max_attempts \<le> sj_attempts j
          then (let f = (\<lambda>x. x\<lparr>sj_state := JsError, sj_failure := Some (JfKind FkInternal),
                       sj_message := Some ''scan abandoned after repeated attempts'', sj_updated_at := now, sj_lease := None,
                       sj_completed_at := Some now\<rparr>)
                in (CoExhausted (f j), update_job i f db))
          else (let f = (\<lambda>x. x\<lparr>sj_state := JsRunning, sj_attempts := sj_attempts x + 1,
                       sj_lease := Some (now + lease_seconds), sj_updated_at := now, sj_started_at := Some now\<rparr>)
                in (CoClaimed (f j), update_job i f db)))"

definition recoverable_jobs :: "int \<Rightarrow> int \<Rightarrow> scan_db \<Rightarrow> string list" where
  "recoverable_jobs now queued_before db =
     take 100 (map fst (sort_key (\<lambda>(_, j). sj_sequence j) (filter (\<lambda>(_, j).
        sj_state j = JsQueued \<and> sj_updated_at j \<le> queued_before
        \<or> sj_state j = JsRunning \<and> (case sj_lease j of None \<Rightarrow> False | Some t \<Rightarrow> t < now)) (sd_jobs db))))"

definition latest_group_sequence :: "scan_db \<Rightarrow> int \<Rightarrow> int \<Rightarrow> string \<Rightarrow> nat" where
  "latest_group_sequence db i r grp =
     foldl max 0 (map (\<lambda>(_, j). sj_sequence j) (jobs_where db i r (\<lambda>j. job_group j = grp)))"

definition latest_group_job :: "scan_db \<Rightarrow> int \<Rightarrow> int \<Rightarrow> string \<Rightarrow> (string \<times> scan_job) option" where
  "latest_group_job db i r grp = latest_where db i r (\<lambda>j. job_group j = grp)"

text \<open>The newest execution per check name of one commit, ordered by the name.\<close>

definition latest_jobs_for_commit :: "scan_db \<Rightarrow> int \<Rightarrow> int \<Rightarrow> string \<Rightarrow> (string \<times> scan_job) list" where
  "latest_jobs_for_commit db i r sha =
     sort_key (\<lambda>(_, j). job_check_name j)
       (filter (\<lambda>(_, j). list_all (\<lambda>(_, x). job_check_name x = job_check_name j \<longrightarrow> sj_sequence x \<le> sj_sequence j)
            (jobs_where db i r (\<lambda>j. job_head j = sha)))
         (jobs_where db i r (\<lambda>j. job_head j = sha)))"

definition list_executions :: "scan_db \<Rightarrow> int \<Rightarrow> int \<Rightarrow> string \<Rightarrow> (string \<times> scan_job) list" where
  "list_executions db i r scan_key =
     take 100 (rev (sort_key (\<lambda>(_, j). sj_sequence j) (jobs_where db i r (\<lambda>j. sj_scan_key j = scan_key))))"

definition cancel_where :: "(scan_job \<Rightarrow> bool) \<Rightarrow> (scan_job \<Rightarrow> scan_job) \<Rightarrow> scan_db \<Rightarrow> scan_db" where
  "cancel_where P f db = db\<lparr>sd_jobs := map (\<lambda>(k, j). (k, if P j then (f j)\<lparr>sj_state := JsCancelled\<rparr> else j)) (sd_jobs db)\<rparr>"

definition cancel_queued_group :: "int \<Rightarrow> int \<Rightarrow> string \<Rightarrow> int \<Rightarrow> scan_db \<Rightarrow> scan_db" where
  "cancel_queued_group i r grp now =
     cancel_where (\<lambda>j. job_installation j = i \<and> job_repository j = r \<and> job_group j = grp \<and> sj_state j = JsQueued)
       (\<lambda>j. j\<lparr>sj_message := Some ''no longer relevant'', sj_updated_at := now\<rparr>)"

section \<open>Ownership of check runs\<close>

record check_claim =
  cc_owned :: bool
  cc_owner :: nat
  cc_run :: "int option"

definition claim_check :: "slot \<Rightarrow> nat \<Rightarrow> int \<Rightarrow> scan_db \<Rightarrow> check_claim \<times> scan_db" where
  "claim_check slot sequence now db =
     (case map_of (sd_checks db) slot of
        None \<Rightarrow> (\<lparr>cc_owned = True, cc_owner = sequence, cc_run = None\<rparr>,
          db\<lparr>sd_checks := AList.update slot \<lparr>cs_owner = sequence, cs_run = None, cs_updated_at = now\<rparr> (sd_checks db)\<rparr>)
      | Some c \<Rightarrow>
          if sequence < cs_owner c then (\<lparr>cc_owned = False, cc_owner = cs_owner c, cc_run = cs_run c\<rparr>, db)
          else (\<lparr>cc_owned = True, cc_owner = sequence, cc_run = cs_run c\<rparr>,
            db\<lparr>sd_checks := AList.update slot (c\<lparr>cs_owner := sequence, cs_updated_at := now\<rparr>) (sd_checks db)\<rparr>))"

definition set_check_run_id :: "slot \<Rightarrow> nat \<Rightarrow> int \<Rightarrow> scan_db \<Rightarrow> bool \<times> scan_db" where
  "set_check_run_id slot sequence run db =
     (case map_of (sd_checks db) slot of
        None \<Rightarrow> (False, db)
      | Some c \<Rightarrow> if cs_owner c \<noteq> sequence then (False, db)
          else (True, db\<lparr>sd_checks := AList.update slot (c\<lparr>cs_run := Some run\<rparr>) (sd_checks db)\<rparr>))"

definition check_owner :: "slot \<Rightarrow> scan_db \<Rightarrow> nat option" where
  "check_owner slot db = map_option cs_owner (map_of (sd_checks db) slot)"

section \<open>Merge groups\<close>

record group_event =
  ge_installation :: int
  ge_repository :: int
  ge_head_sha :: string
  ge_head_ref :: ustr
  ge_base_sha :: string
  ge_base_ref :: ustr
  ge_pull_requests :: "int list"

definition group_id :: "group_event \<Rightarrow> int \<times> int \<times> string" where
  "group_id e = (ge_installation e, ge_repository e, ge_head_sha e)"

text \<open>\<open>INSERT OR IGNORE\<close>; the flag tells whether a row was inserted.\<close>

definition add_merge_group :: "group_event \<Rightarrow> string option \<Rightarrow> int \<Rightarrow> scan_db \<Rightarrow> bool \<times> scan_db" where
  "add_merge_group e delivery now db =
     (if map_of (sd_groups db) (group_id e) \<noteq> None then (False, db)
      else (True, db\<lparr>sd_groups := sd_groups db @ [(group_id e, \<lparr>mg_head_ref = ge_head_ref e, mg_base_sha = ge_base_sha e,
              mg_base_ref = ge_base_ref e, mg_pull_requests = sort (remdups (ge_pull_requests e)), mg_state = MgRequested,
              mg_reason = None, mg_delivery = delivery, mg_job = None, mg_updated_at = now, mg_destroyed_at = None\<rparr>)]\<rparr>))"

definition record_merge_group :: "group_event \<Rightarrow> string option \<Rightarrow> int \<Rightarrow> scan_db \<Rightarrow> bool \<times> scan_db" where
  "record_merge_group e delivery now db = add_merge_group e delivery now db"

definition update_group :: "int \<times> int \<times> string \<Rightarrow> (merge_group \<Rightarrow> merge_group) \<Rightarrow> scan_db \<Rightarrow> scan_db" where
  "update_group k f db = db\<lparr>sd_groups := map (\<lambda>(k', g). (k', if k' = k then f g else g)) (sd_groups db)\<rparr>"

definition group_state :: "scan_db \<Rightarrow> int \<times> int \<times> string \<Rightarrow> merge_state option" where
  "group_state db k = map_option mg_state (map_of (sd_groups db) k)"

definition destroy_merge_group :: "group_event \<Rightarrow> string option \<Rightarrow> int \<Rightarrow> scan_db \<Rightarrow> bool \<times> scan_db" where
  "destroy_merge_group e reason now db =
     (let (_, db1) = add_merge_group e None now db
      in (group_state db1 (group_id e) \<noteq> Some MgDestroyed,
          update_group (group_id e) (\<lambda>g. if mg_state g \<noteq> MgDestroyed
            then g\<lparr>mg_state := MgDestroyed, mg_reason := reason, mg_destroyed_at := Some now, mg_updated_at := now\<rparr> else g) db1))"

definition set_merge_group_job :: "int \<times> int \<times> string \<Rightarrow> string \<Rightarrow> int \<Rightarrow> scan_db \<Rightarrow> scan_db" where
  "set_merge_group_job k job now = update_group k (\<lambda>g. g\<lparr>mg_job := Some job, mg_updated_at := now\<rparr>)"

section \<open>Repositories and installations\<close>

definition monitoring_enabled :: "scan_db \<Rightarrow> int \<Rightarrow> int \<Rightarrow> bool" where
  "monitoring_enabled db i r = (case map_of (sd_monitoring db) (i, r) of None \<Rightarrow> True | Some b \<Rightarrow> b)"

definition installation_of :: "scan_db \<Rightarrow> int \<Rightarrow> installation_row option" where
  "installation_of db i = find (\<lambda>x. in_id x = i) (sd_installations db)"

definition upsert_installation :: "installation_row \<Rightarrow> scan_db \<Rightarrow> scan_db" where
  "upsert_installation row db = db\<lparr>sd_installations :=
     (if list_ex (\<lambda>x. in_id x = in_id row) (sd_installations db)
      then map (\<lambda>x. if in_id x = in_id row then row else x) (sd_installations db)
      else sd_installations db @ [row])\<rparr>"

definition drop_listed :: "(int \<times> int \<Rightarrow> bool) \<Rightarrow> int \<Rightarrow> bool \<Rightarrow> scan_db \<Rightarrow> scan_db" where
  "drop_listed gone now again db = db\<lparr>sd_listed := filter (\<lambda>(k, _). \<not> gone k) (sd_listed db),
     sd_known := map (\<lambda>(k, r). (k, if gone k \<and> (again \<or> kn_removed_at r = None) then r\<lparr>kn_removed_at := Some now\<rparr> else r))
       (sd_known db)\<rparr>"

definition set_installation_state :: "int \<Rightarrow> installation_state \<Rightarrow> int \<Rightarrow> scan_db \<Rightarrow> scan_db" where
  "set_installation_state i st now db =
     (let db1 = db\<lparr>sd_installations := map (\<lambda>x. if in_id x = i then x\<lparr>in_state := st, in_updated_at := now\<rparr> else x)
                    (sd_installations db)\<rparr>
      in if st \<noteq> InDeleted then db1
         else cancel_where (\<lambda>j. job_installation j = i \<and> live (sj_state j))
                (\<lambda>j. j\<lparr>sj_message := Some ''installation removed'', sj_updated_at := now, sj_completed_at := Some now\<rparr>)
                (drop_listed (\<lambda>k. fst k = i) now False db1))"

definition insert_repository :: "int \<Rightarrow> int \<Rightarrow> scan_db \<Rightarrow> int \<times> ustr \<times> ustr \<Rightarrow> scan_db" where
  "insert_repository i now db = (\<lambda>(r, owner, name).
     db\<lparr>sd_listed := AList.update (i, r) (owner, name) (sd_listed db),
        sd_known := AList.update (i, r)
          (case map_of (sd_known db) (i, r) of
             None \<Rightarrow> \<lparr>kn_owner = owner, kn_name = name, kn_first_seen_at = now, kn_last_seen_at = now, kn_removed_at = None\<rparr>
           | Some k \<Rightarrow> k\<lparr>kn_owner := owner, kn_name := name, kn_last_seen_at := now, kn_removed_at := None\<rparr>) (sd_known db)\<rparr>)"

definition add_repositories :: "int \<Rightarrow> (int \<times> ustr \<times> ustr) list \<Rightarrow> int \<Rightarrow> scan_db \<Rightarrow> scan_db" where
  "add_repositories i rs now db = foldl (insert_repository i now) db rs"

definition replace_repositories :: "int \<Rightarrow> (int \<times> ustr \<times> ustr) list \<Rightarrow> int \<Rightarrow> scan_db \<Rightarrow> scan_db" where
  "replace_repositories i rs now db = add_repositories i rs now (drop_listed (\<lambda>k. fst k = i) now False db)"

definition remove_repositories :: "int \<Rightarrow> int list \<Rightarrow> int \<Rightarrow> scan_db \<Rightarrow> scan_db" where
  "remove_repositories i rs now db =
     cancel_where (\<lambda>j. job_installation j = i \<and> job_repository j \<in> set rs \<and> live (sj_state j))
       (\<lambda>j. j\<lparr>sj_message := Some ''repository removed''\<rparr>)
       (drop_listed (\<lambda>k. fst k = i \<and> snd k \<in> set rs) now True db)"

definition repository_listed :: "scan_db \<Rightarrow> int \<Rightarrow> int \<Rightarrow> bool" where
  "repository_listed db i r \<longleftrightarrow> map_of (sd_listed db) (i, r) \<noteq> None"

definition list_repositories :: "scan_db \<Rightarrow> int \<Rightarrow> (int \<times> ustr \<times> ustr) list" where
  "list_repositories db i =
     sort_key fst (map (\<lambda>((_, r), v). (r, v)) (filter (\<lambda>((k, _), _). k = i) (sd_listed db)))"

end
