(* ===== verification/Violations.thy ===== *)
theory Violations
  imports Scan_Jobs Detection
begin

text \<open>
  What a completed scan changes (\<open>controlplane/results.py\<close>): findings are stored as history, and each blocked or warned
  finding is tracked as a violation with an exposure for every pull request, branch and merge group it was seen in.
  Violations are open while an exposure is active. The hash of \<open>hashlib\<close> and the generator of violation IDs are
  arguments: \<open>fresh fp\<close> is the ID drawn for a new violation with fingerprint \<open>fp\<close>. Columns that are only displayed
  (labels, titles, authors) are left out. Each operation is one transaction.
\<close>

section \<open>Groups\<close>

definition int_string :: "int \<Rightarrow> string" where
  "int_string i = (if i < 0 then ''-'' @ nat_string (nat (- i)) else nat_string (nat i))"

definition pr_key :: "int \<Rightarrow> string" where
  "pr_key n = ''pull_request:'' @ int_string n"

definition branch_key :: "(nat list \<Rightarrow> string) \<Rightarrow> ustr \<Rightarrow> string" where
  "branch_key sha ref = ''push:'' @ take 24 (sha (utf8 ref))"

definition merge_key :: "string \<Rightarrow> string" where
  "merge_key head = ''merge_group:'' @ head"

record scan_group =
  gr_key :: string
  gr_kind :: exposure_kind

definition group_of_job :: "(nat list \<Rightarrow> string) \<Rightarrow> scan_job \<Rightarrow> scan_group" where
  "group_of_job sha j =
     (if nj_event (sj_new j) = EvMergeGroup then \<lparr>gr_key = job_group j, gr_kind = EkMergeGroup\<rparr>
      else case nj_pull_request (sj_new j) of
        Some n \<Rightarrow> \<lparr>gr_key = pr_key n, gr_kind = EkPullRequest\<rparr>
      | None \<Rightarrow> \<lparr>gr_key = branch_key sha (case cx_ref (nj_context (sj_new j)) of None \<Rightarrow> [] | Some r \<Rightarrow> r),
                 gr_kind = EkBranch\<rparr>)"

definition tracked :: "action \<Rightarrow> bool" where
  "tracked a \<longleftrightarrow> a = BLOCK \<or> a = WARN"

text \<open>What the worker passes of a scan result.\<close>

record scan_outcome =
  so_commits :: "commit_report list"
  so_action :: action
  so_allowed :: bool
  so_monitored :: "string list"

definition outcome_findings :: "scan_outcome \<Rightarrow> evaluated_finding list" where
  "outcome_findings o' = concat (map cr_findings (so_commits o'))"

definition current_fingerprints :: "(nat list \<Rightarrow> string) \<Rightarrow> evaluated_finding list \<Rightarrow> string list" where
  "current_fingerprints sha fs = map (finding_fingerprint sha \<circ> ef_finding) (filter (tracked \<circ> ef_action) fs)"

section \<open>Tables\<close>

definition find_violation :: "scan_db \<Rightarrow> int \<Rightarrow> int \<Rightarrow> string \<Rightarrow> (string \<times> violation_row) option" where
  "find_violation db i r fp =
     find (\<lambda>(_, v). vi_installation v = i \<and> vi_repository v = r \<and> vi_fingerprint v = fp) (sd_violations db)"

definition update_violation :: "string \<Rightarrow> (violation_row \<Rightarrow> violation_row) \<Rightarrow> scan_db \<Rightarrow> scan_db" where
  "update_violation vid f db = db\<lparr>sd_violations := map (\<lambda>(k, v). (k, if k = vid then f v else v)) (sd_violations db)\<rparr>"

definition newer_scan_completed :: "scan_job \<Rightarrow> scan_db \<Rightarrow> bool" where
  "newer_scan_completed j db = list_ex (\<lambda>(_, n). job_installation n = job_installation j
     \<and> job_repository n = job_repository j \<and> job_group n = job_group j \<and> sj_sequence j < sj_sequence n
     \<and> (sj_state n = JsPassed \<or> sj_state n = JsFailed)) (sd_jobs db)"

definition new_violation :: "(nat list \<Rightarrow> string) \<Rightarrow> string \<Rightarrow> scan_job \<Rightarrow> evaluated_finding \<Rightarrow> int \<Rightarrow> violation_row" where
  "new_violation sha job j f now =
     \<lparr>vi_installation = job_installation j, vi_repository = job_repository j,
      vi_fingerprint = finding_fingerprint sha (ef_finding f), vi_rule = fd_rule_id (ef_finding f),
      vi_severity = fd_severity (ef_finding f), vi_action = ef_action f, vi_commit = fd_commit_sha (ef_finding f),
      vi_status = VsOpen, vi_first_detected_at = now, vi_last_detected_at = now, vi_first_job = job, vi_last_job = job,
      vi_detections = 1, vi_resolved_at = None, vi_resolution = None, vi_acknowledged = None, vi_updated_at = now\<rparr>"

definition reopened :: "violation_row \<Rightarrow> violation_row" where
  "reopened v = v\<lparr>vi_status := VsOpen, vi_resolved_at := None, vi_resolution := None, vi_acknowledged := None\<rparr>"

definition upsert_violation ::
  "(nat list \<Rightarrow> string) \<Rightarrow> (string \<Rightarrow> string) \<Rightarrow> string \<Rightarrow> scan_job \<Rightarrow> evaluated_finding \<Rightarrow> int \<Rightarrow> bool \<Rightarrow> scan_db
     \<Rightarrow> cp_error + string \<times> scan_audit option \<times> scan_db" where
  "upsert_violation sha fresh job j f now stale db =
     (let fp = finding_fingerprint sha (ef_finding f) in
      case find_violation db (job_installation j) (job_repository j) fp of
        None \<Rightarrow>
          if map_of (sd_violations db) (fresh fp) \<noteq> None then Inl StoreIntegrity
          else Inr (fresh fp, Some (AuViolationOpened (fresh fp)),
                 db\<lparr>sd_violations := sd_violations db @ [(fresh fp, new_violation sha job j f now)]\<rparr>)
      | Some (vid, v) \<Rightarrow>
          let seen = (\<lambda>x. x\<lparr>vi_last_detected_at := now, vi_last_job := job, vi_detections := vi_detections x + 1,
                         vi_action := ef_action f, vi_severity := fd_severity (ef_finding f), vi_updated_at := now\<rparr>);
              db1 = update_violation vid seen db
          in if vi_status v = VsResolved \<and> \<not> stale
             then Inr (vid, Some (AuViolationReopened vid), update_violation vid reopened db1)
             else Inr (vid, None, db1))"

definition activate_row :: "string \<Rightarrow> scan_group \<Rightarrow> int \<Rightarrow> int \<Rightarrow> string option \<Rightarrow> int \<Rightarrow> scan_db \<Rightarrow> scan_db" where
  "activate_row vid g i r job now db =
     db\<lparr>sd_exposures := AList.update (vid, gr_key g)
        (case map_of (sd_exposures db) (vid, gr_key g) of
           None \<Rightarrow> \<lparr>xp_installation = i, xp_repository = r, xp_kind = gr_kind g, xp_active = True, xp_first_job = job,
                    xp_last_job = job, xp_opened_at = now, xp_closed_at = None, xp_closed_reason = None\<rparr>
         | Some x \<Rightarrow> x\<lparr>xp_active := True, xp_last_job := (case job of None \<Rightarrow> xp_last_job x | Some _ \<Rightarrow> job),
                    xp_opened_at := (if xp_active x then xp_opened_at x else now), xp_closed_at := None,
                    xp_closed_reason := None\<rparr>) (sd_exposures db)\<rparr>"

text \<open>Why an active exposure of the group ends: \<open>None\<close> when it stays.\<close>

definition absent_reason ::
  "scan_group \<Rightarrow> scan_job \<Rightarrow> string list \<Rightarrow> string list \<Rightarrow> scan_db \<Rightarrow> string \<times> string \<Rightarrow> exposure_row \<Rightarrow> closed_reason option" where
  "absent_reason g j current gone db = (\<lambda>(vid, k) x.
     if xp_installation x = job_installation j \<and> xp_repository x = job_repository j \<and> k = gr_key g \<and> xp_active x
     then (case map_of (sd_violations db) vid of
             None \<Rightarrow> None
           | Some v \<Rightarrow>
               if vi_fingerprint v \<in> set current then None
               else if gr_kind g = EkPullRequest then Some (CrLeftPullRequest (gr_key g) (take 12 (job_head j)))
               else if vid \<in> set gone then Some (CrUnreachable (gr_key g) (take 12 (job_head j)))
               else None)
     else None)"

definition close_absent ::
  "scan_group \<Rightarrow> string \<Rightarrow> scan_job \<Rightarrow> string list \<Rightarrow> string list \<Rightarrow> int \<Rightarrow> scan_db \<Rightarrow> string list \<times> scan_db" where
  "close_absent g job j current gone now db =
     (map (fst \<circ> fst) (filter (\<lambda>(vk, x). absent_reason g j current gone db vk x \<noteq> None) (sd_exposures db)),
      db\<lparr>sd_exposures := map (\<lambda>(vk, x). (vk, case absent_reason g j current gone db vk x of
             None \<Rightarrow> x
           | Some why \<Rightarrow> x\<lparr>xp_active := False, xp_closed_at := Some now, xp_closed_reason := Some why,
                           xp_last_job := Some job\<rparr>)) (sd_exposures db)\<rparr>)"

definition exposed :: "scan_db \<Rightarrow> string \<Rightarrow> bool" where
  "exposed db vid = list_ex (\<lambda>((v, _), x). v = vid \<and> xp_active x) (sd_exposures db)"

text \<open>The reason of the exposure that ended last.\<close>

definition last_reason :: "scan_db \<Rightarrow> string \<Rightarrow> closed_reason" where
  "last_reason db vid =
     (case py_max (\<lambda>(_, x). case xp_closed_at x of None \<Rightarrow> 0 | Some t \<Rightarrow> t)
             (filter (\<lambda>((v, _), x). v = vid \<and> \<not> xp_active x) (sd_exposures db)) of
        None \<Rightarrow> CrNotPresent
      | Some (_, x) \<Rightarrow> (case xp_closed_reason x of None \<Rightarrow> CrNotPresent | Some why \<Rightarrow> why))"

definition refresh_status :: "int \<Rightarrow> scan_db \<Rightarrow> string \<Rightarrow> scan_db" where
  "refresh_status now db vid =
     (case map_of (sd_violations db) vid of
        None \<Rightarrow> db
      | Some v \<Rightarrow>
          if \<not> exposed db vid \<and> vi_status v = VsOpen
          then audit_scan (AuViolationResolved vid (last_reason db vid))
                 (update_violation vid (\<lambda>x. x\<lparr>vi_status := VsResolved, vi_resolved_at := Some now,
                    vi_resolution := Some (last_reason db vid), vi_updated_at := now\<rparr>) db)
          else if exposed db vid \<and> vi_status v = VsResolved
          then audit_scan (AuViolationReopened vid)
                 (update_violation vid (\<lambda>x. (reopened x)\<lparr>vi_updated_at := now\<rparr>) db)
          else db)"

definition refresh_statuses :: "int \<Rightarrow> string list \<Rightarrow> scan_db \<Rightarrow> scan_db" where
  "refresh_statuses now vids db = foldl (refresh_status now) db (sort (remdups vids))"

definition insert_finding ::
  "(nat list \<Rightarrow> string) \<Rightarrow> string \<Rightarrow> scan_job \<Rightarrow> evaluated_finding \<Rightarrow> string option \<Rightarrow> int \<Rightarrow> scan_db \<Rightarrow> scan_db" where
  "insert_finding sha job j f vid now db =
     db\<lparr>sd_findings := sd_findings db @ [\<lparr>fr_job = job, fr_installation = job_installation j,
         fr_repository = job_repository j, fr_violation = vid, fr_fingerprint = finding_fingerprint sha (ef_finding f),
         fr_commit = fd_commit_sha (ef_finding f), fr_rule = fd_rule_id (ef_finding f),
         fr_severity = fd_severity (ef_finding f), fr_action = ef_action f, fr_created_at = now\<rparr>]\<rparr>"

section \<open>A completed scan\<close>

text \<open>The violations whose commit is provably no longer on the branch, computed with Git before the transaction.
  \<open>ancestor\<close> is \<open>None\<close> when Git fails.\<close>

definition unreachable_exposures ::
  "(string \<Rightarrow> string \<Rightarrow> bool option) \<Rightarrow> scan_group \<Rightarrow> scan_job \<Rightarrow> string list \<Rightarrow> scan_db \<Rightarrow> string list" where
  "unreachable_exposures ancestor g j current db =
     (if gr_kind g \<noteq> EkBranch then []
      else List.map_filter (\<lambda>((vid, _), x).
        case map_of (sd_violations db) vid of
          None \<Rightarrow> None
        | Some v \<Rightarrow>
            (case vi_commit v of
               None \<Rightarrow> None
             | Some c \<Rightarrow> if vi_fingerprint v \<in> set current \<or> c = [] then None
                         else if ancestor c (job_head j) = Some False then Some vid else None))
        (take 1000 (filter (\<lambda>((vid, k), x). map_of (sd_violations db) vid \<noteq> None
           \<and> xp_installation x = job_installation j \<and> xp_repository x = job_repository j \<and> k = gr_key g \<and> xp_active x)
           (sd_exposures db))))"

type_synonym blocked_map = "((severity \<times> string) \<times> string list) list"

definition would_block :: "string list \<Rightarrow> evaluated_finding \<Rightarrow> bool" where
  "would_block monitored f \<longleftrightarrow> ef_action f = BLOCK \<or> ef_action f = WARN \<and> fd_rule_id (ef_finding f) \<in> set monitored"

definition notified_severity :: "severity \<Rightarrow> bool" where
  "notified_severity s \<longleftrightarrow> s = SevCritical \<or> s = SevHigh"

definition record_finding ::
  "(nat list \<Rightarrow> string) \<Rightarrow> (string \<Rightarrow> string) \<Rightarrow> string \<Rightarrow> scan_job \<Rightarrow> string list \<Rightarrow> bool \<Rightarrow> int \<Rightarrow> evaluated_finding
     \<Rightarrow> scan_db \<times> string list \<times> blocked_map \<Rightarrow> cp_error + scan_db \<times> string list \<times> blocked_map" where
  "record_finding sha fresh job j monitored stale now f = (\<lambda>(db, touched, blocked).
     if tracked (ef_action f)
     then (case upsert_violation sha fresh job j f now stale db of
             Inl e \<Rightarrow> Inl e
           | Inr (vid, ev, db1) \<Rightarrow>
               let db2 = (case ev of None \<Rightarrow> db1 | Some e \<Rightarrow> audit_scan e db1);
                   db3 = (if stale then db2
                          else activate_row vid (group_of_job sha j) (job_installation j) (job_repository j) (Some job) now db2)
               in Inr (insert_finding sha job j f (Some vid) now db3, touched @ [vid],
                    if ev \<noteq> None \<and> \<not> stale \<and> would_block monitored f \<and> notified_severity (fd_severity (ef_finding f))
                    then append_to (fd_severity (ef_finding f), fd_rule_id (ef_finding f)) vid blocked else blocked))
     else Inr (insert_finding sha job j f None now db, touched, blocked))"

definition complete_job :: "string \<Rightarrow> job_state \<Rightarrow> action \<Rightarrow> string \<Rightarrow> int \<Rightarrow> scan_db \<Rightarrow> scan_db" where
  "complete_job job state act conclusion now =
     update_job job (\<lambda>x. x\<lparr>sj_state := state, sj_action := Some act, sj_conclusion := Some conclusion, sj_lease := None,
       sj_completed_at := Some now, sj_updated_at := now\<rparr>)"

text \<open>Critical violations come before high ones, as the names of the notification types do.\<close>

definition violation_notices :: "int \<Rightarrow> scan_job \<Rightarrow> bool \<Rightarrow> blocked_map \<Rightarrow> scan_notice list" where
  "violation_notices account j aggregate blocked =
     concat (map (\<lambda>((s, rule), vids). NoViolation account rule s (job_installation j) (job_repository j) (take 20 vids)
           # (if aggregate then [NoViolationDigest account rule s] else []))
       (sort_key (\<lambda>((s, rule), _). (s \<noteq> SevCritical, rule)) blocked))"

definition notify_completed ::
  "(int \<Rightarrow> bool) \<Rightarrow> string \<Rightarrow> scan_job \<Rightarrow> job_state \<Rightarrow> bool \<Rightarrow> blocked_map \<Rightarrow> scan_db \<Rightarrow> scan_db" where
  "notify_completed aggregates job j state stale blocked db =
     (case installation_of db (job_installation j) of
        None \<Rightarrow> db
      | Some i \<Rightarrow>
          let account = in_account_id i;
              db1 = foldl (\<lambda>d n. notify_scan n d) db
                (violation_notices account j (blocked \<noteq> [] \<and> aggregates account) blocked)
          in if nj_event (sj_new j) = EvMergeGroup \<and> state = JsFailed \<and> \<not> stale
             then notify_scan (NoMergeQueueFailure account job) db1 else db1)"

definition record_completed ::
  "(nat list \<Rightarrow> string) \<Rightarrow> (string \<Rightarrow> string) \<Rightarrow> (int \<Rightarrow> bool) \<Rightarrow> string \<Rightarrow> scan_job \<Rightarrow> scan_outcome \<Rightarrow> job_state \<Rightarrow> string
     \<Rightarrow> string list \<Rightarrow> int \<Rightarrow> scan_db \<Rightarrow> cp_error + scan_db" where
  "record_completed sha fresh aggregates job j out state conclusion gone now db =
     (let fs = outcome_findings out;
          g = group_of_job sha j;
          current = current_fingerprints sha fs;
          db1 = complete_job job state (so_action out) conclusion now db;
          stale = newer_scan_completed j db1
      in case fold_err (record_finding sha fresh job j (so_monitored out) stale now) fs (db1, [], []) of
           Inl e \<Rightarrow> Inl e
         | Inr (db2, touched, blocked) \<Rightarrow>
             let (closed, db3) = (if stale then ([], db2) else close_absent g job j current gone now db2)
             in Inr (notify_completed aggregates job j state stale blocked
                      (refresh_statuses now (touched @ closed) db3)))"

section \<open>Events of GitHub and of the dashboard\<close>

definition group_exposures :: "int \<Rightarrow> int \<Rightarrow> string \<Rightarrow> (exposure_row \<Rightarrow> bool) \<Rightarrow> scan_db \<Rightarrow> string list" where
  "group_exposures i r key P db =
     map (fst \<circ> fst) (filter (\<lambda>((_, k), x). xp_installation x = i \<and> xp_repository x = r \<and> k = key \<and> P x) (sd_exposures db))"

definition update_exposures :: "int \<Rightarrow> int \<Rightarrow> string \<Rightarrow> (exposure_row \<Rightarrow> bool) \<Rightarrow> (exposure_row \<Rightarrow> exposure_row) \<Rightarrow> scan_db \<Rightarrow> scan_db" where
  "update_exposures i r key P f db =
     db\<lparr>sd_exposures := map (\<lambda>((vid, k), x). ((vid, k),
          if xp_installation x = i \<and> xp_repository x = r \<and> k = key \<and> P x then f x else x)) (sd_exposures db)\<rparr>"

text \<open>The exposures of a group end; those of a merge may move to a branch.\<close>

definition end_group :: "int \<Rightarrow> int \<Rightarrow> string \<Rightarrow> closed_reason \<Rightarrow> scan_group option \<Rightarrow> int \<Rightarrow> scan_db \<Rightarrow> scan_db" where
  "end_group i r key why moved now db =
     (let vids = remdups (group_exposures i r key xp_active db);
          db1 = update_exposures i r key xp_active
            (\<lambda>x. x\<lparr>xp_active := False, xp_closed_at := Some now, xp_closed_reason := Some why\<rparr>) db;
          db2 = (case moved of None \<Rightarrow> db1
                 | Some g \<Rightarrow> foldl (\<lambda>d vid. activate_row vid g i r None now d) db1 vids)
      in refresh_statuses now vids db2)"

definition branch_group :: "(nat list \<Rightarrow> string) \<Rightarrow> ustr \<Rightarrow> scan_group" where
  "branch_group sha ref = \<lparr>gr_key = branch_key sha ref, gr_kind = EkBranch\<rparr>"

definition merge_group_destroyed ::
  "(nat list \<Rightarrow> string) \<Rightarrow> int \<Rightarrow> int \<Rightarrow> string \<Rightarrow> string option \<Rightarrow> ustr \<Rightarrow> int \<Rightarrow> scan_db \<Rightarrow> scan_db" where
  "merge_group_destroyed sha i r head reason base_ref now =
     end_group i r (merge_key head) (CrMergeGroup (take 12 head) reason base_ref)
       (if reason = Some ''merged'' then Some (branch_group sha base_ref) else None) now"

definition pull_request_closed ::
  "(nat list \<Rightarrow> string) \<Rightarrow> int \<Rightarrow> int \<Rightarrow> int \<Rightarrow> bool \<Rightarrow> ustr option \<Rightarrow> int \<Rightarrow> scan_db \<Rightarrow> scan_db" where
  "pull_request_closed sha i r n merged base_ref now =
     (let base = (case base_ref of None \<Rightarrow> [] | Some b \<Rightarrow> b)
      in end_group i r (pr_key n) (if merged then CrPullRequestMerged n base else CrPullRequestClosed n)
           (if merged \<and> base \<noteq> [] then Some (branch_group sha base) else None) now)"

definition branch_deleted :: "(nat list \<Rightarrow> string) \<Rightarrow> int \<Rightarrow> int \<Rightarrow> ustr \<Rightarrow> int \<Rightarrow> scan_db \<Rightarrow> scan_db" where
  "branch_deleted sha i r ref = end_group i r (branch_key sha ref) (CrBranchDeleted ref) None"

definition pull_request_reopened :: "int \<Rightarrow> int \<Rightarrow> int \<Rightarrow> int \<Rightarrow> scan_db \<Rightarrow> scan_db" where
  "pull_request_reopened i r n now db =
     (let P = (\<lambda>x. \<not> xp_active x \<and> xp_closed_reason x = Some (CrPullRequestClosed n));
          vids = remdups (group_exposures i r (pr_key n) P db)
      in refresh_statuses now vids (update_exposures i r (pr_key n) P
           (\<lambda>x. x\<lparr>xp_active := True, xp_closed_at := None, xp_closed_reason := None, xp_opened_at := now\<rparr>) db))"

end
