(* ===== verification/Scan_Commands.thy ===== *)
theory Scan_Commands
  imports Violations Gov_State
begin

text \<open>
  What the dashboard can ask of scans and violations (\<open>controlplane/commands.py\<close>), with the reads of
  \<open>controlplane/queries.py\<close> that find the resource inside the caller's scope. \<open>seen\<close> is the table of repositories GitHub
  reported for a session at sign-in. The text of a note is cleaned by an argument.
\<close>

section \<open>Resources in the caller's scope\<close>

type_synonym session_repositories = "(ustr \<times> int \<times> int) list"

definition in_scope :: "session_repositories \<Rightarrow> access_scope \<Rightarrow> int \<Rightarrow> int \<Rightarrow> bool" where
  "in_scope seen s i r \<longleftrightarrow> i \<in> set (sc_installations s) \<and> (sc_session_hash s, i, r) \<in> set seen"

definition account_of_installation :: "scan_db \<Rightarrow> int \<Rightarrow> int option" where
  "account_of_installation db i = map_option in_account_id (installation_of db i)"

definition violation_row :: "session_repositories \<Rightarrow> access_scope \<Rightarrow> string \<Rightarrow> scan_db \<Rightarrow> (violation_row \<times> int option) option" where
  "violation_row seen s vid db =
     (if sc_installations s = [] \<or> \<not> is_hex_id (asc vid) then None
      else case map_of (sd_violations db) vid of
             None \<Rightarrow> None
           | Some v \<Rightarrow> if in_scope seen s (vi_installation v) (vi_repository v)
                       then Some (v, account_of_installation db (vi_installation v)) else None)"

definition scan_row :: "session_repositories \<Rightarrow> access_scope \<Rightarrow> string \<Rightarrow> scan_db \<Rightarrow> (scan_job \<times> int option) option" where
  "scan_row seen s job db =
     (if sc_installations s = [] \<or> \<not> is_hex_id (asc job) then None
      else case map_of (sd_jobs db) job of
             None \<Rightarrow> None
           | Some j \<Rightarrow> if in_scope seen s (job_installation j) (job_repository j)
                       then Some (j, account_of_installation db (job_installation j)) else None)"

section \<open>Violations\<close>

definition MAX_NOTE_CHARS :: nat where "MAX_NOTE_CHARS = 500"

text \<open>\<open>int(None)\<close> raises: an installation whose record is gone has no account.\<close>

definition acknowledge_violation ::
  "(nat \<Rightarrow> ustr \<Rightarrow> ustr) \<Rightarrow> session_repositories \<Rightarrow> principal \<Rightarrow> string \<Rightarrow> ustr option \<Rightarrow> int \<Rightarrow> scan_db \<Rightarrow> cp_error + scan_db" where
  "acknowledge_violation clean seen p vid txt now db =
     (case violation_row seen (scope_of p ViolationsRead None) vid db of
        None \<Rightarrow> Inl NotFound
      | Some (_, None) \<Rightarrow> Inl Unhandled
      | Some (v, Some account) \<Rightarrow>
          if \<not> can p ViolationsManage account then Inl PermissionDenied
          else case text_field clean ''note'' MAX_NOTE_CHARS False txt of
                 Inl e \<Rightarrow> Inl e
               | Inr t \<Rightarrow>
                   if vi_status v \<noteq> VsOpen then Inl Conflict
                   else Inr (audit_scan (AuViolationAcknowledged vid (user_actor (pr_user_id p) (pr_login p)) t)
                          (update_violation vid (\<lambda>x. x\<lparr>vi_acknowledged := Some (now, pr_user_id p, pr_login p, t),
                             vi_updated_at := now\<rparr>) db)))"

definition remove_acknowledgement ::
  "session_repositories \<Rightarrow> principal \<Rightarrow> string \<Rightarrow> int \<Rightarrow> scan_db \<Rightarrow> cp_error + scan_db" where
  "remove_acknowledgement seen p vid now db =
     (case violation_row seen (scope_of p ViolationsRead None) vid db of
        None \<Rightarrow> Inl NotFound
      | Some (_, None) \<Rightarrow> Inl Unhandled
      | Some (v, Some account) \<Rightarrow>
          if \<not> can p ViolationsManage account then Inl PermissionDenied
          else if vi_acknowledged v = None then Inl Conflict
          else Inr (audit_scan (AuAcknowledgementRemoved vid (user_actor (pr_user_id p) (pr_login p)))
                 (update_violation vid (\<lambda>x. x\<lparr>vi_acknowledged := None, vi_updated_at := now\<rparr>) db)))"

section \<open>Monitoring and scans\<close>

text \<open>\<open>row\<close> is the installation and account of the repository that the query found in the caller's scope.\<close>

definition set_monitoring ::
  "(nat \<Rightarrow> ustr \<Rightarrow> ustr) \<Rightarrow> principal \<Rightarrow> (int \<times> int) option \<Rightarrow> int \<Rightarrow> bool \<Rightarrow> bool \<Rightarrow> ustr option \<Rightarrow> int \<Rightarrow> scan_db
     \<Rightarrow> cp_error + scan_db" where
  "set_monitoring clean p row r enabled confirm reason now db =
     (case row of
        None \<Rightarrow> Inl NotFound
      | Some (i, account) \<Rightarrow>
          if \<not> can p RepositoriesManage account then Inl PermissionDenied
          else case text_field clean ''reason'' MAX_NOTE_CHARS (\<not> enabled) reason of
                 Inl e \<Rightarrow> Inl e
               | Inr _ \<Rightarrow>
                   if \<not> enabled \<and> \<not> confirm then Inl (ConfirmationRequired [])
                   else if \<not> enabled \<and> now - pr_authenticated_at p > REAUTHENTICATION_WINDOW then Inl ReauthenticationRequired
                   else if monitoring_enabled db i r = enabled then Inl Conflict
                   else let db1 = db\<lparr>sd_monitoring := AList.update (i, r) enabled (sd_monitoring db)\<rparr>;
                            db2 = (if enabled then db1
                              else cancel_where (\<lambda>j. job_installation j = i \<and> job_repository j = r \<and> sj_state j = JsQueued)
                                (\<lambda>j. j\<lparr>sj_message := Some ''monitoring paused'', sj_updated_at := now, sj_completed_at := Some now\<rparr>) db1)
                        in Inr (audit_scan (AuMonitoring i r enabled) db2))"

definition rescan_eligible :: "principal \<Rightarrow> scan_job \<Rightarrow> int option \<Rightarrow> scan_db \<Rightarrow> bool" where
  "rescan_eligible p j account db \<longleftrightarrow>
     (case account of None \<Rightarrow> False | Some a \<Rightarrow> can p ScansTrigger a)
     \<and> \<not> live (sj_state j)
     \<and> latest_group_sequence db (job_installation j) (job_repository j) (job_group j) \<le> sj_sequence j
     \<and> (case installation_of db (job_installation j) of None \<Rightarrow> False | Some x \<Rightarrow> in_state x = InActive)
     \<and> repository_listed db (job_installation j) (job_repository j)
     \<and> monitoring_enabled db (job_installation j) (job_repository j)"

text \<open>\<open>new\<close> is the ID drawn for the new execution. \<open>int(None or 0)\<close> is account 0.\<close>

definition request_rescan ::
  "session_repositories \<Rightarrow> principal \<Rightarrow> string \<Rightarrow> string \<Rightarrow> int \<Rightarrow> scan_db \<Rightarrow> cp_error + string \<times> scan_db" where
  "request_rescan seen p job new now db =
     (case scan_row seen (scope_of p ScansRead None) job db of
        None \<Rightarrow> Inl NotFound
      | Some (j, account) \<Rightarrow>
          if \<not> rescan_eligible p j account db
          then Inl (if can p ScansTrigger (case account of None \<Rightarrow> 0 | Some a \<Rightarrow> a) then Conflict else PermissionDenied)
          else case create_execution new job j TrManual now None (Some (pr_login p)) db of
                 Inl e \<Rightarrow> Inl e
               | Inr (_, False, _) \<Rightarrow> Inl Conflict
               | Inr ((k, x), True, db1) \<Rightarrow> Inr (k, audit_scan (AuScanRequested k job (sj_execution x)) db1))"

section \<open>Retention\<close>

text \<open>The part of the retention purge that concerns scans. Rows whose installation record is gone go too.\<close>

definition purge_scans :: "int \<Rightarrow> scan_db \<Rightarrow> scan_db" where
  "purge_scans cutoff db =
     (let kept = (\<lambda>fr. \<not> (fr_created_at fr < cutoff \<and>
            (case fr_violation fr of None \<Rightarrow> True
             | Some v \<Rightarrow> \<not> list_ex (\<lambda>(k, x). k = v \<and> vi_status x = VsOpen) (sd_violations db))));
          old = (\<lambda>v. vi_status v = VsResolved \<and> vi_updated_at v < cutoff);
          lost = map fst (filter (\<lambda>(_, v). old v) (sd_violations db));
          installations = filter (\<lambda>x. \<not> (in_state x = InDeleted \<and> in_updated_at x < cutoff)) (sd_installations db);
          jobs = filter (\<lambda>(_, j). \<not> (sj_updated_at j < cutoff \<and> \<not> live (sj_state j))) (sd_jobs db);
          there = (\<lambda>i. i \<in> set (map in_id installations))
      in db\<lparr>sd_findings := filter (\<lambda>fr. there (fr_installation fr)) (filter kept (sd_findings db)),
            sd_exposures := filter (\<lambda>(_, x). there (xp_installation x)) (filter (\<lambda>((v, _), _). v \<notin> set lost) (sd_exposures db)),
            sd_violations := filter (\<lambda>(_, v). there (vi_installation v)) (filter (\<lambda>(_, v). \<not> old v) (sd_violations db)),
            sd_groups := filter (\<lambda>(_, g). \<not> (mg_updated_at g < cutoff \<and> mg_state g = MgDestroyed)) (sd_groups db),
            sd_deliveries := filter (\<lambda>(_, d). \<not> dl_received_at d < cutoff) (sd_deliveries db),
            sd_jobs := jobs,
            sd_monitoring := filter (\<lambda>((i, _), _). there i) (sd_monitoring db),
            sd_listed := filter (\<lambda>((i, _), _). there i) (sd_listed db),
            sd_known := filter (\<lambda>((i, r), x). there i \<and> \<not> ((case kn_removed_at x of None \<Rightarrow> False | Some t \<Rightarrow> t < cutoff)
               \<and> \<not> list_ex (\<lambda>(_, j). job_installation j = i \<and> job_repository j = r) jobs)) (sd_known db),
            sd_checks := filter (\<lambda>(_, c). \<not> cs_updated_at c < cutoff) (sd_checks db),
            sd_installations := installations\<rparr>)"

end
