(* ===== verification/Violation_Safety.thy ===== *)
theory Violation_Safety
  imports Scan_Commands
begin

text \<open>
  What the tables of violations and exposures promise, over every order of completed scans and events: a violation is
  open exactly while an exposure is active, a scan that a newer one overtook changes neither, and after the newest scan
  of a pull request its exposures are exactly what that scan found.
\<close>

section \<open>What the operations touch\<close>

named_theorems tables

lemma update_violation_tables [tables]:
  "sd_exposures (update_violation vid f db) = sd_exposures db"
  "map_of (sd_violations (update_violation vid f db)) k =
     map_option (\<lambda>v. if k = vid then f v else v) (map_of (sd_violations db) k)"
  "map fst (sd_violations (update_violation vid f db)) = map fst (sd_violations db)"
proof -
  show "sd_exposures (update_violation vid f db) = sd_exposures db" by (simp add: update_violation_def)
  have "map_of (map (\<lambda>(k, v). (k, if k = vid then f v else v)) xs) k =
     map_option (\<lambda>v. if k = vid then f v else v) (map_of xs k)" for xs :: "(string \<times> violation_row) list"
    by (induction xs) auto
  then show "map_of (sd_violations (update_violation vid f db)) k =
     map_option (\<lambda>v. if k = vid then f v else v) (map_of (sd_violations db) k)"
    by (simp add: update_violation_def)
  show "map fst (sd_violations (update_violation vid f db)) = map fst (sd_violations db)"
    by (auto simp: update_violation_def)
qed

lemma audit_tables [tables]:
  "sd_exposures (audit_scan e db) = sd_exposures db" "sd_violations (audit_scan e db) = sd_violations db"
  "sd_exposures (notify_scan n db) = sd_exposures db" "sd_violations (notify_scan n db) = sd_violations db"
  by (simp_all add: audit_scan_def notify_scan_def)

lemma insert_finding_tables [tables]:
  "sd_exposures (insert_finding sha job j f v now db) = sd_exposures db"
  "sd_violations (insert_finding sha job j f v now db) = sd_violations db"
  by (simp_all add: insert_finding_def)

lemma complete_job_tables [tables]:
  "sd_exposures (complete_job job s a c now db) = sd_exposures db"
  "sd_violations (complete_job job s a c now db) = sd_violations db"
  by (simp_all add: complete_job_def update_job_def)

lemma update_exposures_tables [tables]:
  "sd_violations (update_exposures i r key P f db) = sd_violations db"
  by (simp add: update_exposures_def)

lemma activate_row_tables [tables]: "sd_violations (activate_row vid g i r job now db) = sd_violations db"
  by (simp add: activate_row_def)

lemma notify_all_tables [tables]:
  "sd_exposures (foldl (\<lambda>d n. notify_scan n d) db ns) = sd_exposures db"
  "sd_violations (foldl (\<lambda>d n. notify_scan n d) db ns) = sd_violations db"
  by (induction ns arbitrary: db) (simp_all add: tables)

lemma notify_completed_tables [tables]:
  "sd_exposures (notify_completed ag job j s st b db) = sd_exposures db"
  "sd_violations (notify_completed ag job j s st b db) = sd_violations db"
  by (simp_all add: notify_completed_def Let_def tables split: option.splits)

lemma refresh_status_exposures [tables]: "sd_exposures (refresh_status now db vid) = sd_exposures db"
  by (simp add: refresh_status_def tables split: option.splits)

lemma refresh_statuses_exposures [tables]: "sd_exposures (refresh_statuses now vids db) = sd_exposures db"
proof -
  have "sd_exposures (foldl (refresh_status now) db xs) = sd_exposures db" for xs
    by (induction xs arbitrary: db) (simp_all add: tables)
  then show ?thesis by (simp add: refresh_statuses_def)
qed

lemma exposed_iff: "exposed db vid \<longleftrightarrow> (\<exists>k x. ((vid, k), x) \<in> set (sd_exposures db) \<and> xp_active x)"
  by (force simp: exposed_def list_ex_iff)

lemma exposed_cong: "sd_exposures db' = sd_exposures db \<Longrightarrow> exposed db' vid = exposed db vid"
  by (simp add: exposed_def)

section \<open>Open while exposed\<close>

definition status_of :: "scan_db \<Rightarrow> string \<Rightarrow> violation_status option" where
  "status_of db vid = map_option vi_status (map_of (sd_violations db) vid)"

definition coherent_at :: "scan_db \<Rightarrow> string \<Rightarrow> bool" where
  "coherent_at db vid \<longleftrightarrow> status_of db vid \<in> {None, Some (if exposed db vid then VsOpen else VsResolved)}"

text \<open>Neither the status of the violation nor whether it is exposed has changed.\<close>

definition spared :: "scan_db \<Rightarrow> scan_db \<Rightarrow> string \<Rightarrow> bool" where
  "spared db db' vid \<longleftrightarrow> status_of db' vid = status_of db vid \<and> exposed db' vid = exposed db vid"

lemma spared_refl [simp]: "spared db db vid"
  by (simp add: spared_def)

lemma spared_trans [trans]: "spared a b vid \<Longrightarrow> spared b c vid \<Longrightarrow> spared a c vid"
  by (simp add: spared_def)

lemma spared_coherent: "spared db db' vid \<Longrightarrow> coherent_at db' vid = coherent_at db vid"
  by (simp add: spared_def coherent_at_def)

lemma spared_tables:
  "sd_exposures db' = sd_exposures db \<Longrightarrow> sd_violations db' = sd_violations db \<Longrightarrow> spared db db' vid"
  by (simp add: spared_def status_of_def exposed_def)

lemma refresh_status_spares: "vid \<noteq> w \<Longrightarrow> spared db (refresh_status now db w) vid"
  by (auto simp: refresh_status_def spared_def status_of_def exposed_def tables option.map_comp o_def split: option.splits)

lemma refresh_status_coherent: "coherent_at (refresh_status now db vid) vid"
proof -
  have e: "exposed (refresh_status now db vid) vid = exposed db vid" by (rule exposed_cong) (simp add: tables)
  show ?thesis
    unfolding coherent_at_def e
    by (cases "map_of (sd_violations db) vid"; cases "vi_status (the (map_of (sd_violations db) vid))")
      (auto simp: refresh_status_def status_of_def tables reopened_def)
qed

lemma refresh_status_keeps: "coherent_at db v \<Longrightarrow> coherent_at (refresh_status now db w) v"
  using refresh_status_coherent [of now db v] spared_coherent [OF refresh_status_spares [of v w db now]]
  by (cases "v = w") auto

lemma refresh_all_coherent:
  "vid \<in> set xs \<or> coherent_at db vid \<Longrightarrow> coherent_at (foldl (refresh_status now) db xs) vid"
proof (induction xs arbitrary: db)
  case (Cons w xs)
  have "vid \<in> set xs \<or> coherent_at (refresh_status now db w) vid"
    using Cons.prems refresh_status_coherent refresh_status_keeps by auto
  then show ?case using Cons.IH by simp
qed simp

lemma refresh_statuses_coherent:
  "vid \<in> set vids \<or> coherent_at db vid \<Longrightarrow> coherent_at (refresh_statuses now vids db) vid"
  unfolding refresh_statuses_def by (rule refresh_all_coherent) simp

lemma refresh_statuses_spares: "vid \<notin> set vids \<Longrightarrow> spared db (refresh_statuses now vids db) vid"
proof -
  have "vid \<notin> set xs \<Longrightarrow> spared db (foldl (refresh_status now) db xs) vid" for xs
  proof (induction xs arbitrary: db)
    case (Cons w xs)
    then show ?case using refresh_status_spares spared_trans by fastforce
  qed simp
  then show "vid \<notin> set vids \<Longrightarrow> ?thesis" by (simp add: refresh_statuses_def)
qed

lemma update_violation_spares:
  "vid \<noteq> w \<Longrightarrow> spared db (update_violation w f db) vid"
  by (simp add: spared_def status_of_def exposed_def tables option.map_comp o_def)

lemma activate_row_spares: "vid \<noteq> w \<Longrightarrow> spared db (activate_row w g i r job now db) vid"
proof -
  have "((vid, k), x) \<in> set (AList.update (w, gk) y xs) \<longleftrightarrow> ((vid, k), x) \<in> set xs" if "vid \<noteq> w"
    for k x gk y and xs :: "((string \<times> string) \<times> exposure_row) list"
    using that by (induction xs) auto
  then show "vid \<noteq> w \<Longrightarrow> ?thesis"
    by (simp add: spared_def status_of_def exposed_iff tables) (simp add: activate_row_def)
qed

lemma upsert_violation_spares:
  assumes "upsert_violation sha fresh job j f now stale db = Inr (w, ev, db')" and "vid \<noteq> w"
  shows "spared db db' vid"
proof (cases "find_violation db (job_installation j) (job_repository j) (finding_fingerprint sha (ef_finding f))")
  case None
  with assms show ?thesis
    by (auto simp: upsert_violation_def Let_def spared_def status_of_def exposed_def map_add_def split: if_splits option.splits)
next
  case (Some x)
  then show ?thesis using assms update_violation_spares spared_trans
    by (cases x) (auto simp: upsert_violation_def Let_def split: if_splits; blast)
qed

lemma record_finding_spares:
  assumes "record_finding sha fresh job j mon stale now f (db, hit, b) = Inr (db', hit', b')"
  shows "set hit \<subseteq> set hit' \<and> (vid \<in> set hit' \<or> spared db db' vid)"
proof (cases "tracked (ef_action f)")
  case False
  with assms show ?thesis by (auto simp: record_finding_def tables intro: spared_tables)
next
  case True
  with assms obtain w ev db1 where up: "upsert_violation sha fresh job j f now stale db = Inr (w, ev, db1)"
    by (auto simp: record_finding_def split: sum.splits)
  define db2 where "db2 = (case ev of None \<Rightarrow> db1 | Some e \<Rightarrow> audit_scan e db1)"
  define db3 where "db3 = (if stale then db2
    else activate_row w (group_of_job sha j) (job_installation j) (job_repository j) (Some job) now db2)"
  from assms True up have t: "hit' = hit @ [w]" and d: "db' = insert_finding sha job j f (Some w) now db3"
    by (auto simp: record_finding_def db3_def db2_def Let_def split: if_splits)
  show ?thesis
  proof (cases "vid = w")
    case False
    have "spared db db1 vid" using upsert_violation_spares [OF up False] .
    also have "spared db1 db2 vid" by (cases ev) (auto simp: db2_def tables intro: spared_tables)
    also have "spared db2 db3 vid" using activate_row_spares [OF False] by (simp add: db3_def)
    also have "spared db3 db' vid" unfolding d by (rule spared_tables) (simp_all add: tables)
    finally show ?thesis using t by auto
  qed (auto simp: t)
qed

lemma record_findings_spare:
  assumes "fold_err (record_finding sha fresh job j mon stale now) fs (db, hit, b) = Inr (db', hit', b')"
  shows "vid \<in> set hit' \<or> spared db db' vid"
proof -
  have "(\<lambda>(d, t, _). vid \<in> set t \<or> spared db d vid) (db', hit', b')"
    if "vid \<notin> set hit"
    using assms
  proof (rule fold_err_invariant)
    fix f s s' assume "(\<lambda>(d, t, _). vid \<in> set t \<or> spared db d vid) s"
      and "record_finding sha fresh job j mon stale now f s = Inr s'"
    then show "(\<lambda>(d, t, _). vid \<in> set t \<or> spared db d vid) s'"
      by (cases s; cases s') (use record_finding_spares spared_trans in fastforce)
  qed simp
  moreover have "(\<lambda>(_, t, _). set hit \<subseteq> set t) (db', hit', b')"
    using assms
  proof (rule fold_err_invariant)
    fix f s s' assume "(\<lambda>(_, t, _). set hit \<subseteq> set t) s"
      and "record_finding sha fresh job j mon stale now f s = Inr s'"
    then show "(\<lambda>(_, t, _). set hit \<subseteq> set t) s'"
      by (cases s; cases s') (use record_finding_spares in fastforce)
  qed simp
  ultimately show ?thesis by auto
qed

lemma exposed_mapped:
  assumes "sd_exposures db' = map (\<lambda>(vk, x). (vk, f vk x)) (sd_exposures db)"
    and "\<And>k x. ((vid, k), x) \<in> set (sd_exposures db) \<Longrightarrow> f (vid, k) x = x"
  shows "exposed db' vid = exposed db vid"
  using assms(2) by (force simp: exposed_iff assms(1))

lemma close_absent_spares:
  assumes "close_absent g job j current gone now db = (ended, db')" and "vid \<notin> set ended"
  shows "spared db db' vid"
proof -
  have "exposed db' vid = exposed db vid"
  proof (rule exposed_mapped)
    show "sd_exposures db' = map (\<lambda>(vk, x). (vk, case absent_reason g j current gone db vk x of None \<Rightarrow> x
        | Some why \<Rightarrow> x\<lparr>xp_active := False, xp_closed_at := Some now, xp_closed_reason := Some why, xp_last_job := Some job\<rparr>))
        (sd_exposures db)"
      using assms(1) by (auto simp: close_absent_def)
    fix k x assume "((vid, k), x) \<in> set (sd_exposures db)"
    then have "absent_reason g j current gone db (vid, k) x = None"
      using assms by (force simp: close_absent_def)
    then show "(case absent_reason g j current gone db (vid, k) x of None \<Rightarrow> x
        | Some why \<Rightarrow> x\<lparr>xp_active := False, xp_closed_at := Some now, xp_closed_reason := Some why, xp_last_job := Some job\<rparr>) = x"
      by simp
  qed
  moreover have "status_of db' vid = status_of db vid" using assms(1) by (auto simp: close_absent_def status_of_def)
  ultimately show ?thesis by (simp add: spared_def)
qed

lemma update_exposures_spares:
  assumes "vid \<notin> set (group_exposures i r key P db)"
  shows "spared db (update_exposures i r key P f db) vid"
proof -
  have "exposed (update_exposures i r key P f db) vid = exposed db vid"
  proof (rule exposed_mapped)
    show "sd_exposures (update_exposures i r key P f db) = map (\<lambda>(vk, x). (vk,
        if xp_installation x = i \<and> xp_repository x = r \<and> snd vk = key \<and> P x then f x else x)) (sd_exposures db)"
      by (auto simp: update_exposures_def)
    fix k x assume "((vid, k), x) \<in> set (sd_exposures db)"
    then show "(if xp_installation x = i \<and> xp_repository x = r \<and> snd (vid, k) = key \<and> P x then f x else x) = x"
      using assms by (force simp: group_exposures_def)
  qed
  then show ?thesis by (simp add: spared_def status_of_def tables)
qed

lemma activate_all_spares: "vid \<notin> set vids \<Longrightarrow> spared db (foldl (\<lambda>d v. activate_row v g i r job now d) db vids) vid"
proof (induction vids arbitrary: db)
  case (Cons v vids)
  then have "spared db (activate_row v g i r job now db) vid" by (intro activate_row_spares) simp
  with Cons show ?case using spared_trans by fastforce
qed simp

section \<open>Every operation keeps the statuses\<close>

lemma record_completedE:
  assumes "record_completed sha fresh ag job j out st con gone now db = Inr db'"
  obtains db1 stale db2 hit blocked ended db3 where
    "db1 = complete_job job st (so_action out) con now db" "stale = newer_scan_completed j db1"
    "fold_err (record_finding sha fresh job j (so_monitored out) stale now) (outcome_findings out) (db1, [], [])
       = Inr (db2, hit, blocked)"
    "(if stale then ([], db2) else close_absent (group_of_job sha j) job j
        (current_fingerprints sha (outcome_findings out)) gone now db2) = (ended, db3)"
    "db' = notify_completed ag job j st stale blocked (refresh_statuses now (hit @ ended) db3)"
proof -
  let ?db1 = "complete_job job st (so_action out) con now db"
  from assms obtain db2 hit blocked where
    f: "fold_err (record_finding sha fresh job j (so_monitored out) (newer_scan_completed j ?db1) now)
          (outcome_findings out) (?db1, [], []) = Inr (db2, hit, blocked)"
    by (auto simp: record_completed_def Let_def split: sum.splits)
  obtain ended db3 where
    c: "(if newer_scan_completed j ?db1 then ([], db2) else close_absent (group_of_job sha j) job j
          (current_fingerprints sha (outcome_findings out)) gone now db2) = (ended, db3)" by fastforce
  show thesis
  proof (rule that [OF refl refl f c])
    show "db' = notify_completed ag job j st (newer_scan_completed j ?db1) blocked
        (refresh_statuses now (hit @ ended) db3)"
      using assms by (simp add: record_completed_def Let_def f c)
  qed
qed

lemma record_completed_coherent:
  assumes "record_completed sha fresh ag job j out st con gone now db = Inr db'" and "coherent_at db vid"
  shows "coherent_at db' vid"
  using assms(1)
proof (rule record_completedE)
  fix db1 stale db2 hit blocked ended db3
  assume db1: "db1 = complete_job job st (so_action out) con now db"
    and f: "fold_err (record_finding sha fresh job j (so_monitored out) stale now) (outcome_findings out) (db1, [], [])
       = Inr (db2, hit, blocked)"
    and c: "(if stale then ([], db2) else close_absent (group_of_job sha j) job j
        (current_fingerprints sha (outcome_findings out)) gone now db2) = (ended, db3)"
    and d: "db' = notify_completed ag job j st stale blocked (refresh_statuses now (hit @ ended) db3)"
  have "spared db db3 vid" if out: "vid \<notin> set (hit @ ended)"
  proof -
    have "spared db db1 vid" by (rule spared_tables) (simp_all add: db1 tables)
    also have "spared db1 db2 vid" using record_findings_spare [OF f, of vid] out by simp
    also have "spared db2 db3 vid" using c out close_absent_spares by (cases stale) auto
    finally show ?thesis .
  qed
  then have "vid \<in> set (hit @ ended) \<or> coherent_at db3 vid" using assms(2) spared_coherent by blast
  then have "coherent_at (refresh_statuses now (hit @ ended) db3) vid" by (rule refresh_statuses_coherent)
  then show ?thesis unfolding d by (subst spared_coherent [OF spared_tables]) (simp_all add: tables)
qed

lemma end_group_coherent:
  assumes "coherent_at db vid"
  shows "coherent_at (end_group i r key why moved now db) vid"
proof -
  define vids where "vids = remdups (group_exposures i r key xp_active db)"
  define db1 where "db1 = update_exposures i r key xp_active
      (\<lambda>x. x\<lparr>xp_active := False, xp_closed_at := Some now, xp_closed_reason := Some why\<rparr>) db"
  define db2 where "db2 = (case moved of None \<Rightarrow> db1 | Some g \<Rightarrow> foldl (\<lambda>d v. activate_row v g i r None now d) db1 vids)"
  have "vid \<in> set vids \<or> coherent_at db2 vid"
  proof (cases "vid \<in> set vids")
    case False
    then have "spared db db1 vid" by (simp add: vids_def db1_def update_exposures_spares)
    also from False have "spared db1 db2 vid" by (cases moved) (simp_all add: db2_def activate_all_spares)
    finally show ?thesis using assms spared_coherent by blast
  qed simp
  then show ?thesis
    by (simp add: end_group_def Let_def db1_def [symmetric] vids_def [symmetric] db2_def [symmetric] refresh_statuses_coherent)
qed

lemma pull_request_reopened_coherent:
  assumes "coherent_at db vid"
  shows "coherent_at (pull_request_reopened i r n now db) vid"
proof -
  let ?P = "\<lambda>x. \<not> xp_active x \<and> xp_closed_reason x = Some (CrPullRequestClosed n)"
  let ?f = "\<lambda>x. x\<lparr>xp_active := True, xp_closed_at := None, xp_closed_reason := None, xp_opened_at := now\<rparr>"
  have "vid \<in> set (remdups (group_exposures i r (pr_key n) ?P db)) \<or> coherent_at (update_exposures i r (pr_key n) ?P ?f db) vid"
    using update_exposures_spares [of vid i r "pr_key n" ?P db ?f] assms spared_coherent by auto
  then show ?thesis unfolding pull_request_reopened_def Let_def by (rule refresh_statuses_coherent)
qed

section \<open>The keys of the tables\<close>

text \<open>IDs of violations are unique, so are their installation, repository and fingerprint, and an exposure belongs to a
  violation of the same repository.\<close>

definition vkeys :: "scan_db \<Rightarrow> (string \<times> int \<times> int \<times> string) list" where
  "vkeys db = map (\<lambda>(k, v). (k, vi_installation v, vi_repository v, vi_fingerprint v)) (sd_violations db)"

definition xkeys :: "scan_db \<Rightarrow> ((string \<times> string) \<times> int \<times> int) list" where
  "xkeys db = map (\<lambda>(k, x). (k, xp_installation x, xp_repository x)) (sd_exposures db)"

definition linked :: "scan_db \<Rightarrow> bool" where
  "linked db \<longleftrightarrow> distinct (map fst (vkeys db)) \<and> distinct (map snd (vkeys db)) \<and> distinct (map fst (xkeys db))
     \<and> (\<forall>((vid, _), i, r) \<in> set (xkeys db). \<exists>fp. (vid, i, r, fp) \<in> set (vkeys db))"

lemma linked_cong: "vkeys db' = vkeys db \<Longrightarrow> xkeys db' = xkeys db \<Longrightarrow> linked db' = linked db"
  by (simp add: linked_def)

lemma keys_tables:
  "sd_violations db' = sd_violations db \<Longrightarrow> vkeys db' = vkeys db"
  "sd_exposures db' = sd_exposures db \<Longrightarrow> xkeys db' = xkeys db"
  by (simp_all add: vkeys_def xkeys_def)

lemma vkeys_update_violation:
  assumes "\<And>v. (vi_installation (f v), vi_repository (f v), vi_fingerprint (f v)) = (vi_installation v, vi_repository v, vi_fingerprint v)"
  shows "vkeys (update_violation vid f db) = vkeys db"
  using assms by (auto simp: vkeys_def update_violation_def)

lemma xkeys_mapped:
  assumes "sd_exposures db' = map (\<lambda>(vk, x). (vk, f vk x)) (sd_exposures db)"
    and "\<And>vk x. (xp_installation (f vk x), xp_repository (f vk x)) = (xp_installation x, xp_repository x)"
  shows "xkeys db' = xkeys db"
  using assms(2) by (auto simp: xkeys_def assms(1))

lemma vkeys_refresh_status: "vkeys (refresh_status now db vid) = vkeys db"
  by (auto simp: refresh_status_def reopened_def vkeys_update_violation keys_tables(1) [OF audit_tables(2)]
      split: option.splits)

lemma refresh_statuses_keys:
  "vkeys (refresh_statuses now vids db) = vkeys db" "xkeys (refresh_statuses now vids db) = xkeys db"
proof -
  have "vkeys (foldl (refresh_status now) db xs) = vkeys db" for xs
    by (induction xs arbitrary: db) (simp_all add: vkeys_refresh_status)
  then show "vkeys (refresh_statuses now vids db) = vkeys db" by (simp add: refresh_statuses_def)
  show "xkeys (refresh_statuses now vids db) = xkeys db" by (rule keys_tables) (simp add: tables)
qed

lemma fst_vkeys: "map fst (vkeys db) = map fst (sd_violations db)"
  by (auto simp: vkeys_def)

lemma fst_xkeys: "map fst (xkeys db) = map fst (sd_exposures db)"
  by (auto simp: xkeys_def)

lemma activate_row_linked:
  assumes "linked db" and "(vid, i, r, fp) \<in> set (vkeys db)"
  shows "linked (activate_row vid g i r job now db)"
proof -
  have v: "vkeys (activate_row vid g i r job now db) = vkeys db" by (rule keys_tables) (simp add: tables)
  have d: "distinct (map fst (xkeys (activate_row vid g i r job now db)))"
    using assms(1) by (simp add: linked_def fst_xkeys activate_row_def distinct_update)
  have "\<exists>fp. (w, i', r', fp) \<in> set (vkeys db)"
    if "((w, k), i', r') \<in> set (xkeys (activate_row vid g i r job now db))" for w k i' r'
  proof -
    from that obtain x where x: "((w, k), x) \<in> set (sd_exposures (activate_row vid g i r job now db))"
      "xp_installation x = i'" "xp_repository x = r'" by (auto simp: xkeys_def)
    show ?thesis
    proof (cases "((w, k), x) \<in> set (sd_exposures db)")
      case True
      then have "((w, k), i', r') \<in> set (xkeys db)" using x by (force simp: xkeys_def)
      then show ?thesis using assms(1) by (fastforce simp: linked_def)
    next
      case False
      then have new: "w = vid" "k = gr_key g"
        "x = (case map_of (sd_exposures db) (vid, gr_key g) of
           None \<Rightarrow> \<lparr>xp_installation = i, xp_repository = r, xp_kind = gr_kind g, xp_active = True, xp_first_job = job,
                    xp_last_job = job, xp_opened_at = now, xp_closed_at = None, xp_closed_reason = None\<rparr>
         | Some x \<Rightarrow> x\<lparr>xp_active := True, xp_last_job := (case job of None \<Rightarrow> xp_last_job x | Some _ \<Rightarrow> job),
                    xp_opened_at := (if xp_active x then xp_opened_at x else now), xp_closed_at := None,
                    xp_closed_reason := None\<rparr>)"
        using x(1) set_AList_update unfolding activate_row_def by fastforce+
      show ?thesis
      proof (cases "map_of (sd_exposures db) (vid, gr_key g)")
        case None
        then show ?thesis using new x assms(2) by auto
      next
        case (Some y)
        then have "((vid, gr_key g), y) \<in> set (sd_exposures db)" by (rule map_of_SomeD)
        then have "((vid, gr_key g), xp_installation y, xp_repository y) \<in> set (xkeys db)" by (force simp: xkeys_def)
        then show ?thesis using assms(1) new x Some by (fastforce simp: linked_def)
      qed
    qed
  qed
  then show ?thesis using assms(1) d by (auto simp: linked_def v)
qed

lemma find_violation_Some:
  assumes "find_violation db i r fp = Some (w, v)"
  shows "(w, v) \<in> set (sd_violations db) \<and> vi_installation v = i \<and> vi_repository v = r \<and> vi_fingerprint v = fp"
proof -
  have "find P xs = Some x \<Longrightarrow> x \<in> set xs \<and> P x" for P x and xs :: "(string \<times> violation_row) list"
    by (induction xs) (auto split: if_splits)
  from this [OF assms [unfolded find_violation_def]] show ?thesis by auto
qed

lemma upsert_violation_linked:
  assumes "upsert_violation sha fresh job j f now stale db = Inr (vid, ev, db')" and "linked db"
  shows "linked db' \<and> (vid, job_installation j, job_repository j, finding_fingerprint sha (ef_finding f)) \<in> set (vkeys db')
     \<and> set (vkeys db) \<subseteq> set (vkeys db') \<and> sd_exposures db' = sd_exposures db"
proof (cases "find_violation db (job_installation j) (job_repository j) (finding_fingerprint sha (ef_finding f))")
  case None
  let ?new = "(fresh (finding_fingerprint sha (ef_finding f)), job_installation j, job_repository j, finding_fingerprint sha (ef_finding f))"
  from assms(1) None have n: "map_of (sd_violations db) (fst ?new) = None"
    and k: "vkeys db' = vkeys db @ [?new]" "vid = fst ?new" "sd_exposures db' = sd_exposures db"
    by (auto simp: upsert_violation_def Let_def vkeys_def new_violation_def split: if_splits)
  have "fst ?new \<notin> set (map fst (vkeys db))" using n by (simp add: fst_vkeys map_of_eq_None_iff)
  moreover have "snd ?new \<notin> set (map snd (vkeys db))"
    using None by (force simp: find_violation_def find_None_iff vkeys_def)
  ultimately show ?thesis using assms(2) k keys_tables(2) [OF k(3)] by (auto simp: linked_def)
next
  case (Some wv)
  obtain w v where wv: "wv = (w, v)" by force
  from Some wv have found: "(w, job_installation j, job_repository j, finding_fingerprint sha (ef_finding f)) \<in> set (vkeys db)"
    using find_violation_Some [of db] by (force simp: vkeys_def)
  have "vid = w" "vkeys db' = vkeys db" "sd_exposures db' = sd_exposures db"
    using assms(1) Some wv
    by (auto simp: upsert_violation_def Let_def vkeys_update_violation reopened_def tables split: if_splits)
  then show ?thesis using found assms(2) linked_cong [of db' db] keys_tables(2) [of db' db] by auto
qed

lemma linked_keys: "vkeys db' = vkeys db \<Longrightarrow> sd_exposures db' = sd_exposures db \<Longrightarrow> linked db \<Longrightarrow> linked db'"
  using linked_cong keys_tables(2) by blast

section \<open>The exposures of a group\<close>

definition active_in :: "scan_db \<Rightarrow> int \<Rightarrow> int \<Rightarrow> string \<Rightarrow> string \<Rightarrow> bool" where
  "active_in db i r key vid = (case map_of (sd_exposures db) (vid, key) of
     None \<Rightarrow> False | Some x \<Rightarrow> xp_active x \<and> xp_installation x = i \<and> xp_repository x = r)"

text \<open>The fingerprints of the violations with an active exposure in a group of a repository.\<close>

definition exposed_fingerprints :: "int \<Rightarrow> int \<Rightarrow> string \<Rightarrow> scan_db \<Rightarrow> string list" where
  "exposed_fingerprints i r key db =
     List.map_filter (\<lambda>(vid, v). if active_in db i r key vid then Some (vi_fingerprint v) else None) (sd_violations db)"

lemma exposed_fingerprints_iff:
  "fp \<in> set (exposed_fingerprints i r key db) \<longleftrightarrow>
     (\<exists>vid i' r'. active_in db i r key vid \<and> (vid, i', r', fp) \<in> set (vkeys db))"
  unfolding exposed_fingerprints_def vkeys_def by (force simp: map_filter_def split: if_splits)

lemma exposed_fingerprints_tables:
  "vkeys db' = vkeys db \<Longrightarrow> sd_exposures db' = sd_exposures db
     \<Longrightarrow> set (exposed_fingerprints i r key db') = set (exposed_fingerprints i r key db)"
  by (auto simp: exposed_fingerprints_iff active_in_def)

lemma exposed_fingerprints_mono:
  assumes "set (vkeys db) \<subseteq> set (vkeys db')" and "\<And>vid. active_in db i r key vid \<Longrightarrow> active_in db' i r key vid"
  shows "set (exposed_fingerprints i r key db) \<subseteq> set (exposed_fingerprints i r key db')"
  using assms by (auto simp: exposed_fingerprints_iff) blast

lemma activate_row_active:
  assumes "linked db" and "(vid, i, r, fp) \<in> set (vkeys db)"
  shows "active_in (activate_row vid g i r job now db) i r (gr_key g) vid"
    and "active_in db i' r' key w \<Longrightarrow> active_in (activate_row vid g i r job now db) i' r' key w"
proof -
  have "xp_installation x = i \<and> xp_repository x = r" if "map_of (sd_exposures db) (vid, gr_key g) = Some x" for x
  proof -
    have "((vid, gr_key g), xp_installation x, xp_repository x) \<in> set (xkeys db)"
      using map_of_SomeD [OF that] by (force simp: xkeys_def)
    then obtain fp' where "(vid, xp_installation x, xp_repository x, fp') \<in> set (vkeys db)"
      using assms(1) by (fastforce simp: linked_def)
    then show ?thesis using assms unfolding linked_def by (metis eq_key_imp_eq_value prod.inject)
  qed
  then have own: "xp_installation x = i \<and> xp_repository x = r" if "map_of (sd_exposures db) (vid, gr_key g) = Some x" for x
    using that .
  have upd: "\<exists>y. map_of (sd_exposures (activate_row vid g i r job now db)) = (map_of (sd_exposures db))((vid, gr_key g) \<mapsto> y)
      \<and> xp_active y \<and> xp_installation y = i \<and> xp_repository y = r"
  proof (cases "map_of (sd_exposures db) (vid, gr_key g)")
    case None
    then show ?thesis by (auto simp: activate_row_def dict_simps intro!: exI)
  next
    case (Some x)
    then show ?thesis using own by (auto simp: activate_row_def dict_simps intro!: exI)
  qed
  then obtain y where y: "map_of (sd_exposures (activate_row vid g i r job now db)) = (map_of (sd_exposures db))((vid, gr_key g) \<mapsto> y)"
    "xp_active y" "xp_installation y = i" "xp_repository y = r" by blast
  show "active_in (activate_row vid g i r job now db) i r (gr_key g) vid" using y by (simp add: active_in_def)
  show "active_in (activate_row vid g i r job now db) i' r' key w" if a: "active_in db i' r' key w"
  proof (cases "(w, key) = (vid, gr_key g)")
    case True
    then obtain x where "map_of (sd_exposures db) (vid, gr_key g) = Some x" "xp_installation x = i'" "xp_repository x = r'"
      using a by (auto simp: active_in_def split: option.splits)
    then show ?thesis using own True y by (simp add: active_in_def)
  next
    case False
    then show ?thesis using a y by (auto simp: active_in_def)
  qed
qed

lemma record_finding_exposes:
  assumes "record_finding sha fresh job j mon stale now f (db, hit, b) = Inr (db', hit', b')" and "linked db"
  defines "E \<equiv> \<lambda>d. set (exposed_fingerprints (job_installation j) (job_repository j) (gr_key (group_of_job sha j)) d)"
  shows "linked db'" and "\<not> stale \<Longrightarrow> E db \<union> set (current_fingerprints sha [f]) \<subseteq> E db'"
    and "stale \<Longrightarrow> sd_exposures db' = sd_exposures db"
proof -
  have *: "linked db' \<and> (\<not> stale \<longrightarrow> E db \<union> set (current_fingerprints sha [f]) \<subseteq> E db')
     \<and> (stale \<longrightarrow> sd_exposures db' = sd_exposures db)"
  proof (cases "tracked (ef_action f)")
    case False
    with assms(1) have t: "sd_violations db' = sd_violations db" "sd_exposures db' = sd_exposures db"
      by (auto simp: record_finding_def tables)
    moreover have "E db' = E db" unfolding E_def by (rule exposed_fingerprints_tables [OF keys_tables(1) [OF t(1)] t(2)])
    ultimately show ?thesis using False linked_keys [OF keys_tables(1) [OF t(1)] t(2) assms(2)]
      by (simp add: current_fingerprints_def)
  next
    case True
    with assms(1) obtain w ev db1 where up: "upsert_violation sha fresh job j f now stale db = Inr (w, ev, db1)"
      by (auto simp: record_finding_def split: sum.splits)
    define db2 where "db2 = (case ev of None \<Rightarrow> db1 | Some e \<Rightarrow> audit_scan e db1)"
    define db3 where "db3 = (if stale then db2
      else activate_row w (group_of_job sha j) (job_installation j) (job_repository j) (Some job) now db2)"
    have d: "db' = insert_finding sha job j f (Some w) now db3"
      using assms(1) True up by (auto simp: record_finding_def db3_def db2_def Let_def split: if_splits)
    note u = upsert_violation_linked [OF up assms(2)]
    have t2: "sd_violations db2 = sd_violations db1" "sd_exposures db2 = sd_exposures db1"
      by (cases ev; simp add: db2_def tables)+
    have l2: "linked db2" and k2: "vkeys db2 = vkeys db1" using u t2 linked_keys keys_tables(1) by blast+
    have w2: "(w, job_installation j, job_repository j, finding_fingerprint sha (ef_finding f)) \<in> set (vkeys db2)"
      using u k2 by simp
    have sub: "E db \<subseteq> E db2" unfolding E_def
      by (rule exposed_fingerprints_mono) (use u t2 k2 in \<open>auto simp: active_in_def\<close>)
    have t': "sd_violations db' = sd_violations db3" "sd_exposures db' = sd_exposures db3" by (simp_all add: d tables)
    show ?thesis
    proof (cases stale)
      case True
      then show ?thesis using l2 u t2 t' linked_keys [OF keys_tables(1) [OF t'(1)] t'(2)] by (simp add: db3_def)
    next
      case False
      then have d3: "db3 = activate_row w (group_of_job sha j) (job_installation j) (job_repository j) (Some job) now db2"
        by (simp add: db3_def)
      have k3: "vkeys db3 = vkeys db2" unfolding d3 by (rule keys_tables) (simp add: tables)
      note act = activate_row_active [OF l2 w2, where g = "group_of_job sha j" and job = "Some job" and now = now, folded d3]
      have "E db2 \<subseteq> E db3" unfolding E_def using act(2) by (intro exposed_fingerprints_mono) (simp_all add: k3)
      moreover have "finding_fingerprint sha (ef_finding f) \<in> E db3"
        using act(1) w2 by (auto simp: E_def exposed_fingerprints_iff k3)
      moreover have "linked db3" unfolding d3 using l2 w2 by (rule activate_row_linked)
      moreover have "E db' = E db3" unfolding E_def by (rule exposed_fingerprints_tables [OF keys_tables(1) [OF t'(1)] t'(2)])
      ultimately show ?thesis
        using False True sub linked_keys [OF keys_tables(1) [OF t'(1)] t'(2)] by (simp add: current_fingerprints_def)
    qed
  qed
  then show "linked db'" and "\<not> stale \<Longrightarrow> E db \<union> set (current_fingerprints sha [f]) \<subseteq> E db'"
    and "stale \<Longrightarrow> sd_exposures db' = sd_exposures db" by blast+
qed

lemma record_findings_expose:
  assumes "fold_err (record_finding sha fresh job j mon stale now) fs (db, hit, b) = Inr (db', hit', b')" and "linked db"
  defines "E \<equiv> \<lambda>d. set (exposed_fingerprints (job_installation j) (job_repository j) (gr_key (group_of_job sha j)) d)"
  shows "linked db' \<and> (\<not> stale \<longrightarrow> E db \<union> set (current_fingerprints sha fs) \<subseteq> E db')
     \<and> (stale \<longrightarrow> sd_exposures db' = sd_exposures db)"
  using assms(1,2)
proof (induction fs arbitrary: db hit b)
  case (Cons f fs)
  from Cons.prems(1) obtain db1 hit1 b1 where
    one: "record_finding sha fresh job j mon stale now f (db, hit, b) = Inr (db1, hit1, b1)"
    and rest: "fold_err (record_finding sha fresh job j mon stale now) fs (db1, hit1, b1) = Inr (db', hit', b')"
    by (auto split: sum.splits)
  note r = record_finding_exposes(1) [OF one Cons.prems(2)] record_finding_exposes(2,3) [OF one Cons.prems(2)]
  have "set (current_fingerprints sha (f # fs)) = set (current_fingerprints sha [f]) \<union> set (current_fingerprints sha fs)"
    by (auto simp: current_fingerprints_def)
  then show ?case using Cons.IH [OF rest r(1)] r(2,3) unfolding E_def by (cases stale) (simp, auto)
qed (simp add: current_fingerprints_def)

lemma close_absent_keys:
  assumes "close_absent g job j current gone now db = (ended, db')"
  shows "vkeys db' = vkeys db" "xkeys db' = xkeys db"
proof -
  have "sd_exposures db' = map (\<lambda>(vk, x). (vk, case absent_reason g j current gone db vk x of None \<Rightarrow> x
        | Some why \<Rightarrow> x\<lparr>xp_active := False, xp_closed_at := Some now, xp_closed_reason := Some why, xp_last_job := Some job\<rparr>))
        (sd_exposures db)"
    using assms by (auto simp: close_absent_def)
  then show "xkeys db' = xkeys db" by (rule xkeys_mapped) (auto split: option.splits)
  show "vkeys db' = vkeys db" using assms by (auto simp: close_absent_def vkeys_def)
qed

lemma map_of_mapped: "map_of (map (\<lambda>(k, x). (k, f k x)) xs) k = map_option (f k) (map_of xs k)"
  by (induction xs) auto

lemma close_absent_active:
  assumes "close_absent g job j current gone now db = (ended, db')" and "gr_kind g = EkPullRequest" and "linked db"
  shows "set (exposed_fingerprints (job_installation j) (job_repository j) (gr_key g) db')
       = set (exposed_fingerprints (job_installation j) (job_repository j) (gr_key g) db) \<inter> set current"
proof -
  have m: "map_of (sd_exposures db') k = map_option (\<lambda>x. case absent_reason g j current gone db k x of None \<Rightarrow> x
        | Some why \<Rightarrow> x\<lparr>xp_active := False, xp_closed_at := Some now, xp_closed_reason := Some why, xp_last_job := Some job\<rparr>)
        (map_of (sd_exposures db) k)" for k
    using assms(1) by (auto simp: close_absent_def map_of_mapped)
  have act: "active_in db' (job_installation j) (job_repository j) (gr_key g) vid \<longleftrightarrow>
      active_in db (job_installation j) (job_repository j) (gr_key g) vid \<and> fp \<in> set current"
    if v: "(vid, i', r', fp) \<in> set (vkeys db)" for vid i' r' fp
  proof -
    have "map_of (vkeys db) vid = Some (i', r', fp)" using v assms(3) by (simp add: linked_def)
    then obtain v where w: "map_of (sd_violations db) vid = Some v" "vi_fingerprint v = fp"
      by (auto simp: vkeys_def map_of_mapped)
    show ?thesis
    proof (cases "map_of (sd_exposures db) (vid, gr_key g)")
      case (Some x)
      have "absent_reason g j current gone db (vid, gr_key g) x \<noteq> None \<longleftrightarrow>
          xp_installation x = job_installation j \<and> xp_repository x = job_repository j \<and> xp_active x \<and> fp \<notin> set current"
        using w assms(2) by (auto simp: absent_reason_def)
      then show ?thesis using Some by (auto simp: active_in_def m split: option.splits)
    qed (simp add: active_in_def m)
  qed
  show ?thesis
    unfolding set_eq_iff Int_iff exposed_fingerprints_iff close_absent_keys(1) [OF assms(1)] using act by blast
qed

lemma record_completed_linked:
  assumes "record_completed sha fresh ag job j out st con gone now db = Inr db'" and "linked db"
  shows "linked db'"
  using assms(1)
proof (rule record_completedE)
  fix db1 stale db2 hit blocked ended db3
  assume db1: "db1 = complete_job job st (so_action out) con now db"
    and f: "fold_err (record_finding sha fresh job j (so_monitored out) stale now) (outcome_findings out) (db1, [], [])
       = Inr (db2, hit, blocked)"
    and c: "(if stale then ([], db2) else close_absent (group_of_job sha j) job j
        (current_fingerprints sha (outcome_findings out)) gone now db2) = (ended, db3)"
    and d: "db' = notify_completed ag job j st stale blocked (refresh_statuses now (hit @ ended) db3)"
  have "linked db1" unfolding db1 using assms(2) by (subst linked_cong [OF keys_tables]) (simp_all add: tables)
  then have "linked db2" using record_findings_expose [OF f] by blast
  then have "linked db3"
  proof (cases stale)
    case False
    then show ?thesis using c \<open>linked db2\<close> linked_cong [OF close_absent_keys] by (metis)
  qed (use c in simp)
  then have "linked (refresh_statuses now (hit @ ended) db3)" using linked_cong [OF refresh_statuses_keys] by blast
  then show ?thesis unfolding d by (subst linked_cong [OF keys_tables]) (simp_all add: tables)
qed

text \<open>After the scan of a pull request that no newer scan overtook, the violations exposed in the pull request are exactly
  the ones this scan blocked or warned about.\<close>

lemma pull_request_scan_exact:
  assumes "record_completed sha fresh ag job j out st con gone now db = Inr db'" and "linked db"
    and "nj_event (sj_new j) \<noteq> EvMergeGroup" and "nj_pull_request (sj_new j) = Some n"
    and "\<not> newer_scan_completed j (complete_job job st (so_action out) con now db)"
  shows "set (exposed_fingerprints (job_installation j) (job_repository j) (pr_key n) db')
       = set (current_fingerprints sha (outcome_findings out))"
  using assms(1)
proof (rule record_completedE)
  fix db1 stale db2 hit blocked ended db3
  assume db1: "db1 = complete_job job st (so_action out) con now db" and st: "stale = newer_scan_completed j db1"
    and f: "fold_err (record_finding sha fresh job j (so_monitored out) stale now) (outcome_findings out) (db1, [], [])
       = Inr (db2, hit, blocked)"
    and c: "(if stale then ([], db2) else close_absent (group_of_job sha j) job j
        (current_fingerprints sha (outcome_findings out)) gone now db2) = (ended, db3)"
    and d: "db' = notify_completed ag job j st stale blocked (refresh_statuses now (hit @ ended) db3)"
  let ?g = "group_of_job sha j"
  let ?E = "\<lambda>d. set (exposed_fingerprints (job_installation j) (job_repository j) (pr_key n) d)"
  have g: "gr_key ?g = pr_key n" "gr_kind ?g = EkPullRequest" using assms(3,4) by (simp_all add: group_of_job_def)
  have fresh: "\<not> stale" using assms(5) st db1 by simp
  have "linked db1" unfolding db1 using assms(2) by (subst linked_cong [OF keys_tables]) (simp_all add: tables)
  then have l2: "linked db2" and sub: "set (current_fingerprints sha (outcome_findings out)) \<subseteq> ?E db2"
    using record_findings_expose [OF f] fresh g by auto
  have cl: "close_absent ?g job j (current_fingerprints sha (outcome_findings out)) gone now db2 = (ended, db3)"
    using c fresh by simp
  have "?E db3 = ?E db2 \<inter> set (current_fingerprints sha (outcome_findings out))"
    using close_absent_active [OF cl g(2) l2] g by simp
  moreover have "?E db' = ?E (refresh_statuses now (hit @ ended) db3)" unfolding d
    by (rule exposed_fingerprints_tables) (simp_all add: tables keys_tables(1) [OF notify_completed_tables(2)])
  moreover have "?E (refresh_statuses now (hit @ ended) db3) = ?E db3"
    by (rule exposed_fingerprints_tables) (simp_all add: refresh_statuses_keys tables)
  ultimately show ?thesis using sub by auto
qed

section \<open>Events and commands\<close>

lemma activate_all_linked:
  assumes "linked db" and "\<And>vid. vid \<in> set vids \<Longrightarrow> \<exists>fp. (vid, i, r, fp) \<in> set (vkeys db)"
  shows "linked (foldl (\<lambda>d v. activate_row v g i r job now d) db vids)"
  using assms
proof (induction vids arbitrary: db)
  case (Cons v vids)
  then obtain fp where "(v, i, r, fp) \<in> set (vkeys db)" by auto
  then have "linked (activate_row v g i r job now db)" using Cons.prems(1) activate_row_linked by blast
  moreover have "vkeys (activate_row v g i r job now db) = vkeys db" by (rule keys_tables) (simp add: tables)
  ultimately show ?case using Cons by simp
qed simp

lemma update_exposures_keys:
  assumes "\<And>x. (xp_installation (f x), xp_repository (f x)) = (xp_installation x, xp_repository x)"
  shows "xkeys (update_exposures i r key P f db) = xkeys db" "vkeys (update_exposures i r key P f db) = vkeys db"
proof -
  show "xkeys (update_exposures i r key P f db) = xkeys db"
  proof (rule xkeys_mapped)
    show "sd_exposures (update_exposures i r key P f db) = map (\<lambda>(vk, x). (vk,
        if xp_installation x = i \<and> xp_repository x = r \<and> snd vk = key \<and> P x then f x else x)) (sd_exposures db)"
      by (auto simp: update_exposures_def)
  qed (use assms in auto)
  show "vkeys (update_exposures i r key P f db) = vkeys db" by (rule keys_tables) (simp add: tables)
qed

lemma end_group_linked:
  assumes "linked db"
  shows "linked (end_group i r key why moved now db)"
proof -
  define vids where "vids = remdups (group_exposures i r key xp_active db)"
  define db1 where "db1 = update_exposures i r key xp_active
      (\<lambda>x. x\<lparr>xp_active := False, xp_closed_at := Some now, xp_closed_reason := Some why\<rparr>) db"
  define db2 where "db2 = (case moved of None \<Rightarrow> db1 | Some g \<Rightarrow> foldl (\<lambda>d v. activate_row v g i r None now d) db1 vids)"
  have k: "xkeys db1 = xkeys db" "vkeys db1 = vkeys db" by (simp_all add: db1_def update_exposures_keys)
  then have l1: "linked db1" using assms linked_cong by blast
  have "\<exists>fp. (vid, i, r, fp) \<in> set (vkeys db1)" if "vid \<in> set vids" for vid
  proof -
    from that obtain k x where "((vid, k), x) \<in> set (sd_exposures db)" "xp_installation x = i" "xp_repository x = r"
      by (auto simp: vids_def group_exposures_def)
    then have "((vid, k), i, r) \<in> set (xkeys db)" by (force simp: xkeys_def)
    then show ?thesis using assms k by (fastforce simp: linked_def)
  qed
  then have "linked db2" using l1 activate_all_linked by (cases moved) (simp_all add: db2_def)
  then show ?thesis using linked_cong [OF refresh_statuses_keys]
    by (simp add: end_group_def Let_def db1_def [symmetric] vids_def [symmetric] db2_def [symmetric])
qed

lemma pull_request_reopened_linked: "linked db \<Longrightarrow> linked (pull_request_reopened i r n now db)"
  by (simp add: pull_request_reopened_def Let_def linked_cong [OF refresh_statuses_keys]
      linked_cong [OF update_exposures_keys(2,1)])

text \<open>A command changes no status, no key and no exposure.\<close>

lemma acknowledge_violation_effect:
  assumes "acknowledge_violation clean seen p vid txt now db = Inr db'"
  shows "\<exists>a v. map_of (sd_violations db) vid = Some v \<and> vi_status v = VsOpen
    \<and> sd_violations db' = sd_violations (update_violation vid (\<lambda>x. x\<lparr>vi_acknowledged := Some a, vi_updated_at := now\<rparr>) db)
    \<and> sd_exposures db' = sd_exposures db"
  using assms by (fastforce simp: acknowledge_violation_def violation_row_def audit_scan_def update_violation_def
      split: option.splits sum.splits if_splits)

lemma remove_acknowledgement_effect:
  assumes "remove_acknowledgement seen p vid now db = Inr db'"
  shows "sd_violations db' = sd_violations (update_violation vid (\<lambda>x. x\<lparr>vi_acknowledged := None, vi_updated_at := now\<rparr>) db)
    \<and> sd_exposures db' = sd_exposures db"
  using assms by (auto simp: remove_acknowledgement_def violation_row_def audit_scan_def update_violation_def
      split: option.splits if_splits)

lemma command_effect:
  assumes "sd_violations db' = sd_violations (update_violation w f db)" and "sd_exposures db' = sd_exposures db"
    and f: "\<And>v. vi_status (f v) = vi_status v"
      "\<And>v. (vi_installation (f v), vi_repository (f v), vi_fingerprint (f v)) = (vi_installation v, vi_repository v, vi_fingerprint v)"
  shows "spared db db' vid" and "linked db' = linked db"
proof -
  have "spared db (update_violation w f db) vid"
    using f(1) by (auto simp: spared_def status_of_def exposed_def tables option.map_comp o_def
        intro!: arg_cong [of _ _ "\<lambda>g. map_option g _"])
  moreover have "spared (update_violation w f db) db' vid"
    by (rule spared_tables) (simp_all add: assms(1,2) tables)
  ultimately show "spared db db' vid" by (rule spared_trans)
  have "vkeys db' = vkeys (update_violation w f db)" by (rule keys_tables) (rule assms(1))
  then have "vkeys db' = vkeys db" using vkeys_update_violation [of f w db] f(2) by simp
  moreover have "xkeys db' = xkeys db" by (rule keys_tables) (rule assms(2))
  ultimately show "linked db' = linked db" by (rule linked_cong)
qed

section \<open>Retention\<close>

definition installed_after :: "int \<Rightarrow> scan_db \<Rightarrow> int \<Rightarrow> bool" where
  "installed_after cutoff db i \<longleftrightarrow>
     i \<in> set (map in_id (filter (\<lambda>x. \<not> (in_state x = InDeleted \<and> in_updated_at x < cutoff)) (sd_installations db)))"

definition outdated :: "int \<Rightarrow> violation_row \<Rightarrow> bool" where
  "outdated cutoff v \<longleftrightarrow> vi_status v = VsResolved \<and> vi_updated_at v < cutoff"

lemma purge_violations:
  "sd_violations (purge_scans cutoff db)
     = filter (\<lambda>(_, v). installed_after cutoff db (vi_installation v) \<and> \<not> outdated cutoff v) (sd_violations db)"
  by (auto simp: purge_scans_def Let_def installed_after_def outdated_def intro!: filter_cong)

lemma purge_exposures:
  "sd_exposures (purge_scans cutoff db) = filter (\<lambda>((vid, _), x). installed_after cutoff db (xp_installation x)
     \<and> vid \<notin> fst ` set (filter (\<lambda>(_, v). outdated cutoff v) (sd_violations db))) (sd_exposures db)"
  by (auto simp: purge_scans_def Let_def installed_after_def outdated_def intro!: filter_cong)

lemma linked_owner:
  assumes "linked db" and "((vid, k), x) \<in> set (sd_exposures db)"
  obtains v where "map_of (sd_violations db) vid = Some v" "vi_installation v = xp_installation x" "vi_repository v = xp_repository x"
proof -
  have "((vid, k), xp_installation x, xp_repository x) \<in> set (xkeys db)" using assms(2) by (force simp: xkeys_def)
  then obtain fp where "(vid, xp_installation x, xp_repository x, fp) \<in> set (vkeys db)"
    using assms(1) by (fastforce simp: linked_def)
  then obtain v where "(vid, v) \<in> set (sd_violations db)" "vi_installation v = xp_installation x" "vi_repository v = xp_repository x"
    by (auto simp: vkeys_def)
  moreover have "distinct (map fst (sd_violations db))" using assms(1) by (simp add: linked_def fst_vkeys)
  ultimately show thesis using that by simp
qed

text \<open>An exposure is purged exactly with its violation.\<close>

lemma purge_exposure_iff:
  assumes "linked db" and "map_of (sd_violations db) vid = Some v" and "((vid, k), x) \<in> set (sd_exposures db)"
  shows "((vid, k), x) \<in> set (sd_exposures (purge_scans cutoff db))
     \<longleftrightarrow> (vid, v) \<in> set (sd_violations (purge_scans cutoff db))"
proof -
  have d: "distinct (map fst (sd_violations db))" using assms(1) by (simp add: linked_def fst_vkeys)
  have "vi_installation v = xp_installation x" using linked_owner [OF assms(1,3)] assms(2) by auto
  moreover have "vid \<in> fst ` set (filter (\<lambda>(_, v). outdated cutoff v) (sd_violations db)) \<longleftrightarrow> outdated cutoff v"
  proof
    assume "vid \<in> fst ` set (filter (\<lambda>(_, v). outdated cutoff v) (sd_violations db))"
    then obtain w where "(vid, w) \<in> set (sd_violations db)" "outdated cutoff w" by auto
    then show "outdated cutoff v" using map_of_is_SomeI [OF d] assms(2) by fastforce
  qed (use map_of_SomeD [OF assms(2)] in force)
  ultimately show ?thesis using assms(3) map_of_SomeD [OF assms(2)] by (auto simp: purge_exposures purge_violations)
qed

lemma purge_linked:
  assumes "linked db"
  shows "linked (purge_scans cutoff db)"
proof -
  have d: "distinct (map fst (vkeys (purge_scans cutoff db)))" "distinct (map snd (vkeys (purge_scans cutoff db)))"
    using assms unfolding linked_def vkeys_def map_map purge_violations by (auto intro: distinct_map_filter)
  have x: "distinct (map fst (xkeys (purge_scans cutoff db)))"
    using assms by (simp add: linked_def fst_xkeys purge_exposures distinct_map_filter)
  have "\<exists>fp. (vid, i, r, fp) \<in> set (vkeys (purge_scans cutoff db))"
    if m: "((vid, k), i, r) \<in> set (xkeys (purge_scans cutoff db))" for vid k i r
  proof -
    from m obtain y where y: "((vid, k), y) \<in> set (sd_exposures (purge_scans cutoff db))" "xp_installation y = i" "xp_repository y = r"
      by (auto simp: xkeys_def)
    then have old: "((vid, k), y) \<in> set (sd_exposures db)" by (simp add: purge_exposures)
    from linked_owner [OF assms this] obtain v where
      v: "map_of (sd_violations db) vid = Some v" "vi_installation v = i" "vi_repository v = r" using y by metis
    then have "(vid, v) \<in> set (sd_violations (purge_scans cutoff db))" using purge_exposure_iff [OF assms v(1) old] y by simp
    then show ?thesis using v(2,3) by (force simp: vkeys_def)
  qed
  then show ?thesis using d x by (auto simp: linked_def)
qed

lemma purge_coherent:
  assumes "linked db" and "coherent_at db vid"
  shows "coherent_at (purge_scans cutoff db) vid"
proof (cases "map_of (sd_violations (purge_scans cutoff db)) vid")
  case None
  then show ?thesis by (simp add: coherent_at_def status_of_def)
next
  case (Some v)
  note kept = map_of_SomeD [OF Some]
  have "distinct (map fst (sd_violations db))" using assms(1) by (simp add: linked_def fst_vkeys)
  then have v: "map_of (sd_violations db) vid = Some v" using kept by (simp add: purge_violations)
  have "((vid, k), x) \<in> set (sd_exposures (purge_scans cutoff db)) \<longleftrightarrow> ((vid, k), x) \<in> set (sd_exposures db)" for k x
    using purge_exposure_iff [OF assms(1) v, of k x cutoff] kept by (auto simp: purge_exposures)
  then have "exposed (purge_scans cutoff db) vid = exposed db vid" by (simp add: exposed_iff)
  then show ?thesis using assms(2) Some v by (simp add: coherent_at_def status_of_def)
qed

section \<open>All histories\<close>

inductive vstep :: "(nat list \<Rightarrow> string) \<Rightarrow> scan_db \<Rightarrow> scan_db \<Rightarrow> bool" for sha where
  Completed: "record_completed sha fresh ag job j out st con gone now db = Inr db' \<Longrightarrow> vstep sha db db'"
| GroupDestroyed: "vstep sha db (merge_group_destroyed sha i r head reason base now db)"
| PullRequestClosed: "vstep sha db (pull_request_closed sha i r n merged ref now db)"
| PullRequestReopened: "vstep sha db (pull_request_reopened i r n now db)"
| BranchDeleted: "vstep sha db (branch_deleted sha i r ref' now db)"
| Acknowledged: "acknowledge_violation clean seen p vid txt now db = Inr db' \<Longrightarrow> vstep sha db db'"
| Unacknowledged: "remove_acknowledgement seen p vid now db = Inr db' \<Longrightarrow> vstep sha db db'"
| Purged: "vstep sha db (purge_scans cutoff db)"
| Elsewhere: "sd_violations db' = sd_violations db \<Longrightarrow> sd_exposures db' = sd_exposures db \<Longrightarrow> vstep sha db db'"

inductive vreach :: "(nat list \<Rightarrow> string) \<Rightarrow> scan_db \<Rightarrow> bool" for sha where
  Start: "sd_violations db = [] \<Longrightarrow> sd_exposures db = [] \<Longrightarrow> vreach sha db"
| Step: "vreach sha db \<Longrightarrow> vstep sha db db' \<Longrightarrow> vreach sha db'"

lemma vstep_keeps:
  assumes "vstep sha db db'" and "linked db" and "\<And>vid. coherent_at db vid"
  shows "linked db' \<and> coherent_at db' vid"
  using assms
proof (induction rule: vstep.induct)
  case Completed
  show ?case using record_completed_linked [OF Completed(1,2)] record_completed_coherent [OF Completed(1,3)] by blast
next
  case (Acknowledged clean seen p w words now db db')
  from acknowledge_violation_effect [OF Acknowledged(1)] obtain a where
    e: "sd_violations db' = sd_violations (update_violation w (\<lambda>x. x\<lparr>vi_acknowledged := Some a, vi_updated_at := now\<rparr>) db)"
      "sd_exposures db' = sd_exposures db" by blast
  have "spared db db' vid" "linked db' = linked db" by (rule command_effect [OF e]; simp)+
  then show ?case using Acknowledged.prems spared_coherent by blast
next
  case (Unacknowledged seen p w now db db')
  note e = remove_acknowledgement_effect [OF Unacknowledged(1)]
  have "spared db db' vid" "linked db' = linked db" by (rule command_effect [OF conjunct1 [OF e] conjunct2 [OF e]]; simp)+
  then show ?case using Unacknowledged.prems spared_coherent by blast
next
  case (Elsewhere db' db)
  then show ?case using spared_coherent [OF spared_tables [OF Elsewhere(2,1)]] linked_keys [OF keys_tables(1)] by blast
qed (simp_all add: merge_group_destroyed_def pull_request_closed_def branch_deleted_def Let_def end_group_linked
    end_group_coherent pull_request_reopened_linked pull_request_reopened_coherent purge_linked purge_coherent)

lemma vreach_keeps: "vreach sha db \<Longrightarrow> linked db \<and> (\<forall>vid. coherent_at db vid)"
proof (induction rule: vreach.induct)
  case (Start db)
  then show ?case by (simp add: linked_def vkeys_def xkeys_def coherent_at_def status_of_def)
next
  case (Step db db')
  then show ?case using vstep_keeps by blast
qed

lemma open_exposed_at:
  assumes "vreach sha db" and "(vid, v) \<in> set (sd_violations db)"
  shows "vi_status v = VsOpen \<longleftrightarrow> exposed db vid"
proof -
  note k = vreach_keeps [OF assms(1)]
  have "map_of (sd_violations db) vid = Some v" using assms(2) k by (simp add: linked_def fst_vkeys)
  then show ?thesis using conjunct2 [OF k, rule_format, of vid] by (auto simp: coherent_at_def status_of_def split: if_splits)
qed

text \<open>C4: Over every history of scans, events, commands and purges, a violation is open exactly while one of its exposures is
  active, and there is at most one violation per repository and fingerprint.\<close>

theorem open_iff_exposed:
  assumes "vreach sha db" and "(vid, v) \<in> set (sd_violations db)"
  shows "(vi_status v = VsOpen \<longleftrightarrow> exposed db vid)
     \<and> find_violation db (vi_installation v) (vi_repository v) (vi_fingerprint v) = Some (vid, v)"
proof -
  have u: "distinct (map snd (vkeys db))" using vreach_keeps [OF assms(1)] by (simp add: linked_def)
  have "find_violation db (vi_installation v) (vi_repository v) (vi_fingerprint v) \<noteq> None"
    using assms(2) by (auto simp: find_violation_def find_None_iff)
  then obtain w x where f: "find_violation db (vi_installation v) (vi_repository v) (vi_fingerprint v) = Some (w, x)" by auto
  have "distinct (map (\<lambda>(k, v). (vi_installation v, vi_repository v, vi_fingerprint v)) (sd_violations db))"
    using u by (simp add: vkeys_def o_def case_prod_beta')
  then have "(w, x) = (vid, v)"
    using find_violation_Some [OF f] assms(2) by (auto simp: distinct_map inj_on_def)
  then show ?thesis using open_exposed_at [OF assms] f by simp
qed

section \<open>A violation that appears again is reviewed again\<close>

text \<open>A row may be opened only by clearing its acknowledgement; apart from that an open row keeps it.\<close>

definition reviewable :: "violation_row \<Rightarrow> violation_row \<Rightarrow> bool" where
  "reviewable v v' \<longleftrightarrow> (vi_status v' = VsOpen \<longrightarrow>
     vi_acknowledged v' = None \<or> vi_status v = VsOpen \<and> vi_acknowledged v' = vi_acknowledged v)"

lemma reviewable_trans: "reviewable v v' \<Longrightarrow> reviewable v' v'' \<Longrightarrow> reviewable v v''"
  by (auto simp: reviewable_def)

definition rows_reviewable :: "scan_db \<Rightarrow> scan_db \<Rightarrow> bool" where
  "rows_reviewable db db' \<longleftrightarrow> (\<forall>vid v. map_of (sd_violations db) vid = Some v \<longrightarrow>
     (\<exists>v'. map_of (sd_violations db') vid = Some v' \<and> reviewable v v'))"

lemma rows_reviewable_trans [trans]: "rows_reviewable a b \<Longrightarrow> rows_reviewable b c \<Longrightarrow> rows_reviewable a c"
  unfolding rows_reviewable_def using reviewable_trans by blast

lemma rows_reviewable_same: "sd_violations db' = sd_violations db \<Longrightarrow> rows_reviewable db db'"
  by (auto simp: rows_reviewable_def reviewable_def)

lemma update_violation_reviewable: "(\<And>v. reviewable v (f v)) \<Longrightarrow> rows_reviewable db (update_violation vid f db)"
  by (auto simp: rows_reviewable_def tables) (auto simp: reviewable_def)

lemma refresh_status_reviewable: "rows_reviewable db (refresh_status now db vid)"
proof -
  have "rows_reviewable db (audit_scan e (update_violation vid f db))" if "\<And>v. reviewable v (f v)" for e f
    using rows_reviewable_trans [OF update_violation_reviewable [OF that] rows_reviewable_same]
    by (simp add: tables)
  then show ?thesis
    by (auto simp: refresh_status_def reviewable_def reopened_def rows_reviewable_same split: option.splits)
qed

lemma refresh_statuses_reviewable: "rows_reviewable db (refresh_statuses now vids db)"
proof -
  have "rows_reviewable db (foldl (refresh_status now) db xs)" for xs
  proof (induction xs arbitrary: db)
    case (Cons v xs)
    then show ?case using rows_reviewable_trans [OF refresh_status_reviewable Cons.IH] by simp
  qed (simp add: rows_reviewable_same)
  then show ?thesis by (simp add: refresh_statuses_def)
qed

lemma upsert_violation_reviewable:
  assumes "upsert_violation sha fresh job j f now stale db = Inr (w, ev, db')"
  shows "rows_reviewable db db'"
proof (cases "find_violation db (job_installation j) (job_repository j) (finding_fingerprint sha (ef_finding f))")
  case None
  with assms have "sd_violations db' = sd_violations db @ [(w, new_violation sha job j f now)]"
    by (auto simp: upsert_violation_def Let_def split: if_splits)
  then show ?thesis by (auto simp: rows_reviewable_def reviewable_def map_add_def)
next
  case (Some x)
  define seen where "seen = (\<lambda>x :: violation_row. x\<lparr>vi_last_detected_at := now, vi_last_job := job, vi_detections := vi_detections x + 1,
    vi_action := ef_action f, vi_severity := fd_severity (ef_finding f), vi_updated_at := now\<rparr>)"
  have "rows_reviewable db (update_violation (fst x) seen db)"
    by (rule update_violation_reviewable) (simp add: seen_def reviewable_def)
  moreover have "rows_reviewable (update_violation (fst x) seen db) (update_violation (fst x) reopened (update_violation (fst x) seen db))"
    by (rule update_violation_reviewable) (simp add: reopened_def reviewable_def)
  ultimately show ?thesis using assms Some rows_reviewable_trans
    by (cases x) (auto simp: upsert_violation_def Let_def seen_def split: if_splits)
qed

lemma record_finding_reviewable:
  assumes "record_finding sha fresh job j mon stale now f (db, hit, b) = Inr (db', hit', b')"
  shows "rows_reviewable db db'"
proof (cases "tracked (ef_action f)")
  case False
  with assms show ?thesis by (auto simp: record_finding_def tables intro: rows_reviewable_same)
next
  case True
  with assms obtain w ev db1 where up: "upsert_violation sha fresh job j f now stale db = Inr (w, ev, db1)"
    by (auto simp: record_finding_def split: sum.splits)
  have "sd_violations db' = sd_violations db1"
    using assms True up by (auto simp: record_finding_def Let_def tables split: if_splits option.splits)
  then show ?thesis using rows_reviewable_trans [OF upsert_violation_reviewable [OF up] rows_reviewable_same] by simp
qed

lemma record_completed_reviewable:
  assumes "record_completed sha fresh ag job j out st con gone now db = Inr db'"
  shows "rows_reviewable db db'"
  using assms
proof (rule record_completedE)
  fix db1 stale db2 hit blocked ended db3
  assume db1: "db1 = complete_job job st (so_action out) con now db"
    and f: "fold_err (record_finding sha fresh job j (so_monitored out) stale now) (outcome_findings out) (db1, [], [])
       = Inr (db2, hit, blocked)"
    and c: "(if stale then ([], db2) else close_absent (group_of_job sha j) job j
        (current_fingerprints sha (outcome_findings out)) gone now db2) = (ended, db3)"
    and d: "db' = notify_completed ag job j st stale blocked (refresh_statuses now (hit @ ended) db3)"
  have "rows_reviewable db db1" by (rule rows_reviewable_same) (simp add: db1 tables)
  also have "rows_reviewable db1 db2"
  proof -
    have "(\<lambda>(d, _, _). rows_reviewable db1 d) (db2, hit, blocked)"
      using f
    proof (rule fold_err_invariant)
      fix x s s' assume "(\<lambda>(d, _, _). rows_reviewable db1 d) s"
        and "record_finding sha fresh job j (so_monitored out) stale now x s = Inr s'"
      then show "(\<lambda>(d, _, _). rows_reviewable db1 d) s'"
        by (cases s; cases s') (use record_finding_reviewable rows_reviewable_trans in fastforce)
    qed (simp add: rows_reviewable_same)
    then show ?thesis by simp
  qed
  also have "rows_reviewable db2 db3"
    by (rule rows_reviewable_same) (use c in \<open>auto simp: close_absent_def split: if_splits\<close>)
  also have "rows_reviewable db3 (refresh_statuses now (hit @ ended) db3)" by (rule refresh_statuses_reviewable)
  also have "rows_reviewable (refresh_statuses now (hit @ ended) db3) db'"
    by (rule rows_reviewable_same) (simp add: d tables)
  finally show ?thesis .
qed

lemma activate_all_violations:
  "sd_violations (foldl (\<lambda>d v. activate_row v g i r job now d) db vids) = sd_violations db"
  by (induction vids arbitrary: db) (simp_all add: tables)

lemma end_group_reviewable: "rows_reviewable db (end_group i r key why moved now db)"
  unfolding end_group_def Let_def
  by (rule rows_reviewable_trans [OF rows_reviewable_same refresh_statuses_reviewable])
    (simp add: tables activate_all_violations split: option.split)

lemma pull_request_reopened_reviewable: "rows_reviewable db (pull_request_reopened i r n now db)"
  unfolding pull_request_reopened_def Let_def
  by (rule rows_reviewable_trans [OF rows_reviewable_same refresh_statuses_reviewable]) (simp add: tables)

lemma vstep_statuses:
  assumes "vstep sha db db'" and "linked db"
  shows "rows_reviewable db db' \<or> (\<forall>vid v v'. map_of (sd_violations db) vid = Some v
    \<longrightarrow> map_of (sd_violations db') vid = Some v' \<longrightarrow> vi_status v' = vi_status v)"
  using assms
proof (induction rule: vstep.induct)
  case Completed
  then show ?case using record_completed_reviewable by blast
next
  case (Acknowledged clean seen p w words now db db')
  from acknowledge_violation_effect [OF Acknowledged(1)] obtain a where
    "sd_violations db' = sd_violations (update_violation w (\<lambda>x. x\<lparr>vi_acknowledged := Some a, vi_updated_at := now\<rparr>) db)" by blast
  then show ?case by (simp add: tables)
next
  case (Unacknowledged seen p w now db db')
  then show ?case using remove_acknowledgement_effect [OF Unacknowledged(1)] by (simp add: tables)
next
  case (Purged db cutoff)
  then have d: "distinct (map fst (sd_violations db))" by (simp add: linked_def fst_vkeys)
  have "map_of (sd_violations db) vid = Some v" if "map_of (sd_violations (purge_scans cutoff db)) vid = Some v" for vid v
    using map_of_SomeD [OF that] d by (simp add: purge_violations)
  then show ?case by fastforce
next
  case Elsewhere
  then show ?case using rows_reviewable_same by blast
qed (simp_all add: merge_group_destroyed_def pull_request_closed_def branch_deleted_def Let_def
    end_group_reviewable pull_request_reopened_reviewable)

text \<open>C19: Whatever reopens a resolved violation, a scan, a reopened pull request or a merge, clears the acknowledgement of the
  earlier occurrence, and no command of a user opens or resolves one.\<close>

theorem reopened_is_unacknowledged:
  assumes "vreach sha db" and "vstep sha db db'"
    and "map_of (sd_violations db) vid = Some v" and "vi_status v = VsResolved"
    and "map_of (sd_violations db') vid = Some v'" and "vi_status v' = VsOpen"
  shows "vi_acknowledged v' = None"
  using vstep_statuses [OF assms(2)] vreach_keeps [OF assms(1)] assms(3-6)
  by (fastforce simp: rows_reviewable_def reviewable_def)

text \<open>C20: A scan that a newer completed scan of the same pull request, branch or merge group overtook ends and starts no
  exposure, and leaves every violation open or resolved as it was; what it alone found is resolved at once.\<close>

theorem stale_scan_changes_nothing:
  assumes "vreach sha db" and "record_completed sha fresh ag job j out st con gone now db = Inr db'"
    and "newer_scan_completed j (complete_job job st (so_action out) con now db)"
    and "(vid, v) \<in> set (sd_violations db')"
  shows "sd_exposures db' = sd_exposures db
     \<and> vi_status v = (case map_of (sd_violations db) vid of None \<Rightarrow> VsResolved | Some w \<Rightarrow> vi_status w)"
proof -
  note k = vreach_keeps [OF assms(1)]
  have same: "sd_exposures db' = sd_exposures db"
    using assms(2)
  proof (rule record_completedE)
    fix db1 stale db2 hit blocked ended db3
    assume db1: "db1 = complete_job job st (so_action out) con now db" and st: "stale = newer_scan_completed j db1"
      and f: "fold_err (record_finding sha fresh job j (so_monitored out) stale now) (outcome_findings out) (db1, [], [])
         = Inr (db2, hit, blocked)"
      and c: "(if stale then ([], db2) else close_absent (group_of_job sha j) job j
          (current_fingerprints sha (outcome_findings out)) gone now db2) = (ended, db3)"
      and d: "db' = notify_completed ag job j st stale blocked (refresh_statuses now (hit @ ended) db3)"
    have "linked db1" unfolding db1 using conjunct1 [OF k] by (subst linked_cong [OF keys_tables]) (simp_all add: tables)
    then have "sd_exposures db2 = sd_exposures db1" using record_findings_expose [OF f] assms(3) st db1 by simp
    then show ?thesis using c assms(3) st db1 by (auto simp: d tables)
  qed
  have "vreach sha db'" using assms(1) Completed [OF assms(2)] by (rule Step)
  then have now_open: "vi_status v = VsOpen \<longleftrightarrow> exposed db vid"
    using open_exposed_at [OF _ assms(4)] exposed_cong [OF same] by blast
  have s: "vi_status x \<in> {VsOpen, VsResolved}" for x by (cases "vi_status x") auto
  show ?thesis
  proof (cases "map_of (sd_violations db) vid")
    case None
    have "\<not> exposed db vid"
    proof
      assume "exposed db vid"
      then obtain k x where "((vid, k), x) \<in> set (sd_exposures db)" by (auto simp: exposed_iff)
      then show False using linked_owner [OF conjunct1 [OF k]] None by (metis option.distinct(1))
    qed
    then show ?thesis using same now_open None s [of v] by auto
  next
    case (Some w)
    have "vi_status w = VsOpen \<longleftrightarrow> exposed db vid"
      using conjunct2 [OF k, rule_format, of vid] Some by (auto simp: coherent_at_def status_of_def split: if_splits)
    then show ?thesis using same now_open Some s [of v] s [of w] by auto
  qed
qed

text \<open>C5: The newest scan of a pull request is what its violations say: exposed in it are exactly the findings this scan
  blocked or warned about, and each of these violations is open.\<close>

theorem pull_request_reflects_scan:
  assumes "vreach sha db" and "record_completed sha fresh ag job j out st con gone now db = Inr db'"
    and "nj_event (sj_new j) = EvPullRequest" and "nj_pull_request (sj_new j) = Some n"
    and "\<not> newer_scan_completed j (complete_job job st (so_action out) con now db)"
  shows "set (exposed_fingerprints (job_installation j) (job_repository j) (pr_key n) db')
       = set (current_fingerprints sha (outcome_findings out))
     \<and> set (current_fingerprints sha (outcome_findings out)) \<subseteq> vi_fingerprint ` {v \<in> snd ` set (sd_violations db').
         vi_status v = VsOpen \<and> vi_installation v = job_installation j \<and> vi_repository v = job_repository j}"
proof -
  let ?E = "set (exposed_fingerprints (job_installation j) (job_repository j) (pr_key n) db')"
  have eq: "?E = set (current_fingerprints sha (outcome_findings out))"
    using pull_request_scan_exact [OF assms(2) _ _ assms(4,5)] vreach_keeps [OF assms(1)] assms(3) by simp
  have r: "vreach sha db'" using assms(1) Completed [OF assms(2)] by (rule Step)
  have "fp \<in> vi_fingerprint ` {v \<in> snd ` set (sd_violations db'). vi_status v = VsOpen
      \<and> vi_installation v = job_installation j \<and> vi_repository v = job_repository j}" if "fp \<in> ?E" for fp
  proof -
    from that obtain vid v where v: "(vid, v) \<in> set (sd_violations db')" "vi_fingerprint v = fp"
      and a: "active_in db' (job_installation j) (job_repository j) (pr_key n) vid"
      by (auto simp: exposed_fingerprints_def map_filter_def split: if_splits)
    from a obtain x where x: "((vid, pr_key n), x) \<in> set (sd_exposures db')" "xp_active x"
      "xp_installation x = job_installation j" "xp_repository x = job_repository j"
      by (auto simp: active_in_def split: option.splits dest: map_of_SomeD)
    then have "vi_status v = VsOpen" using open_exposed_at [OF r v(1)] by (auto simp: exposed_iff)
    moreover have "vi_installation v = job_installation j" "vi_repository v = job_repository j"
    proof -
      note k = conjunct1 [OF vreach_keeps [OF r]]
      obtain w where w: "map_of (sd_violations db') vid = Some w" "vi_installation w = xp_installation x"
        "vi_repository w = xp_repository x" using linked_owner [OF k x(1)] by metis
      moreover have "w = v" using w v k map_of_is_SomeI [of "sd_violations db'" vid v] by (simp add: linked_def fst_vkeys)
      ultimately show "vi_installation v = job_installation j" "vi_repository v = job_repository j" using x by simp_all
    qed
    ultimately show ?thesis using v by force
  qed
  then show ?thesis using eq by auto
qed

section \<open>Examples\<close>

definition empty_scan_db :: scan_db where
  "empty_scan_db = \<lparr>sd_installations = [], sd_monitoring = [], sd_listed = [], sd_known = [], sd_deliveries = [],
     sd_sequence = 0, sd_jobs = [], sd_checks = [], sd_groups = [], sd_violations = [], sd_exposures = [],
     sd_findings = [], sd_audit = [], sd_outbox = []\<rparr>"

definition plain_hash :: "nat list \<Rightarrow> string" where
  "plain_hash bytes = ''f''"

definition sample_finding :: evaluated_finding where
  "sample_finding = \<lparr>ef_finding = \<lparr>fd_detector = ''d'', fd_rule_id = ''r'', fd_severity = SevHigh, fd_confidence = ConfHigh,
      fd_title = [], fd_message = [], fd_evidence = [], fd_commit_sha = None, fd_remediation = []\<rparr>,
     ef_action = BLOCK, ef_policy_id = None, ef_reason = []\<rparr>"

definition sample_outcome :: scan_outcome where
  "sample_outcome = \<lparr>so_commits = [\<lparr>cr_commit_sha = None, cr_short_sha = [], cr_subject = [], cr_action = BLOCK,
      cr_findings = [sample_finding], cr_failures = [], cr_detectors_run = [], cr_detectors_skipped = []\<rparr>],
     so_action = BLOCK, so_allowed = False, so_monitored = []\<rparr>"

definition sample_new_job :: new_job where
  "sample_new_job = \<lparr>nj_key = ''k'', nj_installation = 10, nj_repository = 20, nj_owner = [], nj_name = [],
     nj_delivery = None, nj_event = EvPullRequest, nj_group = pr_key 5, nj_head_sha = ''c0ffee'', nj_check_name = ''n'',
     nj_pull_request = Some 5,
     nj_context = \<lparr>cx_ref = None, cx_base_sha = None, cx_head_sha = None, cx_before_sha = None, cx_after_sha = None\<rparr>,
     nj_requested_by = None\<rparr>"

definition sample_job :: scan_job where
  "sample_job = \<lparr>sj_sequence = 1, sj_new = sample_new_job, sj_state = JsRunning, sj_attempts = 1, sj_created_at = 0,
     sj_updated_at = 0, sj_lease = Some 1800, sj_check_run = None, sj_action = None, sj_conclusion = None,
     sj_failure = None, sj_message = None, sj_started_at = Some 0, sj_completed_at = None, sj_scan_key = ''k'',
     sj_execution = 1, sj_trigger = TrPullRequest, sj_previous = None\<rparr>"

definition found_once :: "cp_error + scan_db" where
  "found_once = record_completed plain_hash (\<lambda>_. ''v'') (\<lambda>_. False) ''j'' sample_job sample_outcome JsFailed ''failure'' [] 9 empty_scan_db"

definition found_row :: violation_row where
  "found_row = \<lparr>vi_installation = 10, vi_repository = 20, vi_fingerprint = ''f'', vi_rule = ''r'', vi_severity = SevHigh,
     vi_action = BLOCK, vi_commit = None, vi_status = VsOpen, vi_first_detected_at = 9, vi_last_detected_at = 9,
     vi_first_job = ''j'', vi_last_job = ''j'', vi_detections = 1, vi_resolved_at = None, vi_resolution = None,
     vi_acknowledged = None, vi_updated_at = 9\<rparr>"

definition found_exposure :: exposure_row where
  "found_exposure = \<lparr>xp_installation = 10, xp_repository = 20, xp_kind = EkPullRequest, xp_active = True,
     xp_first_job = Some ''j'', xp_last_job = Some ''j'', xp_opened_at = 9, xp_closed_at = None, xp_closed_reason = None\<rparr>"

definition found_db :: scan_db where
  "found_db = empty_scan_db\<lparr>sd_violations := [(''v'', found_row)], sd_exposures := [((''v'', pr_key 5), found_exposure)],
     sd_findings := [\<lparr>fr_job = ''j'', fr_installation = 10, fr_repository = 20, fr_violation = Some ''v'',
       fr_fingerprint = ''f'', fr_commit = None, fr_rule = ''r'', fr_severity = SevHigh, fr_action = BLOCK, fr_created_at = 9\<rparr>],
     sd_audit := [AuViolationOpened ''v'']\<rparr>"

lemma found: "found_once = Inr found_db"
  by code_simp

lemma empty_vreach: "vreach sha empty_scan_db"
  by (rule Start) (simp_all add: empty_scan_db_def)

lemma found_vreach: "vreach plain_hash found_db"
  using Step [OF empty_vreach Completed [OF found [unfolded found_once_def]]] .

theorem open_iff_exposed_witness:
  "\<exists>v. (''v'', v) \<in> set (sd_violations found_db) \<and> exposed found_db ''v''"
proof -
  have "(''v'', found_row) \<in> set (sd_violations found_db)" by (simp add: found_db_def)
  with open_iff_exposed [OF found_vreach this] show ?thesis by (auto simp: found_row_def)
qed

theorem pull_request_reflects_scan_witness:
  "set (exposed_fingerprints 10 20 (pr_key 5) found_db) = {''f''}"
proof -
  have "\<not> newer_scan_completed sample_job (complete_job ''j'' JsFailed (so_action sample_outcome) ''failure'' 9 empty_scan_db)"
    by code_simp
  moreover have "set (current_fingerprints plain_hash (outcome_findings sample_outcome)) = {''f''}" by code_simp
  moreover have "nj_event (sj_new sample_job) = EvPullRequest" "nj_pull_request (sj_new sample_job) = Some 5"
    "job_installation sample_job = 10" "job_repository sample_job = 20"
    by (simp_all add: sample_job_def sample_new_job_def)
  ultimately show ?thesis
    using pull_request_reflects_scan [OF empty_vreach found [unfolded found_once_def]] by simp
qed

text \<open>The pull request is closed, and opened again with the same commits.\<close>

definition closed_db :: scan_db where
  "closed_db = found_db\<lparr>sd_violations := [(''v'', found_row\<lparr>vi_status := VsResolved, vi_resolved_at := Some 15,
       vi_resolution := Some (CrPullRequestClosed 5), vi_updated_at := 15\<rparr>)],
     sd_exposures := [((''v'', pr_key 5), found_exposure\<lparr>xp_active := False, xp_closed_at := Some 15,
       xp_closed_reason := Some (CrPullRequestClosed 5)\<rparr>)],
     sd_audit := [AuViolationOpened ''v'', AuViolationResolved ''v'' (CrPullRequestClosed 5)]\<rparr>"

lemma closing: "pull_request_closed plain_hash 10 20 5 False None 15 found_db = closed_db"
  by code_simp

theorem reopened_is_unacknowledged_witness:
  "map_option vi_acknowledged (map_of (sd_violations (pull_request_reopened 10 20 5 30 closed_db)) ''v'') = Some None"
proof -
  let ?db = "pull_request_reopened 10 20 5 30 closed_db"
  have a: "map_of (sd_violations closed_db) ''v'' = Some (found_row\<lparr>vi_status := VsResolved, vi_resolved_at := Some 15,
       vi_resolution := Some (CrPullRequestClosed 5), vi_updated_at := 15\<rparr>)" by (simp add: closed_db_def)
  have b: "map_option vi_status (map_of (sd_violations ?db) ''v'') = Some VsOpen" by code_simp
  have "vreach plain_hash closed_db" using Step [OF found_vreach PullRequestClosed] closing by metis
  then show ?thesis using reopened_is_unacknowledged [OF _ PullRequestReopened a] b by auto
qed

text \<open>A job that is in the table as the newer, completed one.\<close>

definition overtaken_db :: scan_db where
  "overtaken_db = empty_scan_db\<lparr>sd_jobs := [(''n'', sample_job\<lparr>sj_sequence := 2, sj_state := JsPassed\<rparr>)]\<rparr>"

definition late_db :: scan_db where
  "late_db = overtaken_db\<lparr>sd_violations := [(''v'', found_row\<lparr>vi_status := VsResolved, vi_resolved_at := Some 9,
       vi_resolution := Some CrNotPresent\<rparr>)], sd_findings := sd_findings found_db,
     sd_audit := [AuViolationOpened ''v'', AuViolationResolved ''v'' CrNotPresent]\<rparr>"

lemma late: "record_completed plain_hash (\<lambda>_. ''v'') (\<lambda>_. False) ''j'' sample_job sample_outcome JsFailed ''failure'' [] 9 overtaken_db
    = Inr late_db"
  by code_simp

theorem stale_scan_changes_nothing_witness:
  "sd_exposures late_db = [] \<and> VsResolved \<in> vi_status ` snd ` set (sd_violations late_db)"
proof -
  obtain v where v: "(''v'', v) \<in> set (sd_violations late_db)" by (auto simp: late_db_def)
  have r: "vreach plain_hash overtaken_db" by (rule Start) (simp_all add: overtaken_db_def empty_scan_db_def)
  have "newer_scan_completed sample_job (complete_job ''j'' JsFailed (so_action sample_outcome) ''failure'' 9 overtaken_db)"
    by code_simp
  from stale_scan_changes_nothing [OF r late this v]
  have "sd_exposures late_db = [] \<and> vi_status v = VsResolved" by (simp add: overtaken_db_def empty_scan_db_def)
  then show ?thesis using v by force
qed

section \<open>A scan that ends after its pull request\<close>

text \<open>Closing a pull request cancels its queued scans, not one that is running. When that one completes, it exposes its
  findings in the closed pull request again, where no later scan and no second closing ends them.\<close>

lemma late_scan_reexposes:
  assumes "vreach sha db" and "nj_event (sj_new j) = EvPullRequest" and "nj_pull_request (sj_new j) = Some n"
    and "record_completed sha fresh ag job j out st con gone now
      (pull_request_closed sha (job_installation j) (job_repository j) n merged base t db) = Inr db'"
    and "\<not> newer_scan_completed j (complete_job job st (so_action out) con now
      (pull_request_closed sha (job_installation j) (job_repository j) n merged base t db))"
    and "f \<in> set (outcome_findings out)" and "tracked (ef_action f)"
  shows "finding_fingerprint sha (ef_finding f) \<in> set (exposed_fingerprints (job_installation j) (job_repository j) (pr_key n) db')"
proof -
  let ?c = "pull_request_closed sha (job_installation j) (job_repository j) n merged base t db"
  have "vreach sha ?c" using assms(1) PullRequestClosed by (rule Step)
  then have "set (exposed_fingerprints (job_installation j) (job_repository j) (pr_key n) db')
      = set (current_fingerprints sha (outcome_findings out))"
    using pull_request_scan_exact [OF assms(4) _ _ assms(3,5)] vreach_keeps assms(2) by simp
  then show ?thesis using assms(6,7) by (auto simp: current_fingerprints_def)
qed

end
