(* ===== verification/Scan_Worker.thy ===== *)
theory Scan_Worker
  imports Violation_Safety
begin

text \<open>
  The worker that turns a stored job into a check run on GitHub (\<open>github/worker.py\<close>). A worker is a process that holds the
  job as it was claimed and goes through the phases of \<open>_run\<close>; every transaction and every call of GitHub or Git is one
  step, so that workers, webhooks and commands interleave. What GitHub, Git and the scan answer is the reply of a step.
  The lock of a slot makes claiming it and creating its check run one step, and checking the owner and updating the run
  another; it holds within one process, which is how the service is deployed. Texts of outputs are left out.
\<close>

section \<open>Check runs on GitHub\<close>

record check_run =
  rn_repository :: int
  rn_head :: string
  rn_name :: string
  rn_status :: string
  rn_conclusion :: "string option"
  rn_writer :: nat

type_synonym runs = "(int \<times> check_run) list"

text \<open>GitHub replaces the status and the conclusion of the run; an update of a run it does not know is refused.\<close>

definition update_run :: "int \<Rightarrow> string \<Rightarrow> string option \<Rightarrow> nat \<Rightarrow> runs \<Rightarrow> runs" where
  "update_run rid status conclusion writer =
     map (\<lambda>(k, x). (k, if k = rid then x\<lparr>rn_status := status, rn_conclusion := conclusion, rn_writer := writer\<rparr> else x))"

section \<open>Ending a job early\<close>

definition JOB_LEASE_SECONDS :: int where "JOB_LEASE_SECONDS = 1800"
definition MAX_JOB_ATTEMPTS :: nat where "MAX_JOB_ATTEMPTS = 3"

datatype stale_reason = SrPaused | SrNewerEvent | SrCheckOwner | SrGroupGone | SrNotOpen

fun stale_text :: "stale_reason \<Rightarrow> string" where
  "stale_text SrPaused = ''CommitGuard monitoring is paused for this repository''"
| "stale_text SrNewerEvent = ''a newer event for this pull request is waiting to be scanned''"
| "stale_text SrCheckOwner = ''a newer scan owns the check for this commit''"
| "stale_text SrGroupGone = ''the merge queue no longer waits for this merge group''"
| "stale_text SrNotOpen = ''the pull request is no longer open''"

definition superseded :: "stale_reason \<Rightarrow> bool" where
  "superseded r \<longleftrightarrow> r = SrNewerEvent \<or> r = SrCheckOwner \<or> r = SrGroupGone"

definition cancel_job :: "string \<Rightarrow> stale_reason \<Rightarrow> int \<Rightarrow> scan_db \<Rightarrow> scan_db" where
  "cancel_job i r now db = audit_scan (AuScanCancelled i (stale_text r))
     (update_job i (\<lambda>x. x\<lparr>sj_state := JsCancelled, sj_message := Some (stale_text r),
        sj_failure := (if superseded r then Some JfStale else None), sj_lease := None, sj_completed_at := Some now,
        sj_updated_at := now\<rparr>) db)"

text \<open>Failures that someone waits for.\<close>

definition notify_failure :: "string \<Rightarrow> scan_job \<Rightarrow> scan_db \<Rightarrow> scan_db" where
  "notify_failure i j db =
     (case account_of_installation db (job_installation j) of
        None \<Rightarrow> db
      | Some account \<Rightarrow>
          if nj_event (sj_new j) = EvMergeGroup then notify_scan (NoMergeQueueFailure account i) db
          else if sj_trigger j = TrRerun then notify_scan (NoRerunFailed account i) db else db)"

definition fail_job :: "string \<Rightarrow> scan_job \<Rightarrow> failure_kind \<Rightarrow> string \<Rightarrow> int \<Rightarrow> scan_db \<Rightarrow> scan_db" where
  "fail_job i j kind reason now db = audit_scan (AuScanFailed i kind)
     (notify_failure i j (update_job i (\<lambda>x. x\<lparr>sj_state := JsError, sj_failure := Some (JfKind kind),
        sj_message := Some reason, sj_lease := None, sj_completed_at := Some now, sj_updated_at := now\<rparr>) db))"

definition failure_conclusion :: "failure_kind \<Rightarrow> string" where
  "failure_conclusion kind = (if kind = FkTimeout then ''timed_out'' else ''failure'')"

section \<open>The phases of a worker\<close>

definition slot_of :: "scan_job \<Rightarrow> slot" where
  "slot_of j = (job_installation j, job_repository j, job_head j, job_check_name j)"

definition denial_reason :: "scan_db \<Rightarrow> int \<Rightarrow> string option" where
  "denial_reason db i =
     (case installation_of db i of
        None \<Rightarrow> None
      | Some x \<Rightarrow> if in_state x = InDeleted then Some ''installation removed''
                  else if in_state x = InSuspended then Some ''installation suspended'' else None)"

datatype phase =
    Started
  | Gated
  | AwaitPull
  | Authorized
  | Slotted int
  | Tracked int
  | Planned int
  | InProgress int
  | Scanned int scan_outcome enforcement_decision
  | Published int scan_outcome enforcement_decision
  | Failing int failure_kind

fun phase_run :: "phase \<Rightarrow> int option" where
  "phase_run (Slotted r) = Some r"
| "phase_run (Tracked r) = Some r"
| "phase_run (Planned r) = Some r"
| "phase_run (InProgress r) = Some r"
| "phase_run (Scanned r _ _) = Some r"
| "phase_run (Published r _ _) = Some r"
| "phase_run (Failing r _) = Some r"
| "phase_run _ = None"

text \<open>What the outside answers: the call raised an error that is classified as \<open>kind\<close>, or its value.\<close>

datatype reply =
    RpRaised failure_kind string
  | RpDone
  | RpRepository "installation_row option" ustr ustr
  | RpPull bool
  | RpCreated int string
  | RpPlan "string option"
  | RpScan scan_outcome enforcement_decision
  | RpRecord "string \<Rightarrow> string" "string list"

text \<open>Before anything else: monitoring and the merge group.\<close>

definition gate :: "scan_job \<Rightarrow> scan_db \<Rightarrow> stale_reason option" where
  "gate j db =
     (if \<not> monitoring_enabled db (job_installation j) (job_repository j) then Some SrPaused
      else if nj_event (sj_new j) = EvMergeGroup
           \<and> group_state db (job_installation j, job_repository j, job_head j) \<noteq> Some MgRequested then Some SrGroupGone
      else None)"

definition audit_started :: "string \<Rightarrow> scan_job \<Rightarrow> scan_db \<Rightarrow> scan_db" where
  "audit_started i j db =
     (if sj_trigger j \<in> {TrManual, TrRerun, TrRetry} then audit_scan (AuScanStarted i (sj_trigger j) (sj_execution j)) db else db)"

type_synonym progress = "phase option \<times> scan_db \<times> runs"

definition cancelled :: "string \<Rightarrow> stale_reason \<Rightarrow> int \<Rightarrow> scan_db \<Rightarrow> runs \<Rightarrow> progress" where
  "cancelled i r now db runs = (None, cancel_job i r now db, runs)"

definition failed :: "string \<Rightarrow> scan_job \<Rightarrow> int option \<Rightarrow> failure_kind \<Rightarrow> string \<Rightarrow> int \<Rightarrow> scan_db \<Rightarrow> runs \<Rightarrow> progress" where
  "failed i j run kind reason now db runs = (map_option (\<lambda>r. Failing r kind) run, fail_job i j kind reason now db, runs)"

text \<open>An installation the service has not seen is recorded as GitHub describes it.\<close>

definition ensure_installation :: "int \<Rightarrow> installation_row option \<Rightarrow> scan_db \<Rightarrow> scan_db" where
  "ensure_installation i info db =
     (if installation_of db i \<noteq> None then db else case info of None \<Rightarrow> db | Some x \<Rightarrow> upsert_installation x db)"

definition authorize :: "string \<Rightarrow> scan_job \<Rightarrow> installation_row option \<Rightarrow> ustr \<Rightarrow> ustr \<Rightarrow> int \<Rightarrow> scan_db \<Rightarrow> runs \<Rightarrow> progress" where
  "authorize i j info owner name now db runs =
     (case denial_reason db (job_installation j) of
        Some why \<Rightarrow> failed i j None FkAuthorization (''GitHub App '' @ why) now db runs
      | None \<Rightarrow>
          let db1 = add_repositories (job_installation j) [(job_repository j, owner, name)] now
                (ensure_installation (job_installation j) info db)
          in if nj_pull_request (sj_new j) = None then (Some Authorized, db1, runs)
             else if sj_sequence j < latest_group_sequence db1 (job_installation j) (job_repository j) (job_group j)
             then cancelled i SrNewerEvent now db1 runs
             else (Some AwaitPull, db1, runs))"

text \<open>Under the lock of the slot. The run is created only when the slot has none.\<close>

definition take_slot :: "string \<Rightarrow> scan_job \<Rightarrow> reply \<Rightarrow> int \<Rightarrow> scan_db \<Rightarrow> runs \<Rightarrow> progress" where
  "take_slot i j answer now db runs =
     (let (claim, db1) = claim_check (slot_of j) (sj_sequence j) now db
      in if \<not> cc_owned claim then cancelled i SrCheckOwner now db1 runs
         else case cc_run claim of
                None \<Rightarrow>
                  (case answer of
                     RpRaised kind why \<Rightarrow> failed i j None kind why now db1 runs
                   | RpCreated rid head \<Rightarrow>
                       let runs1 = runs @ [(rid, \<lparr>rn_repository = job_repository j, rn_head = head, rn_name = job_check_name j,
                             rn_status = ''queued'', rn_conclusion = None, rn_writer = sj_sequence j\<rparr>)]
                       in if head \<noteq> job_head j
                          then failed i j None FkInfrastructure ''GitHub attached the check run to a different commit'' now db1 runs1
                          else (let (ok, db2) = set_check_run_id (slot_of j) (sj_sequence j) rid db1
                                in if ok then (Some (Slotted rid), db2, runs1) else cancelled i SrCheckOwner now db2 runs1)
                   | _ \<Rightarrow> (Some Authorized, db, runs))
              | Some rid \<Rightarrow>
                  (case answer of
                     RpRaised kind why \<Rightarrow> failed i j (Some rid) kind why now db1 runs
                   | RpDone \<Rightarrow> (Some (Slotted rid), db1, update_run rid ''queued'' None (sj_sequence j) runs)
                   | _ \<Rightarrow> (Some Authorized, db, runs)))"

text \<open>Under the lock of the slot.\<close>

definition publish :: "string \<Rightarrow> scan_job \<Rightarrow> int \<Rightarrow> phase option \<Rightarrow> string \<Rightarrow> string option \<Rightarrow> int \<Rightarrow> scan_db \<Rightarrow> runs \<Rightarrow> progress" where
  "publish i j rid after status conclusion now db runs =
     (if check_owner (slot_of j) db \<noteq> Some (sj_sequence j) then cancelled i SrCheckOwner now db runs
      else (after, db, update_run rid status conclusion (sj_sequence j) runs))"

text \<open>The failing check of a job that has already ended: nothing is done when a newer job owns the check or GitHub refuses.\<close>

definition publish_failure :: "scan_job \<Rightarrow> int \<Rightarrow> failure_kind \<Rightarrow> scan_db \<Rightarrow> runs \<Rightarrow> progress" where
  "publish_failure j rid kind db runs =
     (None, db, if check_owner (slot_of j) db \<noteq> Some (sj_sequence j) then runs
                else update_run rid ''completed'' (Some (failure_conclusion kind)) (sj_sequence j) runs)"

text \<open>One step of a worker. A reply that does not fit the phase changes nothing.\<close>

definition advance ::
  "(nat list \<Rightarrow> string) \<Rightarrow> (int \<Rightarrow> bool) \<Rightarrow> string \<Rightarrow> scan_job \<Rightarrow> phase \<Rightarrow> reply \<Rightarrow> int \<Rightarrow> scan_db \<Rightarrow> runs \<Rightarrow> progress" where
  "advance sha aggregates i j ph answer now db runs =
     (case (ph, answer) of
        (Failing rid kind, RpDone) \<Rightarrow> publish_failure j rid kind db runs
      | (Failing rid kind, RpRaised _ _) \<Rightarrow> (None, db, runs)
      | (Authorized, _) \<Rightarrow> take_slot i j answer now db runs
      | (_, RpRaised kind why) \<Rightarrow> failed i j (phase_run ph) kind why now db runs
      | (Started, RpDone) \<Rightarrow>
          (case gate j db of Some r \<Rightarrow> cancelled i r now db runs
           | None \<Rightarrow> (Some Gated, audit_started i j db, runs))
      | (Gated, RpRepository info owner name) \<Rightarrow> authorize i j info owner name now db runs
      | (AwaitPull, RpPull is_open) \<Rightarrow>
          if is_open then (Some Authorized, db, runs) else cancelled i SrNotOpen now db runs
      | (Slotted rid, RpDone) \<Rightarrow>
          (Some (Tracked rid), update_job i (\<lambda>x. x\<lparr>sj_check_run := Some rid, sj_updated_at := now\<rparr>) db, runs)
      | (Tracked rid, RpPlan head) \<Rightarrow>
          if head \<noteq> None \<and> head \<noteq> Some (job_head j)
          then failed i j (Some rid) FkInfrastructure ''the planned commit does not match the commit the check belongs to'' now db runs
          else (Some (Planned rid), db, runs)
      | (Planned rid, RpDone) \<Rightarrow> publish i j rid (Some (InProgress rid)) ''in_progress'' None now db runs
      | (InProgress rid, RpScan out d) \<Rightarrow> (Some (Scanned rid out d), db, runs)
      | (Scanned rid out d, RpDone) \<Rightarrow>
          publish i j rid (Some (Published rid out d)) ''completed'' (Some (check_conclusion d)) now db runs
      | (Published rid out d, RpRecord fresh gone) \<Rightarrow>
          (case record_completed sha fresh aggregates i j out (if ed_allowed d then JsPassed else JsFailed)
                  (check_conclusion d) gone now db of
             Inl _ \<Rightarrow> failed i j (Some rid) FkInternal ''unexpected error (IntegrityError)'' now db runs
           | Inr db1 \<Rightarrow> (None, audit_scan (AuScanCompleted i (if ed_allowed d then JsPassed else JsFailed)) db1, runs))
      | _ \<Rightarrow> (Some ph, db, runs))"

section \<open>Processes\<close>

record process =
  pc_id :: string
  pc_job :: scan_job
  pc_phase :: phase

text \<open>\<open>wd_scans\<close> is the history of the scans the workers ran: repository, commit, check name and decision.\<close>

record world =
  wd_db :: scan_db
  wd_runs :: runs
  wd_procs :: "process list"
  wd_scans :: "(int \<times> string \<times> string \<times> enforcement_decision) list"

definition drop_at :: "nat \<Rightarrow> 'a list \<Rightarrow> 'a list" where
  "drop_at n xs = take n xs @ drop (Suc n) xs"

definition scans_of :: "scan_job \<Rightarrow> phase \<Rightarrow> reply \<Rightarrow> (int \<times> string \<times> string \<times> enforcement_decision) list" where
  "scans_of j ph answer =
     (case (ph, answer) of (InProgress _, RpScan _ d) \<Rightarrow> [(job_repository j, job_head j, job_check_name j, d)] | _ \<Rightarrow> [])"

text \<open>Worker \<open>n\<close> takes one step.\<close>

definition work :: "(nat list \<Rightarrow> string) \<Rightarrow> (int \<Rightarrow> bool) \<Rightarrow> nat \<Rightarrow> reply \<Rightarrow> int \<Rightarrow> world \<Rightarrow> world" where
  "work sha aggregates n answer now w =
     (let p = wd_procs w ! n;
          (ph, db, runs) = advance sha aggregates (pc_id p) (pc_job p) (pc_phase p) answer now (wd_db w) (wd_runs w)
      in w\<lparr>wd_db := db, wd_runs := runs,
           wd_procs := (case ph of None \<Rightarrow> drop_at n (wd_procs w) | Some x \<Rightarrow> (wd_procs w)[n := p\<lparr>pc_phase := x\<rparr>]),
           wd_scans := wd_scans w @ scans_of (pc_job p) (pc_phase p) answer\<rparr>)"

text \<open>A worker takes a job from the queue. An exhausted job is audited, and its check fails.\<close>

definition claim :: "string \<Rightarrow> int \<Rightarrow> world \<Rightarrow> world" where
  "claim i now w =
     (case claim_job i now JOB_LEASE_SECONDS MAX_JOB_ATTEMPTS (wd_db w) of
        (CoNothing, db) \<Rightarrow> w
      | (CoClaimed j, db) \<Rightarrow> w\<lparr>wd_db := db, wd_procs := wd_procs w @ [\<lparr>pc_id = i, pc_job = j, pc_phase = Started\<rparr>]\<rparr>
      | (CoExhausted j, db) \<Rightarrow>
          w\<lparr>wd_db := notify_failure i j (audit_scan (AuScanFailed i FkInternal) db),
            wd_procs := (case sj_check_run j of None \<Rightarrow> wd_procs w
              | Some rid \<Rightarrow> wd_procs w @ [\<lparr>pc_id = i, pc_job = j, pc_phase = Failing rid FkInternal\<rparr>])\<rparr>)"

end
