(* ===== verification/Scan_Safety.thy ===== *)
theory Scan_Safety
  imports Scan_Worker
begin

text \<open>
  What GitHub shows, over every interleaving of workers, webhooks and commands: a check run says success only when a worker
  scanned exactly its commit and the policy let it through, and no write of an older job follows one of a newer job.
\<close>

section \<open>What the steps change\<close>

named_theorems same_checks

definition job_runs :: "scan_db \<Rightarrow> (string \<times> slot \<times> int option) list" where
  "job_runs db = map (\<lambda>(i, j). (i, slot_of j, sj_check_run j)) (sd_jobs db)"

definition same_scans :: "scan_db \<Rightarrow> scan_db \<Rightarrow> bool" where
  "same_scans db db' \<longleftrightarrow> sd_checks db' = sd_checks db \<and> job_runs db' = job_runs db"

lemma same_scans_refl [simp]: "same_scans db db"
  by (simp add: same_scans_def)

lemma same_scans_trans [trans]: "same_scans a b \<Longrightarrow> same_scans b c \<Longrightarrow> same_scans a c"
  by (simp add: same_scans_def)

lemma same_scans_tables: "sd_checks db' = sd_checks db \<Longrightarrow> sd_jobs db' = sd_jobs db \<Longrightarrow> same_scans db db'"
  by (simp add: same_scans_def job_runs_def)

lemma update_job_same:
  assumes "\<And>j. slot_of (f j) = slot_of j" and "\<And>j. sj_check_run (f j) = sj_check_run j"
  shows "same_scans db (update_job i f db)"
proof -
  have "map (\<lambda>(i, j). (i, slot_of j, sj_check_run j)) (map (\<lambda>(k, j). (k, if k = i then f j else j)) xs)
      = map (\<lambda>(i, j). (i, slot_of j, sj_check_run j)) xs" for xs
    by (induction xs) (auto simp: assms)
  then show ?thesis by (simp add: same_scans_def job_runs_def update_job_def)
qed

lemma audit_same: "same_scans db (audit_scan e db)" "same_scans db (notify_scan n db)"
  by (rule same_scans_tables; simp add: audit_scan_def notify_scan_def)+

lemma notify_failure_same: "same_scans db (notify_failure i j db)"
  by (simp add: notify_failure_def audit_same split: option.split)

lemma cancel_job_same: "same_scans db (cancel_job i r now db)"
  unfolding cancel_job_def by (rule same_scans_trans [OF update_job_same audit_same(1)]) (simp_all add: slot_of_def)

lemma fail_job_same: "same_scans db (fail_job i j kind why now db)"
  unfolding fail_job_def
  by (rule same_scans_trans [OF same_scans_trans [OF update_job_same notify_failure_same] audit_same(1)])
    (simp_all add: slot_of_def)

lemma audit_started_same: "same_scans db (audit_started i j db)"
  by (simp add: audit_started_def audit_same)

lemma foldl_same: "(\<And>d x. same_scans d (f d x)) \<Longrightarrow> same_scans db (foldl f db xs)"
proof (induction xs arbitrary: db)
  case (Cons x xs)
  then have "same_scans (f db x) (foldl f (f db x) xs)" by blast
  with Cons.prems show ?case using same_scans_trans by fastforce
qed simp

lemma add_repositories_same: "same_scans db (add_repositories i rs now db)"
proof -
  have "same_scans d (insert_repository i now d x)" for d x
    by (rule same_scans_tables; simp add: insert_repository_def split: prod.split)
  then show ?thesis by (simp add: add_repositories_def foldl_same)
qed

lemma ensure_installation_same: "same_scans db (ensure_installation i info db)"
  by (auto simp: ensure_installation_def upsert_installation_def intro: same_scans_tables split: option.split)

lemma violation_tables_same:
  "same_scans db (update_violation vid f db)" "same_scans db (activate_row vid g i r job now db)"
  "same_scans db (insert_finding sha job' j f' v now db)"
  by (auto simp: update_violation_def activate_row_def insert_finding_def intro: same_scans_tables)

lemma close_absent_same: "close_absent g job j current gone now db = (ended, db') \<Longrightarrow> same_scans db db'"
  by (auto simp: close_absent_def intro: same_scans_tables)

lemma refresh_statuses_same: "same_scans db (refresh_statuses now vids db)"
proof -
  have "same_scans d (refresh_status now d v)" for d v
    by (auto simp: refresh_status_def intro: same_scans_trans [OF violation_tables_same(1) audit_same(1)] split: option.split)
  then show ?thesis by (simp add: refresh_statuses_def foldl_same)
qed

lemma complete_job_same: "same_scans db (complete_job i st act con now db)"
  unfolding complete_job_def by (rule update_job_same) (simp_all add: slot_of_def)

lemma upsert_violation_same:
  assumes "upsert_violation sha fresh job j f now stale db = Inr (w, ev, db')"
  shows "same_scans db db'"
proof (cases "find_violation db (job_installation j) (job_repository j) (finding_fingerprint sha (ef_finding f))")
  case None
  with assms show ?thesis by (auto simp: upsert_violation_def Let_def split: if_splits intro: same_scans_tables)
next
  case (Some x)
  with assms show ?thesis
    by (cases x) (auto simp: upsert_violation_def Let_def split: if_splits
        intro: violation_tables_same(1) same_scans_trans [OF violation_tables_same(1) violation_tables_same(1)])
qed

lemma record_finding_same:
  assumes "record_finding sha fresh job j mon stale now f (db, hit, b) = Inr (db', hit', b')"
  shows "same_scans db db'"
proof (cases "tracked (ef_action f)")
  case False
  with assms show ?thesis by (auto simp: record_finding_def violation_tables_same)
next
  case True
  with assms obtain w ev db1 where up: "upsert_violation sha fresh job j f now stale db = Inr (w, ev, db1)"
    by (auto simp: record_finding_def split: sum.splits)
  define db2 where "db2 = (case ev of None \<Rightarrow> db1 | Some e \<Rightarrow> audit_scan e db1)"
  define db3 where "db3 = (if stale then db2
    else activate_row w (group_of_job sha j) (job_installation j) (job_repository j) (Some job) now db2)"
  have d: "db' = insert_finding sha job j f (Some w) now db3"
    using assms True up by (auto simp: record_finding_def db3_def db2_def Let_def split: if_splits)
  have "same_scans db db1" by (rule upsert_violation_same [OF up])
  also have "same_scans db1 db2" by (cases ev) (simp_all add: db2_def audit_same)
  also have "same_scans db2 db3" by (simp add: db3_def violation_tables_same)
  also have "same_scans db3 db'" by (simp add: d violation_tables_same)
  finally show ?thesis .
qed

lemma record_completed_same:
  assumes "record_completed sha fresh ag job j out st con gone now db = Inr db'"
  shows "same_scans db db'"
  using assms
proof (rule record_completedE)
  fix db1 stale db2 hit blocked ended db3
  assume db1: "db1 = complete_job job st (so_action out) con now db"
    and f: "fold_err (record_finding sha fresh job j (so_monitored out) stale now) (outcome_findings out) (db1, [], [])
       = Inr (db2, hit, blocked)"
    and c: "(if stale then ([], db2) else close_absent (group_of_job sha j) job j
        (current_fingerprints sha (outcome_findings out)) gone now db2) = (ended, db3)"
    and d: "db' = notify_completed ag job j st stale blocked (refresh_statuses now (hit @ ended) db3)"
  have "same_scans db db1" by (simp add: db1 complete_job_same)
  also have "same_scans db1 db2"
  proof -
    have "(\<lambda>(d, _, _). same_scans db1 d) (db2, hit, blocked)"
      using f
    proof (rule fold_err_invariant)
      fix x s s' assume "(\<lambda>(d, _, _). same_scans db1 d) s"
        and "record_finding sha fresh job j (so_monitored out) stale now x s = Inr s'"
      then show "(\<lambda>(d, _, _). same_scans db1 d) s'"
        by (cases s; cases s') (use record_finding_same same_scans_trans in fastforce)
    qed simp
    then show ?thesis by simp
  qed
  also have "same_scans db2 db3" using c close_absent_same by (cases stale) auto
  also have "same_scans db3 (refresh_statuses now (hit @ ended) db3)" by (rule refresh_statuses_same)
  also have "same_scans (refresh_statuses now (hit @ ended) db3) db'"
  proof -
    have "same_scans d (foldl (\<lambda>d n. notify_scan n d) d ns)" for d ns by (rule foldl_same) (rule audit_same)
    then have "same_scans d (notify_completed ag job j st stale blocked d)" for d
      by (auto simp: notify_completed_def Let_def split: option.split intro: same_scans_trans [OF _ audit_same(2)])
    then show ?thesis by (simp add: d)
  qed
  finally show ?thesis .
qed

lemmas scan_effects = cancel_job_same fail_job_same audit_started_same record_completed_same

section \<open>The invariant\<close>

text \<open>The run of a slot exists, belongs to its commit, to no other slot, and its last writer is no newer than the owner.\<close>

definition slots_sound :: "(slot \<times> check_slot) list \<Rightarrow> runs \<Rightarrow> bool" where
  "slots_sound cs runs \<longleftrightarrow>
     (\<forall>t c rid. map_of cs t = Some c \<longrightarrow> cs_run c = Some rid \<longrightarrow>
        (\<exists>x. map_of runs rid = Some x \<and> (rn_repository x, rn_head x, rn_name x) = snd t \<and> rn_writer x \<le> cs_owner c))
     \<and> (\<forall>s t c d rid. map_of cs s = Some c \<longrightarrow> map_of cs t = Some d \<longrightarrow> cs_run c = Some rid \<longrightarrow> cs_run d = Some rid \<longrightarrow> s = t)"

definition slot_run :: "(slot \<times> check_slot) list \<Rightarrow> slot \<Rightarrow> int option" where
  "slot_run cs s = (case map_of cs s of None \<Rightarrow> None | Some c \<Rightarrow> cs_run c)"

text \<open>What a worker holds: its run is the run of its slot, and a finished scan is in the history.\<close>

fun phase_scan :: "phase \<Rightarrow> enforcement_decision option" where
  "phase_scan (Scanned _ _ d) = Some d"
| "phase_scan (Published _ _ d) = Some d"
| "phase_scan _ = None"

definition process_sound :: "(slot \<times> check_slot) list \<Rightarrow> (int \<times> string \<times> string \<times> enforcement_decision) list \<Rightarrow> scan_job \<Rightarrow> phase \<Rightarrow> bool" where
  "process_sound cs scans j ph \<longleftrightarrow>
     (\<forall>rid. phase_run ph = Some rid \<longrightarrow> slot_run cs (slot_of j) = Some rid)
     \<and> (\<forall>d. phase_scan ph = Some d \<longrightarrow> (job_repository j, job_head j, job_check_name j, d) \<in> set scans)"

definition successes_sound :: "runs \<Rightarrow> (int \<times> string \<times> string \<times> enforcement_decision) list \<Rightarrow> bool" where
  "successes_sound runs scans \<longleftrightarrow> (\<forall>rid x. map_of runs rid = Some x \<longrightarrow> rn_conclusion x = Some ''success'' \<longrightarrow>
     (\<exists>d. (rn_repository x, rn_head x, rn_name x, d) \<in> set scans \<and> ed_allowed d))"

definition jobs_sound :: "(slot \<times> check_slot) list \<Rightarrow> (string \<times> slot \<times> int option) list \<Rightarrow> bool" where
  "jobs_sound cs js \<longleftrightarrow> distinct (map fst js) \<and> (\<forall>(i, s, r) \<in> set js. \<forall>rid. r = Some rid \<longrightarrow> slot_run cs s = Some rid)"

text \<open>A worker's job has the slot of the row with its ID.\<close>

definition snapshot_sound :: "(string \<times> slot \<times> int option) list \<Rightarrow> string \<Rightarrow> scan_job \<Rightarrow> bool" where
  "snapshot_sound js i j \<longleftrightarrow> (\<forall>s r. (i, s, r) \<in> set js \<longrightarrow> s = slot_of j)"

definition sound :: "world \<Rightarrow> bool" where
  "sound w \<longleftrightarrow> slots_sound (sd_checks (wd_db w)) (wd_runs w)
     \<and> jobs_sound (sd_checks (wd_db w)) (job_runs (wd_db w))
     \<and> successes_sound (wd_runs w) (wd_scans w)
     \<and> (\<forall>p \<in> set (wd_procs w). process_sound (sd_checks (wd_db w)) (wd_scans w) (pc_job p) (pc_phase p)
          \<and> snapshot_sound (job_runs (wd_db w)) (pc_id p) (pc_job p))"

section \<open>Updating runs and slots\<close>

lemma map_of_update_run:
  "map_of (update_run rid st con sq runs) k =
     map_option (\<lambda>x. if k = rid then x\<lparr>rn_status := st, rn_conclusion := con, rn_writer := sq\<rparr> else x) (map_of runs k)"
  unfolding update_run_def by (induction runs) auto

lemma slots_soundD:
  assumes "slots_sound cs runs" and "map_of cs t = Some c" and "cs_run c = Some rid"
  shows "\<exists>x. map_of runs rid = Some x \<and> (rn_repository x, rn_head x, rn_name x) = snd t \<and> rn_writer x \<le> cs_owner c"
  using assms unfolding slots_sound_def by blast

lemma slots_sound_inj:
  "slots_sound cs runs \<Longrightarrow> map_of cs s = Some c \<Longrightarrow> map_of cs t = Some d \<Longrightarrow> cs_run c = Some rid \<Longrightarrow> cs_run d = Some rid \<Longrightarrow> s = t"
  unfolding slots_sound_def by blast

lemma slots_soundI:
  assumes "\<And>t c rid. map_of cs t = Some c \<Longrightarrow> cs_run c = Some rid \<Longrightarrow>
      \<exists>x. map_of runs rid = Some x \<and> (rn_repository x, rn_head x, rn_name x) = snd t \<and> rn_writer x \<le> cs_owner c"
    and "\<And>s t c d rid. map_of cs s = Some c \<Longrightarrow> map_of cs t = Some d \<Longrightarrow> cs_run c = Some rid \<Longrightarrow> cs_run d = Some rid \<Longrightarrow> s = t"
  shows "slots_sound cs runs"
  using assms unfolding slots_sound_def by blast

lemma slots_sound_update:
  assumes "slots_sound cs runs" and "map_of cs s = Some c" and "cs_run c = Some rid" and "sq \<le> cs_owner c"
  shows "slots_sound cs (update_run rid st con sq runs)"
proof (rule slots_soundI)
  fix t d k
  assume d: "map_of cs t = Some d" "cs_run d = Some k"
  from slots_soundD [OF assms(1) d] obtain x where
    x: "map_of runs k = Some x" "(rn_repository x, rn_head x, rn_name x) = snd t" "rn_writer x \<le> cs_owner d" by blast
  show "\<exists>x. map_of (update_run rid st con sq runs) k = Some x \<and> (rn_repository x, rn_head x, rn_name x) = snd t
      \<and> rn_writer x \<le> cs_owner d"
  proof (cases "k = rid")
    case True
    then have "t = s" using slots_sound_inj [OF assms(1) d(1) assms(2) d(2)] assms(3) by simp
    then have "d = c" using d assms(2) by simp
    then show ?thesis using x True assms(4) by (auto simp: map_of_update_run)
  qed (use x in \<open>simp add: map_of_update_run\<close>)
qed (rule slots_sound_inj [OF assms(1)])

lemma successes_sound_update:
  assumes "successes_sound runs scans"
    and "\<And>x. map_of runs rid = Some x \<Longrightarrow> con = Some ''success'' \<Longrightarrow>
      \<exists>d. (rn_repository x, rn_head x, rn_name x, d) \<in> set scans \<and> ed_allowed d"
  shows "successes_sound (update_run rid st con sq runs) scans"
proof -
  have "\<exists>d. (rn_repository y, rn_head y, rn_name y, d) \<in> set scans \<and> ed_allowed d"
    if y: "map_of (update_run rid st con sq runs) k = Some y" "rn_conclusion y = Some ''success''" for k y
  proof -
    obtain x where x: "map_of runs k = Some x"
      and e: "y = (if k = rid then x\<lparr>rn_status := st, rn_conclusion := con, rn_writer := sq\<rparr> else x)"
      using y(1) by (auto simp: map_of_update_run)
    show ?thesis
    proof (cases "k = rid")
      case True
      then show ?thesis using assms(2) [of x] x e y(2) by simp
    next
      case False
      then show ?thesis using assms(1) x e y(2) unfolding successes_sound_def by simp
    qed
  qed
  then show ?thesis unfolding successes_sound_def by blast
qed

text \<open>Claiming a slot keeps its run and never lowers the owner.\<close>

lemma claim_check_cases:
  assumes "claim_check s sq now db = (cl, db')"
  shows "sd_jobs db' = sd_jobs db \<and> (\<forall>t. t \<noteq> s \<longrightarrow> map_of (sd_checks db') t = map_of (sd_checks db) t)
     \<and> (cc_owned cl \<longrightarrow> (\<exists>c. map_of (sd_checks db') s = Some c \<and> cs_owner c = sq \<and> cs_run c = cc_run cl
          \<and> cc_run cl = slot_run (sd_checks db) s
          \<and> (\<forall>c0. map_of (sd_checks db) s = Some c0 \<longrightarrow> cs_owner c0 \<le> sq)))
     \<and> (\<not> cc_owned cl \<longrightarrow> db' = db)"
  using assms
  by (auto simp: claim_check_def slot_run_def dict_simps split: option.splits if_splits)

lemma claim_check_sound:
  assumes "claim_check s sq now db = (cl, db')" and "slots_sound (sd_checks db) runs"
  shows "slots_sound (sd_checks db') runs \<and> slot_run (sd_checks db') = slot_run (sd_checks db)"
proof (cases "cc_owned cl")
  case True
  note cases = claim_check_cases [OF assms(1)]
  then obtain c where c: "map_of (sd_checks db') s = Some c" "cs_owner c = sq" "cs_run c = slot_run (sd_checks db) s"
    and low: "\<And>c0. map_of (sd_checks db) s = Some c0 \<Longrightarrow> cs_owner c0 \<le> sq" using True by auto
  have same: "slot_run (sd_checks db') t = slot_run (sd_checks db) t" for t
  proof (cases "t = s")
    case True
    have "slot_run (sd_checks db') s = cs_run c" using c(1) by (simp add: slot_run_def)
    then show ?thesis using c(3) True by simp
  next
    case False
    then have "map_of (sd_checks db') t = map_of (sd_checks db) t" using cases by blast
    then show ?thesis by (simp add: slot_run_def)
  qed
  have old: "\<exists>c0. map_of (sd_checks db) t = Some c0 \<and> cs_run c0 = Some rid \<and> cs_owner c0 \<le> cs_owner d"
    if t: "map_of (sd_checks db') t = Some d" "cs_run d = Some rid" for t d rid
  proof (cases "t = s")
    case True
    then have "d = c" using c t by simp
    then have "slot_run (sd_checks db) s = Some rid" using c t by simp
    then obtain c0 where "map_of (sd_checks db) s = Some c0" "cs_run c0 = Some rid" by (auto simp: slot_run_def split: option.splits)
    then show ?thesis using low c True \<open>d = c\<close> by auto
  next
    case False
    then have "map_of (sd_checks db) t = Some d" using cases t(1) by (metis (full_types))
    then show ?thesis using t(2) by blast
  qed
  have "slots_sound (sd_checks db') runs"
  proof (rule slots_soundI)
    fix t d rid assume "map_of (sd_checks db') t = Some d" "cs_run d = Some rid"
    then obtain c0 where "map_of (sd_checks db) t = Some c0" "cs_run c0 = Some rid" "cs_owner c0 \<le> cs_owner d" using old by blast
    then show "\<exists>x. map_of runs rid = Some x \<and> (rn_repository x, rn_head x, rn_name x) = snd t \<and> rn_writer x \<le> cs_owner d"
      using slots_soundD [OF assms(2)] by fastforce
  next
    fix t u d e rid
    assume "map_of (sd_checks db') t = Some d" "map_of (sd_checks db') u = Some e" "cs_run d = Some rid" "cs_run e = Some rid"
    then show "t = u" using old slots_sound_inj [OF assms(2)] by blast
  qed
  then show ?thesis using same by blast
next
  case False
  then show ?thesis using claim_check_cases [OF assms(1)] assms(2) by simp
qed

text \<open>A run created for a slot that had none.\<close>

lemma create_run_sound:
  assumes "slots_sound cs runs" and "map_of cs (i, r, h, n) = Some c" and "cs_run c = None" and "rid \<notin> fst ` set runs"
    and "rn_repository x = r" and "rn_head x = h" and "rn_name x = n" and "rn_writer x \<le> cs_owner c"
  shows "slots_sound (AList.update (i, r, h, n) (c\<lparr>cs_run := Some rid\<rparr>) cs) (runs @ [(rid, x)])"
proof -
  let ?cs = "AList.update (i, r, h, n) (c\<lparr>cs_run := Some rid\<rparr>) cs"
  have new: "map_of (runs @ [(rid, x)]) rid = Some x"
    using assms(4) by (simp add: map_add_def map_of_eq_None_iff split: option.split) (metis map_of_eq_None_iff option.simps(3))
  have old: "map_of (runs @ [(rid, x)]) k = Some y" if "map_of runs k = Some y" for k y
    using that assms(4) by (auto simp: map_add_def map_of_eq_None_iff split: option.split dest!: map_of_SomeD intro: rev_image_eqI)
  have not_new: "cs_run d \<noteq> Some rid" if d: "map_of cs t = Some d" for t d
  proof
    assume "cs_run d = Some rid"
    from slots_soundD [OF assms(1) d this] obtain y where "map_of runs rid = Some y" by blast
    then show False using assms(4) by (metis map_of_SomeD fst_conv imageI)
  qed
  show ?thesis
  proof (rule slots_soundI)
    fix t d k
    assume d: "map_of ?cs t = Some d" "cs_run d = Some k"
    show "\<exists>y. map_of (runs @ [(rid, x)]) k = Some y \<and> (rn_repository y, rn_head y, rn_name y) = snd t \<and> rn_writer y \<le> cs_owner d"
    proof (cases "t = (i, r, h, n)")
      case True
      then have e: "d = c\<lparr>cs_run := Some rid\<rparr>" "k = rid" using d by (auto simp: dict_simps)
      have "rn_writer x \<le> cs_owner d" using e assms(8) by simp
      then show ?thesis using new True assms(5-7) unfolding e(2) by (metis snd_conv)
    next
      case False
      then have "map_of cs t = Some d" using d by (simp add: dict_simps)
      from slots_soundD [OF assms(1) this d(2)] show ?thesis using old by blast
    qed
  next
    fix s t d e k
    assume m: "map_of ?cs s = Some d" "map_of ?cs t = Some e" "cs_run d = Some k" "cs_run e = Some k"
    show "s = t"
    proof (cases "s = (i, r, h, n) \<or> t = (i, r, h, n)")
      case True
      then have "k = rid" using m by (auto simp: dict_simps)
      have only: "u = (i, r, h, n)" if u: "map_of ?cs u = Some f" "cs_run f = Some rid" for u f
      proof (rule ccontr)
        assume "u \<noteq> (i, r, h, n)"
        then have "map_of cs u = Some f" using u(1) by (simp add: dict_simps)
        then show False using not_new u(2) by blast
      qed
      show ?thesis using only [OF m(1)] only [OF m(2)] m(3,4) \<open>k = rid\<close> by simp
    next
      case False
      then show ?thesis using m slots_sound_inj [OF assms(1)] by (auto simp: dict_simps)
    qed
  qed
qed

section \<open>One step of a worker\<close>

text \<open>Runs keep what they are, and are written by jobs in the order of the queue.\<close>

definition runs_ordered :: "runs \<Rightarrow> runs \<Rightarrow> bool" where
  "runs_ordered runs runs' \<longleftrightarrow> (\<forall>rid x. map_of runs rid = Some x \<longrightarrow> (\<exists>x'. map_of runs' rid = Some x'
     \<and> (rn_repository x', rn_head x', rn_name x') = (rn_repository x, rn_head x, rn_name x) \<and> rn_writer x \<le> rn_writer x'))"

lemma runs_ordered_refl [simp]: "runs_ordered runs runs"
  by (simp add: runs_ordered_def)

definition ids_of :: "(string \<times> slot \<times> int option) list \<Rightarrow> (string \<times> slot) list" where
  "ids_of = map (\<lambda>(i, s, _). (i, s))"

text \<open>What a step keeps, and how it changes what the other workers rely on.\<close>

definition step_sound :: "scan_db \<Rightarrow> runs \<Rightarrow> (int \<times> string \<times> string \<times> enforcement_decision) list \<Rightarrow> scan_job \<Rightarrow> progress \<Rightarrow> bool" where
  "step_sound db runs scans j = (\<lambda>(ph, db', runs').
     slots_sound (sd_checks db') runs' \<and> successes_sound runs' scans \<and> jobs_sound (sd_checks db') (job_runs db')
     \<and> (\<forall>x. ph = Some x \<longrightarrow> process_sound (sd_checks db') scans j x)
     \<and> (\<forall>s rid. slot_run (sd_checks db) s = Some rid \<longrightarrow> slot_run (sd_checks db') s = Some rid)
     \<and> ids_of (job_runs db') = ids_of (job_runs db) \<and> runs_ordered runs runs')"

definition before :: "scan_db \<Rightarrow> runs \<Rightarrow> (int \<times> string \<times> string \<times> enforcement_decision) list \<Rightarrow> bool" where
  "before db runs scans \<longleftrightarrow>
     slots_sound (sd_checks db) runs \<and> successes_sound runs scans \<and> jobs_sound (sd_checks db) (job_runs db)"

lemma quiet_step:
  assumes "before db runs scans" and "same_scans db db'" and "\<And>x. ph = Some x \<Longrightarrow> process_sound (sd_checks db) scans j x"
  shows "step_sound db runs scans j (ph, db', runs)"
  using assms by (auto simp: step_sound_def before_def same_scans_def)

lemma before_same: "before db runs scans \<Longrightarrow> same_scans db db' \<Longrightarrow> before db' runs scans"
  by (simp add: before_def same_scans_def)

lemma step_sound_trans:
  assumes "same_scans db db1" and "step_sound db1 runs scans j r"
  shows "step_sound db runs scans j r"
  using assms by (auto simp: step_sound_def same_scans_def split: prod.splits)

lemma ended_sound: "process_sound cs scans j ph \<Longrightarrow> phase_run ph = Some rid \<Longrightarrow> process_sound cs scans j (Failing rid kind)"
  by (simp add: process_sound_def)

lemma cancelled_sound: "before db runs scans \<Longrightarrow> step_sound db runs scans j (cancelled i r now db runs)"
  unfolding cancelled_def by (rule quiet_step) (simp_all add: cancel_job_same)

lemma failed_sound:
  assumes "before db runs scans" and "\<And>rid. run = Some rid \<Longrightarrow> slot_run (sd_checks db) (slot_of j) = Some rid"
  shows "step_sound db runs scans j (failed i j run kind why now db runs)"
  unfolding failed_def using assms
  by (intro quiet_step) (auto simp: fail_job_same process_sound_def)

lemma update_run_ordered:
  assumes "slots_sound cs runs" and "map_of cs s = Some c" and "cs_run c = Some rid" and "cs_owner c \<le> sq"
  shows "runs_ordered runs (update_run rid st con sq runs)"
proof -
  from slots_soundD [OF assms(1-3)] obtain x where "map_of runs rid = Some x" "rn_writer x \<le> cs_owner c" by blast
  then show ?thesis using assms(4) by (auto simp: runs_ordered_def map_of_update_run)
qed

text \<open>Writing a run while its slot is owned.\<close>

lemma write_sound:
  assumes "before db runs scans" and "check_owner (slot_of j) db = Some (sj_sequence j)"
    and "slot_run (sd_checks db) (slot_of j) = Some rid"
    and "con = Some ''success'' \<Longrightarrow> \<exists>d. (job_repository j, job_head j, job_check_name j, d) \<in> set scans \<and> ed_allowed d"
    and "\<And>x. ph = Some x \<Longrightarrow> process_sound (sd_checks db) scans j x"
  shows "step_sound db runs scans j (ph, db, update_run rid st con (sj_sequence j) runs)"
proof -
  from assms(2,3) obtain c where c: "map_of (sd_checks db) (slot_of j) = Some c" "cs_owner c = sj_sequence j" "cs_run c = Some rid"
    by (auto simp: check_owner_def slot_run_def split: option.splits)
  have b: "slots_sound (sd_checks db) runs" using assms(1) by (simp add: before_def)
  from slots_soundD [OF b c(1,3)] obtain x where
    x: "map_of runs rid = Some x" "(rn_repository x, rn_head x, rn_name x) = snd (slot_of j)" by blast
  have "slots_sound (sd_checks db) (update_run rid st con (sj_sequence j) runs)"
    by (rule slots_sound_update [OF b c(1,3)]) (simp add: c)
  moreover have "successes_sound (update_run rid st con (sj_sequence j) runs) scans"
  proof (rule successes_sound_update)
    show "successes_sound runs scans" using assms(1) by (simp add: before_def)
  qed (use assms(4) x in \<open>auto simp: slot_of_def\<close>)
  moreover have "runs_ordered runs (update_run rid st con (sj_sequence j) runs)"
    by (rule update_run_ordered [OF b c(1,3)]) (simp add: c)
  ultimately show ?thesis using assms(1,5) by (simp add: step_sound_def before_def)
qed

lemma publish_sound:
  assumes "before db runs scans" and "slot_run (sd_checks db) (slot_of j) = Some rid"
    and "con = Some ''success'' \<Longrightarrow> \<exists>d. (job_repository j, job_head j, job_check_name j, d) \<in> set scans \<and> ed_allowed d"
    and "\<And>x. after = Some x \<Longrightarrow> process_sound (sd_checks db) scans j x"
  shows "step_sound db runs scans j (publish i j rid after st con now db runs)"
  using assms by (auto simp: publish_def intro: cancelled_sound write_sound)

lemma publish_failure_sound:
  assumes "before db runs scans" and "slot_run (sd_checks db) (slot_of j) = Some rid"
  shows "step_sound db runs scans j (publish_failure j rid kind db runs)"
  using assms by (auto simp: publish_failure_def failure_conclusion_def intro: quiet_step write_sound)

lemma jobs_sound_mono:
  assumes "jobs_sound cs js" and "\<And>s rid. slot_run cs s = Some rid \<Longrightarrow> slot_run cs' s = Some rid"
  shows "jobs_sound cs' js"
  using assms unfolding jobs_sound_def by fastforce

lemma authorize_sound:
  assumes "before db runs scans"
  shows "step_sound db runs scans j (authorize i j info owner name now db runs)"
proof (cases "denial_reason db (job_installation j)")
  case (Some why)
  show ?thesis by (simp add: authorize_def Some) (rule failed_sound [OF assms], simp)
next
  case None
  let ?db1 = "add_repositories (job_installation j) [(job_repository j, owner, name)] now (ensure_installation (job_installation j) info db)"
  have s: "same_scans db ?db1" using ensure_installation_same add_repositories_same by (rule same_scans_trans)
  have b: "before ?db1 runs scans" using assms s by (rule before_same)
  have "step_sound ?db1 runs scans j (Some x, ?db1, runs)" if "phase_run x = None" "phase_scan x = None" for x
    using b that by (intro quiet_step) (auto simp: process_sound_def)
  moreover have "step_sound ?db1 runs scans j (cancelled i SrNewerEvent now ?db1 runs)" using b by (rule cancelled_sound)
  ultimately show ?thesis using None s by (auto simp: authorize_def Let_def intro: step_sound_trans)
qed

lemma successes_sound_append:
  assumes "successes_sound runs scans" and "rn_conclusion x = None"
  shows "successes_sound (runs @ [(rid, x)]) scans"
  using assms unfolding successes_sound_def by (auto simp: map_add_def split: option.splits if_splits)

lemma runs_ordered_append: "rid \<notin> fst ` set runs \<Longrightarrow> runs_ordered runs (runs @ [(rid, x)])"
  unfolding runs_ordered_def by (auto simp: map_add_def split: option.split dest: map_of_SomeD intro: rev_image_eqI)

text \<open>A run is created under an owned slot that has none.\<close>

lemma create_sound:
  assumes "before db runs scans" and "map_of (sd_checks db) (slot_of j) = Some c" and "cs_owner c = sj_sequence j"
    and "cs_run c = None" and "rid \<notin> fst ` set runs" and "set_check_run_id (slot_of j) (sj_sequence j) rid db = (ok, db')"
  shows "ok" and "step_sound db runs scans j (Some (Slotted rid), db', runs @ [(rid, \<lparr>rn_repository = job_repository j,
    rn_head = job_head j, rn_name = job_check_name j, rn_status = st, rn_conclusion = None, rn_writer = sj_sequence j\<rparr>)])"
proof -
  show "ok" using assms(2,3,6) by (simp add: set_check_run_id_def)
  have cs: "sd_checks db' = AList.update (slot_of j) (c\<lparr>cs_run := Some rid\<rparr>) (sd_checks db)" "job_runs db' = job_runs db"
    using assms(2,3,6) by (auto simp: set_check_run_id_def job_runs_def)
  have keep: "slot_run (sd_checks db') s = Some k" if "slot_run (sd_checks db) s = Some k" for s k
  proof (cases "s = slot_of j")
    case True
    then show ?thesis using that assms(2,4) by (simp add: slot_run_def)
  next
    case False
    then show ?thesis using that by (simp add: slot_run_def cs dict_simps)
  qed
  have "slots_sound (sd_checks db') (runs @ [(rid, \<lparr>rn_repository = job_repository j, rn_head = job_head j,
      rn_name = job_check_name j, rn_status = st, rn_conclusion = None, rn_writer = sj_sequence j\<rparr>)])"
    unfolding cs slot_of_def
    by (rule create_run_sound) (use assms in \<open>simp_all add: before_def slot_of_def\<close>)
  moreover have "slot_run (sd_checks db') (slot_of j) = Some rid" by (simp add: slot_run_def cs dict_simps)
  ultimately show "step_sound db runs scans j (Some (Slotted rid), db', runs @ [(rid, \<lparr>rn_repository = job_repository j,
      rn_head = job_head j, rn_name = job_check_name j, rn_status = st, rn_conclusion = None, rn_writer = sj_sequence j\<rparr>)])"
    using assms(1,5) keep jobs_sound_mono [of "sd_checks db" "job_runs db" "sd_checks db'"]
    by (auto simp: step_sound_def before_def cs(2) process_sound_def successes_sound_append runs_ordered_append)
qed

lemma step_sound_claimed:
  assumes "slot_run (sd_checks db1) = slot_run (sd_checks db)" and "job_runs db1 = job_runs db"
    and "step_sound db1 runs scans j r"
  shows "step_sound db runs scans j r"
  using assms by (auto simp: step_sound_def split: prod.splits)

lemma take_slot_sound:
  assumes "before db runs scans" and "\<And>rid head. answer = RpCreated rid head \<Longrightarrow> rid \<notin> fst ` set runs"
  shows "step_sound db runs scans j (take_slot i j answer now db runs)"
proof -
  obtain cl db1 where cl: "claim_check (slot_of j) (sj_sequence j) now db = (cl, db1)" by fastforce
  have s1: "slots_sound (sd_checks db1) runs" "slot_run (sd_checks db1) = slot_run (sd_checks db)"
    using claim_check_sound [OF cl, of runs] assms(1) by (simp_all add: before_def)
  have jr: "job_runs db1 = job_runs db" using claim_check_cases [OF cl] by (simp add: job_runs_def)
  have b1: "before db1 runs scans"
    using assms(1) s1 jr jobs_sound_mono [of "sd_checks db" "job_runs db" "sd_checks db1"] by (simp add: before_def)
  note lift = step_sound_claimed [OF s1(2) jr]
  have idle: "step_sound db runs scans j (Some Authorized, db, runs)"
    by (rule quiet_step [OF assms(1)]) (simp_all add: process_sound_def)
  show ?thesis
  proof (cases "cc_owned cl")
    case False
    then show ?thesis using lift cancelled_sound [OF b1] by (simp add: take_slot_def cl)
  next
    case True
    then obtain c where c: "map_of (sd_checks db1) (slot_of j) = Some c" "cs_owner c = sj_sequence j" "cs_run c = cc_run cl"
      using claim_check_cases [OF cl] by auto
    show ?thesis
    proof (cases "cc_run cl")
      case (Some rid)
      have run: "slot_run (sd_checks db1) (slot_of j) = Some rid" using c Some by (simp add: slot_run_def)
      have "step_sound db1 runs scans j (failed i j (Some rid) kind why now db1 runs)" for kind why
        by (rule failed_sound [OF b1]) (simp add: run)
      moreover have "step_sound db1 runs scans j (Some (Slotted rid), db1, update_run rid ''queued'' None (sj_sequence j) runs)"
        by (rule write_sound [OF b1]) (use c run in \<open>simp_all add: check_owner_def process_sound_def\<close>)
      ultimately show ?thesis using True Some lift idle by (auto simp: take_slot_def cl split: reply.split)
    next
      case None
      have fail: "step_sound db1 runs scans j (failed i j None kind why now db1 runs)" for kind why
        by (rule failed_sound [OF b1]) simp
      have created: "step_sound db runs scans j (take_slot i j (RpCreated rid head) now db runs)"
        if new: "rid \<notin> fst ` set runs" for rid head
      proof (cases "head = job_head j")
        case True
        obtain ok db2 where ok: "set_check_run_id (slot_of j) (sj_sequence j) rid db1 = (ok, db2)" by fastforce
        note cr = create_sound [OF b1 c(1,2) _ new ok]
        show ?thesis using cr lift None c(3) True \<open>cc_owned cl\<close> ok by (simp add: take_slot_def cl Let_def)
      next
        case False
        let ?runs = "runs @ [(rid, \<lparr>rn_repository = job_repository j, rn_head = head, rn_name = job_check_name j,
            rn_status = ''queued'', rn_conclusion = None, rn_writer = sj_sequence j\<rparr>)]"
        have keep: "map_of ?runs k = Some x" if "map_of runs k = Some x" for k x
          using that new by (auto simp: map_add_def split: option.split dest: map_of_SomeD intro: rev_image_eqI)
        have "slots_sound (sd_checks db1) ?runs"
          using b1 keep unfolding before_def by (intro slots_soundI) (meson slots_soundD slots_sound_inj)+
        then have "before db1 ?runs scans" using b1 by (simp add: before_def successes_sound_append)
        then have "step_sound db1 ?runs scans j (failed i j None kind why now db1 ?runs)" for kind why
          by (rule failed_sound) simp
        then have "step_sound db1 runs scans j (failed i j None kind why now db1 ?runs)" for kind why
          using runs_ordered_append [OF new] by (auto simp: step_sound_def failed_def)
        then show ?thesis using lift None False \<open>cc_owned cl\<close> by (simp add: take_slot_def cl Let_def)
      qed
      show ?thesis
      proof (cases answer)
        case (RpCreated rid head)
        then show ?thesis using created assms(2) by simp
      qed (use True None lift idle fail in \<open>simp_all add: take_slot_def cl\<close>)
    qed
  qed
qed

lemma successes_sound_mono: "successes_sound runs scans \<Longrightarrow> successes_sound runs (scans @ xs)"
  unfolding successes_sound_def by (metis Un_iff set_append)

lemma process_sound_mono:
  assumes "process_sound cs scans j ph" and "\<And>s rid. slot_run cs s = Some rid \<Longrightarrow> slot_run cs' s = Some rid"
  shows "process_sound cs' (scans @ xs) j ph"
  using assms by (auto simp: process_sound_def)

lemma tracked_sound:
  assumes "before db runs scans" and "process_sound (sd_checks db) scans j (Slotted rid)" and "snapshot_sound (job_runs db) i j"
  shows "step_sound db runs scans j
    (Some (Tracked rid), update_job i (\<lambda>x. x\<lparr>sj_check_run := Some rid, sj_updated_at := now\<rparr>) db, runs)"
proof -
  let ?db = "update_job i (\<lambda>x. x\<lparr>sj_check_run := Some rid, sj_updated_at := now\<rparr>) db"
  have r: "job_runs ?db = map (\<lambda>(k, s, x). (k, s, if k = i then Some rid else x)) (job_runs db)"
    by (auto simp: job_runs_def update_job_def slot_of_def)
  have c: "sd_checks ?db = sd_checks db" by (simp add: update_job_def)
  have run: "slot_run (sd_checks db) (slot_of j) = Some rid" using assms(2) by (simp add: process_sound_def)
  have ids: "ids_of (job_runs ?db) = ids_of (job_runs db)" by (auto simp: ids_of_def r)
  have "distinct (map fst (job_runs db))" using assms(1) by (simp add: before_def jobs_sound_def)
  then have d: "distinct (map fst (job_runs ?db))" by (simp add: r o_def case_prod_beta')
  have "slot_run (sd_checks db) s = Some k"
    if m: "(a, s, Some k) \<in> set (job_runs ?db)" for a s k
  proof -
    from m obtain x where x: "(a, s, x) \<in> set (job_runs db)" "Some k = (if a = i then Some rid else x)"
      unfolding r by auto
    show ?thesis
    proof (cases "a = i")
      case True
      then have "s = slot_of j" using x(1) assms(3) unfolding snapshot_sound_def by blast
      then show ?thesis using x(2) True run by simp
    next
      case False
      then show ?thesis using x assms(1) by (fastforce simp: before_def jobs_sound_def)
    qed
  qed
  then have "jobs_sound (sd_checks ?db) (job_runs ?db)" using d c by (auto simp: jobs_sound_def)
  then show ?thesis using assms(1) c ids run by (simp add: step_sound_def before_def process_sound_def)
qed

lemma advance_sound:
  assumes "before db runs scans" and "process_sound (sd_checks db) scans j ph" and "snapshot_sound (job_runs db) i j"
    and "\<And>rid head. answer = RpCreated rid head \<Longrightarrow> rid \<notin> fst ` set runs"
  shows "step_sound db runs (scans @ scans_of j ph answer) j (advance sha ag i j ph answer now db runs)"
proof -
  have run: "slot_run (sd_checks db) (slot_of j) = Some rid" if "phase_run ph = Some rid" for rid
    using assms(2) that by (simp add: process_sound_def)
  have scan: "(job_repository j, job_head j, job_check_name j, d) \<in> set scans" if "phase_scan ph = Some d" for d
    using assms(2) that by (simp add: process_sound_def)
  have fail: "step_sound db runs scans j (failed i j (phase_run ph) kind why now db runs)" for kind why
    by (rule failed_sound [OF assms(1)]) (rule run)
  have stay: "step_sound db runs scans j (Some ph, db, runs)"
    by (rule quiet_step [OF assms(1)]) (simp_all add: assms(2))
  have main: "step_sound db runs scans j (advance sha ag i j ph answer now db runs)"
    if no_scan: "scans_of j ph answer = []"
  proof (cases ph)
    case Started
    have "step_sound db runs scans j (Some Gated, audit_started i j db, runs)"
      by (rule quiet_step [OF assms(1) audit_started_same]) (simp add: process_sound_def)
    then show ?thesis using Started stay fail cancelled_sound [OF assms(1)]
      by (cases answer) (auto simp: advance_def split: option.split)
  next
    case Gated
    then show ?thesis using stay fail authorize_sound [OF assms(1)] by (cases answer) (auto simp: advance_def)
  next
    case AwaitPull
    have "step_sound db runs scans j (Some Authorized, db, runs)"
      by (rule quiet_step [OF assms(1)]) (simp_all add: process_sound_def)
    then show ?thesis using AwaitPull stay fail cancelled_sound [OF assms(1)]
      by (cases answer) (auto simp: advance_def)
  next
    case Authorized
    then show ?thesis using take_slot_sound [OF assms(1,4)] by (simp add: advance_def)
  next
    case (Slotted rid)
    then show ?thesis using stay fail tracked_sound [OF assms(1) _ assms(3)] assms(2)
      by (cases answer) (auto simp: advance_def)
  next
    case (Tracked rid)
    have "step_sound db runs scans j (Some (Planned rid), db, runs)"
      by (rule quiet_step [OF assms(1)]) (use run Tracked in \<open>simp_all add: process_sound_def\<close>)
    moreover have "step_sound db runs scans j (failed i j (Some rid) kind why now db runs)" for kind why
      using fail Tracked by simp
    ultimately show ?thesis using Tracked stay fail by (cases answer) (auto simp: advance_def)
  next
    case (Planned rid)
    have "step_sound db runs scans j (publish i j rid (Some (InProgress rid)) st None now db runs)" for st
      by (rule publish_sound [OF assms(1)]) (use run Planned in \<open>simp_all add: process_sound_def\<close>)
    then show ?thesis using Planned stay fail by (cases answer) (auto simp: advance_def)
  next
    case (InProgress rid)
    then show ?thesis using no_scan stay fail by (cases answer) (auto simp: advance_def scans_of_def)
  next
    case (Scanned rid out d)
    have "step_sound db runs scans j (publish i j rid (Some (Published rid out d)) st (Some (check_conclusion d)) now db runs)" for st
    proof (rule publish_sound [OF assms(1)])
      assume "Some (check_conclusion d) = Some ''success''"
      then have "ed_allowed d" by (auto simp: check_conclusion_def split: if_splits)
      then show "\<exists>d. (job_repository j, job_head j, job_check_name j, d) \<in> set scans \<and> ed_allowed d"
        using scan Scanned by auto
    qed (use run scan Scanned in \<open>simp_all add: process_sound_def\<close>)
    then show ?thesis using Scanned stay fail by (cases answer) (auto simp: advance_def)
  next
    case (Published rid out d)
    have "step_sound db runs scans j (None, audit_scan e db1, runs)"
      if "record_completed sha fresh ag i j out st con gone now db = Inr db1" for fresh st con gone e db1
      using same_scans_trans [OF record_completed_same [OF that] audit_same(1)] by (rule quiet_step [OF assms(1)]) simp
    moreover have "step_sound db runs scans j (failed i j (Some rid) kind why now db runs)" for kind why
      using fail Published by simp
    ultimately show ?thesis using Published stay fail by (cases answer) (auto simp: advance_def split: sum.split)
  next
    case (Failing rid kind)
    then show ?thesis using stay publish_failure_sound [OF assms(1), of j rid] run quiet_step [OF assms(1) same_scans_refl, of None j]
      by (cases answer) (auto simp: advance_def)
  qed
  show ?thesis
  proof (cases "scans_of j ph answer = []")
    case True
    then show ?thesis using main by simp
  next
    case False
    then obtain rid out d where p: "ph = InProgress rid" "answer = RpScan out d"
      by (auto simp: scans_of_def split: phase.splits reply.splits)
    have "before db runs (scans @ scans_of j ph answer)"
      using assms(1) successes_sound_mono unfolding before_def by blast
    then have "step_sound db runs (scans @ scans_of j ph answer) j (Some (Scanned rid out d), db, runs)"
      by (rule quiet_step) (use run p in \<open>simp_all add: process_sound_def scans_of_def\<close>)
    then show ?thesis by (simp add: advance_def p)
  qed
qed

section \<open>All interleavings\<close>

text \<open>
  Webhooks, commands and the other workers' reads change nothing of the slots; new jobs have no check run yet and IDs that
  no worker holds. (The retention purge, which forgets slots nobody touched for the retention period, is left out.)
\<close>

definition elsewhere :: "world \<Rightarrow> scan_db \<Rightarrow> bool" where
  "elsewhere w db' \<longleftrightarrow> sd_checks db' = sd_checks (wd_db w) \<and> distinct (map fst (sd_jobs db'))
     \<and> set (job_runs db') \<subseteq> set (job_runs (wd_db w)) \<union> {(i, s, None) | i s. i \<notin> pc_id ` set (wd_procs w)}"

inductive pstep :: "(nat list \<Rightarrow> string) \<Rightarrow> (int \<Rightarrow> bool) \<Rightarrow> world \<Rightarrow> world \<Rightarrow> bool" for sha ag where
  Work: "n < length (wd_procs w) \<Longrightarrow> (\<And>rid head. answer = RpCreated rid head \<Longrightarrow> rid \<notin> fst ` set (wd_runs w))
    \<Longrightarrow> pstep sha ag w (work sha ag n answer now w)"
| Claim: "pstep sha ag w (claim i now w)"
| Crash: "n < length (wd_procs w) \<Longrightarrow> pstep sha ag w (w\<lparr>wd_procs := drop_at n (wd_procs w)\<rparr>)"
| Else: "elsewhere w db' \<Longrightarrow> pstep sha ag w (w\<lparr>wd_db := db'\<rparr>)"

inductive preach :: "(nat list \<Rightarrow> string) \<Rightarrow> (int \<Rightarrow> bool) \<Rightarrow> world \<Rightarrow> bool" for sha ag where
  Fresh: "sd_checks (wd_db w) = [] \<Longrightarrow> sd_jobs (wd_db w) = [] \<Longrightarrow> wd_runs w = [] \<Longrightarrow> wd_procs w = [] \<Longrightarrow> wd_scans w = []
    \<Longrightarrow> preach sha ag w"
| Next: "preach sha ag w \<Longrightarrow> pstep sha ag w w' \<Longrightarrow> preach sha ag w'"

lemma set_drop_at: "set (drop_at n xs) \<subseteq> set xs"
  unfolding drop_at_def by (auto dest: in_set_takeD in_set_dropD)

lemma snapshot_ids:
  assumes "snapshot_sound js i j" and "ids_of js' = ids_of js"
  shows "snapshot_sound js' i j"
proof -
  have "\<exists>r'. (i, s, r') \<in> set js" if m: "(i, s, r) \<in> set js'" for s r
  proof -
    have "(i, s) \<in> set (ids_of js')" using m by (force simp: ids_of_def)
    then show ?thesis unfolding assms(2) by (auto simp: ids_of_def)
  qed
  then show ?thesis using assms(1) unfolding snapshot_sound_def by blast
qed

lemma work_sound:
  assumes "sound w" and "n < length (wd_procs w)" and "\<And>rid head. answer = RpCreated rid head \<Longrightarrow> rid \<notin> fst ` set (wd_runs w)"
  shows "sound (work sha ag n answer now w) \<and> runs_ordered (wd_runs w) (wd_runs (work sha ag n answer now w))"
proof -
  define p where "p = wd_procs w ! n"
  define xs where "xs = scans_of (pc_job p) (pc_phase p) answer"
  obtain ph db runs where a: "advance sha ag (pc_id p) (pc_job p) (pc_phase p) answer now (wd_db w) (wd_runs w) = (ph, db, runs)"
    by (cases "advance sha ag (pc_id p) (pc_job p) (pc_phase p) answer now (wd_db w) (wd_runs w)")
  have p: "p \<in> set (wd_procs w)" using assms(2) by (simp add: p_def)
  have b: "before (wd_db w) (wd_runs w) (wd_scans w)" using assms(1) by (simp add: sound_def before_def)
  have ps: "process_sound (sd_checks (wd_db w)) (wd_scans w) (pc_job p) (pc_phase p)"
    and ss: "snapshot_sound (job_runs (wd_db w)) (pc_id p) (pc_job p)" using assms(1) p by (simp_all add: sound_def)
  have s: "step_sound (wd_db w) (wd_runs w) (wd_scans w @ xs) (pc_job p) (ph, db, runs)"
    using advance_sound [OF b ps ss, of answer sha ag now] assms(3) a by (simp add: xs_def)
  define w' where "w' = work sha ag n answer now w"
  have w': "wd_db w' = db" "wd_runs w' = runs" "wd_scans w' = wd_scans w @ xs"
    "wd_procs w' = (case ph of None \<Rightarrow> drop_at n (wd_procs w) | Some x \<Rightarrow> (wd_procs w)[n := p\<lparr>pc_phase := x\<rparr>])"
    using a by (simp_all add: w'_def work_def Let_def p_def [symmetric] xs_def)
  have old: "process_sound (sd_checks db) (wd_scans w @ xs) (pc_job q) (pc_phase q) \<and> snapshot_sound (job_runs db) (pc_id q) (pc_job q)"
    if q: "q \<in> set (wd_procs w)" for q
  proof
    have "process_sound (sd_checks (wd_db w)) (wd_scans w) (pc_job q) (pc_phase q)" using assms(1) q by (simp add: sound_def)
    then show "process_sound (sd_checks db) (wd_scans w @ xs) (pc_job q) (pc_phase q)"
      by (rule process_sound_mono) (use s in \<open>unfold step_sound_def prod.case, blast\<close>)
    have "snapshot_sound (job_runs (wd_db w)) (pc_id q) (pc_job q)" using assms(1) q by (simp add: sound_def)
    then show "snapshot_sound (job_runs db) (pc_id q) (pc_job q)"
      by (rule snapshot_ids) (use s in \<open>simp add: step_sound_def\<close>)
  qed
  have procs: "q \<in> set (wd_procs w) \<or> (\<exists>x. ph = Some x \<and> q = p\<lparr>pc_phase := x\<rparr>)" if "q \<in> set (wd_procs w')" for q
    using that set_drop_at [of n "wd_procs w"] set_update_subset_insert [of "wd_procs w" n]
    unfolding w'(4) by (cases ph) auto
  have "process_sound (sd_checks db) (wd_scans w @ xs) (pc_job q) (pc_phase q) \<and> snapshot_sound (job_runs db) (pc_id q) (pc_job q)"
    if "q \<in> set (wd_procs w')" for q
  proof -
    from procs [OF that] consider "q \<in> set (wd_procs w)" | x where "ph = Some x" "q = p\<lparr>pc_phase := x\<rparr>" by blast
    then show ?thesis
    proof cases
      case 2
      then show ?thesis using s old [OF p] by (simp add: step_sound_def)
    qed (rule old)
  qed
  then have "sound w'" unfolding sound_def w'(1-3) using s by (simp add: step_sound_def)
  then show ?thesis using s unfolding w'_def [symmetric] w'(2) by (simp add: step_sound_def)
qed

lemma claim_job_runs:
  assumes "claim_job i now lease n db = (out, db')"
  shows "same_scans db db'" and "out = CoClaimed j \<or> out = CoExhausted j \<Longrightarrow> (i, slot_of j, sj_check_run j) \<in> set (job_runs db)"
proof -
  show "same_scans db db'" using assms
    by (auto simp: claim_job_def Let_def split: option.splits if_splits intro!: update_job_same simp: slot_of_def)
  assume "out = CoClaimed j \<or> out = CoExhausted j"
  then obtain x where "map_of (sd_jobs db) i = Some x" "slot_of j = slot_of x" "sj_check_run j = sj_check_run x"
    using assms by (auto simp: claim_job_def Let_def slot_of_def split: option.splits if_splits)
  then show "(i, slot_of j, sj_check_run j) \<in> set (job_runs db)" by (force simp: job_runs_def dest: map_of_SomeD)
qed

lemma claim_sound:
  assumes "sound w"
  shows "sound (claim i now w) \<and> wd_runs (claim i now w) = wd_runs w"
proof -
  obtain out db where c: "claim_job i now JOB_LEASE_SECONDS MAX_JOB_ATTEMPTS (wd_db w) = (out, db)" by fastforce
  note same = claim_job_runs(1) [OF c]
  have d: "distinct (map fst (job_runs (wd_db w)))" using assms by (simp add: sound_def jobs_sound_def)
  have snap: "snapshot_sound (job_runs (wd_db w)) i j" if "(i, slot_of j, r) \<in> set (job_runs (wd_db w))" for j r
    using d that eq_key_imp_eq_value unfolding snapshot_sound_def by (metis fst_conv)
  show ?thesis
  proof (cases out)
    case CoNothing
    then show ?thesis using assms by (simp add: claim_def c)
  next
    case (CoClaimed j)
    then have "snapshot_sound (job_runs (wd_db w)) i j" using claim_job_runs(2) [OF c] snap by blast
    then show ?thesis using assms same CoClaimed by (auto simp: claim_def c sound_def same_scans_def process_sound_def)
  next
    case (CoExhausted j)
    then have m: "(i, slot_of j, sj_check_run j) \<in> set (job_runs (wd_db w))" using claim_job_runs(2) [OF c] by blast
    let ?db = "notify_failure i j (audit_scan (AuScanFailed i FkInternal) db)"
    have s: "same_scans (wd_db w) ?db" using same_scans_trans [OF same same_scans_trans [OF audit_same(1) notify_failure_same]] .
    have run: "slot_run (sd_checks (wd_db w)) (slot_of j) = Some rid" if "sj_check_run j = Some rid" for rid
      using assms m that by (fastforce simp: sound_def jobs_sound_def)
    show ?thesis
      using assms s snap [OF m] run CoExhausted
      by (cases "sj_check_run j") (auto simp: claim_def c sound_def same_scans_def process_sound_def)
  qed
qed

lemma else_sound:
  assumes "sound w" and "elsewhere w db'"
  shows "sound (w\<lparr>wd_db := db'\<rparr>)"
proof -
  have c: "sd_checks db' = sd_checks (wd_db w)" and d: "distinct (map fst (sd_jobs db'))"
    and sub: "set (job_runs db') \<subseteq> set (job_runs (wd_db w)) \<union> {(i, s, None) | i s. i \<notin> pc_id ` set (wd_procs w)}"
    using assms(2) by (simp_all add: elsewhere_def)
  have "distinct (map fst (job_runs db'))" using d by (simp add: job_runs_def o_def case_prod_beta')
  moreover have "slot_run (sd_checks (wd_db w)) s = Some rid" if "(i, s, Some rid) \<in> set (job_runs db')" for i s rid
    using that sub assms(1) by (fastforce simp: sound_def jobs_sound_def)
  ultimately have j: "jobs_sound (sd_checks db') (job_runs db')" unfolding jobs_sound_def c by fastforce
  have "snapshot_sound (job_runs db') (pc_id p) (pc_job p)" if "p \<in> set (wd_procs w)" for p
  proof -
    have "snapshot_sound (job_runs (wd_db w)) (pc_id p) (pc_job p)" using assms(1) that by (simp add: sound_def)
    then show ?thesis using sub that unfolding snapshot_sound_def by blast
  qed
  then show ?thesis using assms(1) c j by (simp add: sound_def)
qed

lemma pstep_sound:
  assumes "pstep sha ag w w'" and "sound w"
  shows "sound w' \<and> runs_ordered (wd_runs w) (wd_runs w')"
  using assms
proof (induction rule: pstep.induct)
  case (Work n w answer now)
  then show ?case by (intro work_sound)
next
  case (Claim w i now)
  then show ?case using claim_sound by fastforce
next
  case (Crash n w)
  then show ?case using set_drop_at [of n "wd_procs w"] by (auto simp: sound_def)
next
  case (Else w db')
  then show ?case using else_sound by simp
qed

lemma preach_sound: "preach sha ag w \<Longrightarrow> sound w"
proof (induction rule: preach.induct)
  case (Fresh w)
  then show ?case by (simp add: sound_def slots_sound_def successes_sound_def jobs_sound_def job_runs_def)
next
  case (Next w w')
  then show ?case using pstep_sound by blast
qed

text \<open>C6: Over every interleaving of workers, crashes, webhooks and commands, a check run that says success belongs to a commit
  that a worker scanned, with a decision that lets it through.\<close>

theorem success_means_scanned:
  assumes "preach sha ag w" and "map_of (wd_runs w) rid = Some x" and "rn_conclusion x = Some ''success''"
  shows "\<exists>d. (rn_repository x, rn_head x, rn_name x, d) \<in> set (wd_scans w) \<and> ed_allowed d"
  using preach_sound [OF assms(1)] assms(2,3) unfolding sound_def successes_sound_def by blast

text \<open>C7: A check run stays with its commit, and a job never writes it after a job that was queued later: a slow scan cannot
  replace the result of a newer one.\<close>

theorem newest_scan_wins:
  assumes "preach sha ag w" and "pstep sha ag w w'"
    and "map_of (wd_runs w) rid = Some x" and "map_of (wd_runs w') rid = Some x'"
  shows "rn_writer x \<le> rn_writer x'
    \<and> (rn_repository x', rn_head x', rn_name x') = (rn_repository x, rn_head x, rn_name x)"
  using pstep_sound [OF assms(2) preach_sound [OF assms(1)]] assms(3,4) unfolding runs_ordered_def by fastforce

section \<open>What happens elsewhere\<close>

text \<open>New executions and cancellations of the store are steps of this kind.\<close>

lemma elsewhere_same: "sound w \<Longrightarrow> same_scans (wd_db w) db' \<Longrightarrow> elsewhere w db'"
  unfolding elsewhere_def same_scans_def sound_def jobs_sound_def
  by (auto simp: job_runs_def o_def case_prod_beta') (metis (no_types, lifting) comp_apply distinct_map fst_conv list.map_comp map_eq_conv)

lemma cancel_where_same:
  assumes "\<And>j. sj_new (f j) = sj_new j" and "\<And>j. sj_check_run (f j) = sj_check_run j"
  shows "same_scans db (cancel_where P f db)"
proof -
  have "map (\<lambda>(i, j). (i, slot_of j, sj_check_run j)) (map (\<lambda>(k, j). (k, if P j then (f j)\<lparr>sj_state := JsCancelled\<rparr> else j)) xs)
      = map (\<lambda>(i, j). (i, slot_of j, sj_check_run j)) xs" for xs
    by (induction xs) (auto simp: assms slot_of_def)
  then show ?thesis by (simp add: same_scans_def job_runs_def cancel_where_def)
qed

lemma insert_job_elsewhere:
  assumes "insert_job i n now key trigger previous (wd_db w) = Inr (job, db')" and "sound w" and "i \<notin> pc_id ` set (wd_procs w)"
  shows "elsewhere w db'"
proof -
  from assms(1) have new: "map_of (sd_jobs (wd_db w)) i = None"
    and d: "sd_checks db' = sd_checks (wd_db w)" "sd_jobs db' = sd_jobs (wd_db w) @ [(i, job)]" "sj_check_run job = None"
    by (auto simp: insert_job_def Let_def see_repository_def split: if_splits)
  have "distinct (map fst (sd_jobs (wd_db w)))"
    using assms(2) by (simp add: sound_def jobs_sound_def job_runs_def o_def case_prod_beta')
  moreover have "job_runs db' = job_runs (wd_db w) @ [(i, slot_of job, None)]" using d by (simp add: job_runs_def)
  ultimately show ?thesis using assms(3) new d unfolding elsewhere_def by (auto simp: map_of_eq_None_iff slot_of_def)
qed

section \<open>Workers that die\<close>

definition claim_next :: "string \<Rightarrow> scan_db \<Rightarrow> int \<Rightarrow> scan_db" where
  "claim_next i db t = snd (claim_job i t JOB_LEASE_SECONDS MAX_JOB_ATTEMPTS db)"

text \<open>Each time is after the lease taken at the one before.\<close>

fun spaced :: "int \<Rightarrow> int list \<Rightarrow> bool" where
  "spaced l [] \<longleftrightarrow> True"
| "spaced l (t # ts) \<longleftrightarrow> l < t \<and> spaced (t + JOB_LEASE_SECONDS) ts"

definition claimable :: "int \<Rightarrow> scan_job \<Rightarrow> bool" where
  "claimable l j \<longleftrightarrow> sj_state j = JsQueued \<or> sj_state j = JsRunning \<and> sj_lease j = Some l"

lemma map_of_update_job: "map_of (sd_jobs (update_job i f db)) k =
    map_option (\<lambda>j. if k = i then f j else j) (map_of (sd_jobs db) k)"
proof -
  have "map_of (map (\<lambda>(k, j). (k, if k = i then f j else j)) xs) k = map_option (\<lambda>j. if k = i then f j else j) (map_of xs k)" for xs
    by (induction xs) auto
  then show ?thesis by (simp add: update_job_def)
qed

lemma claim_next_cases:
  assumes "map_of (sd_jobs db) i = Some j" and "claimable l j" and "l < t"
  shows "if MAX_JOB_ATTEMPTS \<le> sj_attempts j
    then \<exists>x. map_of (sd_jobs (claim_next i db t)) i = Some x \<and> sj_state x = JsError \<and> sj_attempts x = sj_attempts j
    else \<exists>x. map_of (sd_jobs (claim_next i db t)) i = Some x \<and> claimable (t + JOB_LEASE_SECONDS) x \<and> sj_attempts x = sj_attempts j + 1"
proof -
  have "\<not> (sj_state j \<noteq> JsQueued \<and> \<not> abandoned t j)"
    using assms(2,3) by (auto simp: claimable_def abandoned_def)
  then show ?thesis
    using assms(1) by (auto simp: claim_next_def claim_job_def Let_def map_of_update_job claimable_def)
qed

lemma claim_next_ended:
  assumes "map_of (sd_jobs db) i = Some j" and "sj_state j = JsError"
  shows "claim_next i db t = db"
  using assms by (simp add: claim_next_def claim_job_def abandoned_def)

lemma claims_ended: "map_of (sd_jobs db) i = Some j \<Longrightarrow> sj_state j = JsError \<Longrightarrow> foldl (claim_next i) db ts = db"
  by (induction ts) (simp_all add: claim_next_ended)

text \<open>C21: A job whose workers all die is claimed at most three times: once its attempts are used up, the next claim ends it as an
  error, and no later claim runs it again.\<close>

theorem abandoned_jobs_end:
  assumes "map_of (sd_jobs db) i = Some j" and "claimable l j" and "spaced l ts" and "sj_attempts j \<le> MAX_JOB_ATTEMPTS"
    and "MAX_JOB_ATTEMPTS - sj_attempts j < length ts"
  shows "\<exists>x. map_of (sd_jobs (foldl (claim_next i) db ts)) i = Some x \<and> sj_state x = JsError \<and> sj_attempts x = MAX_JOB_ATTEMPTS"
  using assms
proof (induction ts arbitrary: db j l)
  case (Cons t ts)
  from Cons.prems have t: "l < t" "spaced (t + JOB_LEASE_SECONDS) ts" by simp_all
  note step = claim_next_cases [OF Cons.prems(1,2) t(1)]
  show ?case
  proof (cases "MAX_JOB_ATTEMPTS \<le> sj_attempts j")
    case True
    then obtain x where x: "map_of (sd_jobs (claim_next i db t)) i = Some x" "sj_state x = JsError" "sj_attempts x = sj_attempts j"
      using step by auto
    then show ?thesis using claims_ended [OF x(1,2)] True Cons.prems(4) by simp
  next
    case False
    then obtain x where x: "map_of (sd_jobs (claim_next i db t)) i = Some x" "claimable (t + JOB_LEASE_SECONDS) x"
      "sj_attempts x = sj_attempts j + 1" using step by auto
    have "\<exists>y. map_of (sd_jobs (foldl (claim_next i) (claim_next i db t) ts)) i = Some y \<and> sj_state y = JsError
        \<and> sj_attempts y = MAX_JOB_ATTEMPTS"
      by (rule Cons.IH [OF x(1,2) t(2)]) (use x(3) False Cons.prems(5) in simp_all)
    then show ?thesis by simp
  qed
qed simp

section \<open>Examples\<close>

definition queued_db :: scan_db where
  "queued_db = empty_scan_db\<lparr>sd_sequence := 1, sd_jobs := [(''j'', sample_job\<lparr>sj_state := JsQueued, sj_attempts := 0,
     sj_lease := None, sj_started_at := None\<rparr>)]\<rparr>"

lemma abandoned_jobs_end_witness:
  "map_option sj_state (map_of (sd_jobs (foldl (claim_next ''j'') queued_db [0, 2000, 4000, 6000])) ''j'') = Some JsError"
proof -
  have j: "map_of (sd_jobs queued_db) ''j'' = Some (sample_job\<lparr>sj_state := JsQueued, sj_attempts := 0, sj_lease := None,
      sj_started_at := None\<rparr>)" by (simp add: queued_db_def)
  have "\<exists>x. map_of (sd_jobs (foldl (claim_next ''j'') queued_db [0, 2000, 4000, 6000])) ''j'' = Some x \<and> sj_state x = JsError
      \<and> sj_attempts x = MAX_JOB_ATTEMPTS"
    by (rule abandoned_jobs_end [OF j, where l = "-1"])
      (simp_all add: claimable_def JOB_LEASE_SECONDS_def MAX_JOB_ATTEMPTS_def)
  then show ?thesis by auto
qed

text \<open>The replies of a scan that passes.\<close>

definition clean_outcome :: scan_outcome where
  "clean_outcome = \<lparr>so_commits = [], so_action = ALLOW, so_allowed = True, so_monitored = []\<rparr>"

definition passing :: "reply list" where
  "passing = [RpDone, RpRepository None [] [], RpPull True, RpCreated 7 ''c0ffee'', RpDone, RpPlan (Some ''c0ffee''), RpDone,
     RpScan clean_outcome (decide BLOCK ALLOW), RpDone]"

fun play :: "reply list \<Rightarrow> world \<Rightarrow> world option" where
  "play [] w = Some w"
| "play (a # as) w =
     (if wd_procs w = [] \<or> (case a of RpCreated rid _ \<Rightarrow> rid \<in> fst ` set (wd_runs w) | _ \<Rightarrow> False) then None
      else play as (work plain_hash (\<lambda>_. False) 0 a 0 w))"

lemma play_reaches: "play as w = Some w' \<Longrightarrow> preach plain_hash (\<lambda>_. False) w \<Longrightarrow> preach plain_hash (\<lambda>_. False) w'"
proof (induction as arbitrary: w)
  case (Cons a as)
  then have "preach plain_hash (\<lambda>_. False) (work plain_hash (\<lambda>_. False) 0 a 0 w)"
    by (intro Next [OF Cons.prems(2) Work]) (auto split: if_splits)
  then show ?case using Cons by (auto split: if_splits)
qed simp

definition empty_world :: world where
  "empty_world = \<lparr>wd_db = empty_scan_db, wd_runs = [], wd_procs = [], wd_scans = []\<rparr>"

definition claimed_world :: world where
  "claimed_world = claim ''j'' 0 (empty_world\<lparr>wd_db := queued_db\<rparr>)"

lemma claimed_reached: "preach plain_hash (\<lambda>_. False) claimed_world"
proof -
  have e: "preach plain_hash (\<lambda>_. False) empty_world" by (rule Fresh) (simp_all add: empty_world_def empty_scan_db_def)
  have "elsewhere empty_world queued_db"
    by (auto simp: elsewhere_def empty_world_def queued_db_def empty_scan_db_def job_runs_def sample_job_def slot_of_def)
  then show ?thesis unfolding claimed_world_def by (intro Next [OF Next [OF e Else] Claim])
qed

lemma played: "map_option (\<lambda>w. map (\<lambda>(rid, x). (rid, rn_head x, rn_conclusion x)) (wd_runs w)) (play passing claimed_world)
    = Some [(7, ''c0ffee'', Some ''success'')]"
  by code_simp

theorem success_means_scanned_witness:
  "\<exists>w d. play passing claimed_world = Some w \<and> ed_allowed d \<and> (\<exists>r n. (r, ''c0ffee'', n, d) \<in> set (wd_scans w))"
proof -
  obtain w where w: "play passing claimed_world = Some w"
    and r: "map (\<lambda>(rid, x). (rid, rn_head x, rn_conclusion x)) (wd_runs w) = [(7, ''c0ffee'', Some ''success'')]"
    using played by auto
  then obtain x where x: "map_of (wd_runs w) 7 = Some x" "rn_head x = ''c0ffee''" "rn_conclusion x = Some ''success''" by auto
  show ?thesis using success_means_scanned [OF play_reaches [OF w claimed_reached] x(1,3)] x(2) w by auto
qed

theorem newest_scan_wins_witness:
  "\<exists>w x x'. play [RpDone, RpRepository None [] [], RpPull True, RpCreated 7 ''c0ffee''] claimed_world = Some w
     \<and> map_of (wd_runs w) 7 = Some x \<and> map_of (wd_runs (work plain_hash (\<lambda>_. False) 0 RpDone 0 w)) 7 = Some x'
     \<and> rn_writer x \<le> rn_writer x'"
proof -
  let ?as = "[RpDone, RpRepository None [] [], RpPull True, RpCreated 7 ''c0ffee'']"
  have "map_option (\<lambda>w. (map fst (wd_runs w), map fst (wd_runs (work plain_hash (\<lambda>_. False) 0 RpDone 0 w)), length (wd_procs w)))
      (play ?as claimed_world) = Some ([7], [7], 1)" by code_simp
  then obtain w where w: "play ?as claimed_world = Some w" and l: "length (wd_procs w) = 1"
    and r: "map fst (wd_runs w) = [7]" "map fst (wd_runs (work plain_hash (\<lambda>_. False) 0 RpDone 0 w)) = [7]"
    unfolding map_option_eq_Some prod.inject by metis
  from r obtain x x' where "map_of (wd_runs w) 7 = Some x" "map_of (wd_runs (work plain_hash (\<lambda>_. False) 0 RpDone 0 w)) 7 = Some x'"
    by auto
  moreover have "pstep plain_hash (\<lambda>_. False) w (work plain_hash (\<lambda>_. False) 0 RpDone 0 w)" by (rule Work) (simp_all add: l)
  ultimately show ?thesis using newest_scan_wins [OF play_reaches [OF w claimed_reached]] w by blast
qed

end
