(* ===== verification/Scan_Dispatch.thy ===== *)
theory Scan_Dispatch
  imports Scan_Safety
begin

text \<open>
  The webhook service (\<open>github/app.py\<close>), the installation events of \<open>github/installations.py\<close> and automatic retries
  (\<open>github/recovery.py\<close>). Events are the normalised ones of \<open>github/events.py\<close>. The IDs drawn for new jobs are arguments.
  The wake-up queue is not modelled: a job that is stored is found again by recovery. \<open>sha\<close> is SHA-256 in hexadecimal.
\<close>

section \<open>Events\<close>

type_synonym repository_ref = "int \<times> ustr \<times> ustr"

record push_event =
  pe_installation :: int
  pe_repository :: repository_ref
  pe_deleted :: bool
  pe_context :: scan_context

record pull_event =
  pl_action :: string
  pl_installation :: int
  pl_repository :: repository_ref
  pl_number :: int
  pl_merged :: bool
  pl_base_changed :: bool
  pl_context :: scan_context

record rerun_event =
  re_installation :: int
  re_repository :: repository_ref
  re_head_sha :: string
  re_app_id :: int

datatype github_event =
    GeIgnored
  | GeInstallation installation_action installation_row "repository_ref list"
  | GeRepositories installation_row bool "repository_ref list"
  | GePush push_event
  | GePull pull_event
  | GeGroup bool group_event repository_ref "string option" scan_context
  | GeCheckRun rerun_event string "string option"
  | GeCheckSuite rerun_event

datatype answer_status = AsIgnored | AsProcessed | AsDuplicate | AsQueued

text \<open>What a handler answers or raises, and the store with the transactions it committed.\<close>

type_synonym handled = "(cp_error + answer_status) \<times> scan_db"

definition APP_CHECK_NAME :: string where "APP_CHECK_NAME = ''commitguard-app''"
definition APP_PUSH_CHECK_NAME :: string where "APP_PUSH_CHECK_NAME = ''commitguard-app/push''"

text \<open>\<open>github/pull_requests.py\<close>\<close>

datatype disposition = DpScan | DpMerge | DpClose | DpIgnore

definition PULL_REQUEST_SCAN_ACTIONS :: "string list" where
  "PULL_REQUEST_SCAN_ACTIONS = [''opened'', ''synchronize'', ''reopened'']"

definition disposition_of :: "pull_event \<Rightarrow> disposition" where
  "disposition_of e =
     (if pl_action e \<in> set PULL_REQUEST_SCAN_ACTIONS then DpScan
      else if pl_action e = ''edited'' \<and> pl_base_changed e then DpScan
      else if pl_action e = ''closed'' then (if pl_merged e then DpMerge else DpClose)
      else DpIgnore)"

section \<open>Scans\<close>

definition enqueue :: "string \<Rightarrow> new_job \<Rightarrow> int \<Rightarrow> scan_db \<Rightarrow> handled" where
  "enqueue i n now db =
     (case create_job i n now db of
        Inl e \<Rightarrow> (Inl e, db)
      | Inr (_, False, db1) \<Rightarrow> (Inr AsDuplicate, db1)
      | Inr ((k, _), True, db1) \<Rightarrow> (Inr AsQueued, audit_scan (AuScanQueued k) db1))"

definition str_or :: "string option \<Rightarrow> string" where
  "str_or s = (case s of None \<Rightarrow> [] | Some x \<Rightarrow> x)"

definition ref_of :: "scan_context \<Rightarrow> ustr" where
  "ref_of c = (case cx_ref c of None \<Rightarrow> [] | Some r \<Rightarrow> r)"

definition handle_push :: "(nat list \<Rightarrow> string) \<Rightarrow> string \<Rightarrow> string \<Rightarrow> push_event \<Rightarrow> int \<Rightarrow> scan_db \<Rightarrow> handled" where
  "handle_push sha new delivery e now db =
     (let c = pe_context e; ref = ref_of c; i = pe_installation e; (r, owner, name) = pe_repository e
      in if \<not> startswith ref (asc ''refs/heads/'') then (Inr AsIgnored, db)
         else case (if pe_deleted e then None else cx_after_sha c) of
                None \<Rightarrow> (Inr AsIgnored, branch_deleted sha i r ref now db)
              | Some after \<Rightarrow>
                  if \<not> monitoring_enabled db i r then (Inr AsIgnored, db)
                  else enqueue new \<lparr>nj_key = fingerprint sha [asc ''push'', ref, asc (str_or (cx_before_sha c)), asc after],
                         nj_installation = i, nj_repository = r, nj_owner = owner, nj_name = name, nj_delivery = Some delivery,
                         nj_event = EvPush, nj_group = branch_key sha ref, nj_head_sha = after,
                         nj_check_name = APP_PUSH_CHECK_NAME, nj_pull_request = None, nj_context = c, nj_requested_by = None\<rparr> now db)"

definition handle_pull :: "(nat list \<Rightarrow> string) \<Rightarrow> string \<Rightarrow> string \<Rightarrow> pull_event \<Rightarrow> int \<Rightarrow> scan_db \<Rightarrow> handled" where
  "handle_pull sha new delivery e now db =
     (let c = pl_context e; i = pl_installation e; (r, owner, name) = pl_repository e; n = pl_number e; head = str_or (cx_head_sha c)
      in case disposition_of e of
           DpIgnore \<Rightarrow> (Inr AsIgnored, db)
         | DpClose \<Rightarrow> (Inr AsProcessed, pull_request_closed sha i r n False None now (cancel_queued_group i r (pr_key n) now db))
         | DpMerge \<Rightarrow> (Inr AsProcessed, audit_scan (AuPullRequestMerged i r n) (pull_request_closed sha i r n True (cx_ref c) now db))
         | DpScan \<Rightarrow>
             if \<not> monitoring_enabled db i r then (Inr AsIgnored, db)
             else (case enqueue new \<lparr>nj_key = fingerprint sha [asc ''pull_request'', asc (int_string n), asc (str_or (cx_base_sha c)), asc head],
                           nj_installation = i, nj_repository = r, nj_owner = owner, nj_name = name, nj_delivery = Some delivery,
                           nj_event = EvPullRequest, nj_group = pr_key n, nj_head_sha = head,
                           nj_check_name = APP_CHECK_NAME, nj_pull_request = Some n, nj_context = c, nj_requested_by = None\<rparr> now db of
                     (st, db1) \<Rightarrow> (st, if pl_action e = ''reopened'' \<and> st = Inr AsDuplicate
                       then pull_request_reopened i r n now db1 else db1)))"

text \<open>What follows the transaction that recorded the merge group.\<close>

definition merge_group_enqueue ::
  "(nat list \<Rightarrow> string) \<Rightarrow> string \<Rightarrow> string \<Rightarrow> group_event \<Rightarrow> repository_ref \<Rightarrow> scan_context \<Rightarrow> int \<Rightarrow> scan_db \<Rightarrow> handled" where
  "merge_group_enqueue sha new delivery e repository c now db =
     (let i = ge_installation e; (r, owner, name) = repository; key = merge_key (ge_head_sha e)
      in case enqueue new \<lparr>nj_key = fingerprint sha [asc ''merge_group'', ge_head_ref e, asc (ge_base_sha e), asc (ge_head_sha e)],
                nj_installation = i, nj_repository = r, nj_owner = owner, nj_name = name, nj_delivery = Some delivery,
                nj_event = EvMergeGroup, nj_group = key, nj_head_sha = ge_head_sha e, nj_check_name = APP_CHECK_NAME,
                nj_pull_request = None, nj_context = c, nj_requested_by = None\<rparr> now
                (audit_scan (AuMergeGroupCreated i r (ge_head_sha e)) db) of
           (Inl x, db1) \<Rightarrow> (Inl x, db1)
         | (Inr st, db1) \<Rightarrow> (Inr st, case latest_group_job db1 i r key of
               None \<Rightarrow> db1 | Some (k, _) \<Rightarrow> set_merge_group_job (group_id e) k now db1))"

definition merge_group_requested ::
  "(nat list \<Rightarrow> string) \<Rightarrow> string \<Rightarrow> string \<Rightarrow> group_event \<Rightarrow> repository_ref \<Rightarrow> scan_context \<Rightarrow> int \<Rightarrow> scan_db \<Rightarrow> handled" where
  "merge_group_requested sha new delivery e repository c now db =
     (if \<not> monitoring_enabled db (ge_installation e) (ge_repository e) then (Inr AsIgnored, db)
      else case record_merge_group e (Some delivery) now db of
             (False, db1) \<Rightarrow> (Inr AsDuplicate, db1)
           | (True, db1) \<Rightarrow> merge_group_enqueue sha new delivery e repository c now db1)"

text \<open>What follows the transaction that destroyed the merge group.\<close>

definition merge_group_ended :: "(nat list \<Rightarrow> string) \<Rightarrow> group_event \<Rightarrow> string option \<Rightarrow> int \<Rightarrow> scan_db \<Rightarrow> scan_db" where
  "merge_group_ended sha e reason now db =
     (let i = ge_installation e; r = ge_repository e; head = ge_head_sha e
      in audit_scan (AuMergeGroupDestroyed i r head)
           (merge_group_destroyed sha i r head reason (ge_base_ref e) now (cancel_queued_group i r (merge_key head) now db)))"

definition merge_group_gone :: "(nat list \<Rightarrow> string) \<Rightarrow> group_event \<Rightarrow> string option \<Rightarrow> int \<Rightarrow> scan_db \<Rightarrow> handled" where
  "merge_group_gone sha e reason now db =
     (case destroy_merge_group e reason now db of
        (False, db1) \<Rightarrow> (Inr AsDuplicate, db1)
      | (True, db1) \<Rightarrow> (Inr AsProcessed, merge_group_ended sha e reason now db1))"

section \<open>Check re-runs\<close>

definition reject_rerun :: "rerun_event \<Rightarrow> string \<Rightarrow> scan_db \<Rightarrow> handled" where
  "reject_rerun e why db = (Inr AsIgnored, audit_scan (AuRerunRejected (re_installation e) (fst (re_repository e)) why) db)"

definition request_rerun :: "string \<Rightarrow> string \<Rightarrow> rerun_event \<Rightarrow> string \<times> scan_job \<Rightarrow> int \<Rightarrow> scan_db \<Rightarrow> handled" where
  "request_rerun new delivery e = (\<lambda>(i, j) now db.
     if \<not> monitoring_enabled db (job_installation j) (job_repository j)
     then reject_rerun e ''monitoring is paused for this repository'' db
     else if (case latest_group_job db (job_installation j) (job_repository j) (job_group j) of
                None \<Rightarrow> False | Some (_, x) \<Rightarrow> sj_scan_key x \<noteq> sj_scan_key j)
     then reject_rerun e ''a newer commit has been scanned for this pull request or branch'' db
     else if nj_event (sj_new j) = EvMergeGroup
             \<and> group_state db (job_installation j, job_repository j, job_head j) \<noteq> Some MgRequested
     then reject_rerun e ''the merge group no longer exists'' db
     else case create_execution new i j TrRerun now (Some delivery) None db of
            Inl x \<Rightarrow> (Inl x, db)
          | Inr (_, False, db1) \<Rightarrow> (Inr AsDuplicate, db1)
          | Inr ((k, x), True, db1) \<Rightarrow> (Inr AsQueued, audit_scan (AuRerunRequested k i (sj_execution x)) db1))"

definition check_run_rerequested :: "int \<Rightarrow> string \<Rightarrow> string \<Rightarrow> rerun_event \<Rightarrow> string \<Rightarrow> string option \<Rightarrow> int \<Rightarrow> scan_db \<Rightarrow> handled" where
  "check_run_rerequested app new delivery e name external now db =
     (if re_app_id e \<noteq> app then (Inr AsIgnored, db)
      else case (case external of None \<Rightarrow> None | Some i \<Rightarrow> if i = [] then None else map_option (Pair i) (map_of (sd_jobs db) i)) of
             None \<Rightarrow> reject_rerun e ''the check run does not match a CommitGuard scan'' db
           | Some (i, j) \<Rightarrow>
               if job_installation j \<noteq> re_installation e \<or> job_repository j \<noteq> fst (re_repository e)
                  \<or> job_head j \<noteq> re_head_sha e \<or> job_check_name j \<noteq> name
               then reject_rerun e ''the check run does not match a CommitGuard scan'' db
               else request_rerun new delivery e (i, j) now db)"

text \<open>One execution per check of the commit; \<open>new\<close> draws an ID for each.\<close>

definition rerun_next ::
  "(string \<Rightarrow> string) \<Rightarrow> string \<Rightarrow> rerun_event \<Rightarrow> int \<Rightarrow> (cp_error + answer_status list) \<times> scan_db \<Rightarrow> string \<times> scan_job
     \<Rightarrow> (cp_error + answer_status list) \<times> scan_db" where
  "rerun_next new delivery e now = (\<lambda>(res, db) (i, j).
     case res of
       Inl x \<Rightarrow> (Inl x, db)
     | Inr sts \<Rightarrow> (case request_rerun (new i) delivery e (i, j) now db of
           (Inl x, d) \<Rightarrow> (Inl x, d)
         | (Inr st, d) \<Rightarrow> (Inr (sts @ [st]), d)))"

definition check_suite_rerequested :: "int \<Rightarrow> (string \<Rightarrow> string) \<Rightarrow> string \<Rightarrow> rerun_event \<Rightarrow> int \<Rightarrow> scan_db \<Rightarrow> handled" where
  "check_suite_rerequested app new delivery e now db =
     (if re_app_id e \<noteq> app then (Inr AsIgnored, db)
      else let jobs = filter (\<lambda>(_, j). job_check_name j = APP_CHECK_NAME \<or> job_check_name j = APP_PUSH_CHECK_NAME)
                        (latest_jobs_for_commit db (re_installation e) (fst (re_repository e)) (re_head_sha e))
           in if jobs = [] then reject_rerun e ''no CommitGuard scan exists for this commit'' db
              else (case foldl (rerun_next new delivery e now) (Inr [], db) jobs of
                      (Inl x, d) \<Rightarrow> (Inl x, d)
                    | (Inr sts, d) \<Rightarrow> (Inr (if AsQueued \<in> set sts then AsQueued
                          else if AsDuplicate \<in> set sts then AsDuplicate else AsIgnored), d)))"

section \<open>Installations\<close>

text \<open>\<open>_apply\<close>: the state, its audit event and the notification of a transition, one transaction. \<open>was\<close> is the state that was
  read before.\<close>

definition transition_notice :: "installation_row \<Rightarrow> installation_state option \<Rightarrow> nat \<Rightarrow> scan_db \<Rightarrow> scan_notice option" where
  "transition_notice row was repositories db =
     (let after = in_state row
      in if was = Some InActive \<and> (after = InSuspended \<or> after = InDeleted)
         then Some (NoDisconnected (in_account_id row) (in_id row) after repositories)
         else if was = Some InSuspended \<and> after = InActive
              \<or> was = None \<and> after = InActive \<and> list_ex (\<lambda>x. in_account_id x = in_account_id row \<and> in_id x \<noteq> in_id row
                   \<and> in_state x = InDeleted) (sd_installations db)
              \<or> was = Some InDeleted \<and> after = InActive
         then Some (NoReconnected (in_account_id row) (in_id row) repositories) else None)"

definition apply_installation ::
  "installation_action \<Rightarrow> installation_row \<Rightarrow> installation_state option \<Rightarrow> nat option \<Rightarrow> int \<Rightarrow> scan_db \<Rightarrow> scan_db" where
  "apply_installation act row was affected now db =
     (let db1 = upsert_installation row db;
          db2 = (if in_state row = InDeleted then set_installation_state (in_id row) InDeleted now db1 else db1);
          repositories = (case affected of Some n \<Rightarrow> n | None \<Rightarrow> length (list_repositories db2 (in_id row)));
          db3 = audit_scan (AuInstallation act (in_id row) (in_account_id row)) db2
      in case transition_notice row was repositories db2 of None \<Rightarrow> db3 | Some n \<Rightarrow> notify_scan n db3)"

text \<open>What follows the read of the stored state \<open>was\<close>.\<close>

definition installation_event ::
  "installation_action \<Rightarrow> installation_row \<Rightarrow> repository_ref list \<Rightarrow> installation_state option \<Rightarrow> int \<Rightarrow> scan_db \<Rightarrow> scan_db" where
  "installation_event act row repositories was now db =
     (if was = Some InDeleted \<and> act \<noteq> IaCreated then db
      else let row = row\<lparr>in_state := InActive, in_updated_at := now\<rparr>
           in case act of
                IaCreated \<Rightarrow> apply_installation act row was None now (replace_repositories (in_id row) repositories now db)
              | IaDeleted \<Rightarrow> apply_installation act (row\<lparr>in_state := InDeleted\<rparr>) was (Some (length (list_repositories db (in_id row)))) now db
              | IaSuspend \<Rightarrow> apply_installation act (row\<lparr>in_state := InSuspended\<rparr>) was None now db
              | IaUnsuspend \<Rightarrow> apply_installation act row was None now db
              | IaNewPermissions \<Rightarrow> apply_installation act (row\<lparr>in_state := (case was of None \<Rightarrow> InActive | Some s \<Rightarrow> s)\<rparr>) was None now db)"

definition handle_installation :: "installation_action \<Rightarrow> installation_row \<Rightarrow> repository_ref list \<Rightarrow> int \<Rightarrow> scan_db \<Rightarrow> scan_db" where
  "handle_installation act row repositories now db =
     installation_event act row repositories (map_option in_state (installation_of db (in_id row))) now db"

definition handle_repositories :: "installation_row \<Rightarrow> bool \<Rightarrow> repository_ref list \<Rightarrow> int \<Rightarrow> scan_db \<Rightarrow> scan_db" where
  "handle_repositories row added rs now db =
     (let was = map_option in_state (installation_of db (in_id row))
      in if was = Some InDeleted then db
         else let db1 = (if was = None then upsert_installation (row\<lparr>in_state := InActive, in_updated_at := now\<rparr>) db else db)
              in if added then audit_scan (AuRepositoriesAdded (in_id row) (length rs)) (add_repositories (in_id row) rs now db1)
                 else audit_scan (AuRepositoriesRemoved (in_id row) (length rs)) (remove_repositories (in_id row) (map fst rs) now db1))"

section \<open>Deliveries\<close>

definition event_place :: "github_event \<Rightarrow> (int \<times> int) option" where
  "event_place e =
     (case e of
        GePush p \<Rightarrow> Some (pe_installation p, fst (pe_repository p))
      | GePull p \<Rightarrow> Some (pl_installation p, fst (pl_repository p))
      | GeGroup _ g _ _ _ \<Rightarrow> Some (ge_installation g, ge_repository g)
      | GeCheckRun r _ _ \<Rightarrow> Some (re_installation r, fst (re_repository r))
      | GeCheckSuite r \<Rightarrow> Some (re_installation r, fst (re_repository r))
      | _ \<Rightarrow> None)"

definition event_installation :: "github_event \<Rightarrow> int option" where
  "event_installation e =
     (case e of GeInstallation _ row _ \<Rightarrow> Some (in_id row) | GeRepositories row _ _ \<Rightarrow> Some (in_id row)
      | _ \<Rightarrow> map_option fst (event_place e))"

definition dispatch ::
  "(nat list \<Rightarrow> string) \<Rightarrow> int \<Rightarrow> (string \<Rightarrow> string) \<Rightarrow> string \<Rightarrow> github_event \<Rightarrow> int \<Rightarrow> scan_db \<Rightarrow> handled" where
  "dispatch sha app new delivery e now db =
     (case e of
        GeIgnored \<Rightarrow> (Inr AsIgnored, db)
      | GeInstallation act row rs \<Rightarrow> (Inr AsProcessed, handle_installation act row rs now db)
      | GeRepositories row added rs \<Rightarrow> (Inr AsProcessed, handle_repositories row added rs now db)
      | _ \<Rightarrow>
          (case event_place e of
             None \<Rightarrow> (Inr AsIgnored, db)
           | Some (i, r) \<Rightarrow>
               if denial_reason db i \<noteq> None then (Inr AsIgnored, audit_scan (AuAuthorizationDenied i r) db)
               else (case e of
                   GePush p \<Rightarrow> handle_push sha (new []) delivery p now db
                 | GePull p \<Rightarrow> handle_pull sha (new []) delivery p now db
                 | GeGroup destroyed g repository reason c \<Rightarrow>
                     if destroyed then merge_group_gone sha g reason now db
                     else merge_group_requested sha (new []) delivery g repository c now db
                 | GeCheckRun x name external \<Rightarrow> check_run_rerequested app (new []) delivery x name external now db
                 | GeCheckSuite x \<Rightarrow> check_suite_rerequested app new delivery x now db
                 | _ \<Rightarrow> (Inr AsIgnored, db))))"

fun status_text :: "answer_status \<Rightarrow> string" where
  "status_text AsIgnored = ''ignored''"
| "status_text AsProcessed = ''processed''"
| "status_text AsDuplicate = ''duplicate''"
| "status_text AsQueued = ''queued''"

text \<open>The HTTP status of the answer, after the delivery was verified and normalised. An error of the handler answers 500;
  the name of its type, which the code appends to the detail, is left out.\<close>

definition handle_verified ::
  "(nat list \<Rightarrow> string) \<Rightarrow> int \<Rightarrow> (string \<Rightarrow> string) \<Rightarrow> string \<Rightarrow> string \<Rightarrow> string \<Rightarrow> string option \<Rightarrow> github_event \<Rightarrow> int \<Rightarrow> scan_db
     \<Rightarrow> nat \<times> scan_db" where
  "handle_verified sha app new delivery event body act e now db =
     (case record_delivery delivery event body now act db of
        (DaDuplicate, db1) \<Rightarrow> (200, db1)
      | (DaConflict, db1) \<Rightarrow> (409, audit_scan (AuDeliveryRejected ''delivery ID reused with a different payload'') db1)
      | (_, db1) \<Rightarrow>
          (case dispatch sha app new delivery e now db1 of
             (Inl _, db2) \<Rightarrow> (500, finish_delivery delivery PrFailed now None None ''processing failed'' db2)
           | (Inr st, db2) \<Rightarrow>
               (if st = AsIgnored \<or> st = AsDuplicate \<or> st = AsQueued then 202 else 200,
                finish_delivery delivery (if st = AsIgnored \<or> st = AsDuplicate then PrIgnored else PrProcessed) now
                  (event_installation e) (map_option snd (event_place e)) (status_text st) db2)))"

section \<open>Automatic retries\<close>

definition MAX_AUTOMATIC_RETRIES :: nat where "MAX_AUTOMATIC_RETRIES = 2"
definition RETRY_BACKOFF :: "int list" where "RETRY_BACKOFF = [300, 1200]"
definition RETRY_WINDOW :: int where "RETRY_WINDOW = 86400"
definition RECOVERY_BATCH :: nat where "RECOVERY_BATCH = 50"

definition retryable :: "int \<Rightarrow> scan_db \<Rightarrow> scan_job \<Rightarrow> bool" where
  "retryable now db j \<longleftrightarrow>
     sj_state j = JsError
     \<and> (sj_failure j = Some (JfKind FkInfrastructure) \<or> sj_failure j = Some (JfKind FkTimeout))
     \<and> (case sj_completed_at j of None \<Rightarrow> False | Some t \<Rightarrow> now - RETRY_WINDOW \<le> t)
     \<and> \<not> list_ex (\<lambda>(_, n). sj_sequence j < sj_sequence n)
           (jobs_where db (job_installation j) (job_repository j) (\<lambda>n. job_group n = job_group j))
     \<and> list_ex (\<lambda>x. in_id x = job_installation j \<and> in_state x = InActive) (sd_installations db)"

definition retries_of :: "scan_db \<Rightarrow> scan_job \<Rightarrow> nat" where
  "retries_of db j = length (filter (\<lambda>(_, e). sj_trigger e = TrRetry)
     (list_executions db (job_installation j) (job_repository j) (sj_scan_key j)))"

text \<open>One row of the batch; \<open>new\<close> draws the ID of the retry.\<close>

definition retry_one :: "(string \<Rightarrow> string) \<Rightarrow> int \<Rightarrow> string \<Rightarrow> nat \<times> scan_db \<Rightarrow> cp_error + nat \<times> scan_db" where
  "retry_one new now i = (\<lambda>(scheduled, db).
     case map_of (sd_jobs db) i of
       None \<Rightarrow> Inr (scheduled, db)
     | Some j \<Rightarrow>
         (case (if sj_state j \<noteq> JsError then None else sj_completed_at j) of
            None \<Rightarrow> Inr (scheduled, db)
          | Some t \<Rightarrow>
              let n = retries_of db j
              in if MAX_AUTOMATIC_RETRIES \<le> n then Inr (scheduled, db)
                 else if now - t < RETRY_BACKOFF ! n then Inr (scheduled, db)
                 else if \<not> monitoring_enabled db (job_installation j) (job_repository j) then Inr (scheduled, db)
                 else (case create_execution (new i) i j TrRetry now None None db of
                         Inl x \<Rightarrow> Inl x
                       | Inr (_, False, db1) \<Rightarrow> Inr (scheduled, db1)
                       | Inr ((k, x), True, db1) \<Rightarrow>
                           Inr (scheduled + 1, audit_scan (AuRetryScheduled k i (sj_execution x) (n + 1)) db1))))"

definition retry_failed_scans :: "(string \<Rightarrow> string) \<Rightarrow> int \<Rightarrow> scan_db \<Rightarrow> cp_error + nat \<times> scan_db" where
  "retry_failed_scans new now db =
     fold_err (retry_one new now)
       (take RECOVERY_BATCH (map fst (sort_key (\<lambda>(_, j). sj_sequence j) (filter (\<lambda>(_, j). retryable now db j) (sd_jobs db)))))
       (0, db)"

end
