(* ===== verification/Dispatch_Safety.thy ===== *)
theory Dispatch_Safety
  imports Scan_Dispatch
begin

text \<open>
  What the webhook service promises of deliveries, merge groups and installations: a delivery that was handled is not
  handled again, a destroyed merge group is never scanned, and a removed installation stays removed. Three lemmas show
  where the code does less than its comments say.
\<close>

section \<open>Scans change neither deliveries nor installations\<close>

definition frame :: "scan_db \<Rightarrow> (string \<times> delivery_row) list \<times> installation_row list" where
  "frame db = (sd_deliveries db, sd_installations db)"

lemma frame_tables: "sd_deliveries db' = sd_deliveries db \<Longrightarrow> sd_installations db' = sd_installations db \<Longrightarrow> frame db' = frame db"
  by (simp add: frame_def)

lemma table_frame [simp]:
  "frame (db\<lparr>sd_sequence := q\<rparr>) = frame db" "frame (db\<lparr>sd_jobs := js\<rparr>) = frame db" "frame (db\<lparr>sd_groups := gs\<rparr>) = frame db"
  "frame (db\<lparr>sd_listed := ls\<rparr>) = frame db" "frame (db\<lparr>sd_known := ks\<rparr>) = frame db"
  by (simp_all add: frame_def)

lemma store_frame [simp]:
  "frame (audit_scan e db) = frame db"
  "frame (notify_scan n db) = frame db"
  "frame (cancel_where P f db) = frame db"
  "frame (see_repository n' now db) = frame db"
  "frame (update_violation vid g db) = frame db"
  "frame (update_exposures i r key Q h db) = frame db"
  "frame (activate_row vid gr i r job now db) = frame db"
  "frame (update_group k u db) = frame db"
  "frame (drop_listed gone now again db) = frame db"
  "frame (insert_repository i now db x) = frame db"
  by (simp_all add: frame_def audit_scan_def notify_scan_def cancel_where_def see_repository_def Let_def update_violation_def
      update_exposures_def activate_row_def update_group_def drop_listed_def insert_repository_def
      split: prod.split)

lemma foldl_frame: "(\<And>d x. frame (f d x) = frame d) \<Longrightarrow> frame (foldl f db xs) = frame db"
  by (induction xs arbitrary: db) simp_all

lemma more_frame [simp]:
  "frame (refresh_statuses now vids db) = frame db"
  "frame (end_group i r key why moved now db) = frame db"
  "frame (pull_request_reopened i r n now db) = frame db"
  "frame (cancel_queued_group i r key now db) = frame db"
  "frame (add_repositories i rs now db) = frame db"
  "frame (set_merge_group_job k job now db) = frame db"
proof -
  have "frame (refresh_status now d v) = frame d" for d v
    by (simp add: refresh_status_def split: option.split)
  then show r: "frame (refresh_statuses now vids db) = frame db" for db vids
    by (simp add: refresh_statuses_def foldl_frame)
  show "frame (end_group i r key why moved now db) = frame db"
    by (simp add: end_group_def Let_def r foldl_frame split: option.split)
  show "frame (pull_request_reopened i r n now db) = frame db"
    by (simp add: pull_request_reopened_def Let_def r)
qed (simp_all add: cancel_queued_group_def add_repositories_def foldl_frame set_merge_group_job_def Let_def)

lemma lifecycle_frame [simp]:
  "frame (pull_request_closed sha i r n merged base now db) = frame db"
  "frame (merge_group_destroyed sha i r head reason base_ref now db) = frame db"
  "frame (branch_deleted sha i r ref now db) = frame db"
  by (simp_all add: pull_request_closed_def merge_group_destroyed_def branch_deleted_def Let_def split: option.split)

lemma insert_job_frame: "insert_job i n now key tr prev db = Inr (job, db') \<Longrightarrow> frame db' = frame db"
  by (auto simp: insert_job_def Let_def split: if_splits)

lemma create_job_frame: "create_job i n now db = Inr (kj, new, db') \<Longrightarrow> frame db' = frame db"
  by (auto simp: create_job_def Let_def map_sum_def split: option.splits if_splits sum.splits dest: insert_job_frame)

lemma create_execution_frame:
  "create_execution i pid j tr now del req db = Inr (kj, new, db') \<Longrightarrow> frame db' = frame db"
  by (auto simp: create_execution_def Let_def map_sum_def split: option.splits list.splits sum.splits dest: insert_job_frame)

lemma enqueue_frame [simp]: "frame (snd (enqueue i n now db)) = frame db"
  by (auto simp: enqueue_def split: sum.split prod.split bool.split dest: create_job_frame)

lemma request_rerun_frame [simp]: "frame (snd (request_rerun new del e ij now db)) = frame db"
  by (auto simp: request_rerun_def reject_rerun_def split: sum.split prod.split bool.split dest: create_execution_frame)

lemma rerun_next_frame: "frame (snd (rerun_next new del e now s ij)) = frame (snd s)"
proof (cases s)
  case (Pair res db)
  show ?thesis
  proof (cases res)
    case (Inr sts)
    obtain i j where ij: "ij = (i, j)" by (cases ij)
    obtain r d where r: "request_rerun (new i) del e (i, j) now db = (r, d)" by (cases "request_rerun (new i) del e (i, j) now db")
    have "frame d = frame db" using request_rerun_frame [of "new i" del e "(i, j)" now db] by (simp add: r)
    then show ?thesis by (simp add: Pair Inr ij rerun_next_def r split: sum.split)
  qed (simp add: Pair rerun_next_def split: prod.split)
qed

lemma suite_frame [simp]: "frame (snd (check_suite_rerequested app new del e now db)) = frame db"
proof -
  have f: "frame (snd (foldl (rerun_next new del e now) s xs)) = frame (snd s)" for s xs
    by (induction xs arbitrary: s) (simp_all add: rerun_next_frame)
  define jobs where "jobs = filter (\<lambda>(_, j). job_check_name j = APP_CHECK_NAME \<or> job_check_name j = APP_PUSH_CHECK_NAME)
    (latest_jobs_for_commit db (re_installation e) (fst (re_repository e)) (re_head_sha e))"
  obtain r d where r: "foldl (rerun_next new del e now) (Inr [], db) jobs = (r, d)" by (cases "foldl (rerun_next new del e now) (Inr [], db) jobs")
  have "frame d = frame db" using f [of "(Inr [], db)" jobs] by (simp add: r)
  then show ?thesis
    by (cases r) (simp_all add: check_suite_rerequested_def reject_rerun_def Let_def r flip: jobs_def)
qed

lemma run_frame [simp]:
  "frame (snd (check_run_rerequested app new del e nm ext now db)) = frame db"
  by (simp add: check_run_rerequested_def reject_rerun_def Let_def split: option.split prod.split)

lemma push_frame [simp]: "frame (snd (handle_push sha new del p now db)) = frame db"
  by (simp add: handle_push_def Let_def split: prod.split option.split)

lemma pull_frame [simp]: "frame (snd (handle_pull sha new del p now db)) = frame db"
proof -
  have "enqueue i n now db = (st, d) \<Longrightarrow> frame d = frame db" for i n st d
    using enqueue_frame [of i n now db] by simp
  then show ?thesis by (auto simp: handle_pull_def Let_def split: prod.split disposition.split)
qed

lemma group_frame [simp]:
  "frame (snd (merge_group_gone sha g reason now db)) = frame db"
  "frame (snd (merge_group_requested sha new del g repository c now db)) = frame db"
proof -
  have a: "add_merge_group g d now db = (b, db') \<Longrightarrow> frame db' = frame db" for d b db'
    by (auto simp: add_merge_group_def Let_def split: option.splits if_splits)
  have "destroy_merge_group g reason now db = (b, db') \<Longrightarrow> frame db' = frame db" for b db'
    by (auto simp: destroy_merge_group_def Let_def dest: a split: prod.splits)
  then show "frame (snd (merge_group_gone sha g reason now db)) = frame db"
    by (auto simp: merge_group_gone_def merge_group_ended_def Let_def split: prod.split bool.split)
  have e: "enqueue i n now db = (st, d) \<Longrightarrow> frame d = frame db" for i n st d db
    using enqueue_frame [of i n now db] by simp
  have r: "record_merge_group g d now db = (b, db') \<Longrightarrow> frame db' = frame db" for d b db'
    by (auto simp: record_merge_group_def dest: a)
  have q: "frame (snd (merge_group_enqueue sha new del g repository c now db)) = frame db" for db
    by (auto simp: merge_group_enqueue_def Let_def dest: e split: prod.split sum.split option.split)
  show "frame (snd (merge_group_requested sha new del g repository c now db)) = frame db"
    by (auto simp: merge_group_requested_def q dest: r split: prod.split bool.split)
qed

text \<open>What an installation's state becomes.\<close>

definition state_of :: "scan_db \<Rightarrow> int \<Rightarrow> installation_state option" where
  "state_of db i = map_option in_state (installation_of db i)"

lemma frame_state: "frame db' = frame db \<Longrightarrow> state_of db' i = state_of db i"
  by (simp add: frame_def state_of_def installation_of_def)

lemma find_replace:
  assumes "\<And>x. in_id x = k \<Longrightarrow> in_id (f x) = k"
  shows "find (\<lambda>x. in_id x = i) (map (\<lambda>x. if in_id x = k then f x else x) xs)
    = (if i = k then map_option f (find (\<lambda>x. in_id x = i) xs) else find (\<lambda>x. in_id x = i) xs)"
  by (induction xs) (auto simp: assms)

lemma find_append: "find P (xs @ ys) = (case find P xs of None \<Rightarrow> find P ys | Some x \<Rightarrow> Some x)"
  by (induction xs) auto

lemma state_upsert [simp]: "state_of (upsert_installation row db) i = (if i = in_id row then Some (in_state row) else state_of db i)"
proof (cases "find (\<lambda>x. in_id x = in_id row) (sd_installations db)")
  case (Some y)
  then have "list_ex (\<lambda>x. in_id x = in_id row) (sd_installations db)" by (auto simp: find_Some_iff list_ex_iff)
  with Some show ?thesis
    by (simp add: upsert_installation_def state_of_def installation_of_def find_replace [where f = "\<lambda>_. row"])
next
  case None
  then have "\<not> list_ex (\<lambda>x. in_id x = in_id row) (sd_installations db)" by (auto simp: find_None_iff list_ex_iff)
  with None show ?thesis
    by (auto simp: upsert_installation_def state_of_def installation_of_def find_append split: option.split)
qed

lemma state_set [simp]: "state_of (set_installation_state k st now db) i = (if i = k then map_option (\<lambda>_. st) (state_of db i) else state_of db i)"
proof -
  define db1 where "db1 = db\<lparr>sd_installations := map (\<lambda>x. if in_id x = k then x\<lparr>in_state := st, in_updated_at := now\<rparr> else x)
      (sd_installations db)\<rparr>"
  have "state_of db1 i = (if i = k then map_option (\<lambda>_. st) (state_of db i) else state_of db i)"
    by (simp add: db1_def state_of_def installation_of_def find_replace option.map_comp o_def)
  moreover have "frame (set_installation_state k st now db) = frame db1"
    by (simp add: set_installation_state_def db1_def Let_def)
  ultimately show ?thesis using frame_state by metis
qed

lemma state_frame [simp]:
  "state_of (audit_scan e db) i = state_of db i" "state_of (notify_scan n db) i = state_of db i"
  "state_of (replace_repositories k rs now db) i = state_of db i"
  "state_of (add_repositories k rs now db) i = state_of db i"
  "state_of (remove_repositories k ids now db) i = state_of db i"
  by (rule frame_state; simp add: replace_repositories_def remove_repositories_def)+

lemma state_apply: "state_of (apply_installation act row was affected now db) i = (if i = in_id row then Some (in_state row) else state_of db i)"
  by (simp add: apply_installation_def Let_def split: option.split)

lemma installation_deliveries:
  "sd_deliveries (handle_installation act row rs now db) = sd_deliveries db"
  "sd_deliveries (handle_repositories row added rs now db) = sd_deliveries db"
proof -
  have f: "frame d' = frame d \<Longrightarrow> sd_deliveries d' = sd_deliveries d" for d d' by (simp add: frame_def)
  have u: "sd_deliveries (upsert_installation row d) = sd_deliveries d" for row d by (simp add: upsert_installation_def)
  have c: "frame (cancel_where P g (drop_listed h now a d)) = frame d" for P g h a d by simp
  have s: "sd_deliveries (set_installation_state i st now d) = sd_deliveries d" for i st d
    using f [OF c] by (auto simp: set_installation_state_def Let_def)
  have n: "sd_deliveries (audit_scan e d) = sd_deliveries d" "sd_deliveries (notify_scan x d) = sd_deliveries d"
    "sd_deliveries (replace_repositories i rs now d) = sd_deliveries d" "sd_deliveries (add_repositories i rs now d) = sd_deliveries d"
    "sd_deliveries (remove_repositories i ids now d) = sd_deliveries d" for e x i rs ids d
    by (rule f; simp add: replace_repositories_def remove_repositories_def)+
  have a: "sd_deliveries (apply_installation act row was affected now d) = sd_deliveries d" for act row was affected d
    by (simp add: apply_installation_def Let_def u s n split: option.split)
  show "sd_deliveries (handle_installation act row rs now db) = sd_deliveries db"
    by (cases act) (simp_all add: handle_installation_def installation_event_def Let_def a n)
  show "sd_deliveries (handle_repositories row added rs now db) = sd_deliveries db"
    by (simp add: handle_repositories_def Let_def u n)
qed

lemma place_event: "event_place e = Some p \<Longrightarrow> frame (snd (dispatch sha app new del e now db)) = frame db"
  by (cases p; cases e) (simp_all add: dispatch_def event_place_def)

lemma dispatch_deliveries: "sd_deliveries (snd (dispatch sha app new del e now db)) = sd_deliveries db"
proof (cases "event_place e")
  case (Some p)
  then show ?thesis using place_event by (simp add: frame_def)
next
  case None
  then show ?thesis by (cases e) (simp_all add: dispatch_def event_place_def installation_deliveries)
qed

section \<open>Deliveries\<close>

lemma record_delivery_taken:
  assumes "record_delivery del ev body t act db = (a, db1)" and "a = DaNew \<or> a = DaRetry"
  shows "\<exists>d. map_of (sd_deliveries db1) del = Some d \<and> dl_event d = ev \<and> dl_body_sha256 d = body"
  using assms by (auto simp: record_delivery_def map_add_def dict_simps split: option.splits if_splits)

lemma finish_delivery_row:
  assumes "map_of (sd_deliveries db) del = Some d"
  shows "\<exists>d'. map_of (sd_deliveries (finish_delivery del st now i r detail db)) del = Some d'
    \<and> dl_event d' = dl_event d \<and> dl_body_sha256 d' = dl_body_sha256 d \<and> dl_status d' = st"
proof -
  have m: "map_of (map (\<lambda>(j, d). (j, if j = del then g d else d)) xs) del = map_option g (map_of xs del)" for g xs
    by (induction xs) auto
  show ?thesis using assms by (simp add: finish_delivery_def m)
qed

lemma handle_verified_taken:
  assumes "record_delivery del ev body t act db = (a, db1)" and "a = DaNew \<or> a = DaRetry"
  shows "\<exists>d. map_of (sd_deliveries (snd (handle_verified sha app new del ev body act e t db))) del = Some d
      \<and> dl_event d = ev \<and> dl_body_sha256 d = body
      \<and> (if fst (handle_verified sha app new del ev body act e t db) = 500 then dl_status d = PrFailed
         else dl_status d = PrIgnored \<or> dl_status d = PrProcessed)"
proof -
  obtain d where d: "map_of (sd_deliveries db1) del = Some d" "dl_event d = ev" "dl_body_sha256 d = body"
    using record_delivery_taken [OF assms] by blast
  obtain r db2 where r: "dispatch sha app new del e t db1 = (r, db2)" by (cases "dispatch sha app new del e t db1")
  have "map_of (sd_deliveries db2) del = Some d" using dispatch_deliveries [of sha app new del e t db1] d by (simp add: r)
  note f = finish_delivery_row [OF this]
  show ?thesis
  proof (cases r)
    case (Inl x)
    then show ?thesis using assms f [of PrFailed t None None "''processing failed''"] d by (auto simp: handle_verified_def r)
  next
    case (Inr st)
    then show ?thesis
      using assms d f [of "if st = AsIgnored \<or> st = AsDuplicate then PrIgnored else PrProcessed" t "event_installation e"
          "map_option snd (event_place e)" "status_text st"]
      by (auto simp: handle_verified_def r)
  qed
qed


text \<open>A delivery whose processing failed is not lost: it is answered 500, and when GitHub sends it again it is dispatched
  again on the state the failed attempt left, at any later time.\<close>
theorem failed_delivery_processed_again:
  assumes "record_delivery del ev body t act db = (a, d)" and "a = DaNew \<or> a = DaRetry"
    and "handle_verified sha app new del ev body act e t db = (500, db1)"
  shows "fst (record_delivery del ev body now act' db1) = DaRetry"
proof -
  obtain x where "map_of (sd_deliveries db1) del = Some x" "dl_event x = ev" "dl_body_sha256 x = body" "dl_status x = PrFailed"
    using handle_verified_taken [OF assms(1,2), of sha app new e] assms(3) by auto
  then show ?thesis by (simp add: record_delivery_def)
qed

section \<open>Installations\<close>

lemma removed_installation_dispatch:
  assumes "state_of db i = Some InDeleted" and "\<And>row rs. e = GeInstallation IaCreated row rs \<Longrightarrow> in_id row \<noteq> i"
  shows "state_of (snd (dispatch sha app new del e now db)) i = Some InDeleted
    \<and> (event_installation e = Some i \<longrightarrow> sd_jobs (snd (dispatch sha app new del e now db)) = sd_jobs db)"
proof (cases "event_place e")
  case (Some p)
  have "state_of (snd (dispatch sha app new del e now db)) i = Some InDeleted"
    using frame_state [OF place_event [OF Some]] assms(1) by simp
  moreover have "sd_jobs (snd (dispatch sha app new del e now db)) = sd_jobs db" if "event_installation e = Some i"
  proof -
    have "fst p = i" using that Some by (cases e) (auto simp: event_installation_def event_place_def)
    moreover have "denial_reason db i \<noteq> None" using assms(1) by (auto simp: denial_reason_def state_of_def)
    ultimately show ?thesis using Some
      by (cases p; cases e) (auto simp: dispatch_def event_place_def audit_scan_def)
  qed
  ultimately show ?thesis by blast
next
  case None
  then consider "e = GeIgnored" | act row rs where "e = GeInstallation act row rs" | row added rs where "e = GeRepositories row added rs"
    by (cases e) (auto simp: event_place_def)
  then show ?thesis
  proof cases
    case 1
    then show ?thesis using assms(1) by (simp add: dispatch_def)
  next
    case 2
    show ?thesis
    proof (cases "in_id row = i")
      case True
      then have "handle_installation act row rs now db = db"
        using assms 2 by (auto simp: handle_installation_def installation_event_def state_of_def)
      then show ?thesis using 2 assms(1) by (simp add: dispatch_def)
    next
      case False
      then show ?thesis using 2 assms(1)
        by (cases act) (auto simp: dispatch_def handle_installation_def installation_event_def Let_def state_apply event_installation_def)
    qed
  next
    case 3
    then show ?thesis using assms(1)
      by (auto simp: dispatch_def handle_repositories_def Let_def event_installation_def state_of_def [symmetric])
  qed
qed

lemma record_delivery_other:
  assumes "record_delivery del ev body t act db = (a, db1)"
  shows "frame db1 = (sd_deliveries db1, sd_installations db) \<and> sd_jobs db1 = sd_jobs db \<and> sd_groups db1 = sd_groups db"
  using assms by (auto simp: record_delivery_def frame_def split: option.splits if_splits)

lemma handle_verified_cases:
  obtains d where "frame d = (sd_deliveries d, sd_installations db)" "sd_jobs d = sd_jobs db" "sd_groups d = sd_groups db"
    "snd (handle_verified sha app new del ev body act e now db) = d
     \<or> snd (handle_verified sha app new del ev body act e now db)
         = audit_scan (AuDeliveryRejected ''delivery ID reused with a different payload'') d
     \<or> (\<exists>st i r detail. snd (handle_verified sha app new del ev body act e now db)
         = finish_delivery del st now i r detail (snd (dispatch sha app new del e now d)))"
proof -
  obtain a d where r: "record_delivery del ev body now act db = (a, d)" by (cases "record_delivery del ev body now act db")
  obtain x d' where x: "dispatch sha app new del e now d = (x, d')" by (cases "dispatch sha app new del e now d")
  have "snd (handle_verified sha app new del ev body act e now db) = d
     \<or> snd (handle_verified sha app new del ev body act e now db)
         = audit_scan (AuDeliveryRejected ''delivery ID reused with a different payload'') d
     \<or> (\<exists>st i r detail. snd (handle_verified sha app new del ev body act e now db)
         = finish_delivery del st now i r detail (snd (dispatch sha app new del e now d)))"
    by (cases a; cases x) (simp_all add: handle_verified_def r x, blast+)
  then show ?thesis using that [of d] record_delivery_other [OF r] by blast
qed

lemma finish_delivery_other:
  "sd_jobs (finish_delivery del st now i r detail db) = sd_jobs db"
  "state_of (finish_delivery del st now i r detail db) k = state_of db k"
  by (simp_all add: finish_delivery_def state_of_def installation_of_def)


text \<open>The state is read before the transaction that writes it. When a removal commits between the read and the write of another
  event, the write makes the removed installation suspended (or active) again.\<close>
lemma stale_event_revives:
  assumes "was \<noteq> Some InDeleted" and "act = IaSuspend \<or> act = IaUnsuspend"
  shows "state_of (installation_event act row rs was now db) (in_id row)
    = Some (if act = IaSuspend then InSuspended else InActive)"
  using assms by (auto simp: installation_event_def Let_def state_apply)

section \<open>Merge groups\<close>

lemma requested_twice:
  assumes "map_of (sd_groups db) (group_id g) \<noteq> None"
  shows "snd (merge_group_requested sha new del g repository c now db) = db"
  using assms by (simp add: merge_group_requested_def record_merge_group_def add_merge_group_def)


text \<open>C24: A destroyed merge group is never scanned again: a new request for it changes nothing, a re-run of its check creates no
  scan, a worker that has just taken a job of it stops before it asks GitHub for anything, and a second destruction changes
  nothing.\<close>
theorem destroyed_group_is_final:
  assumes "group_state db (group_id g) = Some MgDestroyed"
    and "distinct (map fst (sd_groups db))"
    and "nj_event (sj_new j) = EvMergeGroup" and "(job_installation j, job_repository j, job_head j) = group_id g"
  shows "snd (merge_group_requested sha new del g repository c now db) = db
    \<and> sd_jobs (snd (request_rerun new del e (i, j) now db)) = sd_jobs db
    \<and> gate j db \<noteq> None
    \<and> destroy_merge_group g reason now db = (False, db)"
proof -
  obtain m where m: "map_of (sd_groups db) (group_id g) = Some m" "mg_state m = MgDestroyed"
    using assms(1) by (auto simp: group_state_def)
  have "snd (merge_group_requested sha new del g repository c now db) = db" using m(1) by (simp add: requested_twice)
  moreover have "sd_jobs (snd (request_rerun new del e (i, j) now db)) = sd_jobs db"
    using assms by (simp add: request_rerun_def reject_rerun_def audit_scan_def)
  moreover have "gate j db \<noteq> None" using assms by (simp add: gate_def)
  moreover have "destroy_merge_group g reason now db = (False, db)"
  proof -
    define u :: "merge_group \<Rightarrow> merge_group" where "u = (\<lambda>m. if mg_state m \<noteq> MgDestroyed
      then m\<lparr>mg_state := MgDestroyed, mg_reason := reason, mg_destroyed_at := Some now, mg_updated_at := now\<rparr> else m)"
    have "(k, x) \<in> set (sd_groups db) \<Longrightarrow> k = group_id g \<Longrightarrow> x = m" for k x
      using m(1) assms(2) by (metis map_of_is_SomeI option.inject)
    then have "map (\<lambda>(k, x). (k, if k = group_id g then u x else x)) (sd_groups db) = sd_groups db"
      using m(2) by (auto simp: u_def intro!: map_idI)
    then have "update_group (group_id g) u db = db" by (simp add: update_group_def)
    then show ?thesis using m by (simp add: destroy_merge_group_def add_merge_group_def group_state_def flip: u_def)
  qed
  ultimately show ?thesis by blast
qed

section \<open>An equivalent scan\<close>

definition retried_db :: scan_db where
  "retried_db = empty_scan_db\<lparr>sd_sequence := 2, sd_jobs :=
     [(''j'', sample_job\<lparr>sj_state := JsError\<rparr>),
      (''r'', sample_job\<lparr>sj_sequence := 2, sj_new := sample_new_job\<lparr>nj_key := ''retry:r''\<rparr>, sj_state := JsRunning, sj_execution := 2,
         sj_trigger := TrRetry, sj_previous := Some ''j''\<rparr>)]\<rparr>"

text \<open>A job is created although an execution of the same logical scan is running, because only the rows with the event's own key
  are looked at, and a retry has a key of its own.\<close>
lemma equivalent_execution_overlooked:
  "case create_job ''n'' sample_new_job 9 retried_db of
     Inl _ \<Rightarrow> False
   | Inr ((k, _), new, db) \<Rightarrow> new \<and> map fst (filter (\<lambda>(_, j). sj_scan_key j = ''k'' \<and> live (sj_state j)) (sd_jobs db)) = [''r'', ''n'']"
  by code_simp

section \<open>A merge group, from the queue to its end\<close>

definition sample_group :: group_event where
  "sample_group = \<lparr>ge_installation = 10, ge_repository = 20, ge_head_sha = ''c0ffee'', ge_head_ref = [], ge_base_sha = ''ba5e'',
     ge_base_ref = [], ge_pull_requests = [5]\<rparr>"

definition sample_request :: github_event where
  "sample_request = GeGroup False sample_group (20, [], []) None
     \<lparr>cx_ref = None, cx_base_sha = Some ''ba5e'', cx_head_sha = Some ''c0ffee'', cx_before_sha = None, cx_after_sha = None\<rparr>"

definition requested_db :: scan_db where
  "requested_db = snd (handle_verified plain_hash 1 (\<lambda>_. ''j'') ''d'' ''merge_group'' ''b'' None sample_request 5 empty_scan_db)"

lemma sample_request_queued:
  "fst (handle_verified plain_hash 1 (\<lambda>_. ''j'') ''d'' ''merge_group'' ''b'' None sample_request 5 empty_scan_db) = 202"
  by code_simp

lemma sample_request_new: "fst (record_delivery ''d'' ''merge_group'' ''b'' 5 None empty_scan_db) = DaNew"
  by code_simp


text \<open>The ID drawn for the job is taken, so the transaction that stores the job fails.\<close>

definition collision_db :: scan_db where
  "collision_db = empty_scan_db\<lparr>sd_sequence := 1, sd_jobs := [(''j'', sample_job)]\<rparr>"

definition failed_db :: scan_db where
  "failed_db = snd (handle_verified plain_hash 1 (\<lambda>_. ''j'') ''d'' ''merge_group'' ''b'' None sample_request 5 collision_db)"

lemma sample_request_failed:
  "fst (handle_verified plain_hash 1 (\<lambda>_. ''j'') ''d'' ''merge_group'' ''b'' None sample_request 5 collision_db) = 500"
  by code_simp

lemma collision_new: "fst (record_delivery ''d'' ''merge_group'' ''b'' 5 None collision_db) = DaNew"
  by code_simp

theorem failed_delivery_processed_again_witness:
  "fst (record_delivery ''d'' ''merge_group'' ''b'' 99999 None failed_db) = DaRetry"
proof (rule failed_delivery_processed_again [OF prod.collapse [symmetric]])
  show "fst (record_delivery ''d'' ''merge_group'' ''b'' 5 None collision_db) = DaNew
      \<or> fst (record_delivery ''d'' ''merge_group'' ''b'' 5 None collision_db) = DaRetry"
    by (simp add: collision_new)
  show "handle_verified plain_hash 1 (\<lambda>_. ''j'') ''d'' ''merge_group'' ''b'' None sample_request 5 collision_db = (500, failed_db)"
    by (rule prod_eqI) (simp_all add: sample_request_failed failed_db_def)
qed

text \<open>The redelivery of that request, which could draw a fresh ID, finds the merge group recorded.\<close>

lemma lost_merge_group_sample:
  "map_prod id (\<lambda>db. map fst (sd_jobs db))
     (handle_verified plain_hash 1 (\<lambda>_. ''x'') ''d'' ''merge_group'' ''b'' None sample_request 60 failed_db) = (202, [''j''])"
  by code_simp


definition sample_installation :: installation_row where
  "sample_installation = \<lparr>in_id = 10, in_account_id = 7, in_account_login = [], in_account_type = AtUser, in_state = InDeleted,
     in_updated_at = 0\<rparr>"


definition ended_db :: scan_db where
  "ended_db = snd (handle_verified plain_hash 1 (\<lambda>_. ''y'') ''e'' ''merge_group'' ''c'' None
     (GeGroup True sample_group (20, [], []) None
        \<lparr>cx_ref = None, cx_base_sha = None, cx_head_sha = None, cx_before_sha = None, cx_after_sha = None\<rparr>) 6 requested_db)"

theorem destroyed_group_is_final_witness:
  "gate (sample_job\<lparr>sj_new := sample_new_job\<lparr>nj_event := EvMergeGroup\<rparr>\<rparr>) ended_db \<noteq> None
   \<and> destroy_merge_group sample_group None 9 ended_db = (False, ended_db)"
proof -
  have g: "group_state ended_db (group_id sample_group) = Some MgDestroyed" by code_simp
  have k: "map fst (sd_groups ended_db) = [group_id sample_group]" by code_simp
  show ?thesis
    using destroyed_group_is_final [OF g, of "sample_job\<lparr>sj_new := sample_new_job\<lparr>nj_event := EvMergeGroup\<rparr>\<rparr>"] k
    by (simp add: sample_job_def sample_new_job_def group_id_def sample_group_def)
qed

end
