(* ===== verification/Push_Fix.thy ===== *)
theory Push_Fix
  imports Remediation
begin

text \<open>
  Rewriting unpushed commits at push time (\<open>services/push_fix.py\<close>). The repository is the part of git's
  state the procedure reads and writes: commit objects, branch tips, the commits that some
  remote-tracking branch contains, and whether an operation is in progress. Git itself is a
  parameter: \<open>go_hash\<close> names an object and \<open>go_read\<close> reads a stored commit.
\<close>

section \<open>The repository\<close>

record git_ops =
  go_hash :: "nat list \<Rightarrow> string"
  go_read :: "string \<Rightarrow> nat list \<Rightarrow> commit"

record repo =
  rp_objects :: "(string \<times> nat list) list"
  rp_branches :: "(ustr \<times> string) list"
  rp_remote :: "string list"
  rp_in_progress :: bool

definition write_commit_object :: "git_ops \<Rightarrow> nat list \<Rightarrow> repo \<Rightarrow> string \<times> repo" where
  "write_commit_object g data r =
     (go_hash g data, r\<lparr>rp_objects := AList.update (go_hash g data) data (rp_objects r)\<rparr>)"

definition read_raw_commit :: "string \<Rightarrow> repo \<Rightarrow> py_exc + nat list" where
  "read_raw_commit sha r =
     (if \<not> is_git_sha (asc sha)
      then Inl (PyExc ''UnsafeInputError'' (asc ''read_raw_commit requires a full commit id''))
      else case map_of (rp_objects r) sha of
             None \<Rightarrow> Inl (PyExc ''GitError'' []) | Some raw \<Rightarrow> Inr raw)"

fun read_commits :: "git_ops \<Rightarrow> string list \<Rightarrow> repo \<Rightarrow> py_exc + commit list" where
  "read_commits g [] r = Inr []"
| "read_commits g (sha # shas) r =
     (case read_raw_commit sha r of
        Inl e \<Rightarrow> Inl e
      | Inr raw \<Rightarrow>
          (case read_commits g shas r of Inl e \<Rightarrow> Inl e | Inr cs \<Rightarrow> Inr (go_read g sha raw # cs)))"

definition not_on_any_remote :: "string list \<Rightarrow> repo \<Rightarrow> py_exc + string list" where
  "not_on_any_remote shas r =
     (if list_ex (\<lambda>s. \<not> is_git_sha (asc s)) shas
      then Inl (PyExc ''UnsafeInputError'' (asc ''not_on_any_remote requires full commit ids''))
      else Inr (filter (\<lambda>s. s \<notin> set (rp_remote r)) shas))"

definition HEADS :: ustr where
  "HEADS = asc ''refs/heads/''"

text \<open>One git transaction: every ref still has its old value and all move, or none does.\<close>

definition move_branches :: "(ustr \<times> string \<times> string) list \<Rightarrow> repo \<Rightarrow> py_exc + repo" where
  "move_branches moves r =
     (if list_ex (\<lambda>(ref, _, _). \<not> startswith ref HEADS \<or> list_ex (\<lambda>c. c \<le> 0x20) ref) moves
      then Inl (PyExc ''UnsafeInputError'' (asc ''move_branches only updates local branches''))
      else if list_ex (\<lambda>(_, new, old). \<not> is_git_sha (asc new) \<or> \<not> is_git_sha (asc old)) moves
      then Inl (PyExc ''UnsafeInputError'' (asc ''move_branches requires full commit ids''))
      else if \<not> distinct (map fst moves)
           \<or> list_ex (\<lambda>(ref, _, old). map_of (rp_branches r) ref \<noteq> Some old) moves
      then Inl (PyExc ''GitError'' [])
      else Inr (r\<lparr>rp_branches := fold (\<lambda>(ref, new, _) bs. AList.update ref new bs) moves (rp_branches r)\<rparr>))"

section \<open>The order of rewriting\<close>

function topo :: "(string \<Rightarrow> string list) \<Rightarrow> string list \<Rightarrow> string list \<Rightarrow> string list option" where
  "topo parents pending ordered =
     (if pending = [] then Some ordered
      else (let ready = sort (filter (\<lambda>s. list_all (\<lambda>p. p \<notin> set pending) (parents s)) pending)
            in if ready = [] then None
               else topo parents (filter (\<lambda>s. s \<notin> set ready) pending) (ordered @ ready)))"
  by pat_completeness auto

termination
proof (relation "measure (\<lambda>(_, pending, _). length pending)")
  fix parents :: "string \<Rightarrow> string list" and pending ordered ready
  assume ready: "ready = sort (filter (\<lambda>s. list_all (\<lambda>p. p \<notin> set pending) (parents s)) pending)" "ready \<noteq> []"
  have "hd ready \<in> set ready" using ready(2) by (rule hd_in_set)
  moreover have "set ready \<subseteq> set pending" unfolding ready(1) by auto
  ultimately have "length (filter (\<lambda>s. s \<notin> set ready) pending) < length pending"
    by (intro length_filter_less [of "hd ready"]) auto
  then show "((parents, filter (\<lambda>s. s \<notin> set ready) pending, ordered @ ready), parents, pending, ordered)
      \<in> measure (\<lambda>(_, pending, _). length pending)"
    by simp
qed simp

declare topo.simps [simp del]

definition topological :: "string list \<Rightarrow> (string \<times> commit) list \<Rightarrow> py_exc + string list option" where
  "topological shas commits =
     (case find (\<lambda>s. map_of commits s = None) shas of
        Some s \<Rightarrow> Inl (PyExc ''KeyError'' (asc s))
      | None \<Rightarrow> Inr (topo (\<lambda>s. cm_parents (the (map_of commits s))) (remdups shas) []))"

section \<open>One commit object\<close>

text \<open>\<open>raw.partition(b"\\n\\n")\<close>: \<open>None\<close> when there is no blank line.\<close>

fun split_headers :: "nat list \<Rightarrow> (nat list \<times> nat list) option" where
  "split_headers [] = None"
| "split_headers [c] = None"
| "split_headers (c # d # cs) =
     (if c = 10 \<and> d = 10 then Some ([], cs)
      else map_option (\<lambda>(h, m). (c # h, m)) (split_headers (d # cs)))"

definition header_name :: "nat list \<Rightarrow> nat list" where
  "header_name line = takeWhile (\<lambda>c. c \<noteq> 32) line"

definition header_value :: "nat list \<Rightarrow> nat list" where
  "header_value line = (case partition_char 32 line of (_, sep, rest) \<Rightarrow> if sep then rest else line)"

definition bytes_space :: "nat \<Rightarrow> bool" where
  "bytes_space c \<longleftrightarrow> (9 \<le> c \<and> c \<le> 13) \<or> c = 32"

definition bytes_strip_lower :: "nat list \<Rightarrow> nat list" where
  "bytes_strip_lower s = map ascii_lowercase (rev (dropWhile bytes_space (rev (dropWhile bytes_space s))))"

definition COPYABLE_HEADERS :: "nat list list" where
  "COPYABLE_HEADERS = [asc ''tree'', asc ''parent'', asc ''author'', asc ''committer'', asc ''encoding'']"

definition copyable :: "nat list \<Rightarrow> bool" where
  "copyable line \<longleftrightarrow>
     \<not> startswith line [32] \<and> header_name line \<in> set COPYABLE_HEADERS
     \<and> (header_name line = asc ''encoding'' \<longrightarrow>
          bytes_strip_lower (header_value line) \<in> {asc ''utf-8'', asc ''utf8''})"

definition parent_line :: "string \<Rightarrow> nat list" where
  "parent_line p = asc ''parent '' @ asc p"

definition rewrite_header :: "string list \<Rightarrow> nat list \<Rightarrow> nat list list" where
  "rewrite_header parents line =
     (if header_name line = asc ''tree'' then line # map parent_line parents
      else if header_name line \<noteq> asc ''parent'' then [line] else [])"

definition rewrite_commit :: "nat list \<Rightarrow> string list \<Rightarrow> ustr \<Rightarrow> nat list option" where
  "rewrite_commit raw parents message =
     (case split_headers raw of
        None \<Rightarrow> None
      | Some (headers, _) \<Rightarrow>
          if list_ex (\<lambda>l. \<not> copyable l) (split_char 10 headers) then None
          else Some (py_join [10] (concat (map (rewrite_header parents) (split_char 10 headers)))
                     @ [10, 10] @ utf8 message))"

text \<open>Strict UTF-8 decoding of the message.\<close>

definition cont_byte :: "nat \<Rightarrow> bool" where
  "cont_byte b \<longleftrightarrow> 0x80 \<le> b \<and> b < 0xC0"

fun utf8_decode :: "nat list \<Rightarrow> ustr option" where
  "utf8_decode [] = Some []"
| "utf8_decode (a # rest) =
     (if a < 0x80 then map_option ((#) a) (utf8_decode rest)
      else if 0xC2 \<le> a \<and> a < 0xE0 then
        (case rest of b # r \<Rightarrow>
           if cont_byte b then map_option ((#) ((a - 0xC0) * 64 + (b - 0x80))) (utf8_decode r) else None
         | [] \<Rightarrow> None)
      else if 0xE0 \<le> a \<and> a < 0xF0 then
        (case rest of b # c # r \<Rightarrow>
           (let cp = (a - 0xE0) * 4096 + (b - 0x80) * 64 + (c - 0x80)
            in if cont_byte b \<and> cont_byte c \<and> 0x800 \<le> cp \<and> \<not> (0xD800 \<le> cp \<and> cp < 0xE000)
               then map_option ((#) cp) (utf8_decode r) else None)
         | _ \<Rightarrow> None)
      else if 0xF0 \<le> a \<and> a < 0xF5 then
        (case rest of b # c # d # r \<Rightarrow>
           (let cp = (a - 0xF0) * 262144 + (b - 0x80) * 4096 + (c - 0x80) * 64 + (d - 0x80)
            in if cont_byte b \<and> cont_byte c \<and> cont_byte d \<and> 0x10000 \<le> cp \<and> cp < 0x110000
               then map_option ((#) cp) (utf8_decode r) else None)
         | _ \<Rightarrow> None)
      else None)"

section \<open>The procedure\<close>

record rewritten_commit =
  rc_old_sha :: string
  rc_new_sha :: string
  rc_subject :: ustr
  rc_removed :: "removed_line list"

record push_fix =
  pf_branches :: "ustr list"
  pf_commits :: "rewritten_commit list"

record branch_update =
  bu_local_ref :: ustr
  bu_local_oid :: string
  bu_commits :: "string list"

type_synonym removal_map = "(string \<times> removed_line list) list"

text \<open>The new message of one commit: \<open>None\<close> refuses.\<close>

definition fixed_message :: "commit \<Rightarrow> removed_line list option \<Rightarrow> ustr \<Rightarrow> ustr option" where
  "fixed_message c removal message =
     (case removal of
        None \<Rightarrow> Some message
      | Some ls \<Rightarrow>
          if rstrip_char 10 message \<noteq> rstrip_char 10 (cm_message c) then None
          else (let new_message = strip_lines message (map rl_line_number ls)
                in if py_strip new_message = [] then None else Some new_message))"

record rewrite_state =
  rw_mapping :: "(string \<times> string) list"
  rw_rewritten :: "rewritten_commit list"
  rw_repo :: repo

definition mapped :: "(string \<times> string) list \<Rightarrow> string \<Rightarrow> string" where
  "mapped m s = (case map_of m s of None \<Rightarrow> s | Some t \<Rightarrow> t)"

text \<open>One turn of the loop over the commits in topological order.\<close>

definition rewrite_one ::
  "git_ops \<Rightarrow> (string \<times> commit) list \<Rightarrow> removal_map \<Rightarrow> string \<Rightarrow> rewrite_state
     \<Rightarrow> py_exc + rewrite_state option" where
  "rewrite_one g commits removals sha st =
     (case map_of commits sha of
        None \<Rightarrow> Inl (PyExc ''KeyError'' (asc sha))
      | Some c \<Rightarrow>
          (let parents = map (mapped (rw_mapping st)) (cm_parents c)
           in if map_of removals sha = None \<and> parents = cm_parents c then Inr (Some st)
              else case read_raw_commit sha (rw_repo st) of
                Inl e \<Rightarrow> Inl e
              | Inr raw \<Rightarrow>
                  (case utf8_decode (case split_headers raw of None \<Rightarrow> [] | Some (_, m) \<Rightarrow> m) of
                     None \<Rightarrow> Inr None
                   | Some message \<Rightarrow>
                       (case fixed_message c (map_of removals sha) message of
                          None \<Rightarrow> Inr None
                        | Some new_message \<Rightarrow>
                            (case rewrite_commit raw parents new_message of
                               None \<Rightarrow> Inr None
                             | Some data \<Rightarrow>
                                 (case write_commit_object g data (rw_repo st) of
                                    (new_sha, repo') \<Rightarrow>
                                      Inr (Some \<lparr>rw_mapping = AList.update sha new_sha (rw_mapping st),
                                        rw_rewritten = rw_rewritten st @
                                          [\<lparr>rc_old_sha = sha, rc_new_sha = new_sha, rc_subject = subject_line c,
                                            rc_removed = (case map_of removals sha of None \<Rightarrow> []
                                               | Some ls \<Rightarrow> with_actual_text message ls)\<rparr>],
                                        rw_repo = repo'\<rparr>)))))))"

fun rewrite_all ::
  "git_ops \<Rightarrow> (string \<times> commit) list \<Rightarrow> removal_map \<Rightarrow> string list \<Rightarrow> rewrite_state
     \<Rightarrow> py_exc + rewrite_state option" where
  "rewrite_all g commits removals [] st = Inr (Some st)"
| "rewrite_all g commits removals (sha # shas) st =
     (case rewrite_one g commits removals sha st of
        Inl e \<Rightarrow> Inl e
      | Inr None \<Rightarrow> Inr None
      | Inr (Some st') \<Rightarrow> rewrite_all g commits removals shas st')"

text \<open>The removals of the blocked commits: \<open>None\<close> as soon as one of them cannot be fixed by editing text.\<close>

fun blocked_removals :: "(string \<times> commit_report) list \<Rightarrow> removal_map option" where
  "blocked_removals [] = Some []"
| "blocked_removals ((sha, r) # rs) =
     (if cr_action r \<noteq> BLOCK then blocked_removals rs
      else case (removable_lines r, blocked_removals rs) of
             (Some ls, Some m) \<Rightarrow> Some ((sha, ls) # m)
           | _ \<Rightarrow> None)"

fun branch_moves :: "(string \<times> string) list \<Rightarrow> branch_update list \<Rightarrow> (ustr \<times> string \<times> string) list option" where
  "branch_moves m [] = Some []"
| "branch_moves m (u # us) =
     (case (map_of m (bu_local_oid u), branch_moves m us) of
        (Some new_tip, Some ms) \<Rightarrow> Some ((bu_local_ref u, new_tip, bu_local_oid u) # ms)
      | _ \<Rightarrow> None)"

text \<open>What happens once the objects are written: the checks on the result, then the move.\<close>

definition conclude_fix ::
  "git_ops \<Rightarrow> (commit \<Rightarrow> commit_report) \<Rightarrow> branch_update list \<Rightarrow> rewrite_state
     \<Rightarrow> py_exc + push_fix option \<times> repo" where
  "conclude_fix g analyse targets st =
     (let olds = map fst (rw_mapping st); news = map snd (rw_mapping st); r = rw_repo st
      in case not_on_any_remote olds r of
        Inl e \<Rightarrow> Inl e
      | Inr unshared \<Rightarrow>
          if set unshared \<noteq> set olds then Inr (None, r)
          else case read_commits g news r of
            Inl e \<Rightarrow> Inl e
          | Inr fixed \<Rightarrow>
              if list_ex (\<lambda>c. cr_action (analyse c) = BLOCK) fixed then Inr (None, r)
              else case branch_moves (rw_mapping st) targets of
                None \<Rightarrow> Inr (None, r)
              | Some moves \<Rightarrow>
                  (case move_branches moves r of
                     Inl e \<Rightarrow> Inl e
                   | Inr r' \<Rightarrow> Inr (Some \<lparr>pf_branches = map bu_local_ref targets,
                                          pf_commits = rw_rewritten st\<rparr>, r')))"

definition fix_outgoing_commits ::
  "git_ops \<Rightarrow> (commit \<Rightarrow> commit_report) \<Rightarrow> branch_update list \<Rightarrow> (string \<times> commit) list
     \<Rightarrow> (string \<times> commit_report) list \<Rightarrow> repo \<Rightarrow> py_exc + push_fix option \<times> repo" where
  "fix_outgoing_commits g analyse updates commits reports r =
     (let blocked = map fst (filter (\<lambda>(_, rep). cr_action rep = BLOCK) reports)
      in if blocked = [] then Inr (None, r)
         else case blocked_removals reports of
           None \<Rightarrow> Inr (None, r)
         | Some removals \<Rightarrow>
             if rp_in_progress r then Inr (None, r)
             else (let targets = filter (\<lambda>u. list_ex (\<lambda>s. s \<in> set blocked) (bu_commits u)) updates;
                       outgoing = concat (map bu_commits targets)
                   in if targets = [] \<or> list_ex (\<lambda>u. \<not> startswith (bu_local_ref u) HEADS) targets
                      then Inr (None, r)
                      else if list_ex (\<lambda>s. s \<notin> set outgoing) blocked then Inr (None, r)
                      else case topological outgoing commits of
                        Inl e \<Rightarrow> Inl e
                      | Inr None \<Rightarrow> Inr (None, r)
                      | Inr (Some order) \<Rightarrow>
                          (case rewrite_all g commits removals order
                                  \<lparr>rw_mapping = [], rw_rewritten = [], rw_repo = r\<rparr> of
                             Inl e \<Rightarrow> Inl e
                           | Inr None \<Rightarrow> Inr (None, r)
                           | Inr (Some st) \<Rightarrow> conclude_fix g analyse targets st)))"

text \<open>Objects written before a refusal are not returned: nothing refers to them.\<close>

section \<open>Parents before children\<close>

definition parents_first :: "(string \<Rightarrow> string list) \<Rightarrow> string set \<Rightarrow> string list \<Rightarrow> bool" where
  "parents_first par S xs \<longleftrightarrow>
     (\<forall>i < length xs. \<forall>p \<in> set (par (xs ! i)). p \<in> S \<longrightarrow> p \<in> set (take i xs))"

lemma parents_first_append:
  assumes "parents_first par S xs" and "\<forall>y \<in> set ys. \<forall>p \<in> set (par y). p \<in> S \<longrightarrow> p \<in> set xs"
  shows "parents_first par S (xs @ ys)"
  unfolding parents_first_def
proof (intro allI ballI impI)
  fix i p assume i: "i < length (xs @ ys)" and p: "p \<in> set (par ((xs @ ys) ! i))" "p \<in> S"
  show "p \<in> set (take i (xs @ ys))"
  proof (cases "i < length xs")
    case True
    with p assms(1) show ?thesis by (auto simp: parents_first_def nth_append)
  next
    case False
    with i have "(xs @ ys) ! i \<in> set ys" by (auto simp: nth_append)
    with p assms(2) have "p \<in> set xs" by blast
    with False show ?thesis by simp
  qed
qed

lemma topo_Some:
  assumes "topo par pending ordered = Some res" and "distinct pending" and "distinct ordered"
    and "set ordered \<inter> set pending = {}" and "parents_first par (set ordered \<union> set pending) ordered"
  shows "distinct res \<and> set res = set ordered \<union> set pending
     \<and> parents_first par (set ordered \<union> set pending) res"
  using assms
proof (induction par pending ordered rule: topo.induct)
  case (1 par pending ordered)
  let ?ready = "sort (filter (\<lambda>s. list_all (\<lambda>p. p \<notin> set pending) (par s)) pending)"
  let ?rest = "filter (\<lambda>s. s \<notin> set ?ready) pending"
  show ?case
  proof (cases "pending = []")
    case False
    have "topo par pending ordered = (if ?ready = [] then None else topo par ?rest (ordered @ ?ready))"
      using False by (simp only: topo.simps [of par pending ordered] Let_def if_False)
    with "1.prems"(1) have ready: "?ready \<noteq> []" and rec: "topo par ?rest (ordered @ ?ready) = Some res"
      by (auto split: if_splits)
    have sub: "set ?ready \<subseteq> set pending" by auto
    then have sets: "set (ordered @ ?ready) \<union> set ?rest = set ordered \<union> set pending" by auto
    have "\<forall>y \<in> set ?ready. \<forall>p \<in> set (par y). p \<in> set ordered \<union> set pending \<longrightarrow> p \<in> set ordered"
      by (auto simp: list_all_iff)
    with "1.prems"(5) have first: "parents_first par (set ordered \<union> set pending) (ordered @ ?ready)"
      by (rule parents_first_append)
    have "distinct (ordered @ ?ready)" using "1.prems"(2-4) sub by auto
    moreover have "distinct ?rest" using "1.prems"(2) by simp
    moreover have "set (ordered @ ?ready) \<inter> set ?rest = {}" using "1.prems"(4) by auto
    ultimately show ?thesis
      using "1.IH" [OF False refl ready rec] first unfolding sets by blast
  qed (use "1.prems" in \<open>simp add: topo.simps\<close>)
qed

lemma topo_None:
  "topo par pending ordered = None \<Longrightarrow>
     \<exists>C. C \<noteq> {} \<and> C \<subseteq> set pending \<and> (\<forall>s \<in> C. \<exists>p \<in> set (par s). p \<in> C)"
proof (induction par pending ordered rule: topo.induct)
  case (1 par pending ordered)
  let ?ready = "sort (filter (\<lambda>s. list_all (\<lambda>p. p \<notin> set pending) (par s)) pending)"
  have ne: "pending \<noteq> []" using "1.prems" by (auto simp: topo.simps [of par "[]"])
  show ?case
  proof (cases "?ready = []")
    case True
    then have "set ?ready = {}" by simp
    then have "\<forall>s \<in> set pending. \<exists>p \<in> set (par s). p \<in> set pending" by (auto simp: list_all_iff)
    with ne show ?thesis by (intro exI [of _ "set pending"]) auto
  next
    case False
    have "topo par pending ordered
        = (if ?ready = [] then None else topo par (filter (\<lambda>s. s \<notin> set ?ready) pending) (ordered @ ?ready))"
      using ne by (simp only: topo.simps [of par pending ordered] Let_def if_False)
    with "1.prems" False have "topo par (filter (\<lambda>s. s \<notin> set ?ready) pending) (ordered @ ?ready) = None"
      by simp
    from "1.IH" [OF ne refl False this] obtain C where "C \<noteq> {}"
      "C \<subseteq> set (filter (\<lambda>s. s \<notin> set ?ready) pending)" "\<forall>s \<in> C. \<exists>p \<in> set (par s). p \<in> C"
      by blast
    then show ?thesis by (intro exI [of _ C]) auto
  qed
qed

text \<open>The order in which commits are rewritten lists each outgoing commit once, parents before children,
  so every commit is rewritten after the parents it must point to. It is refused only when some
  commits form a cycle, and fails only when a commit is unknown.\<close>

theorem topological_order_correct:
  "case topological shas commits of
     Inl _ \<Rightarrow> \<exists>s \<in> set shas. map_of commits s = None
   | Inr None \<Rightarrow> \<exists>C. C \<noteq> {} \<and> C \<subseteq> set shas
       \<and> (\<forall>s \<in> C. \<exists>p \<in> set (cm_parents (the (map_of commits s))). p \<in> C)
   | Inr (Some order) \<Rightarrow> distinct order \<and> set order = set shas
       \<and> parents_first (\<lambda>s. cm_parents (the (map_of commits s))) (set shas) order"
proof (cases "find (\<lambda>s. map_of commits s = None) shas")
  case (Some s)
  then have "s \<in> set shas \<and> map_of commits s = None" by (auto simp: find_Some_iff in_set_conv_nth)
  with Some show ?thesis by (auto simp: topological_def)
next
  case None
  let ?par = "\<lambda>s. cm_parents (the (map_of commits s))"
  show ?thesis
  proof (cases "topo ?par (remdups shas) []")
    case res: None
    from topo_None [OF this] None res show ?thesis by (simp add: topological_def)
  next
    case res: (Some order)
    from topo_Some [OF this] None res show ?thesis
      by (simp add: topological_def parents_first_def)
  qed
qed

definition two_commits :: "(string \<times> commit) list" where
  "two_commits = [(''b'', empty_commit\<lparr>cm_parents := [''a'']\<rparr>), (''a'', empty_commit)]"

lemma two_commits_order: "topological [''b'', ''a''] two_commits = Inr (Some [''a'', ''b''])"
  by (simp add: topological_def topo.simps two_commits_def empty_commit_def)

lemma topological_order_correct_witness:
  "parents_first (\<lambda>s. cm_parents (the (map_of two_commits s))) {''b'', ''a''} [''a'', ''b'']"
  using topological_order_correct [of "[''b'', ''a'']" two_commits] by (simp add: two_commits_order)

section \<open>What a rewritten commit keeps\<close>

lemma split_headers_plain:
  "split_headers (h @ [10, 10] @ m) = Some (h', m') \<Longrightarrow> \<exists>r. h @ [10, 10] @ m = h' @ [10, 10] @ m'"
proof -
  have "split_headers s = Some (a, b) \<Longrightarrow> s = a @ [10, 10] @ b" for s a b
    by (induction s arbitrary: a rule: split_headers.induct) (auto split: if_splits)
  then show "split_headers (h @ [10, 10] @ m) = Some (h', m') \<Longrightarrow> ?thesis" by blast
qed

lemma split_headers_lines:
  "ls \<noteq> [] \<Longrightarrow> \<forall>l \<in> set ls. l \<noteq> [] \<and> 10 \<notin> set l \<Longrightarrow>
     split_headers (py_join [10] ls @ 10 # 10 # m) = Some (py_join [10] ls, m)"
proof (induction "[10 :: nat]" ls rule: py_join.induct)
  case (2 x)
  have "l \<noteq> [] \<Longrightarrow> 10 \<notin> set l \<Longrightarrow> split_headers (l @ 10 # 10 # m) = Some (l, m)" for l :: "nat list"
  proof (induction l)
    case (Cons c l)
    then show ?case by (cases l) auto
  qed simp
  with 2 show ?case by simp
next
  case (3 x y ys)
  have "l \<noteq> [] \<Longrightarrow> 10 \<notin> set l \<Longrightarrow> s \<noteq> [] \<Longrightarrow> hd s \<noteq> 10 \<Longrightarrow> split_headers s = Some (a, b) \<Longrightarrow>
      split_headers (l @ 10 # s) = Some (l @ 10 # a, b)" for l s a b :: "nat list"
  proof (induction l)
    case (Cons c l)
    then show ?case by (cases l; cases s) auto
  qed simp
  moreover have "hd (py_join [10] (y # ys) @ 10 # 10 # m) \<noteq> 10"
    using 3(3) by (cases ys; cases y) auto
  moreover have "split_headers (py_join [10] (y # ys) @ 10 # 10 # m) = Some (py_join [10] (y # ys), m)"
    using 3 by simp
  ultimately show ?case using 3(3) by simp
qed simp

lemma header_name_asc: "header_name (parent_line p) = asc ''parent''"
  by (simp add: header_name_def parent_line_def asc_def)

lemma rewrite_header_lines:
  assumes "copyable l" and "10 \<notin> set l" and "\<forall>p \<in> set ps. 10 \<notin> set (asc p)" and "x \<in> set (rewrite_header ps l)"
  shows "x \<noteq> [] \<and> 10 \<notin> set x"
  using assms
  by (auto simp: rewrite_header_def copyable_def COPYABLE_HEADERS_def header_name_def parent_line_def asc_def
      split: if_splits)

text \<open>A rewritten commit differs from the original in its parents and its message only: its header lines
  other than parents are the original ones, byte for byte and in order, its parent lines name the
  given parents, and its message is the given one. A commit with any other header (a signature, a
  mergetag, a foreign encoding) is refused.\<close>

theorem rewrite_keeps_everything_else:
  assumes "rewrite_commit raw parents message = Some out" and "\<forall>p \<in> set parents. 10 \<notin> set (asc p)"
  shows "\<exists>headers old. split_headers raw = Some (headers, old) \<and> list_all copyable (split_char 10 headers)
     \<and> (list_ex (\<lambda>l. header_name l \<noteq> asc ''parent'') (split_char 10 headers) \<longrightarrow>
          (\<exists>headers'. split_headers out = Some (headers', utf8 message)
             \<and> filter (\<lambda>l. header_name l \<noteq> asc ''parent'') (split_char 10 headers')
                 = filter (\<lambda>l. header_name l \<noteq> asc ''parent'') (split_char 10 headers)
             \<and> filter (\<lambda>l. header_name l = asc ''parent'') (split_char 10 headers')
                 = concat (map (\<lambda>l. if header_name l = asc ''tree'' then map parent_line parents else [])
                     (split_char 10 headers))))"
proof -
  obtain headers old where h: "split_headers raw = Some (headers, old)"
    and ok: "list_all copyable (split_char 10 headers)"
    and out: "out = py_join [10] (concat (map (rewrite_header parents) (split_char 10 headers))) @ [10, 10] @ utf8 message"
    using assms(1) by (auto simp: rewrite_commit_def list_ex_iff list_all_iff split: option.splits if_splits)
  let ?ls = "split_char 10 headers" and ?new = "concat (map (rewrite_header parents) (split_char 10 headers))"
  have tp: "asc ''tree'' \<noteq> asc ''parent''" by simp
  have keep: "filter (\<lambda>l. header_name l \<noteq> asc ''parent'') (concat (map (rewrite_header parents) ls))
      = filter (\<lambda>l. header_name l \<noteq> asc ''parent'') ls" for ls
    by (induction ls) (auto simp: rewrite_header_def header_name_asc tp filter_map comp_def)
  have par: "filter (\<lambda>l. header_name l = asc ''parent'') (concat (map (rewrite_header parents) ls))
      = concat (map (\<lambda>l. if header_name l = asc ''tree'' then map parent_line parents else []) ls)" for ls
    by (induction ls) (auto simp: rewrite_header_def header_name_asc filter_map comp_def)
  have "\<exists>headers'. split_headers out = Some (headers', utf8 message) \<and> split_char 10 headers' = ?new"
    if "list_ex (\<lambda>l. header_name l \<noteq> asc ''parent'') ?ls"
  proof -
    have lines: "\<forall>x \<in> set ?new. x \<noteq> [] \<and> 10 \<notin> set x"
    proof
      fix x assume "x \<in> set ?new"
      then obtain l where l: "l \<in> set ?ls" "x \<in> set (rewrite_header parents l)" by auto
      from l(1) ok have "copyable l" by (simp add: list_all_iff)
      from rewrite_header_lines [OF this split_char_parts [OF l(1)] assms(2) l(2)] show "x \<noteq> [] \<and> 10 \<notin> set x" .
    qed
    from that obtain l where "l \<in> set ?ls" "header_name l \<noteq> asc ''parent''" by (auto simp: list_ex_iff)
    then have "l \<in> set ?new" by (force simp: rewrite_header_def)
    then have ne: "?new \<noteq> []" by (metis empty_iff empty_set)
    from split_headers_lines [OF ne lines, of "utf8 message"] split_char_join [OF ne, of 10] lines
    show ?thesis by (simp add: out)
  qed
  with h ok keep [of ?ls] par [of ?ls] show ?thesis by auto
qed

definition sample_raw :: "nat list" where
  "sample_raw = asc ''tree t'' @ [10] @ asc ''parent p'' @ [10] @ asc ''author a'' @ [10, 10] @ asc ''old''"

definition sample_out :: "nat list" where
  "sample_out = asc ''tree t'' @ [10] @ asc ''parent q'' @ [10] @ asc ''author a'' @ [10, 10] @ asc ''new''"

lemma sample_rewrites: "rewrite_commit sample_raw [''q''] (asc ''new'') = Some sample_out"
  by (simp add: rewrite_commit_def sample_raw_def sample_out_def asc_def copyable_def startswith_def
      header_name_def COPYABLE_HEADERS_def rewrite_header_def parent_line_def utf8_def utf8_cp_def)

theorem rewrite_keeps_everything_else_witness:
  "\<exists>headers old. split_headers sample_raw = Some (headers, old) \<and> list_all copyable (split_char 10 headers)"
  using rewrite_keeps_everything_else [OF sample_rewrites] by (auto simp: asc_def)

section \<open>The fix is safe\<close>

lemma fold_branch_moves:
  "map_of (fold (\<lambda>(ref, new, _) bs. AList.update ref new bs) ms bs) ref \<noteq> map_of bs ref \<Longrightarrow>
     \<exists>new old. (ref, new, old) \<in> set ms
       \<and> map_of (fold (\<lambda>(ref, new, _) bs. AList.update ref new bs) ms bs) ref = Some new"
proof (induction ms rule: rev_induct)
  case (snoc m ms)
  obtain ref' new old where m: "m = (ref', new, old)" by (cases m)
  show ?case
  proof (cases "ref = ref'")
    case True
    then show ?thesis by (auto simp: m map_of_update)
  next
    case False
    with snoc show ?thesis by (auto simp: m map_of_update)
  qed
qed simp

lemma branch_moves_spec:
  "branch_moves m us = Some ms \<Longrightarrow> (ref, new, old) \<in> set ms \<Longrightarrow>
     \<exists>u \<in> set us. bu_local_ref u = ref \<and> bu_local_oid u = old \<and> map_of m old = Some new"
  by (induction us arbitrary: ms) (auto split: option.splits)

lemma move_branches_spec:
  assumes "move_branches moves r = Inr r'"
  shows "rp_objects r' = rp_objects r \<and> rp_remote r' = rp_remote r
     \<and> (\<forall>ref. map_of (rp_branches r') ref \<noteq> map_of (rp_branches r) ref \<longrightarrow>
          startswith ref HEADS \<and> (\<exists>new old. (ref, new, old) \<in> set moves
            \<and> map_of (rp_branches r) ref = Some old \<and> map_of (rp_branches r') ref = Some new))"
proof -
  have r': "r' = r\<lparr>rp_branches := fold (\<lambda>(ref, new, _) bs. AList.update ref new bs) moves (rp_branches r)\<rparr>"
    and heads: "\<And>ref new old. (ref, new, old) \<in> set moves \<Longrightarrow>
      startswith ref HEADS \<and> map_of (rp_branches r) ref = Some old"
    using assms by (auto simp: move_branches_def list_ex_iff split: if_splits)
  show ?thesis using heads fold_branch_moves [of moves "rp_branches r"] by (fastforce simp: r')
qed

definition rewrite_inv :: "repo \<Rightarrow> string list \<Rightarrow> rewrite_state \<Rightarrow> bool" where
  "rewrite_inv r done st \<longleftrightarrow>
     rw_mapping st = map (\<lambda>rc. (rc_old_sha rc, rc_new_sha rc)) (rw_rewritten st)
     \<and> list_all (\<lambda>rc. rc_old_sha rc \<in> set done) (rw_rewritten st)
     \<and> rp_branches (rw_repo st) = rp_branches r \<and> rp_remote (rw_repo st) = rp_remote r"

lemma rewrite_one_inv:
  assumes "rewrite_one g commits removals sha st = Inr (Some st')" and "rewrite_inv r done st"
    and "sha \<notin> set done"
  shows "rewrite_inv r (done @ [sha]) st'"
proof -
  have "sha \<notin> fst ` set (rw_mapping st)" using assms(2,3) by (auto simp: rewrite_inv_def list_all_iff)
  then have "AList.update sha v (rw_mapping st) = rw_mapping st @ [(sha, v)]" for v by (rule update_new)
  with assms(1,2) show ?thesis
    by (auto simp: rewrite_one_def rewrite_inv_def Let_def write_commit_object_def list_all_iff
        split: option.splits if_splits sum.splits)
qed

lemma rewrite_all_inv:
  "rewrite_all g commits removals shas st = Inr (Some st') \<Longrightarrow> rewrite_inv r done st \<Longrightarrow>
     distinct (done @ shas) \<Longrightarrow> rewrite_inv r (done @ shas) st'"
proof (induction shas arbitrary: st "done")
  case (Cons sha shas)
  then obtain st1 where one: "rewrite_one g commits removals sha st = Inr (Some st1)"
    and rest: "rewrite_all g commits removals shas st1 = Inr (Some st')"
    by (auto split: sum.splits option.splits)
  have "rewrite_inv r (done @ [sha]) st1" using rewrite_one_inv [OF one Cons.prems(2)] Cons.prems(3) by simp
  from Cons.IH [OF rest this] Cons.prems(3) show ?case by simp
qed simp

lemma read_commits_spec:
  "read_commits g shas r = Inr cs \<Longrightarrow> sha \<in> set shas \<Longrightarrow>
     \<exists>raw. map_of (rp_objects r) sha = Some raw \<and> go_read g sha raw \<in> set cs"
  by (induction shas arbitrary: cs) (auto simp: read_raw_commit_def split: sum.splits if_splits option.splits)

text \<open>What a change of the branches must look like, and what holds of every rewritten commit.\<close>

definition fix_outcome_ok ::
  "git_ops \<Rightarrow> (commit \<Rightarrow> commit_report) \<Rightarrow> branch_update list \<Rightarrow> repo \<Rightarrow> push_fix option \<Rightarrow> repo \<Rightarrow> bool" where
  "fix_outcome_ok g analyse updates r res r' \<longleftrightarrow>
     (\<forall>ref. map_of (rp_branches r') ref \<noteq> map_of (rp_branches r) ref \<longrightarrow>
        startswith ref HEADS
        \<and> (\<exists>u \<in> set updates. \<exists>pf rc. bu_local_ref u = ref \<and> map_of (rp_branches r) ref = Some (bu_local_oid u)
             \<and> res = Some pf \<and> rc \<in> set (pf_commits pf) \<and> rc_old_sha rc = bu_local_oid u
             \<and> map_of (rp_branches r') ref = Some (rc_new_sha rc)))
     \<and> (\<forall>pf. res = Some pf \<longrightarrow> (\<forall>rc \<in> set (pf_commits pf). rc_old_sha rc \<notin> set (rp_remote r)
          \<and> (\<exists>raw. map_of (rp_objects r') (rc_new_sha rc) = Some raw
                \<and> cr_action (analyse (go_read g (rc_new_sha rc) raw)) \<noteq> BLOCK)))"

lemma conclude_fix_ok:
  assumes "conclude_fix g analyse targets st = Inr (res, r')" and "rewrite_inv r shas st"
  shows "fix_outcome_ok g analyse targets r res r'"
proof (cases res)
  case None
  with assms show ?thesis
    by (auto simp: conclude_fix_def Let_def fix_outcome_ok_def rewrite_inv_def
        split: sum.splits if_splits option.splits)
next
  case (Some pf)
  let ?olds = "map fst (rw_mapping st)" and ?news = "map snd (rw_mapping st)" and ?r = "rw_repo st"
  from assms(1) Some obtain unshared fixed moves where
    un: "not_on_any_remote ?olds ?r = Inr unshared" "set unshared = set ?olds"
    and fx: "read_commits g ?news ?r = Inr fixed" "\<not> list_ex (\<lambda>c. cr_action (analyse c) = BLOCK) fixed"
    and mv: "branch_moves (rw_mapping st) targets = Some moves" "move_branches moves ?r = Inr r'"
    and pf: "pf = \<lparr>pf_branches = map bu_local_ref targets, pf_commits = rw_rewritten st\<rparr>"
    by (auto simp: conclude_fix_def Let_def split: sum.splits if_splits option.splits)
  have inv: "rw_mapping st = map (\<lambda>rc. (rc_old_sha rc, rc_new_sha rc)) (rw_rewritten st)"
    "rp_branches ?r = rp_branches r" "rp_remote ?r = rp_remote r"
    using assms(2) by (simp_all add: rewrite_inv_def)
  note moved = move_branches_spec [OF mv(2)]
  have "rc_old_sha rc \<notin> set (rp_remote r) \<and> (\<exists>raw. map_of (rp_objects r') (rc_new_sha rc) = Some raw
      \<and> cr_action (analyse (go_read g (rc_new_sha rc) raw)) \<noteq> BLOCK)" if rc: "rc \<in> set (rw_rewritten st)" for rc
  proof -
    have "rc_old_sha rc \<in> set ?olds" "rc_new_sha rc \<in> set ?news" using rc by (auto simp: inv(1))
    moreover from this(1) un have "rc_old_sha rc \<notin> set (rp_remote r)"
      by (auto simp: not_on_any_remote_def inv(3) split: if_splits)
    moreover obtain raw where "map_of (rp_objects ?r) (rc_new_sha rc) = Some raw"
      "go_read g (rc_new_sha rc) raw \<in> set fixed"
      using read_commits_spec [OF fx(1)] calculation(2) by blast
    ultimately show ?thesis using fx(2) moved by (auto simp: list_ex_iff)
  qed
  moreover have "startswith ref HEADS \<and> (\<exists>u \<in> set targets. \<exists>rc. bu_local_ref u = ref
      \<and> map_of (rp_branches r) ref = Some (bu_local_oid u) \<and> rc \<in> set (rw_rewritten st)
      \<and> rc_old_sha rc = bu_local_oid u \<and> map_of (rp_branches r') ref = Some (rc_new_sha rc))"
    if ne: "map_of (rp_branches r') ref \<noteq> map_of (rp_branches r) ref" for ref
  proof -
    from moved ne inv(2) obtain new old where m: "startswith ref HEADS" "(ref, new, old) \<in> set moves"
      "map_of (rp_branches r) ref = Some old" "map_of (rp_branches r') ref = Some new" by metis
    from branch_moves_spec [OF mv(1) m(2)] obtain u where u: "u \<in> set targets" "bu_local_ref u = ref"
      "bu_local_oid u = old" "map_of (rw_mapping st) old = Some new" by blast
    from map_of_SomeD [OF u(4)] obtain rc where "rc \<in> set (rw_rewritten st)" "rc_old_sha rc = old" "rc_new_sha rc = new"
      by (auto simp: inv(1))
    with m u show ?thesis by blast
  qed
  ultimately show ?thesis unfolding fix_outcome_ok_def Some pf by auto
qed

lemma fix_outcome_unchanged: "fix_outcome_ok g analyse updates r None r"
  by (simp add: fix_outcome_ok_def)

text \<open>C28: Fixing commits at push time is safe. Branches change only when a fix is reported; then only local
  branches the push updates move, each from exactly the tip the push announced to the rewritten copy
  of that commit. No commit that any remote already has is rewritten, and every rewritten commit, read
  back from the store, analyses without a block. In every other case nothing moves.\<close>

theorem push_fix_is_safe:
  assumes "fix_outgoing_commits g analyse updates commits reports r = Inr (res, r')"
  shows "fix_outcome_ok g analyse updates r res r'"
proof -
  let ?blocked = "map fst (filter (\<lambda>(_, rep). cr_action rep = BLOCK) reports)"
  let ?targets = "filter (\<lambda>u. list_ex (\<lambda>s. s \<in> set ?blocked) (bu_commits u)) updates"
  let ?st0 = "\<lparr>rw_mapping = [], rw_rewritten = [], rw_repo = r\<rparr>"
  have "(res = None \<and> r' = r)
      \<or> (\<exists>removals order st. topological (concat (map bu_commits ?targets)) commits = Inr (Some order)
          \<and> rewrite_all g commits removals order ?st0 = Inr (Some st)
          \<and> conclude_fix g analyse ?targets st = Inr (res, r'))"
    using assms by (auto simp: fix_outgoing_commits_def Let_def split: if_splits option.splits sum.splits)
  then show ?thesis
  proof (elim disjE exE conjE)
    fix removals order st
    assume topo: "topological (concat (map bu_commits ?targets)) commits = Inr (Some order)"
      and rw: "rewrite_all g commits removals order ?st0 = Inr (Some st)"
      and fin: "conclude_fix g analyse ?targets st = Inr (res, r')"
    have "distinct order"
      using topo topo_Some [of "\<lambda>s. cm_parents (the (map_of commits s))" "remdups (concat (map bu_commits ?targets))" "[]" order]
      by (auto simp: topological_def parents_first_def split: option.splits)
    then have "rewrite_inv r ([] @ order) st"
      by (intro rewrite_all_inv [OF rw]) (simp_all add: rewrite_inv_def)
    from conclude_fix_ok [OF fin this] show ?thesis
      unfolding fix_outcome_ok_def by (meson filter_is_subset subsetD)
  qed (simp add: fix_outcome_unchanged)
qed

section \<open>A fix at work\<close>

definition sha_old :: string where "sha_old = replicate 40 (CHR ''a'')"
definition sha_new :: string where "sha_new = replicate 40 (CHR ''b'')"

definition fix_raw :: "nat list" where
  "fix_raw = asc ''tree t'' @ [10, 10, 97, 10, 120]"

definition fix_git :: git_ops where
  "fix_git = \<lparr>go_hash = (\<lambda>_. sha_new), go_read = (\<lambda>sha raw. empty_commit\<lparr>cm_sha := Some sha, cm_message := [97, 10]\<rparr>)\<rparr>"

definition fix_repo :: repo where
  "fix_repo = \<lparr>rp_objects = [(sha_old, fix_raw)], rp_branches = [(asc ''refs/heads/m'', sha_old)], rp_remote = [],
     rp_in_progress = False\<rparr>"

definition plain_report :: "action \<Rightarrow> evaluated_finding list \<Rightarrow> commit_report" where
  "plain_report a fs = \<lparr>cr_commit_sha = None, cr_short_sha = [], cr_subject = [], cr_action = a, cr_findings = fs,
     cr_failures = [], cr_detectors_run = [], cr_detectors_skipped = []\<rparr>"

definition blocked_report :: commit_report where
  "blocked_report = plain_report BLOCK [\<lparr>ef_finding = footer_finding, ef_action = BLOCK, ef_policy_id = None, ef_reason = []\<rparr>]"

definition fix_update :: branch_update where
  "fix_update = \<lparr>bu_local_ref = asc ''refs/heads/m'', bu_local_oid = sha_old, bu_commits = [sha_old]\<rparr>"

definition fix_commit :: commit where
  "fix_commit = empty_commit\<lparr>cm_sha := Some sha_old, cm_message := [97, 10, 120]\<rparr>"

lemma fix_shas: "is_git_sha (asc sha_old)" "is_git_sha (asc sha_new)" "sha_new \<noteq> sha_old" "sha_old \<noteq> sha_new"
  by (simp_all add: is_git_sha_def sha_old_def sha_new_def asc_def hex_lower_def numeral_eq_Suc)

lemma fix_removable: "removable_lines blocked_report = Some [\<lparr>rl_line_number = 2, rl_text = [120], rl_rule_id = ''quiet''\<rparr>]"
    by (simp add: removable_lines_def blocked_report_def plain_report_def footer_finding_def mk_evidence_def REMOVABLE_SOURCES_def
        setdefault_def truncate_evidence_def MAX_EVIDENCE_CHARS_def asc_def)

lemma fix_strips: "strip_lines [97, 10, 120] [2] = [97, 10]"
    by (simp add: strip_lines_def keep_lines_def trim_blank_end_def str_eval)

lemma fix_rewrites: "rewrite_commit fix_raw [] [97, 10] = Some (asc ''tree t'' @ [10, 10, 97, 10])"
  by (simp add: rewrite_commit_def fix_raw_def asc_def copyable_def startswith_def
      header_name_def COPYABLE_HEADERS_def rewrite_header_def utf8_def utf8_cp_def)

lemma fix_order: "topological [sha_old] [(sha_old, fix_commit)] = Inr (Some [sha_old])"
  by (simp add: topological_def topo.simps fix_commit_def empty_commit_def)

definition fix_result :: repo where
  "fix_result = \<lparr>rp_objects = [(sha_old, fix_raw), (sha_new, asc ''tree t'' @ [10, 10, 97, 10])],
        rp_branches = [(asc ''refs/heads/m'', sha_new)], rp_remote = [], rp_in_progress = False\<rparr>"

lemma fix_rewrites_all: "rewrite_all fix_git [(sha_old, fix_commit)] [(sha_old, [\<lparr>rl_line_number = 2, rl_text = [120], rl_rule_id = ''quiet''\<rparr>])]
   [sha_old] \<lparr>rw_mapping = [], rw_rewritten = [], rw_repo = fix_repo\<rparr> =
   Inr (Some \<lparr>rw_mapping = [(sha_old, sha_new)], rw_rewritten = [\<lparr>rc_old_sha = sha_old, rc_new_sha = sha_new,
     rc_subject = [97], rc_removed = [\<lparr>rl_line_number = 2, rl_text = [120], rl_rule_id = ''quiet''\<rparr>]\<rparr>],
     rw_repo = fix_repo\<lparr>rp_objects := [(sha_old, fix_raw), (sha_new, asc ''tree t'' @ [10, 10, 97, 10])]\<rparr>\<rparr>)"
proof -
  have "split_headers fix_raw = Some (asc ''tree t'', [97, 10, 120])" by (simp add: fix_raw_def asc_def)
  then show ?thesis
   by (simp add: rewrite_one_def read_raw_commit_def fix_shas fix_repo_def fix_commit_def empty_commit_def Let_def fixed_message_def fix_strips fix_rewrites
    write_commit_object_def fix_git_def subject_line_def with_actual_text_def) (simp add: str_eval)
qed

lemma fix_runs: "fix_outgoing_commits fix_git (\<lambda>c. plain_report ALLOW []) [fix_update] [(sha_old, fix_commit)]
    [(sha_old, blocked_report)] fix_repo
    = Inr (Some \<lparr>pf_branches = [asc ''refs/heads/m''], pf_commits = [\<lparr>rc_old_sha = sha_old, rc_new_sha = sha_new,
        rc_subject = [97], rc_removed = [\<lparr>rl_line_number = 2, rl_text = [120], rl_rule_id = ''quiet''\<rparr>]\<rparr>]\<rparr>, fix_result)"
  using fix_order fix_rewrites_all fix_removable fix_shas 
  by (simp add: fix_outgoing_commits_def blocked_report_def plain_report_def fix_update_def HEADS_def fix_repo_def conclude_fix_def
    not_on_any_remote_def read_raw_commit_def move_branches_def fix_result_def startswith_def asc_def)

theorem push_fix_is_safe_witness:
  "fix_outcome_ok fix_git (\<lambda>c. plain_report ALLOW []) [fix_update] fix_repo
     (Some \<lparr>pf_branches = [asc ''refs/heads/m''], pf_commits = [\<lparr>rc_old_sha = sha_old, rc_new_sha = sha_new,
        rc_subject = [97], rc_removed = [\<lparr>rl_line_number = 2, rl_text = [120], rl_rule_id = ''quiet''\<rparr>]\<rparr>]\<rparr>)
     fix_result \<and> map_of (rp_branches fix_result) (asc ''refs/heads/m'') = Some sha_new"
  using push_fix_is_safe [OF fix_runs] by (simp add: fix_result_def)

end
