(* ===== verification/Delivery.thy ===== *)
theory Delivery
  imports Guard_Prelude
begin

text \<open>
  The delivery worker of notifications (\<open>notifications/retry.py\<close>). A delivery record is a row of
  \<open>notification_deliveries\<close>; the operations are the updates the worker makes, each inside its own
  database transaction. Several workers run at once: the relation \<open>dstep\<close> interleaves their claims,
  their completions and their crashes with the clock, in whole seconds. What a provider answers is a
  parameter of the step.
\<close>

section \<open>Records\<close>

datatype delivery_status = DsPending | DsSent | DsFailed | DsCancelled

datatype channel_kind = ChEmail | ChWebhook

record delivery =
  dv_channel :: channel_kind
  dv_destination :: ustr
  dv_key :: string
  dv_status :: delivery_status
  dv_attempts :: nat
  dv_next_retry :: "int option"
  dv_lease :: "int option"
  dv_failure :: "string option"
  dv_provider :: string
  dv_message_id :: "ustr option"
  dv_last_attempt :: "int option"

definition MAX_ATTEMPTS :: nat where
  "MAX_ATTEMPTS = 5"

definition BACKOFF_SECONDS :: "int list" where
  "BACKOFF_SECONDS = [60, 300, 1800, 7200]"

definition LEASE_SECONDS :: int where
  "LEASE_SECONDS = 120"

text \<open>The index is \<open>min(attempts, 4) - 1\<close>; the index \<open>-1\<close> of no attempt is Python's last element.\<close>

definition retry_delay :: "nat \<Rightarrow> int option" where
  "retry_delay attempts_made =
     (if MAX_ATTEMPTS \<le> attempts_made then None
      else (let k = min attempts_made (length BACKOFF_SECONDS)
            in Some (if k = 0 then last BACKOFF_SECONDS else BACKOFF_SECONDS ! (k - 1))))"

text \<open>How a destination appears in an audit event.\<close>

definition mask_destination :: "channel_kind \<Rightarrow> ustr \<Rightarrow> ustr" where
  "mask_destination channel destination =
     (if channel \<noteq> ChEmail \<or> 64 \<notin> set destination then destination
      else case partition_char 64 destination of
             (loc, _, domain) \<Rightarrow> take 1 loc @ asc ''***@'' @ domain)"

section \<open>One delivery\<close>

definition due :: "int \<Rightarrow> delivery \<Rightarrow> bool" where
  "due now d \<longleftrightarrow> dv_status d = DsPending
     \<and> (case dv_next_retry d of None \<Rightarrow> True | Some t \<Rightarrow> t \<le> now)
     \<and> (case dv_lease d of None \<Rightarrow> True | Some t \<Rightarrow> t < now)"

text \<open>\<open>_claim\<close>: the conditional update; \<open>None\<close> when it changes no row.\<close>

definition claim :: "int \<Rightarrow> delivery \<Rightarrow> delivery option" where
  "claim now d = (if due now d then Some (d\<lparr>dv_lease := Some (now + LEASE_SECONDS)\<rparr>) else None)"

text \<open>\<open>DeliveryError\<close>, with the code already cut to 64 characters; \<open>_Cancelled\<close> is the subclass.\<close>

record delivery_error =
  er_code :: string
  er_permanent :: bool
  er_cancelled :: bool

record receipt =
  rc_provider :: string
  rc_message_id :: "ustr option"

text \<open>\<open>_send\<close>: cancelled when the channel or the endpoint is gone, otherwise the provider's answer. An
  unexpected exception is recorded as \<open>internal_error\<close>, which is retryable.\<close>

datatype provider_answer = Accepted receipt | Refused delivery_error | Raised

record channels =
  cn_email :: bool
  cn_webhook :: bool
  cn_endpoint_url :: "ustr option"
  cn_endpoint_removed :: bool

definition cancelled_error :: "string \<Rightarrow> delivery_error" where
  "cancelled_error code = \<lparr>er_code = code, er_permanent = True, er_cancelled = True\<rparr>"

definition send :: "channels \<Rightarrow> delivery \<Rightarrow> provider_answer \<Rightarrow> delivery_error + receipt" where
  "send cn d answer =
     (if dv_channel d = ChEmail \<and> \<not> cn_email cn then Inl (cancelled_error ''email_channel_unavailable'')
      else if dv_channel d = ChWebhook \<and> \<not> cn_webhook cn then Inl (cancelled_error ''webhook_channel_unavailable'')
      else if dv_channel d = ChWebhook \<and> (cn_endpoint_url cn = None \<or> cn_endpoint_removed cn)
      then Inl (cancelled_error ''webhook_endpoint_removed'')
      else case answer of
             Accepted r \<Rightarrow> Inr r
           | Refused e \<Rightarrow> Inl e
           | Raised \<Rightarrow> Inl \<lparr>er_code = ''internal_error'', er_permanent = False, er_cancelled = False\<rparr>)"

definition nonempty_prefix :: "nat \<Rightarrow> ustr option \<Rightarrow> ustr option" where
  "nonempty_prefix n s = (case s of None \<Rightarrow> None | Some t \<Rightarrow> if take n t = [] then None else Some (take n t))"

definition mark_sent :: "int \<Rightarrow> receipt \<Rightarrow> delivery \<Rightarrow> delivery" where
  "mark_sent now r d =
     d\<lparr>dv_status := DsSent, dv_attempts := dv_attempts d + 1, dv_provider := rc_provider r,
       dv_message_id := nonempty_prefix 200 (rc_message_id r), dv_failure := None,
       dv_last_attempt := Some now, dv_next_retry := None, dv_lease := None\<rparr>"

definition next_delay :: "delivery_error \<Rightarrow> nat \<Rightarrow> int option" where
  "next_delay e attempts = (if er_permanent e \<or> er_cancelled e then None else retry_delay attempts)"

definition failed_status :: "delivery_error \<Rightarrow> int option \<Rightarrow> delivery_status" where
  "failed_status e delay =
     (if er_cancelled e then DsCancelled else if delay = None then DsFailed else DsPending)"

text \<open>\<open>_failed\<close>: the attempt count comes from the row that was read, the rest is written over the row.\<close>

definition mark_failed :: "int \<Rightarrow> delivery \<Rightarrow> delivery_error \<Rightarrow> delivery \<Rightarrow> delivery" where
  "mark_failed now row e d =
     (let attempts = dv_attempts row + 1; delay = next_delay e attempts
      in d\<lparr>dv_status := failed_status e delay, dv_attempts := attempts, dv_failure := Some (er_code e),
           dv_last_attempt := Some now, dv_next_retry := map_option (\<lambda>t. now + t) delay, dv_lease := None\<rparr>)"

definition finish_attempt ::
  "int \<Rightarrow> channels \<Rightarrow> delivery \<Rightarrow> provider_answer \<Rightarrow> delivery \<Rightarrow> delivery" where
  "finish_attempt now cn row answer d =
     (case send cn row answer of Inl e \<Rightarrow> mark_failed now row e d | Inr r \<Rightarrow> mark_sent now r d)"

section \<open>Workers\<close>

text \<open>What a worker holds between its transactions: the delivery it claimed, when its lease ends, and the row
  as it read it, once it has.\<close>

record attempt =
  at_delivery :: string
  at_deadline :: int
  at_row :: "delivery option"

record wstate =
  ws_now :: int
  ws_rows :: "(string \<times> delivery) list"
  ws_busy :: "(nat \<times> attempt) list"

text \<open>An \<open>UPDATE ... WHERE delivery_id = ?\<close>, which changes nothing when the row is gone.\<close>

definition update_row :: "string \<Rightarrow> (delivery \<Rightarrow> delivery) \<Rightarrow> wstate \<Rightarrow> wstate" where
  "update_row i f s =
     s\<lparr>ws_rows := (case map_of (ws_rows s) i of None \<Rightarrow> ws_rows s | Some d \<Rightarrow> AList.update i (f d) (ws_rows s))\<rparr>"

text \<open>\<open>deliver_due\<close> selects the rows that are due; each is then claimed and attempted in turn.\<close>

definition due_ids :: "nat \<Rightarrow> wstate \<Rightarrow> string list" where
  "due_ids limit s = take limit (map fst (filter (\<lambda>(_, d). due (ws_now s) d) (ws_rows s)))"

text \<open>\<open>remove_webhook\<close> of \<open>controlplane/notifications.py\<close> cancels what is pending for the endpoint, lease and
  all; \<open>purge_expired\<close> of \<open>notifications/service.py\<close> deletes rows that are not pending.\<close>

definition cancel_endpoint :: "ustr \<Rightarrow> delivery \<Rightarrow> delivery" where
  "cancel_endpoint endpoint d =
     (if dv_destination d = endpoint \<and> dv_status d = DsPending
      then d\<lparr>dv_status := DsCancelled, dv_failure := Some ''webhook_endpoint_removed''\<rparr> else d)"

definition fresh_delivery :: "delivery \<Rightarrow> bool" where
  "fresh_delivery d \<longleftrightarrow> dv_status d = DsPending \<and> dv_attempts d = 0 \<and> dv_lease d = None \<and> dv_next_retry d = None"

text \<open>One step of the system. \<open>timely\<close> says that a worker reads and writes only before its lease ends: a worker
  that is suspended for longer, or whose provider takes longer, is the case \<open>timely = False\<close>.\<close>

inductive dstep :: "bool \<Rightarrow> wstate \<Rightarrow> wstate \<Rightarrow> bool" for timely where
  tick: "ws_now s \<le> t \<Longrightarrow> dstep timely s (s\<lparr>ws_now := t\<rparr>)"
| claimed: "map_of (ws_busy s) w = None \<Longrightarrow> map_of (ws_rows s) i = Some d \<Longrightarrow> claim (ws_now s) d = Some d' \<Longrightarrow>
    dstep timely s ((update_row i (\<lambda>_. d') s)
      \<lparr>ws_busy := (w, \<lparr>at_delivery = i, at_deadline = ws_now s + LEASE_SECONDS, at_row = None\<rparr>) # ws_busy s\<rparr>)"
| row_read: "map_of (ws_busy s) w = Some a \<Longrightarrow> timely \<longrightarrow> ws_now s \<le> at_deadline a \<Longrightarrow>
    map_of (ws_rows s) (at_delivery a) = Some row \<Longrightarrow>
    dstep timely s (s\<lparr>ws_busy := AList.update w (a\<lparr>at_row := Some row\<rparr>) (ws_busy s)\<rparr>)"
| finished: "map_of (ws_busy s) w = Some a \<Longrightarrow> timely \<longrightarrow> ws_now s \<le> at_deadline a \<Longrightarrow> at_row a = Some row \<Longrightarrow>
    dstep timely s ((update_row (at_delivery a) (finish_attempt (ws_now s) cn row answer) s)
      \<lparr>ws_busy := AList.delete w (ws_busy s)\<rparr>)"
| crashed: "dstep timely s (s\<lparr>ws_busy := AList.delete w (ws_busy s)\<rparr>)"
| created: "map_of (ws_rows s) i = None \<Longrightarrow> \<forall>a \<in> snd ` set (ws_busy s). at_delivery a \<noteq> i \<Longrightarrow> fresh_delivery d \<Longrightarrow>
    dstep timely s (s\<lparr>ws_rows := (i, d) # ws_rows s\<rparr>)"
| endpoint_removed: "dstep timely s (s\<lparr>ws_rows := map (\<lambda>(i, d). (i, cancel_endpoint endpoint d)) (ws_rows s)\<rparr>)"
| purged: "map_of (ws_rows s) i = Some d \<Longrightarrow> dv_status d \<noteq> DsPending \<Longrightarrow>
    dstep timely s (s\<lparr>ws_rows := AList.delete i (ws_rows s)\<rparr>)"

definition wstart :: "int \<Rightarrow> wstate" where
  "wstart t = \<lparr>ws_now = t, ws_rows = [], ws_busy = []\<rparr>"

inductive reachable :: "bool \<Rightarrow> wstate \<Rightarrow> bool" for timely where
  start: "reachable timely (wstart t)"
| step: "reachable timely s \<Longrightarrow> dstep timely s s' \<Longrightarrow> reachable timely s'"

section \<open>The invariant\<close>

definition row_ok :: "delivery \<Rightarrow> bool" where
  "row_ok d \<longleftrightarrow> dv_attempts d \<le> MAX_ATTEMPTS \<and> (dv_status d = DsPending \<longrightarrow> dv_attempts d < MAX_ATTEMPTS)"

text \<open>A worker whose lease has not ended.\<close>

definition holds :: "wstate \<Rightarrow> nat \<Rightarrow> attempt \<Rightarrow> bool" where
  "holds s w a \<longleftrightarrow> map_of (ws_busy s) w = Some a \<and> ws_now s \<le> at_deadline a"

text \<open>The row of such a worker is the one it leased, still to be sent unless it was cancelled meanwhile.\<close>

definition leased :: "attempt \<Rightarrow> delivery \<Rightarrow> bool" where
  "leased a d \<longleftrightarrow> dv_lease d = Some (at_deadline a) \<and> (dv_status d = DsPending \<or> dv_status d = DsCancelled)
     \<and> dv_attempts d < MAX_ATTEMPTS \<and> (\<forall>row. at_row a = Some row \<longrightarrow> dv_attempts row = dv_attempts d)"

definition delivery_inv :: "wstate \<Rightarrow> bool" where
  "delivery_inv s \<longleftrightarrow>
     (\<forall>w a d. holds s w a \<longrightarrow> map_of (ws_rows s) (at_delivery a) = Some d \<longrightarrow> leased a d)
     \<and> (\<forall>w w' a a'. holds s w a \<longrightarrow> holds s w' a' \<longrightarrow> at_delivery a = at_delivery a' \<longrightarrow> w = w')
     \<and> (\<forall>i d. map_of (ws_rows s) i = Some d \<longrightarrow> row_ok d)"

lemma delivery_invD:
  assumes "delivery_inv s"
  shows "holds s w a \<Longrightarrow> map_of (ws_rows s) (at_delivery a) = Some d \<Longrightarrow> leased a d"
    and "holds s w a \<Longrightarrow> holds s w' a' \<Longrightarrow> at_delivery a = at_delivery a' \<Longrightarrow> w = w'"
    and "map_of (ws_rows s) i = Some d \<Longrightarrow> row_ok d"
  using assms unfolding delivery_inv_def by blast+

lemma delivery_invI:
  assumes "\<And>w a d. holds s w a \<Longrightarrow> map_of (ws_rows s) (at_delivery a) = Some d \<Longrightarrow> leased a d"
    and "\<And>w w' a a'. holds s w a \<Longrightarrow> holds s w' a' \<Longrightarrow> at_delivery a = at_delivery a' \<Longrightarrow> w = w'"
    and "\<And>i d. map_of (ws_rows s) i = Some d \<Longrightarrow> row_ok d"
  shows "delivery_inv s"
  using assms unfolding delivery_inv_def by blast

lemma map_of_delete [simp]: "map_of (AList.delete k al) j = (if j = k then None else map_of al j)"
  by (simp add: delete_conv')

lemma update_row_simps [simp]:
  "ws_now (update_row i f s) = ws_now s" "ws_busy (update_row i f s) = ws_busy s"
  "map_of (ws_rows (update_row i f s)) j =
     (if j = i then map_option f (map_of (ws_rows s) i) else map_of (ws_rows s) j)"
  by (auto simp: update_row_def map_of_update split: option.splits)

lemma map_of_map_cancel [simp]:
  "map_of (map (\<lambda>(i, d). (i, f d)) al) j = map_option f (map_of al j)"
  by (induction al) auto

lemma holds_same:
  "ws_busy s' = ws_busy s \<Longrightarrow> ws_now s' = ws_now s \<Longrightarrow> holds s' w a = holds s w a"
  by (simp add: holds_def)

lemma inv_rows:
  assumes inv: "delivery_inv s" and holds: "\<And>w a. holds s' w a \<Longrightarrow> holds s w a"
    and leased: "\<And>w a d d'. holds s' w a \<Longrightarrow> map_of (ws_rows s') (at_delivery a) = Some d' \<Longrightarrow> leased a d'"
    and ok: "\<And>i d. map_of (ws_rows s') i = Some d \<Longrightarrow> row_ok d"
  shows "delivery_inv s'"
  using leased delivery_invD(2) [OF inv] holds ok by (intro delivery_invI) blast+

lemma claim_Some:
  "claim now d = Some d' \<Longrightarrow> due now d \<and> d' = d\<lparr>dv_lease := Some (now + LEASE_SECONDS)\<rparr>"
  by (simp add: claim_def split: if_splits)

lemma finish_attempt_ok:
  "dv_attempts row = dv_attempts d \<Longrightarrow> dv_attempts d < MAX_ATTEMPTS \<Longrightarrow> row_ok (finish_attempt now cn row answer d)"
  by (auto simp: finish_attempt_def mark_sent_def mark_failed_def row_ok_def Let_def failed_status_def
      next_delay_def retry_delay_def split: sum.splits if_splits)

lemma inv_claimed:
  assumes inv: "delivery_inv s" and free: "map_of (ws_busy s) w = None"
    and d: "map_of (ws_rows s) i = Some d" and c: "claim (ws_now s) d = Some d'"
  shows "delivery_inv ((update_row i (\<lambda>_. d') s)
      \<lparr>ws_busy := (w, \<lparr>at_delivery = i, at_deadline = ws_now s + LEASE_SECONDS, at_row = None\<rparr>) # ws_busy s\<rparr>)"
    (is "delivery_inv ?s'")
proof -
  let ?a = "\<lparr>at_delivery = i, at_deadline = ws_now s + LEASE_SECONDS, at_row = None\<rparr>"
  note c = claim_Some [OF c]
  have idle: "\<not> holds s w' a" if "at_delivery a = i" for w' a
    using delivery_invD(1) [OF inv, of w' a d] d c that by (auto simp: leased_def due_def holds_def split: option.splits)
  have new: "holds ?s' w' a \<Longrightarrow> holds s w' a \<and> at_delivery a \<noteq> i \<or> w' = w \<and> a = ?a" for w' a
    using idle [of a w'] by (auto simp: holds_def split: if_splits)
  have d': "row_ok d'" "leased ?a d'"
    using c delivery_invD(3) [OF inv d] by (auto simp: row_ok_def due_def leased_def)
  show ?thesis
  proof (rule delivery_invI)
    fix w' a d0 assume h: "holds ?s' w' a" and m: "map_of (ws_rows ?s') (at_delivery a) = Some d0"
    from new [OF h] show "leased a d0"
      using d' d m delivery_invD(1) [OF inv, of w' a d0] by auto
  next
    fix w1 w2 a a' assume "holds ?s' w1 a" "holds ?s' w2 a'" "at_delivery a = at_delivery a'"
    with new [of w1 a] new [of w2 a'] show "w1 = w2" using delivery_invD(2) [OF inv, of w1 a w2 a'] by auto
  next
    fix j d0 assume "map_of (ws_rows ?s') j = Some d0"
    then show "row_ok d0" using d' d delivery_invD(3) [OF inv, of j d0] by (auto split: if_splits)
  qed
qed

lemma inv_row_read:
  assumes inv: "delivery_inv s" and h: "holds s w a" and row: "map_of (ws_rows s) (at_delivery a) = Some row"
  shows "delivery_inv (s\<lparr>ws_busy := AList.update w (a\<lparr>at_row := Some row\<rparr>) (ws_busy s)\<rparr>)" (is "delivery_inv ?s'")
proof -
  have new: "holds ?s' w' a' \<Longrightarrow> w' \<noteq> w \<and> holds s w' a' \<or> w' = w \<and> a' = a\<lparr>at_row := Some row\<rparr>" for w' a'
    by (auto simp: holds_def map_of_update split: if_splits)
  show ?thesis
  proof (rule delivery_invI)
    fix w' a' d0 assume "holds ?s' w' a'" and m: "map_of (ws_rows ?s') (at_delivery a') = Some d0"
    with new [of w' a'] show "leased a' d0"
      using delivery_invD(1) [OF inv h row] row delivery_invD(1) [OF inv, of w' a' d0] by (auto simp: leased_def)
  next
    fix w1 w2 a1 a2 assume "holds ?s' w1 a1" "holds ?s' w2 a2" "at_delivery a1 = at_delivery a2"
    moreover from calculation have "holds s w1 (if w1 = w then a else a1)" "holds s w2 (if w2 = w then a else a2)"
      using new [of w1 a1] new [of w2 a2] h by auto
    moreover have "at_delivery (if w1 = w then a else a1) = at_delivery (if w2 = w then a else a2)"
      using calculation(3) new [OF calculation(1)] new [OF calculation(2)] by auto
    ultimately show "w1 = w2" by (blast intro: delivery_invD(2) [OF inv])
  qed (use delivery_invD(3) [OF inv] in auto)
qed

lemma inv_finished:
  assumes inv: "delivery_inv s" and h: "holds s w a" and row: "at_row a = Some row"
  shows "delivery_inv ((update_row (at_delivery a) (finish_attempt (ws_now s) cn row answer) s)
      \<lparr>ws_busy := AList.delete w (ws_busy s)\<rparr>)" (is "delivery_inv ?s'")
proof (rule inv_rows [OF inv])
  fix w' a' d d' i
  show "holds ?s' w' a' \<Longrightarrow> holds s w' a'" by (auto simp: holds_def split: if_splits)
  show "holds ?s' w' a' \<Longrightarrow> map_of (ws_rows ?s') (at_delivery a') = Some d' \<Longrightarrow> leased a' d'"
    using delivery_invD(2) [OF inv h, of w' a'] delivery_invD(1) [OF inv, of w' a' d']
    by (auto simp: holds_def split: if_splits)
  show "map_of (ws_rows ?s') i = Some d \<Longrightarrow> row_ok d"
    using delivery_invD(1) [OF inv h] delivery_invD(3) [OF inv, of i d] row
    by (auto simp: leased_def split: if_splits intro!: finish_attempt_ok)
qed

lemma row_ok_cancel [simp]: "row_ok d \<Longrightarrow> row_ok (cancel_endpoint endpoint d)"
  by (simp add: row_ok_def cancel_endpoint_def)

lemma leased_cancel [simp]: "leased a d \<Longrightarrow> leased a (cancel_endpoint endpoint d)"
  by (auto simp: leased_def cancel_endpoint_def)

lemma dstep_inv:
  assumes "dstep True s s'" and inv: "delivery_inv s"
  shows "delivery_inv s'"
  using assms(1)
proof cases
  case (tick t)
  then show ?thesis
    using delivery_invD(1,3) [OF inv] by (intro inv_rows [OF inv]) (auto simp: holds_def)
next
  case (claimed w i d d')
  then show ?thesis using inv_claimed [OF inv] by blast
next
  case (row_read w a row)
  then show ?thesis using inv_row_read [OF inv] by (simp add: holds_def)
next
  case (finished w a row cn answer)
  then show ?thesis using inv_finished [OF inv] by (simp add: holds_def)
next
  case (crashed w)
  then show ?thesis
    using delivery_invD(1,3) [OF inv] by (intro inv_rows [OF inv]) (auto simp: holds_def split: if_splits)
next
  case (created i d)
  have "at_delivery a \<noteq> i" if "holds s w a" for w a
    using created that by (force simp: holds_def dest: map_of_SomeD)
  with created show ?thesis
    using delivery_invD(1,3) [OF inv]
    by (intro inv_rows [OF inv])
      (auto simp: holds_def fresh_delivery_def row_ok_def MAX_ATTEMPTS_def split: if_splits)
next
  case (endpoint_removed endpoint)
  then show ?thesis
    using delivery_invD(1,3) [OF inv] by (intro inv_rows [OF inv]) (auto simp: holds_def)
next
  case (purged i d)
  then show ?thesis
    using delivery_invD(1,3) [OF inv] by (intro inv_rows [OF inv]) (auto simp: holds_def split: if_splits)
qed

lemma reachable_inv: "reachable True s \<Longrightarrow> delivery_inv s"
proof (induction rule: reachable.induct)
  case (start t)
  then show ?case by (simp add: delivery_inv_def holds_def wstart_def)
qed (rule dstep_inv)



section \<open>Properties\<close>

text \<open>C38: one sender at a time. While a worker holds the lease of a delivery nobody else can claim it, and no other
  worker holds a lease of the same delivery, whatever the interleaving of claims, reads, completions, crashes,
  cancellations, purges and the clock, as long as workers keep to their leases.\<close>

theorem one_sender_at_a_time:
  assumes "reachable True s" and "holds s w a" and "map_of (ws_rows s) (at_delivery a) = Some d"
  shows "claim (ws_now s) d = None \<and> {w'. \<exists>a'. holds s w' a' \<and> at_delivery a' = at_delivery a} = {w}"
proof -
  note inv = reachable_inv [OF assms(1)]
  have "\<not> due (ws_now s) d"
    using delivery_invD(1) [OF inv assms(2,3)] assms(2) by (auto simp: leased_def due_def holds_def)
  moreover have "w' = w" if "holds s w' a'" "at_delivery a' = at_delivery a" for w' a'
    using delivery_invD(2) [OF inv that(1) assms(2) that(2)] .
  then have "{w'. \<exists>a'. holds s w' a' \<and> at_delivery a' = at_delivery a} = {w}" using assms(2) by blast
  ultimately show ?thesis by (simp add: claim_def)
qed

definition sample_delivery :: delivery where
  "sample_delivery =
     \<lparr>dv_channel = ChWebhook, dv_destination = asc ''endpoint'', dv_key = ''key'', dv_status = DsPending,
      dv_attempts = 0, dv_next_retry = None, dv_lease = None, dv_failure = None, dv_provider = ''webhook'',
      dv_message_id = None, dv_last_attempt = None\<rparr>"

definition sample_channels :: channels where
  "sample_channels = \<lparr>cn_email = True, cn_webhook = True, cn_endpoint_url = Some (asc ''https://x''), cn_endpoint_removed = False\<rparr>"

abbreviation sample_attempt :: "int \<Rightarrow> delivery option \<Rightarrow> attempt" where
  "sample_attempt t r \<equiv> \<lparr>at_delivery = ''d'', at_deadline = t, at_row = r\<rparr>"

lemma sample_created: "reachable timely \<lparr>ws_now = 0, ws_rows = [(''d'', sample_delivery)], ws_busy = []\<rparr>"
  using reachable.step [OF reachable.start [of timely 0] dstep.created [of _ "''d''" sample_delivery]]
  by (simp add: wstart_def fresh_delivery_def sample_delivery_def)

lemma sample_claimed:
  "reachable timely \<lparr>ws_now = 0, ws_rows = [(''d'', sample_delivery\<lparr>dv_lease := Some 120\<rparr>)],
     ws_busy = [(1, sample_attempt 120 None)]\<rparr>"
  using reachable.step [OF sample_created dstep.claimed [of _ 1 "''d''" sample_delivery "sample_delivery\<lparr>dv_lease := Some 120\<rparr>"]]
  by (simp add: claim_def due_def update_row_def sample_delivery_def LEASE_SECONDS_def)

lemma one_sender_at_a_time_witness:
  "{w'. \<exists>a'. holds \<lparr>ws_now = 0, ws_rows = [(''d'', sample_delivery\<lparr>dv_lease := Some 120\<rparr>)],
     ws_busy = [(1, sample_attempt 120 None)]\<rparr> w' a' \<and> at_delivery a' = ''d''} = {1}"
  using one_sender_at_a_time [OF sample_claimed [of True], of 1 "sample_attempt 120 None"] by (simp add: holds_def)

lemma dstep_final:
  assumes "reachable True s" and "dstep True s s'" and row: "map_of (ws_rows s) i = Some d"
    and status: "dv_status d = DsSent \<or> dv_status d = DsFailed"
  shows "map_of (ws_rows s') i = Some d \<or> map_of (ws_rows s') i = None"
  using assms(2)
proof cases
  case (finished w a r cn answer)
  then have "holds s w a" by (simp add: holds_def)
  then have "at_delivery a \<noteq> i"
    using delivery_invD(1) [OF reachable_inv [OF assms(1)], of w a d] row status by (auto simp: leased_def)
  then show ?thesis using finished row by simp
next
  case (claimed w j d0 d')
  then show ?thesis using row status claim_Some [OF claimed(4)] by (auto simp: due_def)
qed (use row status in \<open>auto simp: cancel_endpoint_def\<close>)



text \<open>One attempt. It is counted once and gives the lease back. A receipt makes the delivery sent; otherwise the
  delivery stays pending exactly when the error is neither permanent nor a cancellation and fewer than five attempts
  are made, and is then due again after 60, 300, 1800 or 7200 seconds.\<close>

theorem finish_attempt_exact:
  assumes "dv_status d = DsPending"
  shows "case send cn d answer of
      Inr r \<Rightarrow> finish_attempt now cn d answer d
        = d\<lparr>dv_status := DsSent, dv_attempts := dv_attempts d + 1, dv_provider := rc_provider r,
            dv_message_id := nonempty_prefix 200 (rc_message_id r), dv_failure := None, dv_last_attempt := Some now,
            dv_next_retry := None, dv_lease := None\<rparr>
    | Inl e \<Rightarrow> finish_attempt now cn d answer d
        = d\<lparr>dv_status := if er_cancelled e then DsCancelled
                         else if er_permanent e \<or> 4 \<le> dv_attempts d then DsFailed else DsPending,
            dv_attempts := dv_attempts d + 1, dv_failure := Some (er_code e), dv_last_attempt := Some now,
            dv_next_retry := if er_cancelled e \<or> er_permanent e \<or> 4 \<le> dv_attempts d then None
                             else Some (now + [60, 300, 1800, 7200] ! dv_attempts d),
            dv_lease := None\<rparr>"
proof (cases "send cn d answer")
  case (Inr r)
  then show ?thesis by (simp add: finish_attempt_def mark_sent_def)
next
  case (Inl e)
  have "retry_delay (dv_attempts d + 1) = (if 4 \<le> dv_attempts d then None else Some ([60, 300, 1800, 7200] ! dv_attempts d))"
    by (auto simp: retry_delay_def MAX_ATTEMPTS_def BACKOFF_SECONDS_def min_def)
  with Inl show ?thesis
    by (simp add: finish_attempt_def mark_failed_def Let_def failed_status_def next_delay_def)
qed

lemma finish_attempt_exact_witness:
  "dv_next_retry (finish_attempt 1000 sample_channels (sample_delivery\<lparr>dv_attempts := 2\<rparr>) Raised (sample_delivery\<lparr>dv_attempts := 2\<rparr>)) = Some 2800"
  using finish_attempt_exact [where d = "sample_delivery\<lparr>dv_attempts := 2\<rparr>" and cn = sample_channels and answer = Raised and now = 1000]
  by (simp add: sample_delivery_def sample_channels_def send_def)

abbreviation sample_receipt :: receipt where
  "sample_receipt \<equiv> \<lparr>rc_provider = ''webhook'', rc_message_id = None\<rparr>"

abbreviation sample_refusal :: delivery_error where
  "sample_refusal \<equiv> \<lparr>er_code = ''timeout'', er_permanent = False, er_cancelled = False\<rparr>"

lemma late_read:
  "reachable timely \<lparr>ws_now = 0, ws_rows = [(''d'', sample_delivery\<lparr>dv_lease := Some 120\<rparr>)],
     ws_busy = [(1, sample_attempt 120 (Some (sample_delivery\<lparr>dv_lease := Some 120\<rparr>)))]\<rparr>"
  using reachable.step [OF sample_claimed dstep.row_read [of _ 1 "sample_attempt 120 None" timely "sample_delivery\<lparr>dv_lease := Some 120\<rparr>"]]
  by simp

lemma late_expired:
  "reachable timely \<lparr>ws_now = 121, ws_rows = [(''d'', sample_delivery\<lparr>dv_lease := Some 120\<rparr>)],
     ws_busy = [(1, sample_attempt 120 (Some (sample_delivery\<lparr>dv_lease := Some 120\<rparr>)))]\<rparr>"
  using reachable.step [OF late_read dstep.tick [of _ 121]] by simp

lemma late_claimed:
  "reachable timely \<lparr>ws_now = 121, ws_rows = [(''d'', sample_delivery\<lparr>dv_lease := Some 241\<rparr>)],
     ws_busy = [(2, sample_attempt 241 None), (1, sample_attempt 120 (Some (sample_delivery\<lparr>dv_lease := Some 120\<rparr>)))]\<rparr>"
  using reachable.step [OF late_expired dstep.claimed [of _ 2 "''d''" "sample_delivery\<lparr>dv_lease := Some 120\<rparr>" "sample_delivery\<lparr>dv_lease := Some 241\<rparr>"]]
  by (simp add: claim_def due_def update_row_def sample_delivery_def LEASE_SECONDS_def)

lemma late_second_read:
  "reachable timely \<lparr>ws_now = 121, ws_rows = [(''d'', sample_delivery\<lparr>dv_lease := Some 241\<rparr>)],
     ws_busy = [(2, sample_attempt 241 (Some (sample_delivery\<lparr>dv_lease := Some 241\<rparr>))),
       (1, sample_attempt 120 (Some (sample_delivery\<lparr>dv_lease := Some 120\<rparr>)))]\<rparr>"
  using reachable.step [OF late_claimed dstep.row_read [of _ 2 "sample_attempt 241 None" timely "sample_delivery\<lparr>dv_lease := Some 241\<rparr>"]]
  by simp

lemma late_sent:
  "reachable timely \<lparr>ws_now = 121,
     ws_rows = [(''d'', finish_attempt 121 sample_channels (sample_delivery\<lparr>dv_lease := Some 241\<rparr>) (Accepted sample_receipt)
        (sample_delivery\<lparr>dv_lease := Some 241\<rparr>))],
     ws_busy = [(1, sample_attempt 120 (Some (sample_delivery\<lparr>dv_lease := Some 120\<rparr>)))]\<rparr>"
  using reachable.step [OF late_second_read
      dstep.finished [of _ 2 _ timely "sample_delivery\<lparr>dv_lease := Some 241\<rparr>" sample_channels "Accepted sample_receipt"]]
  by (simp add: update_row_def)

lemma late_overwritten:
  "dstep False \<lparr>ws_now = 121, ws_rows = [(''d'', d)],
     ws_busy = [(1, sample_attempt 120 (Some (sample_delivery\<lparr>dv_lease := Some 120\<rparr>)))]\<rparr>
   \<lparr>ws_now = 121, ws_rows = [(''d'', finish_attempt 121 sample_channels (sample_delivery\<lparr>dv_lease := Some 120\<rparr>)
        (Refused sample_refusal) d)], ws_busy = []\<rparr>"
  using dstep.finished [of "\<lparr>ws_now = 121, ws_rows = [(''d'', d)],
     ws_busy = [(1, sample_attempt 120 (Some (sample_delivery\<lparr>dv_lease := Some 120\<rparr>)))]\<rparr>" 1 _ False
     "sample_delivery\<lparr>dv_lease := Some 120\<rparr>" sample_channels "Refused sample_refusal"]
  by (simp add: update_row_def)

text \<open>C40: the lease is not checked again when an attempt ends. A worker that outlives its lease writes over the row:
  a delivery another worker has sent can become pending again, with one attempt counted for the two that were
  made, and is then sent again.\<close>

theorem late_worker_reopens_sent:
  "\<exists>s s' d d'. reachable False s \<and> dstep False s s' \<and> map_of (ws_rows s) ''d'' = Some d \<and> dv_status d = DsSent
     \<and> map_of (ws_rows s') ''d'' = Some d' \<and> dv_status d' = DsPending \<and> dv_attempts d' = dv_attempts d"
proof (intro exI conjI)
  let ?d = "finish_attempt 121 sample_channels (sample_delivery\<lparr>dv_lease := Some 241\<rparr>) (Accepted sample_receipt)
        (sample_delivery\<lparr>dv_lease := Some 241\<rparr>)"
  let ?d' = "finish_attempt 121 sample_channels (sample_delivery\<lparr>dv_lease := Some 120\<rparr>) (Refused sample_refusal) ?d"
  note eval = finish_attempt_def mark_sent_def mark_failed_def send_def sample_channels_def sample_delivery_def
    failed_status_def next_delay_def retry_delay_def MAX_ATTEMPTS_def BACKOFF_SECONDS_def Let_def
  show "reachable False \<lparr>ws_now = 121, ws_rows = [(''d'', ?d)],
     ws_busy = [(1, sample_attempt 120 (Some (sample_delivery\<lparr>dv_lease := Some 120\<rparr>)))]\<rparr>" by (rule late_sent)
  show "dstep False \<lparr>ws_now = 121, ws_rows = [(''d'', ?d)],
     ws_busy = [(1, sample_attempt 120 (Some (sample_delivery\<lparr>dv_lease := Some 120\<rparr>)))]\<rparr>
     \<lparr>ws_now = 121, ws_rows = [(''d'', ?d')], ws_busy = []\<rparr>" by (rule late_overwritten)
  show "dv_status ?d = DsSent" "dv_status ?d' = DsPending" "dv_attempts ?d' = dv_attempts ?d" by (simp_all add: eval)
qed simp_all

end
