(* ===== verification/Sessions.thy ===== *)
theory Sessions
  imports Members
begin

text \<open>
  Dashboard sign-in and sessions (\<open>controlplane/identity.py\<close>): the OAuth state that binds a sign-in to the browser
  that began it, the sessions a completed sign-in creates, the principal a session token stands for, and the
  ways a session ends. The hash of tokens (SHA-256), the tokens themselves (\<open>secrets\<close>) and GitHub's answers are
  arguments. Every function that writes returns the tables beside its result, also when it raises.
\<close>

section \<open>Constants and tables\<close>

definition SESSION_LIFETIME :: int where "SESSION_LIFETIME = 8 * 3600"
definition SESSION_IDLE_TIMEOUT :: int where "SESSION_IDLE_TIMEOUT = 2 * 3600"
definition OAUTH_STATE_LIFETIME :: int where "OAUTH_STATE_LIFETIME = 600"
definition LAST_SEEN_RESOLUTION :: int where "LAST_SEEN_RESOLUTION = 60"
definition MAX_RETURN_PATH_CHARS :: nat where "MAX_RETURN_PATH_CHARS = 512"
definition MAX_REPOSITORIES_PER_INSTALLATION :: nat where "MAX_REPOSITORIES_PER_INSTALLATION = 10000"

record oauth_row =
  oa_verifier :: ustr
  oa_return_to :: ustr
  oa_expires_at :: int

datatype session_event =
    UserSignedIn int ustr int
  | UserSignedOut int ustr int
  | SessionRevoked int ustr int

record auth_db =
  au_db :: member_db
  au_states :: "(ustr \<times> oauth_row) list"
  au_audit :: "session_event list"

section \<open>The return path\<close>

text \<open>What \<open>urlsplit\<close> reads as scheme and network location of a text without spaces and control characters.\<close>

definition scheme_char :: "nat \<Rightarrow> bool" where
  "scheme_char c \<longleftrightarrow> ascii_alnum c \<or> c = 43 \<or> c = 45 \<or> c = 46"

definition url_scheme :: "ustr \<Rightarrow> ustr" where
  "url_scheme s =
     (case find_char 58 s of
        None \<Rightarrow> []
      | Some i \<Rightarrow> if 0 < i \<and> (ascii_upper (hd s) \<or> ascii_lower (hd s)) \<and> list_all scheme_char (take i s)
                  then map ascii_lower_cp (take i s) else [])"

definition url_netloc :: "ustr \<Rightarrow> ustr" where
  "url_netloc s =
     (let t = (if url_scheme s = [] then s else drop (Suc (length (url_scheme s))) s)
      in if startswith t [47, 47] then takeWhile (\<lambda>c. c \<noteq> 47 \<and> c \<noteq> 63 \<and> c \<noteq> 35) (drop 2 t) else [])"

definition safe_return_path :: "ustr option \<Rightarrow> ustr" where
  "safe_return_path path =
     (case path of
        None \<Rightarrow> asc ''/dashboard''
      | Some v \<Rightarrow>
          if v = [] \<or> MAX_RETURN_PATH_CHARS < length v then asc ''/dashboard''
          else if \<not> startswith v [47] \<or> startswith v [47, 47] \<or> 92 \<in> set v then asc ''/dashboard''
          else if list_ex (\<lambda>c. c < 0x21 \<or> c = 0x7F) v then asc ''/dashboard''
          else if url_scheme v \<noteq> [] \<or> url_netloc v \<noteq> [] \<or> startswith v (asc ''/api/'') then asc ''/dashboard''
          else v)"

section \<open>Sign-in\<close>

text \<open>\<open>begin_sign_in\<close>, with the state and the verifier it draws. The primary key refuses a state that is there already.\<close>

definition begin_sign_in ::
  "(ustr \<Rightarrow> ustr) \<Rightarrow> int \<Rightarrow> ustr \<Rightarrow> ustr \<Rightarrow> ustr option \<Rightarrow> auth_db \<Rightarrow> auth_db option" where
  "begin_sign_in hash now state verifier return_to db =
     (let kept = filter (\<lambda>(_, r). \<not> oa_expires_at r < now) (au_states db)
      in if map_of kept (hash state) \<noteq> None then None
         else Some (db\<lparr>au_states := kept @
           [(hash state, \<lparr>oa_verifier = verifier, oa_return_to = safe_return_path return_to,
                          oa_expires_at = now + OAUTH_STATE_LIFETIME\<rparr>)]\<rparr>))"

datatype github_failure = GhUnauthorized | GhFailed

record installation_info =
  ii_id :: int
  ii_account_id :: int
  ii_account_login :: ustr
  ii_account_type :: account_type
  ii_suspended :: bool

text \<open>GitHub's side: the code exchange, the user and their installations, and each installation's repositories.\<close>

record github_access =
  gh_exchange :: "ustr \<Rightarrow> ustr \<Rightarrow> github_failure + unit"
  gh_user :: "github_failure + int \<times> ustr"
  gh_installations :: "github_failure + installation_info list"
  gh_repositories :: "int \<Rightarrow> github_failure + int list"

fun sign_in_error :: "github_failure \<Rightarrow> cp_error" where
  "sign_in_error GhUnauthorized = SignInFailed"
| "sign_in_error GhFailed = UpstreamUnavailable"

definition get_installation :: "int \<Rightarrow> member_db \<Rightarrow> installation_row option" where
  "get_installation i db = find (\<lambda>r. in_id r = i) (md_installations db)"

definition remember_installation :: "int \<Rightarrow> installation_info \<Rightarrow> member_db \<Rightarrow> member_db" where
  "remember_installation now info db =
     db\<lparr>md_installations := md_installations db @
       [\<lparr>in_id = ii_id info, in_account_id = ii_account_id info, in_account_login = ii_account_login info,
         in_account_type = ii_account_type info,
         in_state = (if ii_suspended info then InSuspended else InActive), in_updated_at = now\<rparr>]\<rparr>"

text \<open>The loop of \<open>_github_access\<close>. What it has remembered stays when a later call fails.\<close>

fun github_loop ::
  "github_access \<Rightarrow> int \<Rightarrow> installation_info list \<Rightarrow> (int \<times> int list) list \<Rightarrow> member_db
     \<Rightarrow> (cp_error + (int \<times> int list) list) \<times> member_db" where
  "github_loop gh now [] access db = (Inr access, db)"
| "github_loop gh now (info # infos) access db =
     (let (skip, db') =
        (case get_installation (ii_id info) db of
           None \<Rightarrow> (False, remember_installation now info db)
         | Some r \<Rightarrow> (in_account_id r \<noteq> ii_account_id info \<or> in_state r = InDeleted, db))
      in if skip then github_loop gh now infos access db'
         else case gh_repositories gh (ii_id info) of
                Inl e \<Rightarrow> (Inl (sign_in_error e), db')
              | Inr ids \<Rightarrow>
                  github_loop gh now infos
                    (AList.update (ii_id info) (take MAX_REPOSITORIES_PER_INSTALLATION ids) access) db')"

definition github_access_of ::
  "github_access \<Rightarrow> int \<Rightarrow> member_db \<Rightarrow> (cp_error + (int \<times> ustr) \<times> (int \<times> int list) list) \<times> member_db" where
  "github_access_of gh now db =
     (case gh_user gh of
        Inl e \<Rightarrow> (Inl (sign_in_error e), db)
      | Inr user \<Rightarrow>
          (case gh_installations gh of
             Inl e \<Rightarrow> (Inl (sign_in_error e), db)
           | Inr infos \<Rightarrow>
               (case github_loop gh now infos [] db of
                  (Inl e, db') \<Rightarrow> (Inl e, db')
                | (Inr access, db') \<Rightarrow> (Inr (user, access), db'))))"

section \<open>The principal of a session\<close>

definition session_accounts :: "ustr \<Rightarrow> member_db \<Rightarrow> (int \<times> (ustr \<times> account_type)) list" where
  "session_accounts h db =
     dict_of (map (\<lambda>r. (in_account_id r, (in_account_login r, in_account_type r)))
       (filter (\<lambda>r. (h, in_id r) \<in> set (md_session_installations db) \<and> in_state r \<noteq> InDeleted) (md_installations db)))"

definition explicit_memberships :: "ustr \<Rightarrow> int \<Rightarrow> member_db \<Rightarrow> (int \<times> membership) list" where
  "explicit_memberships h user db =
     dict_of (List.map_filter
       (\<lambda>((a, u), m). if u \<noteq> user then None
          else map_option (\<lambda>(login, kind). (a, \<lparr>mb_account_login = login, mb_account_type = kind,
                                               mb_role = me_role m, mb_implicit = False\<rparr>))
                 (map_of (session_accounts h db) a))
       (md_memberships db))"

definition session_memberships :: "ustr \<Rightarrow> int \<Rightarrow> member_db \<Rightarrow> (int \<times> membership) list" where
  "session_memberships h user db =
     (case map_of (session_accounts h db) user of
        Some (login, AtUser) \<Rightarrow>
          AList.update user \<lparr>mb_account_login = login, mb_account_type = AtUser, mb_role = Owner, mb_implicit = True\<rparr>
            (explicit_memberships h user db)
      | _ \<Rightarrow> explicit_memberships h user db)"

definition session_installations :: "ustr \<Rightarrow> member_db \<Rightarrow> (int \<times> int) list" where
  "session_installations h db =
     dict_of (map (\<lambda>r. (in_id r, in_account_id r))
       (filter (\<lambda>r. (h, in_id r) \<in> set (md_session_installations db) \<and> in_state r \<noteq> InDeleted) (md_installations db)))"

definition principal_of :: "ustr \<Rightarrow> member_db \<Rightarrow> principal option" where
  "principal_of h db =
     (case map_of (md_sessions db) h of
        None \<Rightarrow> None
      | Some s \<Rightarrow>
          (case map_of (md_users db) (se_user_id s) of
             None \<Rightarrow> None
           | Some login \<Rightarrow>
               (let ms = session_memberships h (se_user_id s) db
                in Some \<lparr>pr_user_id = se_user_id s, pr_login = login, pr_session_hash = h,
                     pr_public_id = se_public_id s, pr_authenticated_at = se_authenticated_at s,
                     pr_expires_at = se_expires_at s, pr_memberships = ms,
                     pr_installations = filter (\<lambda>(_, a). a \<in> fst ` set ms) (session_installations h db)\<rparr>)))"

definition sign_events :: "(int \<Rightarrow> ustr \<Rightarrow> int \<Rightarrow> session_event) \<Rightarrow> ustr \<Rightarrow> principal \<Rightarrow> session_event list" where
  "sign_events mk public_id p = map (\<lambda>a. mk (pr_user_id p) public_id a) (map fst (pr_memberships p))"

section \<open>Completing a sign-in\<close>

definition write_session ::
  "ustr \<Rightarrow> ustr \<Rightarrow> int \<Rightarrow> ustr \<Rightarrow> int \<times> ustr \<Rightarrow> (int \<times> int list) list \<Rightarrow> member_db \<Rightarrow> member_db option" where
  "write_session h public_id now agent user access db =
     (if map_of (md_sessions db) h \<noteq> None \<or> public_id \<in> se_public_id ` snd ` set (md_sessions db) then None
      else Some (db\<lparr>
        md_users := AList.update (fst user) (snd user) (md_users db),
        md_sessions := md_sessions db @
          [(h, \<lparr>se_public_id = public_id, se_user_id = fst user, se_created_at = now, se_authenticated_at = now,
                se_last_seen_at = now, se_expires_at = now + SESSION_LIFETIME, se_user_agent = agent\<rparr>)],
        md_session_installations := md_session_installations db @ map (\<lambda>(i, _). (h, i)) access,
        md_session_repositories :=
          unique_first (md_session_repositories db @ concat (map (\<lambda>(i, rs). map (\<lambda>r. (h, i, r)) rs) access))\<rparr>))"

record sign_in_request =
  sr_code :: "ustr option"
  sr_state :: "ustr option"
  sr_cookie :: "ustr option"

definition request_complete :: "sign_in_request \<Rightarrow> bool" where
  "request_complete q \<longleftrightarrow> sr_code q \<notin> {None, Some []} \<and> sr_state q \<notin> {None, Some []} \<and> sr_cookie q \<notin> {None, Some []}
     \<and> length (the (sr_code q)) \<le> 512 \<and> length (the (sr_state q)) \<le> 128"

datatype sign_in_result =
    SignedIn ustr principal
  | Refused cp_error
  | StoreFailed

definition complete_sign_in ::
  "(ustr \<Rightarrow> ustr) \<Rightarrow> github_access \<Rightarrow> int \<Rightarrow> sign_in_request \<Rightarrow> ustr \<Rightarrow> ustr \<Rightarrow> ustr \<Rightarrow> auth_db \<Rightarrow> sign_in_result \<times> auth_db" where
  "complete_sign_in hash gh now q token public_id agent db =
     (if \<not> request_complete q then (Refused SignInFailed, db)
      else if sr_state q \<noteq> sr_cookie q then (Refused SignInFailed, db)
      else
        (let h = hash (the (sr_state q)); row = map_of (au_states db) h;
             db1 = db\<lparr>au_states := AList.delete h (au_states db)\<rparr>
         in case row of
           None \<Rightarrow> (Refused SignInFailed, db1)
         | Some r \<Rightarrow>
             if oa_expires_at r < now then (Refused SignInFailed, db1)
             else (case gh_exchange gh (the (sr_code q)) (oa_verifier r) of
               Inl e \<Rightarrow> (Refused (sign_in_error e), db1)
             | Inr _ \<Rightarrow>
                 (case github_access_of gh now (au_db db1) of
                    (Inl e, d) \<Rightarrow> (Refused e, db1\<lparr>au_db := d\<rparr>)
                  | (Inr (user, access), d) \<Rightarrow>
                      (case write_session (hash token) public_id now agent user access d of
                         None \<Rightarrow> (StoreFailed, db1\<lparr>au_db := d\<rparr>)
                       | Some d' \<Rightarrow>
                           (case principal_of (hash token) d' of
                              None \<Rightarrow> (Refused SignInFailed, db1\<lparr>au_db := d'\<rparr>)
                            | Some p \<Rightarrow>
                                (SignedIn (oa_return_to r) p,
                                 db1\<lparr>au_db := d', au_audit := au_audit db @ sign_events UserSignedIn public_id p\<rparr>)))))))"

section \<open>Using and ending sessions\<close>

definition touch_session :: "ustr \<Rightarrow> int \<Rightarrow> member_db \<Rightarrow> member_db" where
  "touch_session h now db =
     db\<lparr>md_sessions := map (\<lambda>(k, r). (k, if k = h then r\<lparr>se_last_seen_at := now\<rparr> else r)) (md_sessions db)\<rparr>"

definition authenticate ::
  "(ustr \<Rightarrow> ustr) \<Rightarrow> int \<Rightarrow> ustr option \<Rightarrow> auth_db \<Rightarrow> (cp_error + principal option) \<times> auth_db" where
  "authenticate hash now token db =
     (case token of
        None \<Rightarrow> (Inr None, db)
      | Some t \<Rightarrow>
          if t = [] \<or> 128 < length t \<or> \<not> isascii t then (Inr None, db)
          else (case map_of (md_sessions (au_db db)) (hash t) of
            None \<Rightarrow> (Inr None, db)
          | Some r \<Rightarrow>
              if se_expires_at r \<le> now \<or> se_last_seen_at r + SESSION_IDLE_TIMEOUT \<le> now
              then (Inl SessionExpired, db\<lparr>au_db := delete_sessions (\<lambda>h _. h = hash t) (au_db db)\<rparr>)
              else (let d = (if LAST_SEEN_RESOLUTION \<le> now - se_last_seen_at r
                             then touch_session (hash t) now (au_db db) else au_db db)
                    in (Inr (principal_of (hash t) d), db\<lparr>au_db := d\<rparr>))))"

definition sign_out :: "principal \<Rightarrow> auth_db \<Rightarrow> auth_db" where
  "sign_out p db =
     db\<lparr>au_db := delete_sessions (\<lambda>h _. h = pr_session_hash p) (au_db db),
        au_audit := au_audit db @ sign_events UserSignedOut (pr_public_id p) p\<rparr>"

definition valid_public_id :: "ustr \<Rightarrow> bool" where
  "valid_public_id s \<longleftrightarrow> s \<noteq> [] \<and> list_all ascii_alnum s \<and> length s \<le> 32"

definition revoke_session :: "principal \<Rightarrow> ustr \<Rightarrow> auth_db \<Rightarrow> cp_error + auth_db" where
  "revoke_session p public_id db =
     (if \<not> valid_public_id public_id then Inl (InvalidInput [])
      else let mine = (\<lambda>_ r. se_public_id r = public_id \<and> se_user_id r = pr_user_id p)
           in if length (filter (\<lambda>(h, r). mine h r) (md_sessions (au_db db))) \<noteq> 1 then Inl NotFound
              else Inr (db\<lparr>au_db := delete_sessions mine (au_db db),
                           au_audit := au_audit db @ sign_events SessionRevoked public_id p\<rparr>))"

definition purge_expired :: "int \<Rightarrow> auth_db \<Rightarrow> nat \<times> auth_db" where
  "purge_expired now db =
     (let gone = (\<lambda>_ r. se_expires_at r \<le> now \<or> se_last_seen_at r \<le> now - SESSION_IDLE_TIMEOUT)
      in (length (filter (\<lambda>(h, r). gone h r) (md_sessions (au_db db))),
          db\<lparr>au_db := delete_sessions gone (au_db db),
             au_states := filter (\<lambda>(_, r). \<not> oa_expires_at r < now) (au_states db)\<rparr>))"

text \<open>The CSRF token is a hash of the session token; the comparison is of the whole text.\<close>

definition verify_csrf :: "(ustr \<Rightarrow> ustr) \<Rightarrow> ustr option \<Rightarrow> ustr option \<Rightarrow> bool" where
  "verify_csrf csrf token header =
     (case (token, header) of
        (Some t, Some h) \<Rightarrow> t \<noteq> [] \<and> h \<noteq> [] \<and> length h \<le> 128 \<and> csrf t = h
      | _ \<Rightarrow> False)"

section \<open>Properties\<close>

lemma delete_sessions_simps [simp]:
  "md_installations (delete_sessions g db) = md_installations db"
  "md_memberships (delete_sessions g db) = md_memberships db"
  "md_users (delete_sessions g db) = md_users db"
  "md_sessions (delete_sessions g db) = filter (\<lambda>(h, r). \<not> g h r) (md_sessions db)"
  by (simp_all add: delete_sessions_def Let_def)

lemma touch_session_simps [simp]:
  "md_installations (touch_session h now db) = md_installations db"
  "md_memberships (touch_session h now db) = md_memberships db"
  "md_users (touch_session h now db) = md_users db"
  "md_session_installations (touch_session h now db) = md_session_installations db"
  by (simp_all add: touch_session_def)

lemma session_accounts_touch [simp]: "session_accounts h' (touch_session h now db) = session_accounts h' db"
  by (simp add: session_accounts_def)

lemma explicit_memberships_touch [simp]:
  "explicit_memberships h' u (touch_session h now db) = explicit_memberships h' u db"
  unfolding explicit_memberships_def session_accounts_touch touch_session_simps ..

lemma session_memberships_touch [simp]:
  "session_memberships h' u (touch_session h now db) = session_memberships h' u db"
  unfolding session_memberships_def session_accounts_touch explicit_memberships_touch ..

text \<open>Where a sign-in may send the browser. The path is on this origin: it starts with one slash, has no scheme, no
  host, no backslash, no space or control character, at most 512 characters, and is no API route.\<close>

theorem no_open_redirect:
  "startswith (safe_return_path v) [47] \<and> \<not> startswith (safe_return_path v) [47, 47] \<and> 92 \<notin> set (safe_return_path v)
   \<and> list_all (\<lambda>c. 0x21 \<le> c \<and> c \<noteq> 0x7F) (safe_return_path v) \<and> length (safe_return_path v) \<le> 512
   \<and> url_scheme (safe_return_path v) = [] \<and> url_netloc (safe_return_path v) = []
   \<and> \<not> startswith (safe_return_path v) (asc ''/api/'')"
proof -
  have dash: "asc ''/dashboard'' = [47, 100, 97, 115, 104, 98, 111, 97, 114, 100]" by (simp add: asc_def)
  have api: "asc ''/api/'' = [47, 97, 112, 105, 47]" by (simp add: asc_def)
  have "v = None \<or> safe_return_path v = asc ''/dashboard'' \<or>
     (\<exists>p. v = Some p \<and> safe_return_path v = p \<and> length p \<le> 512 \<and> startswith p [47] \<and> \<not> startswith p [47, 47] \<and> 92 \<notin> set p
       \<and> \<not> list_ex (\<lambda>c. c < 0x21 \<or> c = 0x7F) p \<and> url_scheme p = [] \<and> url_netloc p = [] \<and> \<not> startswith p (asc ''/api/''))"
    by (auto simp: safe_return_path_def MAX_RETURN_PATH_CHARS_def split: option.splits if_splits)
  moreover have "v = None \<Longrightarrow> safe_return_path v = asc ''/dashboard''" by (simp add: safe_return_path_def)
  moreover have "safe_return_path v = asc ''/dashboard'' \<Longrightarrow> ?thesis"
    by (simp add: dash api startswith_def url_scheme_def url_netloc_def)
  ultimately show ?thesis by (fastforce simp: list_all_iff list_ex_iff)
qed

lemma complete_sign_in_spec:
  assumes "complete_sign_in hash gh now q tok pid agent db = (SignedIn ret p, db')"
  shows "sr_cookie q = sr_state q \<and> request_complete q
    \<and> (\<exists>r. map_of (au_states db) (hash (the (sr_state q))) = Some r \<and> now \<le> oa_expires_at r \<and> ret = oa_return_to r)
    \<and> au_states db' = AList.delete (hash (the (sr_state q))) (au_states db)
    \<and> principal_of (hash tok) (au_db db') = Some p"
  using assms by (auto simp: complete_sign_in_def Let_def split: if_splits option.splits sum.splits prod.splits)

text \<open>A sign-in state is used once. A sign-in succeeds only for a state this server drew, that has not expired and
  that the browser's cookie repeats; afterwards every request with the same state is refused, whatever code,
  cookie and time it comes with.\<close>

theorem oauth_state_single_use:
  assumes "complete_sign_in hash gh now q tok pid agent db = (SignedIn ret p, db')" and "sr_state q' = sr_state q"
  shows "sr_cookie q = sr_state q
    \<and> (\<exists>r. map_of (au_states db) (hash (the (sr_state q))) = Some r \<and> now \<le> oa_expires_at r \<and> ret = oa_return_to r)
    \<and> fst (complete_sign_in hash gh' now' q' tok' pid' agent' db') = Refused SignInFailed"
proof -
  from complete_sign_in_spec [OF assms(1)] have "map_of (au_states db') (hash (the (sr_state q'))) = None"
    by (simp add: assms(2) delete_conv')
  then have "fst (complete_sign_in hash gh' now' q' tok' pid' agent' db') = Refused SignInFailed"
    by (cases "sr_state q' = sr_cookie q'") (simp_all add: complete_sign_in_def Let_def)
  then show ?thesis using complete_sign_in_spec [OF assms(1)] by simp
qed

section \<open>What a session may do\<close>

lemma session_accounts_Some:
  assumes "map_of (session_accounts h db) a = Some (login, kind)"
  shows "\<exists>i \<in> set (md_installations db). (h, in_id i) \<in> set (md_session_installations db) \<and> in_state i \<noteq> InDeleted
     \<and> in_account_id i = a \<and> in_account_type i = kind"
  using set_dict_of map_of_SomeD [OF assms] unfolding session_accounts_def by fastforce

lemma explicit_membership_Some:
  assumes "map_of (explicit_memberships h u db) a = Some m" and "keys_ok db"
  shows "role_of db a u = Some (mb_role m) \<and> map_of (session_accounts h db) a \<noteq> None"
proof -
  have "(a, m) \<in> set (List.map_filter (\<lambda>((a, v), m). if v \<noteq> u then None
          else map_option (\<lambda>(login, kind). (a, \<lparr>mb_account_login = login, mb_account_type = kind,
                                               mb_role = me_role m, mb_implicit = False\<rparr>))
                 (map_of (session_accounts h db) a)) (md_memberships db))"
    using set_dict_of map_of_SomeD [OF assms(1)] unfolding explicit_memberships_def by fast
  then obtain r where "((a, u), r) \<in> set (md_memberships db)" "mb_role m = me_role r"
      "map_of (session_accounts h db) a \<noteq> None"
    by (auto simp: List.map_filter_def split: if_splits)
  then show ?thesis using assms(2) by (simp add: role_of_def keys_ok_def)
qed

lemma session_membership_Some:
  assumes "map_of (session_memberships h u db) a = Some m" and "keys_ok db"
  shows "\<exists>i \<in> set (md_installations db). (h, in_id i) \<in> set (md_session_installations db) \<and> in_state i \<noteq> InDeleted
     \<and> in_account_id i = a \<and> (role_of db a u = Some (mb_role m) \<or> a = u \<and> in_account_type i = AtUser \<and> mb_role m = Owner)"
proof -
  have "map_of (explicit_memberships h u db) a = Some m
      \<or> (\<exists>login. map_of (session_accounts h db) a = Some (login, AtUser) \<and> a = u \<and> mb_role m = Owner)"
    using assms(1)
    by (auto simp: session_memberships_def map_of_update split: option.splits account_type.splits if_splits)
  then show ?thesis
  proof
    assume "map_of (explicit_memberships h u db) a = Some m"
    from explicit_membership_Some [OF this assms(2)] show ?thesis using session_accounts_Some by fastforce
  next
    assume "\<exists>login. map_of (session_accounts h db) a = Some (login, AtUser) \<and> a = u \<and> mb_role m = Owner"
    then show ?thesis using session_accounts_Some by fastforce
  qed
qed

lemma principal_of_Some:
  "principal_of h db = Some p \<Longrightarrow> pr_memberships p = session_memberships h (pr_user_id p) db
     \<and> (\<exists>r. map_of (md_sessions db) h = Some r \<and> pr_user_id p = se_user_id r
          \<and> pr_authenticated_at p = se_authenticated_at r \<and> pr_expires_at p = se_expires_at r)"
  by (auto simp: principal_of_def Let_def split: option.splits)

lemma map_of_map_if:
  "map_of (map (\<lambda>(k, r). (k, if k = h then f r else r)) xs) k = map_option (\<lambda>r. if k = h then f r else r) (map_of xs k)"
  by (induction xs) auto

lemma authenticate_Some:
  assumes "authenticate hash now (Some t) db = (Inr (Some p), db')"
  shows "\<exists>r. map_of (md_sessions (au_db db)) (hash t) = Some r \<and> now < se_expires_at r
     \<and> now < se_last_seen_at r + SESSION_IDLE_TIMEOUT \<and> pr_user_id p = se_user_id r
     \<and> pr_authenticated_at p = se_authenticated_at r"
    and "pr_memberships p = session_memberships (hash t) (pr_user_id p) (au_db db)"
proof -
  obtain r d where r: "map_of (md_sessions (au_db db)) (hash t) = Some r" "now < se_expires_at r"
      "now < se_last_seen_at r + SESSION_IDLE_TIMEOUT"
    and d: "d = au_db db \<or> d = touch_session (hash t) now (au_db db)" and p: "principal_of (hash t) d = Some p"
    using assms by (fastforce simp: authenticate_def Let_def split: if_splits option.splits)
  show "\<exists>r. map_of (md_sessions (au_db db)) (hash t) = Some r \<and> now < se_expires_at r
     \<and> now < se_last_seen_at r + SESSION_IDLE_TIMEOUT \<and> pr_user_id p = se_user_id r
     \<and> pr_authenticated_at p = se_authenticated_at r"
    using principal_of_Some [OF p] d r by (auto simp: touch_session_def map_of_map_if)
  have "session_memberships (hash t) u d = session_memberships (hash t) u (au_db db)" for u
    using d by auto
  then show "pr_memberships p = session_memberships (hash t) (pr_user_id p) (au_db db)"
    using principal_of_Some [OF p] by simp
qed

text \<open>C27: what a session may do. A token is accepted only while its session is neither expired nor idle; the user may
  then do in an account only what their current role there grants, and only when GitHub reported at sign-in an
  installation of that account that is not deleted. Without a role there is one exception: the owner of a
  personal account.\<close>

theorem session_authority:
  assumes "authenticate hash now (Some t) db = (Inr (Some p), db')" and "distinct (map fst (md_memberships (au_db db)))"
    and "can p perm a"
  shows "(\<exists>r. map_of (md_sessions (au_db db)) (hash t) = Some r \<and> now < se_expires_at r
        \<and> now < se_last_seen_at r + SESSION_IDLE_TIMEOUT \<and> pr_user_id p = se_user_id r)
    \<and> (\<exists>i \<in> set (md_installations (au_db db)). (hash t, in_id i) \<in> set (md_session_installations (au_db db))
        \<and> in_state i \<noteq> InDeleted \<and> in_account_id i = a
        \<and> ((\<exists>r. role_of (au_db db) a (pr_user_id p) = Some r \<and> perm \<in> set (role_permissions r))
            \<or> a = pr_user_id p \<and> in_account_type i = AtUser))"
proof -
  from assms(3) obtain m where m: "map_of (session_memberships (hash t) (pr_user_id p) (au_db db)) a = Some m"
    "perm \<in> set (role_permissions (mb_role m))"
    using authenticate_Some(2) [OF assms(1)] by (auto simp: can_iff)
  show ?thesis
    using session_membership_Some [OF m(1)] assms(2) m(2) authenticate_Some(1) [OF assms(1)]
    unfolding keys_ok_def by blast
qed

section \<open>Sessions end\<close>

datatype auth_op =
    BeginSignIn int ustr ustr "ustr option"
  | CompleteSignIn github_access int sign_in_request ustr ustr ustr
  | Authenticate int "ustr option"
  | SignOut principal
  | Revoke principal ustr
  | Purge int
  | Membership member_op

fun auth_step :: "(ustr \<Rightarrow> ustr) \<Rightarrow> auth_op \<Rightarrow> auth_db \<Rightarrow> auth_db" where
  "auth_step hash (BeginSignIn now st v r) db = (case begin_sign_in hash now st v r db of None \<Rightarrow> db | Some db' \<Rightarrow> db')"
| "auth_step hash (CompleteSignIn gh now q tok pid agent) db = snd (complete_sign_in hash gh now q tok pid agent db)"
| "auth_step hash (Authenticate now tok) db = snd (authenticate hash now tok db)"
| "auth_step hash (SignOut p) db = sign_out p db"
| "auth_step hash (Revoke p pid) db = (case revoke_session p pid db of Inl _ \<Rightarrow> db | Inr db' \<Rightarrow> db')"
| "auth_step hash (Purge now) db = snd (purge_expired now db)"
| "auth_step hash (Membership x) db = (case member_step x (au_db db) of Inl _ \<Rightarrow> db | Inr d \<Rightarrow> db\<lparr>au_db := d\<rparr>)"

definition auth_run :: "(ustr \<Rightarrow> ustr) \<Rightarrow> auth_op list \<Rightarrow> auth_db \<Rightarrow> auth_db" where
  "auth_run hash ops db = fold (auth_step hash) ops db"

text \<open>A session ends eight hours after the sign-in that created it: no use of it moves that time.\<close>

definition lifetimes_ok :: "member_db \<Rightarrow> bool" where
  "lifetimes_ok db \<longleftrightarrow> (\<forall>(h, r) \<in> set (md_sessions db). se_expires_at r = se_authenticated_at r + SESSION_LIFETIME)"

lemma lifetimes_subset: "set (md_sessions db') \<subseteq> set (md_sessions db) \<Longrightarrow> lifetimes_ok db \<Longrightarrow> lifetimes_ok db'"
  by (auto simp: lifetimes_ok_def)

lemma lifetimes_delete: "lifetimes_ok db \<Longrightarrow> lifetimes_ok (delete_sessions g db)"
  by (rule lifetimes_subset) auto

lemma github_loop_sessions: "md_sessions (snd (github_loop gh now infos access db)) = md_sessions db"
proof (induction infos arbitrary: access db)
  case (Cons info infos)
  have "md_sessions (remember_installation now info db) = md_sessions db" by (simp add: remember_installation_def)
  with Cons show ?case by (simp add: Let_def split: option.split sum.split)
qed simp

lemma github_access_sessions: "github_access_of gh now db = (x, d) \<Longrightarrow> md_sessions d = md_sessions db"
  by (auto simp: github_access_of_def split: sum.splits prod.splits)
    (metis github_loop_sessions snd_conv)+

lemma lifetimes_complete:
  assumes "lifetimes_ok (au_db db)"
  shows "lifetimes_ok (au_db (snd (complete_sign_in hash gh now q tok pid agent db)))"
proof -
  have w: "lifetimes_ok d'" if "write_session h pid now agent user access d = Some d'" "md_sessions d = md_sessions (au_db db)"
    for h user access d d'
    using that assms by (auto simp: write_session_def lifetimes_ok_def split: if_splits)
  have a: "lifetimes_ok d" if "md_sessions d = md_sessions (au_db db)" for d
    using that assms by (simp add: lifetimes_ok_def)
  show ?thesis
    using assms w a github_access_sessions [of gh now "au_db db"]
    by (auto simp: complete_sign_in_def Let_def split: option.splits sum.splits prod.splits)
qed

lemma member_step_sessions: "member_step x db = Inr d \<Longrightarrow> set (md_sessions d) \<subseteq> set (md_sessions db)"
  by (cases x) (auto simp: grant_role_def remove_member_def Let_def add_event_def write_role_def remember_user_def
      split: if_splits option.splits)

lemma lifetimes_step: "lifetimes_ok (au_db db) \<Longrightarrow> lifetimes_ok (au_db (auth_step hash x db))"
proof (cases x)
  case (BeginSignIn now st v r)
  then show "lifetimes_ok (au_db db) \<Longrightarrow> ?thesis" by (auto simp: begin_sign_in_def Let_def)
next
  case (CompleteSignIn gh now q tok pid agent)
  then show "lifetimes_ok (au_db db) \<Longrightarrow> ?thesis" using lifetimes_complete by simp
next
  case (Authenticate now tok)
  have "lifetimes_ok (au_db db) \<Longrightarrow> lifetimes_ok (touch_session h now (au_db db))" for h
    by (fastforce simp: lifetimes_ok_def touch_session_def)
  then show "lifetimes_ok (au_db db) \<Longrightarrow> ?thesis"
    using Authenticate lifetimes_delete by (auto simp: authenticate_def Let_def split: option.split)
next
  case (Membership y)
  then show "lifetimes_ok (au_db db) \<Longrightarrow> ?thesis"
    using member_step_sessions [of y "au_db db"] by (auto split: sum.split intro: lifetimes_subset)
qed (auto simp: sign_out_def revoke_session_def purge_expired_def Let_def intro: lifetimes_delete)

lemma lifetimes_run: "lifetimes_ok (au_db db) \<Longrightarrow> lifetimes_ok (au_db (auth_run hash ops db))"
  by (induction ops arbitrary: db) (auto simp: auth_run_def lifetimes_step)

text \<open>Sessions end. Starting from tables without sessions, after any sequence of sign-ins, requests, sign-outs,
  revocations, purges and membership changes, a token is accepted for less than eight hours after the sign-in
  that issued it, and not at all once its user has signed out with it.\<close>

theorem sessions_end:
  assumes "md_sessions (au_db db0) = []" and "authenticate hash now (Some t) (auth_run hash ops db0) = (Inr (Some p), db')"
  shows "now < pr_authenticated_at p + 28800 \<and> authenticate hash later (Some t) (sign_out p db') = (Inr None, sign_out p db')"
proof -
  have "lifetimes_ok (au_db (auth_run hash ops db0))"
    by (rule lifetimes_run) (simp add: lifetimes_ok_def assms(1))
  with authenticate_Some(1) [OF assms(2)] have "now < pr_authenticated_at p + 28800"
    by (auto simp: lifetimes_ok_def SESSION_LIFETIME_def dest!: map_of_SomeD)
  moreover have "pr_session_hash p = hash t"
    using assms(2) by (auto simp: authenticate_def principal_of_def Let_def split: if_splits option.splits)
  moreover have "map_of (filter (\<lambda>(h, r). h \<noteq> k) xs) k = None" for k :: ustr and xs :: "(ustr \<times> session_row) list"
    by (auto simp: map_of_eq_None_iff)
  ultimately show ?thesis
    by (auto simp: authenticate_def sign_out_def split: option.splits)
qed

section \<open>A sign-in\<close>

definition sample_github :: github_access where
  "sample_github = \<lparr>gh_exchange = (\<lambda>code verifier. Inr ()), gh_user = Inr (7, asc ''ann''),
     gh_installations = Inr [\<lparr>ii_id = 10, ii_account_id = 1, ii_account_login = asc ''org'',
       ii_account_type = AtOrganization, ii_suspended = False\<rparr>],
     gh_repositories = (\<lambda>i. Inr [100])\<rparr>"

definition sample_request :: sign_in_request where
  "sample_request = \<lparr>sr_code = Some [99], sr_state = Some [115], sr_cookie = Some [115]\<rparr>"

definition empty_auth :: auth_db where
  "empty_auth = \<lparr>au_db = sample_members, au_states = [], au_audit = []\<rparr>"

abbreviation plain_hash :: "ustr \<Rightarrow> ustr" where
  "plain_hash t \<equiv> 0 # t"

definition begun :: auth_db where
  "begun = empty_auth\<lparr>au_states := [([0, 115], \<lparr>oa_verifier = [118], oa_return_to = asc ''/dashboard'', oa_expires_at = 600\<rparr>)]\<rparr>"

definition ann :: principal where
  "ann = \<lparr>pr_user_id = 7, pr_login = asc ''ann'', pr_session_hash = [0, 116], pr_public_id = [112],
     pr_authenticated_at = 5, pr_expires_at = 28805,
     pr_memberships = [(1, \<lparr>mb_account_login = asc ''org'', mb_account_type = AtOrganization, mb_role = Owner, mb_implicit = False\<rparr>)],
     pr_installations = [(10, 1)]\<rparr>"

definition signed_in :: auth_db where
  "signed_in = empty_auth\<lparr>
     au_db := sample_members\<lparr>md_users := [(7, asc ''ann'')],
       md_sessions := [([0, 116], \<lparr>se_public_id = [112], se_user_id = 7, se_created_at = 5, se_authenticated_at = 5,
          se_last_seen_at = 5, se_expires_at = 28805, se_user_agent = []\<rparr>)],
       md_session_installations := [([0, 116], 10)], md_session_repositories := [([0, 116], 10, 100)]\<rparr>,
     au_audit := [UserSignedIn 7 [112] 1]\<rparr>"

lemmas sign_in_eval = sample_members_def empty_auth_def Let_def dict_of_def List.map_filter_def
  principal_of_def session_memberships_def explicit_memberships_def session_accounts_def session_installations_def

lemma begin_runs: "begin_sign_in plain_hash 0 [115] [118] None empty_auth = Some begun"
  by (simp add: begin_sign_in_def begun_def empty_auth_def Let_def OAUTH_STATE_LIFETIME_def safe_return_path_def)

lemma ann_principal: "principal_of [0, 116] (au_db signed_in) = Some ann"
  by (simp add: signed_in_def ann_def sign_in_eval)

lemma sign_in_runs:
  "complete_sign_in plain_hash sample_github 5 sample_request [116] [112] [] begun
     = (SignedIn (asc ''/dashboard'') ann, signed_in)"
proof -
  have access: "github_access_of sample_github 5 (au_db begun) = (Inr ((7, asc ''ann''), [(10, [100])]), au_db begun)"
    by (simp add: github_access_of_def sample_github_def begun_def empty_auth_def sample_members_def get_installation_def
        MAX_REPOSITORIES_PER_INSTALLATION_def)
  have session: "write_session [0, 116] [112] 5 [] (7, asc ''ann'') [(10, [100])] (au_db begun) = Some (au_db signed_in)"
    by (simp add: write_session_def begun_def signed_in_def empty_auth_def sample_members_def SESSION_LIFETIME_def unique_first_def)
  show ?thesis
    using access session ann_principal
    by (simp add: complete_sign_in_def sample_request_def request_complete_def begun_def [of] sample_github_def [of]
        sign_events_def ann_def signed_in_def empty_auth_def Let_def)
qed

lemma ann_authenticates: "authenticate plain_hash 10 (Some [116]) signed_in = (Inr (Some ann), signed_in)"
  using ann_principal
  by (simp add: authenticate_def signed_in_def sample_members_def empty_auth_def SESSION_IDLE_TIMEOUT_def isascii_def
      is_ascii_cp_def LAST_SEEN_RESOLUTION_def Let_def)

lemma oauth_state_single_use_witness:
  "fst (complete_sign_in plain_hash sample_github 6 sample_request [117] [113] [] signed_in) = Refused SignInFailed"
  using oauth_state_single_use [OF sign_in_runs refl] by simp

lemma session_authority_witness:
  "\<exists>i \<in> set (md_installations (au_db signed_in)). in_account_id i = 1 \<and> in_state i \<noteq> InDeleted"
  using session_authority [OF ann_authenticates, of PoliciesWrite 1]
  by (auto simp: signed_in_def empty_auth_def sample_members_def ann_def can_iff permission_defs)

lemma sessions_end_witness:
  "authenticate plain_hash 20 (Some [116]) (sign_out ann signed_in) = (Inr None, sign_out ann signed_in)"
proof -
  have "signed_in = auth_run plain_hash [BeginSignIn 0 [115] [118] None, CompleteSignIn sample_github 5 sample_request [116] [112] []] empty_auth"
    by (simp add: auth_run_def begin_runs sign_in_runs)
  from ann_authenticates [unfolded this] show ?thesis
    using sessions_end [of empty_auth plain_hash 10 "[116]"]
    by (metis \<open>signed_in = _\<close> empty_auth_def sample_members_def auth_db.select_convs(1) member_db.select_convs(4))
qed

end
